(* ===== verification/Prelude.thy ===== *)
theory Prelude
  imports Complex_Main
begin

text \<open>
  The vocabulary the components share.  Lua values are a datatype whose reference
  constructors carry an address (identity is equality of addresses, as \<open>lua_rawequal\<close>
  has it).  C code that may leave by a Lua error (\<open>lua_error\<close>, a longjmp to the nearest
  \<open>lua_pcall\<close>) or by a PostgreSQL error (\<open>ereport(ERROR)\<close>, a longjmp to the nearest
  \<open>PG_CATCH\<close>) is a function from a state to an outcome and a new state; the two kinds of
  exit are different constructors, because keeping them apart is the main protocol of the
  program.
\<close>

subsection \<open>Automation\<close>

named_theorems mdefs \<open>definitions of the monad's operations\<close>

subsection \<open>Lua values\<close>

text \<open>
  A Lua float is a rational that a double can hold, an infinity or a NaN.  Arithmetic on
  doubles is written out where a component uses it.
\<close>

datatype fnum = Fin rat | PosInf | NegInf | NaN

datatype lval =
    LNil
  | LBool bool
  | LInt int
  | LFlt fnum
  | LStr string
  | LTab nat
  | LErrObj nat
  | LUdata nat
  | LFun nat
  | LThread nat
  | LLight nat

fun lua_toboolean :: "lval \<Rightarrow> bool" where
  "lua_toboolean LNil = False"
| "lua_toboolean (LBool b) = b"
| "lua_toboolean _ = True"

subsection \<open>PostgreSQL's error data\<close>

text \<open>The severity levels in PostgreSQL's order.\<close>

datatype elevel =
    DEBUG5 | DEBUG4 | DEBUG3 | DEBUG2 | DEBUG1 | LOG | LOG_SERVER_ONLY | INFO
  | NOTICE | WARNING | ERROR | FATAL | PANIC

primrec elevel_rank :: "elevel \<Rightarrow> nat" where
  "elevel_rank DEBUG5 = 10"
| "elevel_rank DEBUG4 = 11"
| "elevel_rank DEBUG3 = 12"
| "elevel_rank DEBUG2 = 13"
| "elevel_rank DEBUG1 = 14"
| "elevel_rank LOG = 15"
| "elevel_rank LOG_SERVER_ONLY = 16"
| "elevel_rank INFO = 17"
| "elevel_rank NOTICE = 18"
| "elevel_rank WARNING = 19"
| "elevel_rank ERROR = 20"
| "elevel_rank FATAL = 21"
| "elevel_rank PANIC = 22"

lemma elevel_rank_inj [simp]: "elevel_rank a = elevel_rank b \<longleftrightarrow> a = b"
  by (cases a; cases b) simp_all

instantiation elevel :: linorder
begin
definition less_eq_elevel :: "elevel \<Rightarrow> elevel \<Rightarrow> bool" where
  "less_eq_elevel a b \<longleftrightarrow> elevel_rank a \<le> elevel_rank b"
definition less_elevel :: "elevel \<Rightarrow> elevel \<Rightarrow> bool" where
  "less_elevel a b \<longleftrightarrow> elevel_rank a < elevel_rank b"
instance
  by standard (auto simp: less_eq_elevel_def less_elevel_def)
end

record errdata =
  elevel :: elevel
  sqlerrcode :: int
  message :: "string option"
  message_id :: "string option"
  detail :: "string option"
  hint :: "string option"
  err_context :: "string option"
  schema_name :: "string option"
  table_name :: "string option"
  column_name :: "string option"
  datatype_name :: "string option"
  constraint_name :: "string option"
  filename :: "string option"
  funcname :: "string option"
  lineno :: int
  cursorpos :: int
  internalpos :: int
  internalquery :: "string option"

definition blank_errdata :: errdata where
  "blank_errdata =
     \<lparr>elevel = ERROR, sqlerrcode = 0, message = None, message_id = None, detail = None,
      hint = None, err_context = None, schema_name = None, table_name = None,
      column_name = None, datatype_name = None, constraint_name = None, filename = None,
      funcname = None, lineno = 0, cursorpos = 0, internalpos = 0, internalquery = None\<rparr>"

text \<open>What \<open>elog(ERROR, msg)\<close> raises, as far as the model looks at it.\<close>

definition pg_elog :: "string \<Rightarrow> errdata" where
  "pg_elog m = blank_errdata\<lparr>message := Some m\<rparr>"

lemma message_pg_elog [simp]: "message (pg_elog m) = Some m"
  by (simp add: pg_elog_def)

subsection \<open>Outcomes and the state monad\<close>

datatype lua_status = LUA_ERRRUN | LUA_ERRMEM | LUA_ERRERR

datatype 'a outcome =
    Ret 'a
  | LuaThrow lua_status lval
  | PgThrow errdata
  | PgPanic string

type_synonym ('s, 'a) m = "'s \<Rightarrow> 'a outcome \<times> 's"

definition ret :: "'a \<Rightarrow> ('s, 'a) m" where
  [mdefs]: "ret a s = (Ret a, s)"

definition lua_error :: "lval \<Rightarrow> ('s, 'a) m" where
  [mdefs]: "lua_error v s = (LuaThrow LUA_ERRRUN v, s)"

definition luaL_error :: "string \<Rightarrow> ('s, 'a) m" where
  [mdefs]: "luaL_error msg = lua_error (LStr msg)"

definition pg_throw :: "errdata \<Rightarrow> ('s, 'a) m" where
  [mdefs]: "pg_throw e s = (PgThrow e, s)"

definition gets :: "('s \<Rightarrow> 'a) \<Rightarrow> ('s, 'a) m" where
  [mdefs]: "gets f s = (Ret (f s), s)"

definition modify :: "('s \<Rightarrow> 's) \<Rightarrow> ('s, unit) m" where
  [mdefs]: "modify f s = (Ret (), f s)"

definition bindm :: "('s, 'a) m \<Rightarrow> ('a \<Rightarrow> ('s, 'b) m) \<Rightarrow> ('s, 'b) m" where
  [mdefs]: "bindm m f s =
     (case m s of
        (Ret a, s') \<Rightarrow> f a s'
      | (LuaThrow rc v, s') \<Rightarrow> (LuaThrow rc v, s')
      | (PgThrow e, s') \<Rightarrow> (PgThrow e, s')
      | (PgPanic msg, s') \<Rightarrow> (PgPanic msg, s'))"

definition thenm :: "('s, 'a) m \<Rightarrow> ('s, 'b) m \<Rightarrow> ('s, 'b) m" where
  [mdefs]: "thenm m n = bindm m (\<lambda>_. n)"

definition whenm :: "bool \<Rightarrow> ('s, unit) m \<Rightarrow> ('s, unit) m" where
  [mdefs]: "whenm b m = (if b then m else ret ())"

lemma bindm_ret [simp]: "bindm (ret a) f = f a"
  by (simp add: fun_eq_iff mdefs)

lemma bindm_assoc: "bindm (bindm m f) g = bindm m (\<lambda>a. bindm (f a) g)"
  by (auto simp: fun_eq_iff bindm_def split: prod.splits outcome.splits)

subsection \<open>Weakest preconditions\<close>

text \<open>
  \<open>wp m N E P s\<close>: started in \<open>s\<close>, a normal return satisfies \<open>N\<close>, a Lua error \<open>E\<close> and a
  PostgreSQL error \<open>P\<close>.  A PANIC ends the server and promises nothing.
\<close>

definition wp ::
  "('s, 'a) m \<Rightarrow> ('a \<Rightarrow> 's \<Rightarrow> bool) \<Rightarrow> (lua_status \<Rightarrow> lval \<Rightarrow> 's \<Rightarrow> bool) \<Rightarrow>
   (errdata \<Rightarrow> 's \<Rightarrow> bool) \<Rightarrow> 's \<Rightarrow> bool"
where
  "wp m N E P s =
     (case m s of
        (Ret a, s') \<Rightarrow> N a s'
      | (LuaThrow rc v, s') \<Rightarrow> E rc v s'
      | (PgThrow e, s') \<Rightarrow> P e s'
      | (PgPanic msg, s') \<Rightarrow> True)"

lemma wp_ret [simp]: "wp (ret a) N E P = N a"
  by (simp add: wp_def mdefs fun_eq_iff)

lemma wp_lua_error [simp]: "wp (lua_error v) N E P = E LUA_ERRRUN v"
  by (simp add: wp_def mdefs fun_eq_iff)

lemma wp_luaL_error [simp]: "wp (luaL_error msg) N E P = E LUA_ERRRUN (LStr msg)"
  by (simp add: wp_def mdefs fun_eq_iff)

lemma wp_pg_throw [simp]: "wp (pg_throw e) N E P = P e"
  by (simp add: wp_def mdefs fun_eq_iff)

lemma wp_gets [simp]: "wp (gets f) N E P = (\<lambda>s. N (f s) s)"
  by (simp add: wp_def mdefs fun_eq_iff)

lemma wp_modify [simp]: "wp (modify g) N E P = (\<lambda>s. N () (g s))"
  by (simp add: wp_def mdefs fun_eq_iff)

lemma wp_bindm [simp]: "wp (bindm m f) N E P = wp m (\<lambda>a. wp (f a) N E P) E P"
  by (auto simp: wp_def bindm_def fun_eq_iff split: prod.splits outcome.splits)

lemma wp_if [simp]: "wp (if b then m else n) N E P s = (if b then wp m N E P s else wp n N E P s)"
  by simp

lemma wp_if_fun [simp]:
  "wp (\<lambda>s. if b s then m s else n s) N E P s = (if b s then wp m N E P s else wp n N E P s)"
  by (simp add: wp_def)

lemma wp_option_fun [simp]:
  "wp (\<lambda>s. case x s of None \<Rightarrow> m s | Some a \<Rightarrow> n a s) N E P s =
     (case x s of None \<Rightarrow> wp m N E P s | Some a \<Rightarrow> wp (n a) N E P s)"
  by (simp add: wp_def split: option.splits)

lemma wp_retfun [simp]: "wp (\<lambda>s. (Ret (a s), g s)) N E P s = N (a s) (g s)"
  by (simp add: wp_def)

lemma wp_mono:
  assumes "wp m N E P s"
    and "\<And>a s'. N a s' \<Longrightarrow> N' a s'"
    and "\<And>rc v s'. E rc v s' \<Longrightarrow> E' rc v s'"
    and "\<And>e s'. P e s' \<Longrightarrow> P' e s'"
  shows "wp m N' E' P' s"
  using assms by (auto simp: wp_def split: prod.splits outcome.splits)

text \<open>
  \<open>wpt\<close> is the same with a PANIC excluded; components whose model gives a PANIC to a use of
  freed memory are proved with it.
\<close>

definition wpt ::
  "('s, 'a) m \<Rightarrow> ('a \<Rightarrow> 's \<Rightarrow> bool) \<Rightarrow> (lua_status \<Rightarrow> lval \<Rightarrow> 's \<Rightarrow> bool) \<Rightarrow>
   (errdata \<Rightarrow> 's \<Rightarrow> bool) \<Rightarrow> 's \<Rightarrow> bool"
where
  "wpt m N E P s =
     (case m s of
        (Ret a, s') \<Rightarrow> N a s'
      | (LuaThrow rc v, s') \<Rightarrow> E rc v s'
      | (PgThrow e, s') \<Rightarrow> P e s'
      | (PgPanic msg, s') \<Rightarrow> False)"

lemma wpt_ret [simp]: "wpt (ret a) N E P = N a"
  by (simp add: wpt_def mdefs fun_eq_iff)

lemma wpt_lua_error [simp]: "wpt (lua_error v) N E P = E LUA_ERRRUN v"
  by (simp add: wpt_def mdefs fun_eq_iff)

lemma wpt_luaL_error [simp]: "wpt (luaL_error msg) N E P = E LUA_ERRRUN (LStr msg)"
  by (simp add: wpt_def mdefs fun_eq_iff)

lemma wpt_pg_throw [simp]: "wpt (pg_throw e) N E P = P e"
  by (simp add: wpt_def mdefs fun_eq_iff)

lemma wpt_gets [simp]: "wpt (gets f) N E P = (\<lambda>s. N (f s) s)"
  by (simp add: wpt_def mdefs fun_eq_iff)

lemma wpt_modify [simp]: "wpt (modify g) N E P = (\<lambda>s. N () (g s))"
  by (simp add: wpt_def mdefs fun_eq_iff)

lemma wpt_bindm [simp]: "wpt (bindm m f) N E P = wpt m (\<lambda>a. wpt (f a) N E P) E P"
  by (auto simp: wpt_def bindm_def fun_eq_iff split: prod.splits outcome.splits)

lemma wpt_mono:
  assumes "wpt m N E P s"
    and "\<And>a s'. N a s' \<Longrightarrow> N' a s'"
    and "\<And>rc v s'. E rc v s' \<Longrightarrow> E' rc v s'"
    and "\<And>e s'. P e s' \<Longrightarrow> P' e s'"
  shows "wpt m N' E' P' s"
  using assms by (auto simp: wpt_def split: prod.splits outcome.splits)

lemma wpt_conj:
  "wpt m N E P s \<Longrightarrow> wpt m N' E' P' s \<Longrightarrow>
   wpt m (\<lambda>a s. N a s \<and> N' a s) (\<lambda>rc v s. E rc v s \<and> E' rc v s) (\<lambda>e s. P e s \<and> P' e s) s"
  by (auto simp: wpt_def split: prod.splits outcome.splits)

subsection \<open>Fallible functions without state\<close>

text \<open>
  Operations that keep no state of their own are functions into a sum: \<open>Inl\<close> is the
  error they leave with.
\<close>

datatype exn =
    LuaExn string
  | PgExn string

definition bindR :: "'e + 'a \<Rightarrow> ('a \<Rightarrow> 'e + 'b) \<Rightarrow> 'e + 'b" where
  "bindR r f = (case r of Inl e \<Rightarrow> Inl e | Inr a \<Rightarrow> f a)"

lemma bindR_simps [simp]:
  "bindR (Inl e) f = Inl e"
  "bindR (Inr a) f = f a"
  by (simp_all add: bindR_def)

lemma bindR_assoc: "bindR (bindR m f) g = bindR m (\<lambda>a. bindR (f a) g)"
  by (cases m) simp_all

lemma bindR_right [simp]: "bindR m Inr = m"
  by (cases m) simp_all

lemma bindR_cong: "m = m' \<Longrightarrow> (\<And>a. m' = Inr a \<Longrightarrow> f a = g a) \<Longrightarrow> bindR m f = bindR m' g"
  by (cases m') simp_all

lemma bindR_eq_Inr: "bindR r f = Inr b \<longleftrightarrow> (\<exists>a. r = Inr a \<and> f a = Inr b)"
  by (cases r) simp_all

lemma bindR_eq_Inl: "bindR r f = Inl e \<longleftrightarrow> r = Inl e \<or> (\<exists>a. r = Inr a \<and> f a = Inl e)"
  by (cases r) simp_all

subsection \<open>C integers\<close>

text \<open>Conversion of a mathematical integer to a signed C integer, as gcc does it.\<close>

definition c_int :: "int \<Rightarrow> int" where
  "c_int x = (x + 2 ^ 31) mod 2 ^ 32 - 2 ^ 31"

definition c_int64 :: "int \<Rightarrow> int" where
  "c_int64 x = (x + 2 ^ 63) mod 2 ^ 64 - 2 ^ 63"

lemma c_int_range: "- (2 ^ 31) \<le> c_int x" "c_int x < 2 ^ 31"
  by (simp_all add: c_int_def)

lemma c_int_id: "- (2 ^ 31) \<le> x \<Longrightarrow> x < 2 ^ 31 \<Longrightarrow> c_int x = x"
  by (simp add: c_int_def)

lemma c_int64_range: "- (2 ^ 63) \<le> c_int64 x" "c_int64 x < 2 ^ 63"
  by (simp_all add: c_int64_def)

lemma c_int64_id: "- (2 ^ 63) \<le> x \<Longrightarrow> x < 2 ^ 63 \<Longrightarrow> c_int64 x = x"
  by (simp add: c_int64_def)

text \<open>C's truncating division and its remainder.\<close>

definition c_div :: "int \<Rightarrow> int \<Rightarrow> int" where
  "c_div a b = sgn a * sgn b * (\<bar>a\<bar> div \<bar>b\<bar>)"

definition c_mod :: "int \<Rightarrow> int \<Rightarrow> int" where
  "c_mod a b = a - c_div a b * b"

end
