(* ===== verification/Interp.thy ===== *)
theory Interp
  imports Prelude
begin

text \<open>
  Interpreters, src/src/init.c: one Lua state for all untrusted code and one for the trusted code of
  each user, made in two phases; states of the first phase are held ready by the postmaster.  The
  initialization code of a new interpreter may call functions of the language again.
\<close>

subsection \<open>State\<close>

text \<open>An interpreter: is its Lua state open, its memory context there, whose is it, and what does Lua code see.\<close>

record interp =
  i_open :: bool
  i_mcxt :: bool
  user_id :: nat
  i_phase2 :: bool
  i_trusted :: bool
  db_ready :: bool
  i_ident :: string
  i_ident_new :: "string option"

record hashent =
  h_interp :: "nat option"
  h_trusted :: bool
  new_ident :: bool

text \<open>
  The user id of a table entry is 0 for untrusted code.  \<open>bad\<close>: a closed state was used, or one was
  closed or its memory freed twice.
\<close>

record ist =
  interps :: "nat \<Rightarrow> interp"
  inext :: nat
  interp_hash :: "nat \<Rightarrow> hashent option"
  held_states :: "nat list"
  pllua_ending :: bool
  callbacks_set :: bool
  on_init :: "string option"
  reload_ident :: "string option"
  num_held :: nat
  IsUnderPostmaster :: bool
  bad :: bool

definition upd_i :: "nat \<Rightarrow> (interp \<Rightarrow> interp) \<Rightarrow> ist \<Rightarrow> ist" where
  "upd_i i f s = s\<lparr>interps := (interps s)(i := f (interps s i)), bad := bad s \<or> \<not> i_open (interps s i)\<rparr>"

definition upd_h :: "nat \<Rightarrow> (hashent \<Rightarrow> hashent) \<Rightarrow> ist \<Rightarrow> ist" where
  "upd_h k f s = s\<lparr>interp_hash := (interp_hash s)(k := map_option f (interp_hash s k))\<rparr>"

text \<open>\<open>lua_close\<close>, then \<open>MemoryContextDelete\<close>.\<close>

definition lua_close :: "nat \<Rightarrow> ist \<Rightarrow> ist" where
  "lua_close i = upd_i i (\<lambda>t. t\<lparr>i_open := False\<rparr>)"

definition delete_mcxt :: "nat \<Rightarrow> ist \<Rightarrow> ist" where
  "delete_mcxt i s = s\<lparr>interps := (interps s)(i := (interps s i)\<lparr>i_mcxt := False\<rparr>), bad := bad s \<or> \<not> i_mcxt (interps s i)\<rparr>"

subsection \<open>Making and destroying states\<close>

text \<open>The first phase; it fails, with nothing left, if the code in \<open>on_init\<close> does.\<close>

definition ident_text :: "string option \<Rightarrow> string" where
  "ident_text ident = (case ident of None \<Rightarrow> [] | Some t \<Rightarrow> t)"

definition pllua_newstate_phase1 :: "bool \<Rightarrow> string option \<Rightarrow> ist \<Rightarrow> nat option \<times> ist" where
  "pllua_newstate_phase1 ok ident s =
     (let i = inext s;
          s1 = s\<lparr>interps := (interps s)(i := \<lparr>i_open = True, i_mcxt = True, user_id = 0, i_phase2 = False, i_trusted = False,
                   db_ready = False, i_ident = ident_text ident, i_ident_new = None\<rparr>), inext := Suc i\<rparr> in
      if ok then (Some i, s1) else (None, delete_mcxt i (lua_close i s1)))"

text \<open>Up to the number that is set, or the first failure; the list says which ones succeed.\<close>

fun create_held :: "nat \<Rightarrow> bool list \<Rightarrow> string option \<Rightarrow> ist \<Rightarrow> ist" where
  "create_held 0 oks ident s = s"
| "create_held (Suc n) oks ident s =
     (case pllua_newstate_phase1 (case oks of [] \<Rightarrow> True | ok # _ \<Rightarrow> ok) ident s of
        (None, s1) \<Rightarrow> s1
      | (Some i, s1) \<Rightarrow> create_held n (tl oks) ident (s1\<lparr>held_states := i # held_states s1\<rparr>))"

definition pllua_create_held_states :: "bool list \<Rightarrow> string option \<Rightarrow> ist \<Rightarrow> ist" where
  "pllua_create_held_states oks ident s = create_held (num_held s) oks ident s"

definition pllua_destroy_held_states :: "ist \<Rightarrow> ist" where
  "pllua_destroy_held_states s =
     fold (\<lambda>i s. delete_mcxt i (lua_close i (s\<lparr>held_states := tl (held_states s)\<rparr>))) (held_states s) s"

subsection \<open>Settings\<close>

definition pllua_assign_on_init :: "bool list \<Rightarrow> string option \<Rightarrow> ist \<Rightarrow> ist" where
  "pllua_assign_on_init oks newval s =
     (if newval = on_init s then s
      else if ident_text (reload_ident s) \<noteq> [] \<or> IsUnderPostmaster s then
        let s1 = pllua_destroy_held_states s in
        if \<not> IsUnderPostmaster s then pllua_create_held_states oks (reload_ident s) (s1\<lparr>on_init := newval\<rparr>) else s1
      else s)"

definition pllua_assign_reload_ident :: "bool list \<Rightarrow> string option \<Rightarrow> ist \<Rightarrow> ist" where
  "pllua_assign_reload_ident oks newval s =
     (if newval = reload_ident s \<or> ident_text newval = [] then s
      else
        let s1 = pllua_destroy_held_states s in
        if \<not> IsUnderPostmaster s then pllua_create_held_states oks newval s1
        else s1\<lparr>interp_hash := (\<lambda>k. map_option (\<lambda>e. e\<lparr>new_ident := True\<rparr>) (interp_hash s1 k))\<rparr>)"

text \<open>The setting itself is changed by the caller of the hook.\<close>

definition set_on_init :: "bool list \<Rightarrow> string option \<Rightarrow> ist \<Rightarrow> ist" where
  "set_on_init oks newval s = (pllua_assign_on_init oks newval s)\<lparr>on_init := newval\<rparr>"

definition set_reload_ident :: "bool list \<Rightarrow> string option \<Rightarrow> ist \<Rightarrow> ist" where
  "set_reload_ident oks newval s = (pllua_assign_reload_ident oks newval s)\<lparr>reload_ident := newval\<rparr>"

definition pllua_set_new_ident :: "nat \<Rightarrow> nat \<Rightarrow> ist \<Rightarrow> ist" where
  "pllua_set_new_ident k i s =
     upd_h k (\<lambda>e. e\<lparr>new_ident := False\<rparr>) (upd_i i (\<lambda>t. t\<lparr>i_ident_new := Some (ident_text (reload_ident s))\<rparr>) s)"

subsection \<open>The interpreter of a call\<close>

text \<open>
  What happens in a session.  A call has the outcome of each step that may fail: the first phase,
  the second phase, the initialization strings after they ran the nested events, and telling an
  interpreter of a new identification.
\<close>

datatype ev =
    Call bool nat bool bool "ev list" bool bool
  | SetOnInit "bool list" "string option"
  | SetIdent "bool list" "string option"

definition entry_interp :: "ist \<Rightarrow> nat \<Rightarrow> nat option" where
  "entry_interp s k = (case interp_hash s k of None \<Rightarrow> None | Some e \<Rightarrow> h_interp e)"

definition call_key :: "bool \<Rightarrow> nat \<Rightarrow> nat" where
  "call_key trusted uid = (if trusted then uid else 0)"

text \<open>Everything of the second phase that comes before user code, and what is done if anything fails.\<close>

definition phase2_setup :: "nat \<Rightarrow> nat \<Rightarrow> bool \<Rightarrow> ist \<Rightarrow> ist" where
  "phase2_setup k i trusted s =
     upd_i i (\<lambda>t. t\<lparr>db_ready := True\<rparr>)
       (upd_h k (\<lambda>e. e\<lparr>h_interp := Some i\<rparr>)
         ((upd_i i (\<lambda>t. t\<lparr>i_phase2 := True, i_trusted := trusted\<rparr>) s)\<lparr>callbacks_set := True\<rparr>))"

definition phase2_failed :: "nat \<Rightarrow> nat \<Rightarrow> ist \<Rightarrow> ist" where
  "phase2_failed k i s = delete_mcxt i (lua_close i (upd_h k (\<lambda>e. e\<lparr>h_interp := None\<rparr>) s))"

fun run_ev :: "ev \<Rightarrow> ist \<Rightarrow> (string + nat option) \<times> ist" and run_evs :: "ev list \<Rightarrow> ist \<Rightarrow> ist" where
  "run_ev (Call trusted uid ok1 ok2 evs okinit okident) s =
     (let k = call_key trusted uid in
      case entry_interp s k of
        Some i \<Rightarrow>
          if new_ident (the (interp_hash s k))
          then if okident then (Inr (Some i), pllua_set_new_ident k i s) else (Inl ''error while setting the ident'', s)
          else (Inr (Some i), s)
      | None \<Rightarrow>
          let s0 = (if interp_hash s k = None
                    then s\<lparr>interp_hash := (interp_hash s)(k \<mapsto> \<lparr>h_interp = None, h_trusted = trusted, new_ident = False\<rparr>)\<rparr>
                    else s);
              (io, s1) = (case held_states s0 of
                            i # is \<Rightarrow> (Some i, s0\<lparr>held_states := is\<rparr>)
                          | _ \<Rightarrow> pllua_newstate_phase1 ok1 (reload_ident s0) s0) in
          case io of
            None \<Rightarrow> (Inl ''interpreter creation failed'', s1)
          | Some i \<Rightarrow>
              let s2 = upd_i i (\<lambda>t. t\<lparr>user_id := k\<rparr>) s1 in
              if \<not> ok2 then (Inl ''error in initialization'', phase2_failed k i s2)
              else
                let s3 = run_evs evs (phase2_setup k i trusted s2) in
                if okinit then (Inr (Some i), s3) else (Inl ''error in initialization'', phase2_failed k i s3))"
| "run_ev (SetOnInit oks v) s = (Inr None, set_on_init oks v s)"
| "run_ev (SetIdent oks v) s = (Inr None, set_reload_ident oks v s)"
| "run_evs [] s = s"
| "run_evs (e # es) s = run_evs es (snd (run_ev e s))"

subsection \<open>Start and end\<close>

definition start_state :: "nat \<Rightarrow> ist" where
  "start_state n = \<lparr>interps = (\<lambda>_. \<lparr>i_open = False, i_mcxt = False, user_id = 0, i_phase2 = False, i_trusted = False,
     db_ready = False, i_ident = [], i_ident_new = None\<rparr>), inext = 0, interp_hash = (\<lambda>_. None), held_states = [],
     pllua_ending = False, callbacks_set = False, on_init = None, reload_ident = None, num_held = n,
     IsUnderPostmaster = False, bad = False\<rparr>"

definition PG_init :: "bool list \<Rightarrow> string option \<Rightarrow> string option \<Rightarrow> nat \<Rightarrow> bool \<Rightarrow> ist" where
  "PG_init oks oninit ident n child =
     (let s = (start_state n)\<lparr>on_init := oninit, reload_ident := ident, IsUnderPostmaster := child\<rparr> in
      if child then s else pllua_create_held_states oks ident s)"

text \<open>A backend starts as a copy of the postmaster.\<close>

definition fork :: "ist \<Rightarrow> ist" where
  "fork s = s\<lparr>IsUnderPostmaster := True\<rparr>"

text \<open>The users that have an entry are given as a list, in any order.\<close>

definition close_entry :: "nat \<Rightarrow> ist \<Rightarrow> ist" where
  "close_entry k s =
     (case entry_interp s k of Some i \<Rightarrow> if i_open (interps s i) then lua_close i s else s | None \<Rightarrow> s)"

definition pllua_fini :: "nat \<Rightarrow> nat list \<Rightarrow> ist \<Rightarrow> ist" where
  "pllua_fini code users s =
     (if pllua_ending s then s
      else if code \<noteq> 0 then s\<lparr>pllua_ending := True\<rparr>
      else fold close_entry users (pllua_destroy_held_states (s\<lparr>pllua_ending := True\<rparr>)))"

end
