(* ===== verification/Interp_Inv.thy ===== *)
theory Interp_Inv
  imports Interp
begin

text \<open>
  The invariant of the table of interpreters (Interp): who owns which Lua state, and that none is
  leaked or closed twice whatever fails.  Every operation and every event of a session keeps it.
\<close>

subsection \<open>The invariant\<close>

definition seen_ident :: "interp \<Rightarrow> string" where
  "seen_ident t = (case i_ident_new t of None \<Rightarrow> i_ident t | Some x \<Rightarrow> x)"

lemma seen_ident_simps [simp]:
  "seen_ident (t\<lparr>user_id := k\<rparr>) = seen_ident t" "seen_ident (t\<lparr>i_phase2 := b\<rparr>) = seen_ident t"
  "seen_ident (t\<lparr>i_trusted := b\<rparr>) = seen_ident t" "seen_ident (t\<lparr>db_ready := b\<rparr>) = seen_ident t"
  by (simp_all add: seen_ident_def split: option.split)

definition entry_ok :: "ist \<Rightarrow> nat \<Rightarrow> nat \<Rightarrow> bool" where
  "entry_ok s k i \<longleftrightarrow>
     i < inext s \<and> i_open (interps s i) \<and> i_mcxt (interps s i) \<and> user_id (interps s i) = k \<and> i_phase2 (interps s i) \<and> db_ready (interps s i) \<and>
     i_trusted (interps s i) = (k \<noteq> 0) \<and> i \<notin> set (held_states s) \<and>
     (ident_text (reload_ident s) \<noteq> [] \<longrightarrow> IsUnderPostmaster s \<longrightarrow>
        new_ident (the (interp_hash s k)) \<or> seen_ident (interps s i) = ident_text (reload_ident s))"

definition held_ok :: "ist \<Rightarrow> nat \<Rightarrow> bool" where
  "held_ok s i \<longleftrightarrow>
     i < inext s \<and> i_open (interps s i) \<and> i_mcxt (interps s i) \<and> \<not> i_phase2 (interps s i) \<and>
     (ident_text (reload_ident s) \<noteq> [] \<longrightarrow> seen_ident (interps s i) = ident_text (reload_ident s))"

text \<open>\<open>P\<close> are the interpreters that are being made.\<close>

definition iinv :: "nat set \<Rightarrow> ist \<Rightarrow> bool" where
  "iinv P s \<longleftrightarrow>
     \<not> bad s \<and> (\<forall>k e. interp_hash s k = Some e \<longrightarrow> h_trusted e = (k \<noteq> 0)) \<and>
     (\<forall>k i. entry_interp s k = Some i \<longrightarrow> entry_ok s k i \<and> i \<notin> P) \<and>
     distinct (held_states s) \<and> (\<forall>i \<in> set (held_states s). held_ok s i \<and> i \<notin> P) \<and>
     (\<forall>i. i_open (interps s i) \<or> i_mcxt (interps s i) \<longrightarrow>
        i < inext s \<and> (i \<in> P \<or> i \<in> set (held_states s) \<or> (\<exists>k. entry_interp s k = Some i)))"

lemma iinvD:
  assumes "iinv P s"
  shows "\<not> bad s" "\<And>k e. interp_hash s k = Some e \<Longrightarrow> h_trusted e = (k \<noteq> 0)"
    "\<And>k i. entry_interp s k = Some i \<Longrightarrow> entry_ok s k i" "\<And>k i. entry_interp s k = Some i \<Longrightarrow> i \<notin> P"
    "distinct (held_states s)" "\<And>i. i \<in> set (held_states s) \<Longrightarrow> held_ok s i" "\<And>i. i \<in> set (held_states s) \<Longrightarrow> i \<notin> P"
    "\<And>i. i_open (interps s i) \<or> i_mcxt (interps s i) \<Longrightarrow> i < inext s"
    "\<And>i. i_open (interps s i) \<or> i_mcxt (interps s i) \<Longrightarrow> i \<in> P \<or> i \<in> set (held_states s) \<or> (\<exists>k. entry_interp s k = Some i)"
  using assms unfolding iinv_def by blast+

lemma upd_i_simps [simp]:
  "interps (upd_i i f s) = (interps s)(i := f (interps s i))" "inext (upd_i i f s) = inext s"
  "interp_hash (upd_i i f s) = interp_hash s" "held_states (upd_i i f s) = held_states s"
  "reload_ident (upd_i i f s) = reload_ident s" "IsUnderPostmaster (upd_i i f s) = IsUnderPostmaster s"
  "num_held (upd_i i f s) = num_held s" "bad (upd_i i f s) = (bad s \<or> \<not> i_open (interps s i))"
  "entry_interp (upd_i i f s) k = entry_interp s k" "pllua_ending (upd_i i f s) = pllua_ending s"
  by (simp_all add: upd_i_def entry_interp_def)

lemma delete_mcxt_simps [simp]:
  "interps (delete_mcxt i s) = (interps s)(i := (interps s i)\<lparr>i_mcxt := False\<rparr>)" "inext (delete_mcxt i s) = inext s"
  "interp_hash (delete_mcxt i s) = interp_hash s" "held_states (delete_mcxt i s) = held_states s"
  "reload_ident (delete_mcxt i s) = reload_ident s" "IsUnderPostmaster (delete_mcxt i s) = IsUnderPostmaster s"
  "num_held (delete_mcxt i s) = num_held s" "bad (delete_mcxt i s) = (bad s \<or> \<not> i_mcxt (interps s i))"
  "entry_interp (delete_mcxt i s) k = entry_interp s k" "pllua_ending (delete_mcxt i s) = pllua_ending s"
  by (simp_all add: delete_mcxt_def entry_interp_def)

lemma upd_h_simps [simp]:
  "interps (upd_h k f s) = interps s" "inext (upd_h k f s) = inext s" "held_states (upd_h k f s) = held_states s"
  "interp_hash (upd_h k f s) = (interp_hash s)(k := map_option f (interp_hash s k))"
  "reload_ident (upd_h k f s) = reload_ident s" "IsUnderPostmaster (upd_h k f s) = IsUnderPostmaster s"
  "num_held (upd_h k f s) = num_held s" "bad (upd_h k f s) = bad s" "pllua_ending (upd_h k f s) = pllua_ending s"
  by (simp_all add: upd_h_def)

text \<open>Closing an interpreter that is being made.\<close>

lemma close_made:
  assumes "iinv (insert i P) s" "i \<notin> P" "i_open (interps s i)" "i_mcxt (interps s i)"
  shows "iinv P (delete_mcxt i (lua_close i s))"
proof -
  note D = iinvD [OF assms(1)]
  have ne: "j \<noteq> i" if "entry_interp s k = Some j \<or> j \<in> set (held_states s)" for j k using D(4,7) that by auto
  show ?thesis
    unfolding iinv_def
  proof (intro conjI allI ballI impI)
    fix k j assume e: "entry_interp (delete_mcxt i (lua_close i s)) k = Some j"
    then have e': "entry_interp s k = Some j" by (simp add: lua_close_def)
    show "j \<notin> P" using D(4) [OF e'] by simp
    show "entry_ok (delete_mcxt i (lua_close i s)) k j" using D(3) [OF e'] ne e' by (auto simp: entry_ok_def lua_close_def)
  next
    fix j assume "j \<in> set (held_states (delete_mcxt i (lua_close i s)))"
    then have h: "j \<in> set (held_states s)" by (simp add: lua_close_def)
    show "j \<notin> P" using D(7) [OF h] by simp
    show "held_ok (delete_mcxt i (lua_close i s)) j" using D(6) [OF h] ne h by (auto simp: held_ok_def lua_close_def)
  next
    fix j assume "i_open (interps (delete_mcxt i (lua_close i s)) j) \<or> i_mcxt (interps (delete_mcxt i (lua_close i s)) j)"
    then have j: "j \<noteq> i" "i_open (interps s j) \<or> i_mcxt (interps s j)" by (auto simp: lua_close_def split: if_splits)
    then show "j < inext (delete_mcxt i (lua_close i s))"
      "j \<in> P \<or> j \<in> set (held_states (delete_mcxt i (lua_close i s))) \<or> (\<exists>k. entry_interp (delete_mcxt i (lua_close i s)) k = Some j)"
      using D(8) [OF j(2)] D(9) [OF j(2)] by (auto simp: lua_close_def)
  qed (use D(1,2,5) assms(3,4) in \<open>auto simp: lua_close_def\<close>)
qed

lemma phase1_ok:
  assumes inv: "iinv P s" and P: "\<forall>i \<in> P. i < inext s" and r: "pllua_newstate_phase1 ok ident s = (r, u)"
  shows "held_states u = held_states s \<and> interp_hash u = interp_hash s \<and> reload_ident u = reload_ident s \<and> IsUnderPostmaster u = IsUnderPostmaster s \<and>
    num_held u = num_held s \<and> pllua_ending u = pllua_ending s \<and> inext u = Suc (inext s) \<and>
    (case r of
       None \<Rightarrow> iinv P u
     | Some i \<Rightarrow> i = inext s \<and> iinv (insert i P) u \<and> i_open (interps u i) \<and> i_mcxt (interps u i) \<and> \<not> i_phase2 (interps u i) \<and>
         seen_ident (interps u i) = ident_text ident)"
proof -
  let ?i = "inext s"
  let ?t = "\<lparr>i_open = True, i_mcxt = True, user_id = 0, i_phase2 = False, i_trusted = False, db_ready = False,
             i_ident = ident_text ident, i_ident_new = None\<rparr>"
  let ?s = "s\<lparr>interps := (interps s)(?i := ?t), inext := Suc ?i\<rparr>"
  note D = iinvD [OF inv]
  have e: "entry_interp ?s k = entry_interp s k" for k by (simp add: entry_interp_def)
  have ne: "j < ?i" if "entry_interp s k = Some j \<or> j \<in> set (held_states s)" for j k
    using that D(3,6) by (auto simp: entry_ok_def held_ok_def)
  have one: "iinv (insert ?i P) ?s"
    unfolding iinv_def e
  proof (intro conjI allI ballI impI)
    fix k j assume ej: "entry_interp s k = Some j"
    then have "j < ?i" using ne by blast
    then show "entry_ok ?s k j" "j \<notin> insert ?i P" using D(3,4) [OF ej] by (auto simp: entry_ok_def)
  next
    fix j assume "j \<in> set (held_states ?s)"
    then have h: "j \<in> set (held_states s)" by simp
    then have "j < ?i" using ne by blast
    then show "held_ok ?s j" "j \<notin> insert ?i P" using D(6,7) [OF h] by (auto simp: held_ok_def)
  next
    fix j assume j: "i_open (interps ?s j) \<or> i_mcxt (interps ?s j)"
    show "j < inext ?s" using j D(8) [of j] by (cases "j = ?i") auto
    show "j \<in> insert ?i P \<or> j \<in> set (held_states ?s) \<or> (\<exists>k. entry_interp s k = Some j)"
      using j D(9) [of j] by (cases "j = ?i") auto
  qed (use D(1,2,5) in auto)
  have notP: "?i \<notin> P" using P by auto
  show ?thesis
  proof (cases ok)
    case True
    then show ?thesis using r one by (auto simp: pllua_newstate_phase1_def Let_def seen_ident_def)
  next
    case False
    have "iinv P (delete_mcxt ?i (lua_close ?i ?s))" by (rule close_made [OF one notP]) simp_all
    then show ?thesis using r False by (auto simp: pllua_newstate_phase1_def Let_def lua_close_def)
  qed
qed

subsection \<open>Held states\<close>

text \<open>The first held interpreter is taken out of the list.\<close>

lemma take_held:
  assumes "iinv P s" "held_states s = i # is"
  shows "iinv (insert i P) (s\<lparr>held_states := is\<rparr>)" "i \<notin> P" "held_ok s i" "i < inext s"
proof -
  note D = iinvD [OF assms(1)]
  have e: "entry_interp (s\<lparr>held_states := is\<rparr>) k = entry_interp s k" for k by (simp add: entry_interp_def)
  show "i \<notin> P" "held_ok s i" using D(6,7) [of i] assms(2) by auto
  then show "i < inext s" by (simp add: held_ok_def)
  show "iinv (insert i P) (s\<lparr>held_states := is\<rparr>)"
    unfolding iinv_def e
  proof (intro conjI allI ballI impI)
    fix k j assume ej: "entry_interp s k = Some j"
    show "entry_ok (s\<lparr>held_states := is\<rparr>) k j" "j \<notin> insert i P"
      using D(3,4) [OF ej] assms(2) by (auto simp: entry_ok_def)
  next
    fix j assume "j \<in> set (held_states (s\<lparr>held_states := is\<rparr>))"
    then have h: "j \<in> set is" by simp
    then show "held_ok (s\<lparr>held_states := is\<rparr>) j" "j \<notin> insert i P"
      using D(5) D(6,7) [of j] assms(2) by (auto simp: held_ok_def)
  next
    fix j assume j: "i_open (interps (s\<lparr>held_states := is\<rparr>) j) \<or> i_mcxt (interps (s\<lparr>held_states := is\<rparr>) j)"
    show "j < inext (s\<lparr>held_states := is\<rparr>)" using j D(8) [of j] by simp
    show "j \<in> insert i P \<or> j \<in> set (held_states (s\<lparr>held_states := is\<rparr>)) \<or> (\<exists>k. entry_interp s k = Some j)"
      using j D(9) [of j] assms(2) by auto
  qed (use D(1,2,5) assms(2) in auto)
qed

definition same_env :: "ist \<Rightarrow> ist \<Rightarrow> bool" where
  "same_env s u \<longleftrightarrow> interp_hash u = interp_hash s \<and> reload_ident u = reload_ident s \<and> IsUnderPostmaster u = IsUnderPostmaster s \<and>
     num_held u = num_held s \<and> pllua_ending u = pllua_ending s \<and> inext s \<le> inext u"

lemma destroy_ok:
  assumes "iinv P s"
  shows "iinv P (pllua_destroy_held_states s) \<and> held_states (pllua_destroy_held_states s) = [] \<and> same_env s (pllua_destroy_held_states s)"
proof -
  have "iinv P s \<Longrightarrow> held_states s = hs \<Longrightarrow>
      iinv P (fold (\<lambda>i s. delete_mcxt i (lua_close i (s\<lparr>held_states := tl (held_states s)\<rparr>))) hs s) \<and>
      held_states (fold (\<lambda>i s. delete_mcxt i (lua_close i (s\<lparr>held_states := tl (held_states s)\<rparr>))) hs s) = [] \<and>
      same_env s (fold (\<lambda>i s. delete_mcxt i (lua_close i (s\<lparr>held_states := tl (held_states s)\<rparr>))) hs s)" for hs
  proof (induction hs arbitrary: s)
    case Nil
    then show ?case by (simp add: same_env_def)
  next
    case (Cons i hs)
    let ?u = "delete_mcxt i (lua_close i (s\<lparr>held_states := hs\<rparr>))"
    note T = take_held [OF Cons.prems]
    have "iinv P ?u" by (rule close_made [OF T(1,2)]) (use T(3) in \<open>auto simp: held_ok_def\<close>)
    from Cons.IH [OF this] show ?case using Cons.prems(2) by (auto simp: same_env_def lua_close_def)
  qed
  then show ?thesis using assms unfolding pllua_destroy_held_states_def by blast
qed

lemma ins_held:
  assumes "iinv (insert i P) s" "i \<notin> P" "held_ok s i"
  shows "iinv P (s\<lparr>held_states := i # held_states s\<rparr>)"
proof -
  note D = iinvD [OF assms(1)]
  have e: "entry_interp (s\<lparr>held_states := i # held_states s\<rparr>) k = entry_interp s k" for k by (simp add: entry_interp_def)
  show ?thesis
    unfolding iinv_def e
  proof (intro conjI allI ballI impI)
    fix k j assume ej: "entry_interp s k = Some j"
    show "entry_ok (s\<lparr>held_states := i # held_states s\<rparr>) k j" "j \<notin> P"
      using D(3,4) [OF ej] by (auto simp: entry_ok_def)
  next
    fix j assume "j \<in> set (held_states (s\<lparr>held_states := i # held_states s\<rparr>))"
    then have h: "j = i \<or> j \<in> set (held_states s)" by auto
    then show "held_ok (s\<lparr>held_states := i # held_states s\<rparr>) j" "j \<notin> P"
      using D(6,7) [of j] assms(2,3) by (auto simp: held_ok_def)
  next
    fix j assume j: "i_open (interps (s\<lparr>held_states := i # held_states s\<rparr>) j) \<or> i_mcxt (interps (s\<lparr>held_states := i # held_states s\<rparr>) j)"
    show "j < inext (s\<lparr>held_states := i # held_states s\<rparr>)" using j D(8) [of j] by simp
    show "j \<in> P \<or> j \<in> set (held_states (s\<lparr>held_states := i # held_states s\<rparr>)) \<or> (\<exists>k. entry_interp s k = Some j)"
      using j D(9) [of j] by auto
  qed (use D(1,2,5,7) in auto)
qed


lemma create_ok:
  "iinv {} s \<Longrightarrow> ident_text (reload_ident s) = ident_text ident \<Longrightarrow>
   iinv {} (create_held n oks ident s) \<and> same_env s (create_held n oks ident s)"
proof (induction n arbitrary: oks s)
  case 0
  then show ?case by (simp add: same_env_def)
next
  case (Suc n)
  let ?ok = "case oks of [] \<Rightarrow> True | ok # _ \<Rightarrow> ok"
  obtain r u where r: "pllua_newstate_phase1 ?ok ident s = (r, u)" by fastforce
  note F = phase1_ok [OF Suc.prems(1) _ r]
  show ?case
  proof (cases r)
    case None
    then show ?thesis using F r by (auto simp: same_env_def)
  next
    case (Some i)
    have G: "iinv {i} u" "i_open (interps u i)" "i_mcxt (interps u i)" "\<not> i_phase2 (interps u i)" "i < inext u"
      "seen_ident (interps u i) = ident_text ident" "same_env s u"
      using F Some by (auto simp: same_env_def)
    have "held_ok u i" using G(2-7) Suc.prems(2) by (auto simp: held_ok_def same_env_def)
    from ins_held [OF G(1) _ this] have I: "iinv {} (u\<lparr>held_states := i # held_states u\<rparr>)" by simp
    from Suc.IH [OF this, of "tl oks"] show ?thesis using G(7) r Some Suc.prems(2) by (auto simp: same_env_def)
  qed
qed

subsection \<open>Settings\<close>

lemma iinv_on_init [simp]: "iinv P (s\<lparr>on_init := v\<rparr>) = iinv P s"
  by (simp add: iinv_def entry_interp_def entry_ok_def held_ok_def)

lemma iinv_callbacks [simp]: "iinv P (s\<lparr>callbacks_set := v\<rparr>) = iinv P s"
  by (simp add: iinv_def entry_interp_def entry_ok_def held_ok_def)

lemma phase1_reload: "pllua_newstate_phase1 ok ident (s\<lparr>reload_ident := v\<rparr>) =
    (case pllua_newstate_phase1 ok ident s of (r, u) \<Rightarrow> (r, u\<lparr>reload_ident := v\<rparr>))"
  by (simp add: pllua_newstate_phase1_def Let_def delete_mcxt_def lua_close_def upd_i_def)

lemma create_reload: "create_held n oks ident (s\<lparr>reload_ident := v\<rparr>) = (create_held n oks ident s)\<lparr>reload_ident := v\<rparr>"
proof (induction n arbitrary: oks s)
  case (Suc n)
  obtain r u where r: "pllua_newstate_phase1 (case oks of [] \<Rightarrow> True | ok # _ \<Rightarrow> ok) ident s = (r, u)" by fastforce
  show ?case
  proof (cases r)
    case (Some i)
    have c: "u\<lparr>reload_ident := v, held_states := i # held_states u\<rparr> = u\<lparr>held_states := i # held_states u, reload_ident := v\<rparr>" by simp
    show ?thesis using Suc [of "tl oks" "u\<lparr>held_states := i # held_states u\<rparr>"] r Some by (simp add: phase1_reload c)
  qed (use r in \<open>simp add: phase1_reload\<close>)
qed simp

lemma reload_change:
  assumes "iinv {} s" "ident_text v = [] \<or> held_states s = [] \<and>
    (IsUnderPostmaster s \<longrightarrow> (\<forall>k i. entry_interp s k = Some i \<longrightarrow> new_ident (the (interp_hash s k))))"
  shows "iinv {} (s\<lparr>reload_ident := v\<rparr>)"
  using assms by (auto simp: iinv_def entry_ok_def held_ok_def entry_interp_def)

lemma mark_ok:
  assumes "iinv P s"
  shows "iinv P (s\<lparr>interp_hash := (\<lambda>k. map_option (\<lambda>e. e\<lparr>new_ident := True\<rparr>) (interp_hash s k))\<rparr>)"
proof -
  let ?u = "s\<lparr>interp_hash := (\<lambda>k. map_option (\<lambda>e. e\<lparr>new_ident := True\<rparr>) (interp_hash s k))\<rparr>"
  have e: "entry_interp ?u k = entry_interp s k" for k by (simp add: entry_interp_def split: option.splits)
  have n: "new_ident (the (map_option (new_ident_update (\<lambda>_. True)) (interp_hash s k)))" if "entry_interp s k = Some i" for k i
    using that by (simp add: entry_interp_def split: option.splits)
  show ?thesis using assms unfolding iinv_def e by (auto simp: entry_ok_def held_ok_def n)
qed

definition keeps_entries :: "ist \<Rightarrow> ist \<Rightarrow> bool" where
  "keeps_entries s u \<longleftrightarrow>
     (\<forall>k. entry_interp s k \<noteq> None \<longrightarrow> entry_interp u k = entry_interp s k) \<and>
     IsUnderPostmaster u = IsUnderPostmaster s \<and> pllua_ending u = pllua_ending s"

lemma entries_refl: "keeps_entries s s" by (simp add: keeps_entries_def)

lemma entries_trans: "keeps_entries s t \<Longrightarrow> keeps_entries t u \<Longrightarrow> keeps_entries s u"
  unfolding keeps_entries_def by metis

lemma same_env_keeps: "same_env s u \<Longrightarrow> keeps_entries s u"
  by (simp add: same_env_def keeps_entries_def entry_interp_def)

lemma set_on_init_ok:
  assumes "iinv {} s"
  shows "iinv {} (set_on_init oks v s) \<and> same_env s (set_on_init oks v s)"
proof -
  let ?d = "pllua_destroy_held_states s"
  note d = destroy_ok [OF assms]
  have "iinv {} (?d\<lparr>on_init := v\<rparr>)" using d by simp
  then have c: "iinv {} (pllua_create_held_states oks (reload_ident s) (?d\<lparr>on_init := v\<rparr>)) \<and>
      same_env (?d\<lparr>on_init := v\<rparr>) (pllua_create_held_states oks (reload_ident s) (?d\<lparr>on_init := v\<rparr>))"
    unfolding pllua_create_held_states_def by (rule create_ok) (use d in \<open>simp add: same_env_def\<close>)
  show ?thesis using c d assms
    by (auto simp: set_on_init_def pllua_assign_on_init_def Let_def same_env_def)
qed

lemma set_ident_ok:
  assumes "iinv {} s"
  shows "iinv {} (set_reload_ident oks v s) \<and> keeps_entries s (set_reload_ident oks v s)"
proof -
  let ?d = "pllua_destroy_held_states s"
  note d = destroy_ok [OF assms]
  consider (same) "v = reload_ident s" | (off) "ident_text v = []" | (master) "v \<noteq> reload_ident s" "ident_text v \<noteq> []" "\<not> IsUnderPostmaster s"
    | (child) "v \<noteq> reload_ident s" "ident_text v \<noteq> []" "IsUnderPostmaster s" by blast
  then show ?thesis
  proof cases
    case same
    then show ?thesis using assms by (simp add: set_reload_ident_def pllua_assign_reload_ident_def entries_refl)
  next
    case off
    then show ?thesis using reload_change [OF assms, of v]
      by (simp add: set_reload_ident_def pllua_assign_reload_ident_def keeps_entries_def entry_interp_def)
  next
    case master
    have e: "set_reload_ident oks v s = create_held (num_held ?d) oks v (?d\<lparr>reload_ident := v\<rparr>)"
      using master by (simp add: set_reload_ident_def pllua_assign_reload_ident_def Let_def pllua_create_held_states_def create_reload)
    have "iinv {} (?d\<lparr>reload_ident := v\<rparr>)"
      by (rule reload_change) (use d master in \<open>auto simp: same_env_def\<close>)
    from create_ok [OF this, of v "num_held ?d" oks]
    show ?thesis using d unfolding e by (simp add: keeps_entries_def same_env_def entry_interp_def)
  next
    case child
    let ?m = "?d\<lparr>interp_hash := (\<lambda>k. map_option (\<lambda>e. e\<lparr>new_ident := True\<rparr>) (interp_hash ?d k))\<rparr>"
    have e: "set_reload_ident oks v s = ?m\<lparr>reload_ident := v\<rparr>"
      using child by (simp add: set_reload_ident_def pllua_assign_reload_ident_def Let_def)
    have "iinv {} (?m\<lparr>reload_ident := v\<rparr>)"
      by (rule reload_change, rule mark_ok) (use d in \<open>auto simp: entry_interp_def split: option.splits\<close>)
    then show ?thesis using d unfolding e by (auto simp: keeps_entries_def same_env_def entry_interp_def split: option.splits)
  qed
qed

subsection \<open>Entering and leaving the table\<close>

text \<open>An interpreter that is being made is changed.\<close>

lemma upd_made:
  assumes "iinv (insert i P) s" "i_open (interps s i)" "i_open (f (interps s i))"
  shows "iinv (insert i P) (upd_i i f s)"
proof -
  note D = iinvD [OF assms(1)]
  show ?thesis
    unfolding iinv_def
  proof (intro conjI allI ballI impI)
    fix k j assume e: "entry_interp (upd_i i f s) k = Some j"
    then have e': "entry_interp s k = Some j" by simp
    show "j \<notin> insert i P" by (rule D(4) [OF e'])
    then show "entry_ok (upd_i i f s) k j" using D(3) [OF e'] by (auto simp: entry_ok_def)
  next
    fix j assume "j \<in> set (held_states (upd_i i f s))"
    then have h: "j \<in> set (held_states s)" by simp
    show "j \<notin> insert i P" by (rule D(7) [OF h])
    then show "held_ok (upd_i i f s) j" using D(6) [OF h] by (auto simp: held_ok_def)
  next
    fix j assume j: "i_open (interps (upd_i i f s) j) \<or> i_mcxt (interps (upd_i i f s) j)"
    show "j < inext (upd_i i f s)" using j D(8) [of j] assms(2) by (cases "j = i") auto
    show "j \<in> insert i P \<or> j \<in> set (held_states (upd_i i f s)) \<or> (\<exists>k. entry_interp (upd_i i f s) k = Some j)"
      using j D(9) [of j] by (cases "j = i") auto
  qed (use D(1,2,5) assms(2) in auto)
qed

lemma enter_ok:
  assumes inv: "iinv (insert i P) s" and i: "i \<notin> P" "i_open (interps s i)" "i_mcxt (interps s i)"
    "i_phase2 (interps s i)" "db_ready (interps s i)" "user_id (interps s i) = k" "i_trusted (interps s i) = (k \<noteq> 0)"
    "ident_text (reload_ident s) \<noteq> [] \<longrightarrow> seen_ident (interps s i) = ident_text (reload_ident s)"
    and e: "interp_hash s k = Some e" "h_interp e = None"
  shows "iinv P (upd_h k (\<lambda>e. e\<lparr>h_interp := Some i\<rparr>) s)"
proof -
  let ?u = "upd_h k (\<lambda>e. e\<lparr>h_interp := Some i\<rparr>) s"
  note D = iinvD [OF inv]
  have eu: "entry_interp ?u k' = (if k' = k then Some i else entry_interp s k')" for k'
    using e by (simp add: entry_interp_def)
  show ?thesis
    unfolding iinv_def
  proof (intro conjI allI ballI impI)
    fix k' j assume "entry_interp ?u k' = Some j"
    then consider "k' = k" "j = i" | "k' \<noteq> k" "entry_interp s k' = Some j" unfolding eu by (auto split: if_splits)
    then show "entry_ok ?u k' j"
    proof cases
      case 1
      have "i < inext s" "i \<notin> set (held_states s)" using D(8) [of i] D(7) [of i] i(2) by auto
      then show ?thesis using 1 i e unfolding entry_ok_def by simp
    next
      case 2
      then show ?thesis using D(3) [OF 2(2)] by (simp add: entry_ok_def)
    qed
  next
    fix k' j assume "entry_interp ?u k' = Some j"
    then have "j = i \<or> entry_interp s k' = Some j" unfolding eu by (auto split: if_splits)
    then show "j \<notin> P" using D(4) [of k' j] i(1) by blast
  next
    fix j assume "j \<in> set (held_states ?u)"
    then show "held_ok ?u j" "j \<notin> P" using D(6,7) [of j] by (auto simp: held_ok_def)
  next
    fix j assume j: "i_open (interps ?u j) \<or> i_mcxt (interps ?u j)"
    show "j < inext ?u" using j D(8) [of j] by simp
    have "j \<in> insert i P \<or> j \<in> set (held_states s) \<or> (\<exists>k. entry_interp s k = Some j)" using j D(9) [of j] by simp
    moreover have "entry_interp ?u k' = Some j" if "entry_interp s k' = Some j" for k' using that e by (auto simp: eu entry_interp_def)
    moreover have "entry_interp ?u k = Some i" by (simp add: eu)
    ultimately show "j \<in> P \<or> j \<in> set (held_states ?u) \<or> (\<exists>k. entry_interp ?u k = Some j)" by auto
  next
    fix k' e' assume "interp_hash ?u k' = Some e'"
    then show "h_trusted e' = (k' \<noteq> 0)" using D(2) [of k'] e by (auto split: if_splits)
  qed (use D(1,5) in auto)
qed

lemma leave_ok:
  assumes inv: "iinv P s" and e: "entry_interp s k = Some i"
  shows "iinv (insert i P) (upd_h k (\<lambda>e. e\<lparr>h_interp := None\<rparr>) s)" "i \<notin> P"
proof -
  let ?u = "upd_h k (\<lambda>e. e\<lparr>h_interp := None\<rparr>) s"
  note D = iinvD [OF inv]
  have eu: "entry_interp ?u k' = (if k' = k then None else entry_interp s k')" for k'
    by (simp add: entry_interp_def split: option.splits)
  have k: "user_id (interps s i) = k" using D(3) [OF e] by (simp add: entry_ok_def)
  show "i \<notin> P" by (rule D(4) [OF e])
  show "iinv (insert i P) ?u"
    unfolding iinv_def
  proof (intro conjI allI ballI impI)
    fix k' j assume "entry_interp ?u k' = Some j"
    then have j: "k' \<noteq> k" "entry_interp s k' = Some j" unfolding eu by (auto split: if_splits)
    from D(3) [OF j(2)] have "j \<noteq> i" using k j(1) by (auto simp: entry_ok_def)
    then show "entry_ok ?u k' j" "j \<notin> insert i P"
      using D(3,4) [OF j(2)] j(1) by (auto simp: entry_ok_def)
  next
    fix j assume "j \<in> set (held_states ?u)"
    then show "held_ok ?u j" "j \<notin> insert i P" using D(6,7) [of j] D(3) [OF e] by (auto simp: held_ok_def entry_ok_def)
  next
    fix j assume j: "i_open (interps ?u j) \<or> i_mcxt (interps ?u j)"
    show "j < inext ?u" using j D(8) [of j] by simp
    have "j \<in> P \<or> j \<in> set (held_states s) \<or> (\<exists>k. entry_interp s k = Some j)" using j D(9) [of j] by simp
    moreover have "j = i \<or> entry_interp ?u k' = Some j" if "entry_interp s k' = Some j" for k' using that e by (auto simp: eu)
    ultimately show "j \<in> insert i P \<or> j \<in> set (held_states ?u) \<or> (\<exists>k. entry_interp ?u k = Some j)" by auto
  next
    fix k' e' assume "interp_hash ?u k' = Some e'"
    then show "h_trusted e' = (k' \<noteq> 0)" using D(2) [of k'] by (auto split: if_splits)
  qed (use D(1,5) in auto)
qed

text \<open>What the interpreters in the table are told.\<close>

lemma set_new_ident_ok:
  assumes inv: "iinv P s" and e: "entry_interp s k = Some i"
  shows "iinv P (pllua_set_new_ident k i s)" "keeps_entries s (pllua_set_new_ident k i s)"
    "interps (pllua_set_new_ident k i s) i = (interps s i)\<lparr>i_ident_new := Some (ident_text (reload_ident s))\<rparr>"
    "reload_ident (pllua_set_new_ident k i s) = reload_ident s"
proof -
  let ?u = "pllua_set_new_ident k i s"
  note D = iinvD [OF inv]
  have eu: "entry_interp ?u k' = entry_interp s k'" for k'
    by (simp add: pllua_set_new_ident_def entry_interp_def split: option.splits)
  have k: "user_id (interps s i) = k" "i_open (interps s i)" "i \<notin> set (held_states s)"
    using D(3) [OF e] by (simp_all add: entry_ok_def)
  show "keeps_entries s ?u" by (simp add: keeps_entries_def eu) (simp add: pllua_set_new_ident_def)
  show "interps ?u i = (interps s i)\<lparr>i_ident_new := Some (ident_text (reload_ident s))\<rparr>" "reload_ident ?u = reload_ident s"
    by (simp_all add: pllua_set_new_ident_def)
  show "iinv P ?u"
    unfolding iinv_def eu
  proof (intro conjI allI ballI impI)
    fix k' j assume j: "entry_interp s k' = Some j"
    show "j \<notin> P" by (rule D(4) [OF j])
    show "entry_ok ?u k' j"
    proof (cases "j = i")
      case True
      then show ?thesis using D(3) [OF j] by (auto simp: entry_ok_def pllua_set_new_ident_def seen_ident_def)
    next
      case False
      then have "k' \<noteq> k" using e j by auto
      then show ?thesis using D(3) [OF j] False by (auto simp: entry_ok_def pllua_set_new_ident_def)
    qed
  next
    fix j assume "j \<in> set (held_states ?u)"
    then have h: "j \<in> set (held_states s)" by (simp add: pllua_set_new_ident_def)
    then have "j \<noteq> i" using k(3) by auto
    then show "held_ok ?u j" "j \<notin> P" using D(6,7) [OF h] by (auto simp: held_ok_def pllua_set_new_ident_def)
  next
    fix j assume "i_open (interps ?u j) \<or> i_mcxt (interps ?u j)"
    then have j: "i_open (interps s j) \<or> i_mcxt (interps s j)" by (auto simp: pllua_set_new_ident_def split: if_splits)
    show "j < inext ?u" using D(8) [OF j] by (simp add: pllua_set_new_ident_def)
    show "j \<in> P \<or> j \<in> set (held_states ?u) \<or> (\<exists>k. entry_interp s k = Some j)" using D(9) [OF j] by (simp add: pllua_set_new_ident_def)
  next
    fix k' e' assume "interp_hash ?u k' = Some e'"
    then show "h_trusted e' = (k' \<noteq> 0)" using D(2) [of k'] by (auto simp: pllua_set_new_ident_def split: if_splits)
  qed (use D(1,5) k in \<open>auto simp: pllua_set_new_ident_def\<close>)
qed

subsection \<open>The second phase\<close>

definition gone :: "ist \<Rightarrow> nat \<Rightarrow> bool" where
  "gone s i \<longleftrightarrow> \<not> i_open (interps s i) \<and> \<not> i_mcxt (interps s i)"

definition only_entry :: "nat \<Rightarrow> ist \<Rightarrow> ist \<Rightarrow> bool" where
  "only_entry k s u \<longleftrightarrow> (\<forall>k'. k' \<noteq> k \<longrightarrow> entry_interp u k' = entry_interp s k') \<and>
     IsUnderPostmaster u = IsUnderPostmaster s \<and> pllua_ending u = pllua_ending s"

lemma failed_gone: "gone (phase2_failed k i s) i"
  by (simp add: gone_def phase2_failed_def lua_close_def)

lemma failed_entry: "entry_interp (phase2_failed k i s) k = None" "only_entry k s (phase2_failed k i s)"
  by (simp_all add: phase2_failed_def lua_close_def only_entry_def entry_interp_def split: option.splits)

lemma failed_after_ok:
  assumes "iinv {} s" "entry_interp s k = Some i"
  shows "iinv {} (phase2_failed k i s)"
proof -
  note L = leave_ok [OF assms]
  have "i_open (interps s i)" "i_mcxt (interps s i)" using iinvD(3) [OF assms] by (simp_all add: entry_ok_def)
  with close_made [OF L] show ?thesis by (simp add: phase2_failed_def)
qed

lemma setup_ok:
  assumes inv: "iinv {i} s" and i: "i_open (interps s i)" "i_mcxt (interps s i)"
    and ident: "ident_text (reload_ident s) \<noteq> [] \<longrightarrow> seen_ident (interps s i) = ident_text (reload_ident s)"
    and e: "interp_hash s k = Some e" "h_interp e = None"
  defines "t \<equiv> upd_i i (\<lambda>t. t\<lparr>user_id := k\<rparr>) s"
  shows "iinv {} (phase2_setup k i (k \<noteq> 0) t)" "entry_interp (phase2_setup k i (k \<noteq> 0) t) k = Some i"
    "only_entry k s (phase2_setup k i (k \<noteq> 0) t)" "iinv {} (phase2_failed k i t)" "only_entry k s (phase2_failed k i t)"
    "reload_ident (phase2_setup k i (k \<noteq> 0) t) = reload_ident s"
    "seen_ident (interps (phase2_setup k i (k \<noteq> 0) t) i) = seen_ident (interps s i)"
proof -
  have t: "iinv (insert i {}) t" unfolding t_def by (rule upd_made) (use inv i in simp_all)
  define v where "v = upd_i i (\<lambda>t. t\<lparr>i_phase2 := True, i_trusted := (k \<noteq> 0), db_ready := True\<rparr>) t"
  have v: "iinv (insert i {}) v" unfolding v_def by (rule upd_made [OF t]) (use i in \<open>simp_all add: t_def\<close>)
  have eq: "phase2_setup k i (k \<noteq> 0) t = (upd_h k (\<lambda>e. e\<lparr>h_interp := Some i\<rparr>) v)\<lparr>callbacks_set := True\<rparr>"
    using i by (simp add: phase2_setup_def v_def t_def upd_i_def upd_h_def)
  have "iinv {} (upd_h k (\<lambda>e. e\<lparr>h_interp := Some i\<rparr>) v)"
    by (rule enter_ok [OF v, of k e]) (use i e ident in \<open>simp_all add: v_def t_def\<close>)
  then show "iinv {} (phase2_setup k i (k \<noteq> 0) t)" unfolding eq by simp
  show "entry_interp (phase2_setup k i (k \<noteq> 0) t) k = Some i" "only_entry k s (phase2_setup k i (k \<noteq> 0) t)"
    "reload_ident (phase2_setup k i (k \<noteq> 0) t) = reload_ident s"
    unfolding eq using e by (simp_all add: only_entry_def entry_interp_def v_def t_def)
  show "seen_ident (interps (phase2_setup k i (k \<noteq> 0) t) i) = seen_ident (interps s i)"
    unfolding eq by (simp add: v_def t_def)
  have n: "entry_interp t k = None" using e by (simp add: t_def entry_interp_def)
  have "iinv {} (delete_mcxt i (lua_close i t))" by (rule close_made [OF t]) (use i in \<open>simp_all add: t_def\<close>)
  moreover have "(interp_hash t)(k := map_option (\<lambda>e. e\<lparr>h_interp := None\<rparr>) (interp_hash t k)) = interp_hash t"
    using e by (auto simp: t_def)
  then have "upd_h k (\<lambda>e. e\<lparr>h_interp := None\<rparr>) t = t" by (simp add: upd_h_def)
  ultimately show "iinv {} (phase2_failed k i t)" by (simp add: phase2_failed_def)
  show "only_entry k s (phase2_failed k i t)"
    using failed_entry(2) [of k t i] by (simp add: only_entry_def t_def)
qed

subsection \<open>Calls\<close>

text \<open>The user of a trusted call is a real one.\<close>

fun valid_ev :: "ev \<Rightarrow> bool" where
  "valid_ev (Call trusted uid ok1 ok2 evs okinit okident) \<longleftrightarrow> (trusted \<longrightarrow> uid \<noteq> 0) \<and> list_all valid_ev evs"
| "valid_ev _ \<longleftrightarrow> True"

fun ev_result :: "ev \<Rightarrow> ist \<Rightarrow> string + nat option \<Rightarrow> ist \<Rightarrow> bool" where
  "ev_result (Call trusted uid ok1 ok2 evs okinit okident) s r u \<longleftrightarrow>
     (case r of
        Inr (Some i) \<Rightarrow> entry_interp u (call_key trusted uid) = Some i
      | Inr None \<Rightarrow> False
      | Inl _ \<Rightarrow> entry_interp u (call_key trusted uid) = entry_interp s (call_key trusted uid))"
| "ev_result _ s r u \<longleftrightarrow> r = Inr None"

definition event_ok :: "ev \<Rightarrow> ist \<Rightarrow> bool" where
  "event_ok e s \<longleftrightarrow> iinv {} (snd (run_ev e s)) \<and> keeps_entries s (snd (run_ev e s)) \<and> ev_result e s (fst (run_ev e s)) (snd (run_ev e s))"

text \<open>An entry is made if there is none, then a state of the first phase is taken or made.\<close>

definition with_entry :: "bool \<Rightarrow> nat \<Rightarrow> ist \<Rightarrow> ist" where
  "with_entry trusted k s = (if interp_hash s k = None
     then s\<lparr>interp_hash := (interp_hash s)(k \<mapsto> \<lparr>h_interp = None, h_trusted = trusted, new_ident = False\<rparr>)\<rparr> else s)"

definition first_phase :: "bool \<Rightarrow> ist \<Rightarrow> nat option \<times> ist" where
  "first_phase ok1 s = (case held_states s of i # is \<Rightarrow> (Some i, s\<lparr>held_states := is\<rparr>)
     | _ \<Rightarrow> pllua_newstate_phase1 ok1 (reload_ident s) s)"

lemma with_entry_ok:
  assumes "iinv {} s"
  shows "iinv {} (with_entry (k \<noteq> 0) k s)" "entry_interp (with_entry (k \<noteq> 0) k s) k' = entry_interp s k'"
    "IsUnderPostmaster (with_entry tr k s) = IsUnderPostmaster s" "pllua_ending (with_entry tr k s) = pllua_ending s"
    "reload_ident (with_entry tr k s) = reload_ident s" "interp_hash (with_entry tr k s) k \<noteq> None"
proof -
  have e: "entry_interp (with_entry tr k s) k' = entry_interp s k'" for k' tr by (simp add: with_entry_def entry_interp_def)
  show "entry_interp (with_entry (k \<noteq> 0) k s) k' = entry_interp s k'" by (rule e)
  have k: "interp_hash (with_entry (k \<noteq> 0) k s) k' = interp_hash s k'" if "entry_interp s k' = Some i" for k' i
    using that by (auto simp: with_entry_def entry_interp_def split: option.splits)
  have t: "h_trusted e' = (k' \<noteq> 0)" if "interp_hash (with_entry (k \<noteq> 0) k s) k' = Some e'" for k' e'
    using that iinvD(2) [OF assms, of k'] by (auto simp: with_entry_def split: if_splits)
  have f: "interps (with_entry (k \<noteq> 0) k s) = interps s" "inext (with_entry (k \<noteq> 0) k s) = inext s"
    "held_states (with_entry (k \<noteq> 0) k s) = held_states s" "bad (with_entry (k \<noteq> 0) k s) = bad s"
    by (simp_all add: with_entry_def)
  show g: "IsUnderPostmaster (with_entry tr k s) = IsUnderPostmaster s" "pllua_ending (with_entry tr k s) = pllua_ending s"
    "reload_ident (with_entry tr k s) = reload_ident s" "interp_hash (with_entry tr k s) k \<noteq> None" for tr
    by (simp_all add: with_entry_def)
  have eo: "entry_ok (with_entry (k \<noteq> 0) k s) k' i = entry_ok s k' i" if "entry_interp s k' = Some i" for k' i
    by (simp only: entry_ok_def f g k [OF that])
  have ho: "held_ok (with_entry (k \<noteq> 0) k s) i = held_ok s i" for i by (simp only: held_ok_def f g)
  show "iinv {} (with_entry (k \<noteq> 0) k s)"
    using assms t eo unfolding iinv_def e f ho by blast
qed

lemma first_phase_ok:
  assumes inv: "iinv {} s" and r: "first_phase ok1 s = (r, u)"
  shows "interp_hash u = interp_hash s \<and> reload_ident u = reload_ident s \<and> IsUnderPostmaster u = IsUnderPostmaster s \<and>
    pllua_ending u = pllua_ending s \<and> (r = None \<longrightarrow> iinv {} u) \<and>
    (r = Some i \<longrightarrow> iinv {i} u \<and> i_open (interps u i) \<and> i_mcxt (interps u i) \<and>
       (ident_text (reload_ident u) \<noteq> [] \<longrightarrow> seen_ident (interps u i) = ident_text (reload_ident u)))"
proof (cases "held_states s")
  case Nil
  then have "pllua_newstate_phase1 ok1 (reload_ident s) s = (r, u)" using r by (simp add: first_phase_def)
  from phase1_ok [OF inv _ this] show ?thesis by auto
next
  case (Cons j js)
  then have e: "r = Some j" "u = s\<lparr>held_states := js\<rparr>" using r by (simp_all add: first_phase_def)
  show ?thesis using take_held [OF inv Cons] by (auto simp: e held_ok_def)
qed

lemma run_call_new:
  assumes "entry_interp s (call_key trusted uid) = None"
  shows "run_ev (Call trusted uid ok1 ok2 evs okinit okident) s =
    (case first_phase ok1 (with_entry trusted (call_key trusted uid) s) of
       (None, s1) \<Rightarrow> (Inl ''interpreter creation failed'', s1)
     | (Some i, s1) \<Rightarrow>
         let k = call_key trusted uid; s2 = upd_i i (\<lambda>t. t\<lparr>user_id := k\<rparr>) s1 in
         if \<not> ok2 then (Inl ''error in initialization'', phase2_failed k i s2)
         else
           let s3 = run_evs evs (phase2_setup k i trusted s2) in
           if okinit then (Inr (Some i), s3) else (Inl ''error in initialization'', phase2_failed k i s3))"
  by (simp only: run_ev.simps Let_def assms option.case with_entry_def first_phase_def)

lemma run_evs_ok:
  "(\<And>e s. e \<in> set evs \<Longrightarrow> iinv {} s \<Longrightarrow> event_ok e s) \<Longrightarrow> iinv {} s \<Longrightarrow> iinv {} (run_evs evs s) \<and> keeps_entries s (run_evs evs s)"
proof (induction evs arbitrary: s)
  case Nil
  then show ?case by (simp add: entries_refl)
next
  case (Cons e evs)
  have e: "iinv {} (snd (run_ev e s))" "keeps_entries s (snd (run_ev e s))" using Cons.prems by (simp_all add: event_ok_def)
  have "iinv {} (run_evs evs (snd (run_ev e s))) \<and> keeps_entries (snd (run_ev e s)) (run_evs evs (snd (run_ev e s)))"
    by (rule Cons.IH) (use Cons.prems(1) e(1) in auto)
  then show ?case using entries_trans [OF e(2)] by simp
qed

lemma only_entry_keeps: "only_entry k s u \<Longrightarrow> entry_interp s k = None \<Longrightarrow> keeps_entries s u"
  unfolding only_entry_def keeps_entries_def by metis

lemma keeps_only: "only_entry k s t \<Longrightarrow> keeps_entries t u \<Longrightarrow> entry_interp s k = None \<Longrightarrow> keeps_entries s u"
  unfolding only_entry_def keeps_entries_def by metis

lemma call_key_trusted: "(trusted \<longrightarrow> uid \<noteq> 0) \<Longrightarrow> (call_key trusted uid \<noteq> 0) = trusted"
  by (auto simp: call_key_def)

text \<open>The call makes an interpreter.\<close>

lemma call_new:
  assumes inv: "iinv {} s" and u: "trusted \<longrightarrow> uid \<noteq> 0" and n: "entry_interp s (call_key trusted uid) = None"
    and evs: "\<And>t. iinv {} t \<Longrightarrow> iinv {} (run_evs evs t) \<and> keeps_entries t (run_evs evs t)"
  shows "event_ok (Call trusted uid ok1 ok2 evs okinit okident) s"
proof -
  let ?k = "call_key trusted uid"
  have tr: "trusted = (?k \<noteq> 0)" using call_key_trusted [OF u] by simp
  let ?w = "with_entry trusted ?k s"
  have w: "iinv {} ?w" "\<And>k'. entry_interp ?w k' = entry_interp s k'" "interp_hash ?w ?k \<noteq> None"
    "IsUnderPostmaster ?w = IsUnderPostmaster s" "pllua_ending ?w = pllua_ending s"
    using with_entry_ok [OF inv, where k = ?k] tr by auto
  obtain r s1 where f: "first_phase ok1 ?w = (r, s1)" by fastforce
  note F = first_phase_ok [OF w(1) f]
  have s1: "entry_interp s1 k' = entry_interp s k'" for k' using F w(2) by (simp add: entry_interp_def)
  have o: "only_entry ?k s t" if "only_entry ?k s1 t" for t
    using that F s1 w(4,5) by (simp add: only_entry_def)
  show ?thesis
  proof (cases r)
    case None
    then have "iinv {} s1" "keeps_entries s s1" using F s1 w by (simp_all add: keeps_entries_def)
    then show ?thesis by (simp add: event_ok_def run_call_new [OF n] f None s1 del: run_ev.simps)
  next
    case (Some i)
    have i: "iinv {i} s1" "i_open (interps s1 i)" "i_mcxt (interps s1 i)"
      "ident_text (reload_ident s1) \<noteq> [] \<longrightarrow> seen_ident (interps s1 i) = ident_text (reload_ident s1)"
      using F Some by auto
    obtain e where e: "interp_hash s1 ?k = Some e" using F w(3) by auto
    then have "h_interp e = None" using s1 [of ?k] n by (simp add: entry_interp_def)
    note S = setup_ok [OF i e this]
    let ?s2 = "upd_i i (\<lambda>t. t\<lparr>user_id := ?k\<rparr>) s1"
    let ?p = "phase2_setup ?k i trusted ?s2"
    let ?s3 = "run_evs evs ?p"
    have p: "iinv {} ?p" "entry_interp ?p ?k = Some i" "only_entry ?k s ?p"
      using S(1,2) o [OF S(3)] tr by simp_all
    have s3: "iinv {} ?s3" "keeps_entries ?p ?s3" using evs [OF p(1)] by auto
    then have k3: "entry_interp ?s3 ?k = Some i" using p(2) unfolding keeps_entries_def by auto
    have k3': "keeps_entries s ?s3" by (rule keeps_only [OF p(3) s3(2) n])
    have a: "event_ok (Call trusted uid ok1 ok2 evs okinit okident) s" if "\<not> ok2"
      using that S(4) only_entry_keeps [OF o [OF S(5)] n] failed_entry(1) [of ?k i ?s2] n
      by (simp add: event_ok_def run_call_new [OF n] f Some Let_def del: run_ev.simps)
    have b: "event_ok (Call trusted uid ok1 ok2 evs okinit okident) s" if "ok2" "okinit"
      using that s3 k3 k3' by (simp add: event_ok_def run_call_new [OF n] f Some Let_def del: run_ev.simps)
    have c: "event_ok (Call trusted uid ok1 ok2 evs okinit okident) s" if "ok2" "\<not> okinit"
    proof -
      have "keeps_entries s (phase2_failed ?k i ?s3)"
        using k3' failed_entry(2) [of ?k ?s3 i] n unfolding keeps_entries_def only_entry_def by metis
      then show ?thesis using that failed_after_ok [OF s3(1) k3] failed_entry(1) [of ?k i ?s3] n
        by (simp add: event_ok_def run_call_new [OF n] f Some Let_def del: run_ev.simps)
    qed
    show ?thesis using a b c by blast
  qed
qed

lemma run_ok: "valid_ev e \<Longrightarrow> iinv {} s \<Longrightarrow> event_ok e s"
proof (induction e arbitrary: s rule: ev.induct)
  case (Call trusted uid ok1 ok2 evs okinit okident)
  let ?k = "call_key trusted uid"
  have v: "trusted \<longrightarrow> uid \<noteq> 0" "\<And>e. e \<in> set evs \<Longrightarrow> valid_ev e" using Call.prems(1) by (auto simp: list_all_iff)
  show ?case
  proof (cases "entry_interp s ?k")
    case None
    show ?thesis
    proof (rule call_new [OF Call.prems(2) v(1) None])
      fix t assume "iinv {} t"
      then show "iinv {} (run_evs evs t) \<and> keeps_entries t (run_evs evs t)"
        by (intro run_evs_ok) (use Call.IH v(2) in auto)
    qed
  next
    case (Some i)
    note N = set_new_ident_ok [OF Call.prems(2) Some]
    have "entry_interp (pllua_set_new_ident ?k i s) ?k = Some i" using N(2) Some by (auto simp: keeps_entries_def)
    then show ?thesis using Some N(1,2) Call.prems(2) by (simp add: event_ok_def entries_refl Let_def)
  qed
next
  case (SetOnInit oks v)
  then show ?case using set_on_init_ok [of s oks v] same_env_keeps by (simp add: event_ok_def)
next
  case (SetIdent oks v)
  then show ?case using set_ident_ok [of s oks v] by (simp add: event_ok_def)
qed

lemma runs_ok: "list_all valid_ev evs \<Longrightarrow> iinv {} s \<Longrightarrow> iinv {} (run_evs evs s) \<and> keeps_entries s (run_evs evs s)"
  by (rule run_evs_ok) (auto intro: run_ok simp: list_all_iff)

subsection \<open>Start and end\<close>

lemma start_ok: "iinv {} (PG_init oks oninit ident n child)"
proof -
  have s: "iinv {} ((start_state n)\<lparr>on_init := oninit, reload_ident := ident, IsUnderPostmaster := child\<rparr>)"
    by (simp add: iinv_def start_state_def entry_interp_def)
  show ?thesis using create_ok [OF s, of ident] s unfolding PG_init_def Let_def pllua_create_held_states_def by auto
qed

subsection \<open>The states of a backend\<close>

text \<open>The postmaster, and a server of a single user, only differ from a backend in \<open>IsUnderPostmaster\<close>.\<close>

inductive postmaster :: "ist \<Rightarrow> bool" where
  preload: "postmaster (PG_init oks oninit ident n False)"
| on_init: "postmaster s \<Longrightarrow> postmaster (set_on_init oks v s)"
| reload_ident: "postmaster s \<Longrightarrow> postmaster (set_reload_ident oks v s)"

inductive backend :: "ist \<Rightarrow> bool" where
  load: "backend (PG_init oks oninit ident n True)"
| fork: "postmaster s \<Longrightarrow> backend (fork s)"
| single: "postmaster s \<Longrightarrow> backend s"
| event: "backend s \<Longrightarrow> valid_ev e \<Longrightarrow> backend (snd (run_ev e s))"

definition no_entries :: "ist \<Rightarrow> bool" where
  "no_entries s \<longleftrightarrow> (\<forall>k. interp_hash s k = None)"

lemma create_hash: "interp_hash (create_held n oks ident s) = interp_hash s \<and> pllua_ending (create_held n oks ident s) = pllua_ending s"
proof (induction n arbitrary: oks s)
  case (Suc n)
  have p: "interp_hash (snd (pllua_newstate_phase1 ok ident s)) = interp_hash s"
    "pllua_ending (snd (pllua_newstate_phase1 ok ident s)) = pllua_ending s" for ok
    by (simp_all add: pllua_newstate_phase1_def Let_def lua_close_def)
  obtain r u where r: "pllua_newstate_phase1 (case oks of [] \<Rightarrow> True | ok # _ \<Rightarrow> ok) ident s = (r, u)" by fastforce
  show ?case using Suc [of "tl oks" "u\<lparr>held_states := the r # held_states u\<rparr>"] p [of "case oks of [] \<Rightarrow> True | ok # _ \<Rightarrow> ok"] r
    by (cases r) simp_all
qed simp

lemma destroy_hash: "iinv P s \<Longrightarrow> interp_hash (pllua_destroy_held_states s) = interp_hash s"
  using destroy_ok [of P s] by (simp add: same_env_def)

lemma postmaster_ok: "postmaster s \<Longrightarrow> iinv {} s \<and> no_entries s \<and> \<not> pllua_ending s"
proof (induction rule: postmaster.induct)
  case (preload oks oninit ident n)
  show ?case using start_ok [of oks oninit ident n False]
    by (simp add: PG_init_def Let_def pllua_create_held_states_def create_hash no_entries_def start_state_def)
next
  case (on_init s oks v)
  then show ?case using set_on_init_ok [of s oks v] by (simp add: same_env_def no_entries_def)
next
  case (reload_ident s oks v)
  then have "iinv {} (set_reload_ident oks v s) \<and> keeps_entries s (set_reload_ident oks v s)" by (intro set_ident_ok) blast
  moreover have "no_entries (set_reload_ident oks v s)"
    using reload_ident destroy_hash [of "{}" s]
    by (auto simp: no_entries_def set_reload_ident_def pllua_assign_reload_ident_def Let_def pllua_create_held_states_def create_hash)
  ultimately show ?case using reload_ident by (simp add: keeps_entries_def)
qed

lemma fork_ok:
  assumes "iinv {} s" "no_entries s"
  shows "iinv {} (fork s)"
proof -
  note D = iinvD [OF assms(1)]
  have n: "interp_hash s k = None" "entry_interp s k = None" "entry_interp (fork s) k = None" for k
    using assms(2) by (simp_all add: no_entries_def entry_interp_def fork_def)
  show ?thesis
    unfolding iinv_def
  proof (intro conjI allI ballI impI)
    fix i assume "i \<in> set (held_states (fork s))"
    then show "held_ok (fork s) i" using D(6) [of i] by (simp add: fork_def held_ok_def)
  next
    fix i assume "i_open (interps (fork s) i) \<or> i_mcxt (interps (fork s) i)"
    then show "i < inext (fork s)" "i \<in> {} \<or> i \<in> set (held_states (fork s)) \<or> (\<exists>k. entry_interp (fork s) k = Some i)"
      using D(8,9) [of i] n by (simp_all add: fork_def)
  qed (use D(1,5) n in \<open>simp_all add: fork_def\<close>)
qed

lemma backend_ok: "backend s \<Longrightarrow> iinv {} s \<and> \<not> pllua_ending s"
proof (induction rule: backend.induct)
  case (load oks oninit ident n)
  then show ?case using start_ok [of oks oninit ident n True] by (simp add: PG_init_def Let_def start_state_def)
next
  case (fork s)
  then have "iinv {} s" "no_entries s" "\<not> pllua_ending s" using postmaster_ok by blast+
  then show ?case using fork_ok [of s] by (simp add: fork_def)
next
  case (single s)
  then show ?case using postmaster_ok by blast
next
  case (event s e)
  then show ?case using run_ok [of e s] by (auto simp: event_ok_def keeps_entries_def)
qed

subsection \<open>The end\<close>

lemma close_entries:
  "\<not> bad s \<Longrightarrow> \<not> bad (fold close_entry ks s) \<and>
   (\<forall>i. i_open (interps (fold close_entry ks s) i) \<longrightarrow> i_open (interps s i) \<and> (\<forall>k \<in> set ks. entry_interp s k \<noteq> Some i))"
proof (induction ks arbitrary: s)
  case (Cons k ks)
  have e: "entry_interp (close_entry k s) k' = entry_interp s k'" for k'
    by (simp add: close_entry_def lua_close_def split: option.split)
  have b: "\<not> bad (close_entry k s)" using Cons.prems by (simp add: close_entry_def lua_close_def split: option.split)
  have o: "i_open (interps (close_entry k s) i) \<Longrightarrow> i_open (interps s i) \<and> entry_interp s k \<noteq> Some i" for i
    by (auto simp: close_entry_def lua_close_def split: option.splits if_splits)
  from Cons.IH [OF b] show ?case using o by (auto simp: e)
qed simp

lemma fini_ok:
  assumes "iinv {} s" "\<not> pllua_ending s" "\<And>k i. entry_interp s k = Some i \<Longrightarrow> k \<in> set users"
  shows "\<not> bad (pllua_fini 0 users s)" "\<not> i_open (interps (pllua_fini 0 users s) i)" "pllua_ending (pllua_fini 0 users s)"
proof -
  let ?t = "s\<lparr>pllua_ending := True\<rparr>"
  have "iinv {} ?t" using assms(1) by (simp add: iinv_def entry_interp_def entry_ok_def held_ok_def)
  note d = destroy_ok [OF this]
  let ?d = "pllua_destroy_held_states ?t"
  have D: "\<not> bad ?d" "\<And>i. i_open (interps ?d i) \<Longrightarrow> \<exists>k. entry_interp ?d k = Some i" "\<And>k. entry_interp ?d k = entry_interp s k"
    using d iinvD(1,9) [of "{}" ?d] by (auto simp: same_env_def entry_interp_def)
  have f: "pllua_fini 0 users s = fold close_entry users ?d" using assms(2) by (simp add: pllua_fini_def)
  note C = close_entries [OF D(1), of users]
  show "\<not> bad (pllua_fini 0 users s)" using C f by simp
  show "\<not> i_open (interps (pllua_fini 0 users s) i)"
  proof
    assume "i_open (interps (pllua_fini 0 users s) i)"
    then have o: "i_open (interps ?d i)" "\<forall>k \<in> set users. entry_interp ?d k \<noteq> Some i" using C f by auto
    from D(2) [OF o(1)] obtain k where "entry_interp ?d k = Some i" by blast
    then show False using o(2) assms(3) [of k i] D(3) by auto
  qed
  have "pllua_ending (close_entry k u) = pllua_ending u" for k u by (simp add: close_entry_def lua_close_def split: option.split)
  then have "pllua_ending (fold close_entry ks u) = pllua_ending u" for ks u by (induction ks arbitrary: u) simp_all
  then show "pllua_ending (pllua_fini 0 users s)" using d f by (simp add: same_env_def)
qed

end
