(* ===== verification/Interp_Props.thy ===== *)
theory Interp_Props
  imports Interp_Inv
begin

text \<open>
  Properties of the interpreters of a session (Interp), over all states that a backend can reach
  (\<open>backend\<close>, Interp_Inv).
\<close>

lemma backend_call:
  assumes "backend s" "valid_ev e" "run_ev e s = (r, u)"
  shows "iinv {} u" "keeps_entries s u" "ev_result e s r u"
  using run_ok [of e s] backend_ok [OF assms(1)] assms(2,3) by (auto simp: event_ok_def)

text \<open>A backend of a postmaster that holds one state ready, and a call that makes two interpreters.\<close>

definition demo :: ist where
  "demo = fork (PG_init [] None (Some ''a'') 1 False)"

definition demo_call :: ev where
  "demo_call = Call True 10 True True [Call False 10 True True [] True True] True True"

lemma demo_backend: "backend demo"
  unfolding demo_def by (intro backend.fork postmaster.preload)

lemmas demo_eval = demo_def demo_call_def fork_def PG_init_def start_state_def pllua_create_held_states_def pllua_newstate_phase1_def
  Let_def entry_interp_def call_key_def phase2_setup_def phase2_failed_def eval_nat_numeral lua_close_def ident_text_def

lemma demo_called: "run_ev demo_call demo = (Inr (Some 0), snd (run_ev demo_call demo))"
  by (simp add: demo_eval)

lemma demo_called_backend: "backend (snd (run_ev demo_call demo))"
  by (rule backend.event [OF demo_backend]) (simp add: demo_call_def)

text \<open>C37. The interpreter that a call gets is open, ready for the database, and made for the caller: a
  trusted one that belongs to the user for trusted code, the one untrusted one for untrusted code.
  It is the interpreter of no one else, and whatever happens later in the session, code of the same
  user gets it again.
\<close>

theorem calls_get_their_own_interpreter:
  assumes "backend s" "valid_ev (Call trusted uid ok1 ok2 evs okinit okident)"
    and "run_ev (Call trusted uid ok1 ok2 evs okinit okident) s = (Inr (Some i), u)" and "list_all valid_ev later"
  shows "i_open (interps u i) \<and> db_ready (interps u i) \<and> i_trusted (interps u i) = trusted \<and>
    user_id (interps u i) = (if trusted then uid else 0) \<and> \<not> bad (run_evs later u) \<and>
    (\<forall>k. entry_interp (run_evs later u) k = Some i \<longleftrightarrow> k = call_key trusted uid)"
proof -
  let ?k = "call_key trusted uid"
  note C = backend_call [OF assms(1-3)]
  have e: "entry_interp u ?k = Some i" using C(3) by simp
  have o: "entry_ok u ?k i" by (rule iinvD(3) [OF C(1) e])
  have L: "iinv {} (run_evs later u)" "entry_interp (run_evs later u) ?k = Some i"
    using runs_ok [OF assms(4) C(1)] e by (auto simp: keeps_entries_def)
  have "k = ?k" if "entry_interp (run_evs later u) k = Some i" for k
    using iinvD(3) [OF L(1) that] iinvD(3) [OF L] by (simp add: entry_ok_def)
  then have iff: "entry_interp (run_evs later u) k = Some i \<longleftrightarrow> k = ?k" for k using L(2) by blast
  have "?k = (if trusted then uid else 0)" "(?k \<noteq> 0) = trusted" using assms(2) by (simp_all add: call_key_def)
  then show ?thesis using o iinvD(1) [OF L(1)] unfolding iff entry_ok_def by simp
qed

theorem calls_get_their_own_interpreter_witness:
  "i_trusted (interps (snd (run_ev demo_call demo)) 0) \<and> user_id (interps (snd (run_ev demo_call demo)) 0) = 10 \<and>
   (\<forall>k. entry_interp (run_evs [demo_call, SetIdent [] (Some ''b'')] (snd (run_ev demo_call demo))) k = Some 0 \<longleftrightarrow> k = 10)"
  using calls_get_their_own_interpreter [OF demo_backend _ demo_called [unfolded demo_call_def],
      of "[demo_call, SetIdent [] (Some ''b'')]"]
  by (simp add: demo_call_def call_key_def del: run_ev.simps run_evs.simps)



text \<open>C39. In a backend, once an identification is set, every interpreter shows it to Lua code by the
  time a call gets it, whether the interpreter was made before or after the setting changed; if
  telling it fails, the next call tries again.
\<close>

theorem identification_reaches_the_interpreter:
  assumes "backend s" "IsUnderPostmaster s" "ident_text (reload_ident s) \<noteq> []"
    and "valid_ev (Call trusted uid ok1 ok2 evs okinit okident)" "entry_interp s (call_key trusted uid) \<noteq> None \<or> evs = []"
  shows "case run_ev (Call trusted uid ok1 ok2 evs okinit okident) s of
      (Inr (Some i), u) \<Rightarrow> seen_ident (interps u i) = ident_text (reload_ident s)
    | (Inr None, u) \<Rightarrow> False
    | (Inl msg, u) \<Rightarrow> entry_interp s (call_key trusted uid) \<noteq> None \<longrightarrow> u = s \<and> new_ident (the (interp_hash s (call_key trusted uid)))"
proof -
  let ?k = "call_key trusted uid"
  have inv: "iinv {} s" using backend_ok [OF assms(1)] by blast
  show ?thesis
  proof (cases "entry_interp s ?k")
    case (Some i)
    have "entry_ok s ?k i" by (rule iinvD(3) [OF inv Some])
    then show ?thesis using Some assms(2,3) set_new_ident_ok(3) [OF inv Some] by (auto simp: Let_def entry_ok_def seen_ident_def)
  next
    case None
    have evs: "evs = []" using assms(5) None by blast
    have tr: "trusted = (?k \<noteq> 0)" using call_key_trusted [of trusted uid] assms(4) by auto
    let ?w = "with_entry trusted ?k s"
    have w: "iinv {} ?w" "interp_hash ?w ?k \<noteq> None" "entry_interp ?w ?k = None" "reload_ident ?w = reload_ident s"
      using with_entry_ok [OF inv, where k = ?k] tr None by auto
    obtain r s1 where f: "first_phase ok1 ?w = (r, s1)" by fastforce
    note F = first_phase_ok [OF w(1) f]
    show ?thesis
    proof (cases r)
      case None
      then show ?thesis using \<open>entry_interp s ?k = None\<close> by (simp add: run_call_new [OF \<open>entry_interp s ?k = None\<close>] f del: run_ev.simps)
    next
      case (Some i)
      have i: "iinv {i} s1" "i_open (interps s1 i)" "i_mcxt (interps s1 i)"
        "ident_text (reload_ident s1) \<noteq> [] \<longrightarrow> seen_ident (interps s1 i) = ident_text (reload_ident s1)"
        using F Some by auto
      obtain e where e: "interp_hash s1 ?k = Some e" using F w(2) by auto
      then have "h_interp e = None" using F w(3) by (auto simp: entry_interp_def)
      note S = setup_ok [OF i e this]
      show ?thesis using S(7) i(4) F w(4) assms(3) tr evs None Some
        by (simp add: run_call_new [OF None] f Let_def del: run_ev.simps)
    qed
  qed
qed

theorem identification_reaches_the_interpreter_witness:
  "\<exists>u. run_ev demo_call (run_evs [demo_call, SetIdent [] (Some ''b'')] demo) = (Inr (Some 0), u) \<and>
     seen_ident (interps u 0) = ''b''"
proof -
  let ?s = "run_evs [demo_call, SetIdent [] (Some ''b'')] demo"
  have b: "backend ?s" using backend.event [OF demo_called_backend, of "SetIdent [] (Some ''b'')"] by simp
  have e: "IsUnderPostmaster ?s" "reload_ident ?s = Some ''b''" "entry_interp ?s (call_key True 10) = Some 0"
    by (simp_all add: demo_eval set_reload_ident_def pllua_assign_reload_ident_def pllua_destroy_held_states_def)
  have r: "run_ev demo_call ?s = (Inr (Some 0), snd (run_ev demo_call ?s))"
    using e(3) by (simp add: demo_call_def Let_def del: run_evs.simps)
  have "case run_ev demo_call ?s of
      (Inr (Some i), u) \<Rightarrow> seen_ident (interps u i) = ident_text (reload_ident ?s)
    | (Inr None, u) \<Rightarrow> False
    | (Inl msg, u) \<Rightarrow> entry_interp ?s (call_key True 10) \<noteq> None \<longrightarrow> u = ?s \<and> new_ident (the (interp_hash ?s (call_key True 10)))"
    unfolding demo_call_def
    by (rule identification_reaches_the_interpreter [OF b [unfolded demo_call_def] e(1) [unfolded demo_call_def]])
      (use e in \<open>simp_all add: demo_call_def ident_text_def del: run_evs.simps run_ev.simps\<close>)
  with r e(2) show ?thesis
    by (intro exI [of _ "snd (run_ev demo_call ?s)"]) (simp add: ident_text_def split: prod.splits del: run_evs.simps run_ev.simps)
qed



end
