(* ===== verification/Typecache.thy ===== *)
theory Typecache
  imports Prelude
begin

text \<open>
  The cache of type information, src/src/datum.c and the invalidation callbacks of
  src/src/init.c: one typeinfo object per type, which Lua code and every value of the type refer
  to; PostgreSQL's catalog may change, then objects are marked and on the next use either kept
  (the new information is the same) or replaced.  The catalog is a parameter.
\<close>

subsection \<open>Types\<close>

definition RECORDOID :: nat where "RECORDOID = 2249"

record att =
  attname :: string
  attisdropped :: bool
  atttypid :: nat
  atttypmod :: int

text \<open>
  What the catalog says of a type.  \<open>'f\<close> is what is compared but not interpreted here: length,
  alignment, delimiter, output function.
\<close>

record 'f cattype =
  c_basetype :: nat
  c_desc :: "att list option"
  c_relid :: nat
  c_elem :: nat
  c_range :: nat
  c_props :: 'f
  c_fromsql :: nat
  c_tosql :: nat

type_synonym 'f catalog = "nat \<Rightarrow> int \<Rightarrow> 'f cattype option"

record 'f tinfo =
  typeoid :: nat
  typmod :: int
  arity :: nat
  natts :: int
  tupdesc :: "att list option"
  reloid :: nat
  basetype :: nat
  elemtype :: nat
  rangetype :: nat
  props :: 'f
  fromsql :: nat
  tosql :: nat
  is_anonymous_record :: bool
  nested_unknowns :: bool
  nested_composites :: bool
  revalidate :: bool
  t_modified :: bool
  obsolete :: bool
  u_basetype :: "nat option"
  u_attrtypes :: "nat option list"
  u_elemtype :: "nat option"

text \<open>The objects, numbered in the order they are made, and the two tables of the registry.\<close>

record 'f tst =
  tinfos :: "nat \<Rightarrow> 'f tinfo"
  tnext :: nat
  reg_types :: "nat \<Rightarrow> nat option"
  reg_records :: "int \<Rightarrow> nat option"

definition upd_t :: "nat \<Rightarrow> ('f tinfo \<Rightarrow> 'f tinfo) \<Rightarrow> 'f tst \<Rightarrow> 'f tst" where
  "upd_t o' f s = s\<lparr>tinfos := (tinfos s)(o' := f (tinfos s o'))\<rparr>"

subsection \<open>Making a typeinfo\<close>

definition live_atts :: "att list \<Rightarrow> att list" where
  "live_atts as = filter (\<lambda>a. \<not> attisdropped a) as"

text \<open>What comes from the catalog.\<close>

definition newtypeinfo_base :: "nat \<Rightarrow> int \<Rightarrow> 'f cattype \<Rightarrow> 'f tinfo" where
  "newtypeinfo_base oid tm c =
     \<lparr>typeoid = oid, typmod = tm,
      arity = (case c_desc c of None \<Rightarrow> 1 | Some as \<Rightarrow> length (live_atts as)),
      natts = (case c_desc c of None \<Rightarrow> - 1 | Some as \<Rightarrow> int (length as)),
      tupdesc = c_desc c, reloid = c_relid c, basetype = c_basetype c, elemtype = c_elem c, rangetype = c_range c,
      props = c_props c, fromsql = c_fromsql c, tosql = c_tosql c,
      is_anonymous_record = (oid = RECORDOID \<and> c_desc c = None),
      nested_unknowns = (case c_desc c of None \<Rightarrow> False
                         | Some as \<Rightarrow> list_ex (\<lambda>a. atttypid a = RECORDOID \<and> atttypmod a < 0) (live_atts as)),
      nested_composites = False, revalidate = False, t_modified = False, obsolete = False,
      u_basetype = None, u_attrtypes = [], u_elemtype = None\<rparr>"

type_synonym 'f tlook = "nat \<Rightarrow> int \<Rightarrow> 'f tst \<Rightarrow> (string + nat option) \<times> 'f tst"

text \<open>The typeinfos of the columns, looked up now because they may be replaced later.\<close>

fun attr_types :: "'f tlook \<Rightarrow> nat \<Rightarrow> att list \<Rightarrow> 'f tst \<Rightarrow> (string + nat option list) \<times> 'f tst" where
  "attr_types look x [] s = (Inr [], s)"
| "attr_types look x (a # as) s =
     (if attisdropped a
      then (case attr_types look x as s of (Inr es, s') \<Rightarrow> (Inr (None # es), s') | r \<Rightarrow> r)
      else
        case look (atttypid a) (if atttypid a \<noteq> RECORDOID then - 1 else atttypmod a) s of
          (Inl m, s1) \<Rightarrow> (Inl m, s1)
        | (Inr None, s1) \<Rightarrow> (Inl ''failed to find attribute type info for column'', s1)
        | (Inr (Some e), s1) \<Rightarrow>
            let et = tinfos s1 e;
                s2 = upd_t x (\<lambda>t. t\<lparr>nested_unknowns := nested_unknowns t \<or> nested_unknowns et,
                       nested_composites := nested_composites t \<or> nested_composites et \<or>
                         natts et \<ge> 0 \<and> typeoid et \<noteq> RECORDOID\<rparr>) s1 in
            (case attr_types look x as s2 of (Inr es, s') \<Rightarrow> (Inr (Some e # es), s') | r \<Rightarrow> r))"

definition pllua_newtypeinfo_raw :: "'f catalog \<Rightarrow> 'f tlook \<Rightarrow> nat \<Rightarrow> int \<Rightarrow> 'f tst \<Rightarrow> (string + nat option) \<times> 'f tst" where
  "pllua_newtypeinfo_raw cat look oid tm s =
     (case cat oid tm of
        None \<Rightarrow> (Inr None, s)
      | Some c \<Rightarrow>
          let x = tnext s; s0 = s\<lparr>tinfos := (tinfos s)(x := newtypeinfo_base oid tm c), tnext := Suc x\<rparr>;
              (rb, s1) = (if c_basetype c \<noteq> oid then look (c_basetype c) (- 1) s0 else (Inr None, s0)) in
          case rb of Inl m \<Rightarrow> (Inl m, s1)
          | Inr b \<Rightarrow>
            let (ra, s2) = (case c_desc c of None \<Rightarrow> (Inr [], s1) | Some as \<Rightarrow> attr_types look x as s1) in
            case ra of Inl m \<Rightarrow> (Inl m, s2)
            | Inr es \<Rightarrow>
              let (re, s3) = (if c_range c \<noteq> 0 then look (c_range c) (- 1) s2
                              else if c_elem c \<noteq> 0 then look (c_elem c) (- 1) s2 else (Inr None, s2)) in
              case re of Inl m \<Rightarrow> (Inl m, s3)
              | Inr e \<Rightarrow> (Inr (Some x), upd_t x (\<lambda>t. t\<lparr>u_basetype := b, u_attrtypes := es, u_elemtype := e\<rparr>) s3))"

subsection \<open>Looking up\<close>

definition pllua_typeinfo_eq :: "'f tinfo \<Rightarrow> 'f tinfo \<Rightarrow> bool" where
  "pllua_typeinfo_eq t u \<longleftrightarrow>
     typeoid t = typeoid u \<and> typmod t = typmod u \<and> arity t = arity u \<and> natts t = natts u \<and> tupdesc t = tupdesc u \<and>
     reloid t = reloid u \<and> basetype t = basetype u \<and> elemtype t = elemtype u \<and> props t = props u \<and>
     (natts t > 0 \<longrightarrow> u_attrtypes t = u_attrtypes u)"

definition is_rec :: "nat \<Rightarrow> int \<Rightarrow> bool" where
  "is_rec oid tm \<longleftrightarrow> oid = RECORDOID \<and> tm \<ge> 0"

definition interned :: "nat \<Rightarrow> int \<Rightarrow> 'f tst \<Rightarrow> nat option" where
  "interned oid tm s = (if is_rec oid tm then reg_records s tm else reg_types s oid)"

definition intern :: "nat \<Rightarrow> int \<Rightarrow> nat option \<Rightarrow> 'f tst \<Rightarrow> 'f tst" where
  "intern oid tm v s =
     (if is_rec oid tm then s\<lparr>reg_records := (reg_records s)(tm := v)\<rparr> else s\<lparr>reg_types := (reg_types s)(oid := v)\<rparr>)"

definition lookup_with :: "'f catalog \<Rightarrow> 'f tlook \<Rightarrow> 'f tlook" where
  "lookup_with cat look oid tm s =
     (if oid = 0 then (Inr None, s)
      else
        let cur = interned oid tm s in
        if (case cur of None \<Rightarrow> False | Some x \<Rightarrow> \<not> revalidate (tinfos s x)) then (Inr cur, s)
        else
          case pllua_newtypeinfo_raw cat look oid tm s of
            (Inl m, s1) \<Rightarrow> (Inl m, s1)
          | (Inr new, s1) \<Rightarrow>
              (case (cur, new) of
                 (Some x, Some y) \<Rightarrow>
                   if pllua_typeinfo_eq (tinfos s1 x) (tinfos s1 y)
                   then (Inr (Some x),
                         upd_t x (\<lambda>t. t\<lparr>fromsql := fromsql (tinfos s1 y), tosql := tosql (tinfos s1 y), revalidate := False\<rparr>) s1)
                   else (Inr (Some y), intern oid tm (Some y) (upd_t x (\<lambda>t. t\<lparr>t_modified := True, revalidate := False\<rparr>) s1))
               | (Some x, None) \<Rightarrow>
                   (Inr None, intern oid tm None (upd_t x (\<lambda>t. t\<lparr>obsolete := True, revalidate := False\<rparr>) s1))
               | (None, _) \<Rightarrow> (Inr new, intern oid tm new s1)))"

text \<open>The types of columns, elements and bases are looked up in turn; the first argument bounds how far.\<close>

primrec pllua_typeinfo_lookup :: "'f catalog \<Rightarrow> nat \<Rightarrow> 'f tlook" where
  "pllua_typeinfo_lookup cat 0 = (\<lambda>oid tm s. (Inl ''stack depth'', s))"
| "pllua_typeinfo_lookup cat (Suc n) = lookup_with cat (pllua_typeinfo_lookup cat n)"

definition pllua_checktypeinfo :: "'f catalog \<Rightarrow> nat \<Rightarrow> bool \<Rightarrow> nat \<Rightarrow> 'f tst \<Rightarrow> (string + nat) \<times> 'f tst" where
  "pllua_checktypeinfo cat n rv x s =
     (let t = tinfos s x in
      if \<not> rv \<or> \<not> revalidate t \<or> obsolete t \<or> t_modified t then (Inr x, s)
      else case pllua_typeinfo_lookup cat n (typeoid t) (typmod t) s of
        (Inl m, s1) \<Rightarrow> (Inl m, s1)
      | (Inr r, s1) \<Rightarrow> (Inr x, s1))"

subsection \<open>Invalidation\<close>

record cache_inval =
  inval_type :: bool
  inval_rel :: bool
  inval_cast :: bool
  inval_typeoid :: nat
  inval_reloid :: nat

definition mark :: "(nat \<Rightarrow> 'f tinfo \<Rightarrow> bool) \<Rightarrow> 'f tst \<Rightarrow> 'f tst" where
  "mark P s = s\<lparr>tinfos := (\<lambda>x. let t = tinfos s x in
     if P x t then t\<lparr>revalidate := True\<rparr> else t)\<rparr>"

text \<open>The table of types is traversed, the table of records is not.\<close>

definition in_types :: "'f tst \<Rightarrow> nat \<Rightarrow> bool" where
  "in_types s x \<longleftrightarrow> (reg_types s (typeoid (tinfos s x)) = Some x)"

definition pllua_typeinfo_invalidate :: "cache_inval \<Rightarrow> 'f tst \<Rightarrow> 'f tst" where
  "pllua_typeinfo_invalidate v s =
     (let s1 = (if inval_type v then
                  if inval_typeoid v \<noteq> 0
                  then mark (\<lambda>x t. reg_types s (inval_typeoid v) = Some x) s
                  else mark (\<lambda>x t. in_types s x) s
                else s) in
      if inval_rel v then mark (\<lambda>x t. in_types s1 x \<and> reloid t = inval_reloid v) s1 else s1)"

definition no_inval :: cache_inval where
  "no_inval = \<lparr>inval_type = False, inval_rel = False, inval_cast = False, inval_typeoid = 0, inval_reloid = 0\<rparr>"

definition pllua_relcache_callback :: "nat \<Rightarrow> 'f tst \<Rightarrow> 'f tst" where
  "pllua_relcache_callback relid = pllua_typeinfo_invalidate (no_inval\<lparr>inval_rel := True, inval_reloid := 0\<rparr>)"

definition pllua_syscache_typeoid_callback :: "'f tst \<Rightarrow> 'f tst" where
  "pllua_syscache_typeoid_callback = pllua_typeinfo_invalidate (no_inval\<lparr>inval_type := True, inval_typeoid := 0\<rparr>)"

end
