(* ===== verification/Datum_Cast.thy ===== *)
theory Datum_Cast
  imports Typecache
begin

text \<open>
  Making rows and casting them, src/src/datum.c: the constructor of a row type, and the cast from
  one row type to another, which takes a row apart, leaves columns out, adds some and calls the
  constructor.  What concerns the types of the columns is a parameter.
\<close>

subsection \<open>The constructor of a row type\<close>

text \<open>
  The types of columns: what a Lua value is as an unmodified datum of the type, the modifier that a
  datum carries, the type's constructor (it may give nil), the coercion to a modifier, and the
  fields of a table or object that is not a datum.
\<close>

record ('v, 'd) rowenv =
  as_datum :: "nat \<times> int \<Rightarrow> 'v \<Rightarrow> 'd option"
  datum_typmod :: "'d \<Rightarrow> int"
  construct :: "nat \<times> int \<Rightarrow> 'v \<Rightarrow> string + 'v option"
  coerce_typmod :: "nat \<Rightarrow> int \<Rightarrow> 'd option \<Rightarrow> string + 'd option"
  getfield :: "'v \<Rightarrow> (string \<Rightarrow> 'v option) option"

definition col_key :: "att \<Rightarrow> nat \<times> int" where
  "col_key a = (atttypid a, if atttypid a = RECORDOID then atttypmod a else - 1)"

text \<open>One column: nil, a datum of the column's type, or what its constructor makes of the value.\<close>

definition row_col :: "('v, 'd) rowenv \<Rightarrow> att \<Rightarrow> 'v option \<Rightarrow> string + 'd option" where
  "row_col env a v =
     bindR (case v of
              None \<Rightarrow> Inr None
            | Some x \<Rightarrow>
                (case as_datum env (col_key a) x of
                   Some d \<Rightarrow> Inr (Some d)
                 | None \<Rightarrow>
                     bindR (construct env (col_key a) x) (\<lambda>r.
                       case r of
                         None \<Rightarrow> Inl ''inconsistency''
                       | Some y \<Rightarrow> (case as_datum env (col_key a) y of None \<Rightarrow> Inl ''inconsistency'' | Some d \<Rightarrow> Inr (Some d)))))
       (\<lambda>d. if atttypid a \<noteq> RECORDOID \<and> atttypmod a \<ge> 0 \<and> (case d of None \<Rightarrow> True | Some d' \<Rightarrow> atttypmod a \<noteq> datum_typmod env d')
            then coerce_typmod env (atttypid a) (atttypmod a) d else Inr d)"

text \<open>The columns in turn; dropped ones are null and take no argument.\<close>

fun row_cols :: "('v, 'd) rowenv \<Rightarrow> att list \<Rightarrow> 'v option list \<Rightarrow> string + 'd option list" where
  "row_cols env [] vs = Inr []"
| "row_cols env (a # as) vs =
     (if attisdropped a then bindR (row_cols env as vs) (\<lambda>ds. Inr (None # ds))
      else bindR (row_col env a (hd vs)) (\<lambda>d. bindR (row_cols env as (tl vs)) (\<lambda>ds. Inr (d # ds))))"

abbreviation arity_of :: "att list \<Rightarrow> nat" where "arity_of as \<equiv> length (live_atts as)"

definition pllua_typeinfo_push_from_table :: "(string \<Rightarrow> 'v option) \<Rightarrow> att list \<Rightarrow> 'v option list" where
  "pllua_typeinfo_push_from_table f as = map (\<lambda>a. f (attname a)) (live_atts as)"

text \<open>A single table or object stands for its fields, no argument or a single nil for a row of nulls.\<close>

definition pllua_typeinfo_row_call :: "('v, 'd) rowenv \<Rightarrow> att list \<Rightarrow> 'v option list \<Rightarrow> string + 'd option list" where
  "pllua_typeinfo_row_call env as args =
     (let args1 = (case args of
                     [None] \<Rightarrow> []
                   | [Some x] \<Rightarrow> (case getfield env x of Some f \<Rightarrow> pllua_typeinfo_push_from_table f as | None \<Rightarrow> args)
                   | _ \<Rightarrow> args) in
      if args1 = [] then row_cols env as (replicate (arity_of as) None)
      else if length args1 \<noteq> arity_of as then Inl ''incorrect number of arguments for type constructor''
      else row_cols env as args1)"

subsection \<open>Casts between row types\<close>

text \<open>
  Lining up the columns: of the source (is it dropped) with those of the destination.  The loop
  goes on to the next column of the destination only when that is dropped.  The result says which
  columns of the source to leave out, and whether it came to the end of the source.
\<close>

fun match_cols :: "bool \<Rightarrow> bool list \<Rightarrow> bool list \<Rightarrow> bool list \<times> bool" where
  "match_cols same [] ds = ([], True)"
| "match_cols same (s # ss) [] = ([], False)"
| "match_cols same (s # ss) (d # ds) =
     (if s then (let (fs, ok) = match_cols same ss (if same \<and> d then ds else d # ds) in (False # fs, ok))
      else if d then
        if same then (let (fs, ok) = match_cols same ss ds in (True # fs, ok))
        else match_cols same (s # ss) ds
      else (let (fs, ok) = match_cols same ss (d # ds) in (False # fs, ok)))"

datatype cast = CRow "bool list option" | CError

definition pllua_typeconv_create_row :: "bool \<Rightarrow> att list \<Rightarrow> att list \<Rightarrow> cast" where
  "pllua_typeconv_create_row same src dst =
     (let (fs, ok) = match_cols same (map attisdropped src) (map attisdropped dst) in
      if ok then CRow (if list_ex id fs then Some fs else None) else CError)"

text \<open>The values of the source's columns that are neither dropped nor to be left out; null is nil.\<close>

fun push_cols :: "att list \<Rightarrow> bool list \<Rightarrow> 'v option list \<Rightarrow> 'v option list" where
  "push_cols (a # as) (f # fs) (v # vs) = (if attisdropped a \<or> f then push_cols as fs vs else v # push_cols as fs vs)"
| "push_cols _ _ _ = []"

definition pllua_typeconv_row_coerce ::
  "('v, 'd) rowenv \<Rightarrow> att list \<Rightarrow> bool list option \<Rightarrow> att list \<Rightarrow> 'v option list \<Rightarrow> string + 'd option list"
where
  "pllua_typeconv_row_coerce env src droplist dst vs =
     (let args = push_cols src (case droplist of None \<Rightarrow> replicate (length src) False | Some fs \<Rightarrow> fs) vs in
      pllua_typeinfo_row_call env dst (args @ replicate (arity_of dst - length args) None))"

text \<open>The closure that the table of casts has for two row types.\<close>

definition cast_row :: "('v, 'd) rowenv \<Rightarrow> bool \<Rightarrow> att list \<Rightarrow> att list \<Rightarrow> 'v option list \<Rightarrow> string + 'd option list" where
  "cast_row env same src dst vs =
     (case pllua_typeconv_create_row same src dst of
        CRow droplist \<Rightarrow> pllua_typeconv_row_coerce env src droplist dst vs
      | CError \<Rightarrow> Inl ''cannot cast'')"

end
