(* ===== verification/Datum_Cast_Props.thy ===== *)
theory Datum_Cast_Props
  imports Datum_Cast
begin

text \<open>
  The properties of row constructors and of casts between rows (Datum_Cast).
\<close>

subsection \<open>Lining up\<close>

lemma match_stuck: "match_cols True ss (False # ds) = (replicate (length ss) False, True)"
  by (induction ss) auto

definition survives :: "bool list \<Rightarrow> bool list \<Rightarrow> nat \<Rightarrow> bool" where
  "survives ss ds i \<longleftrightarrow> \<not> ss ! i \<and> \<not> ds ! i"

lemma match_cols_spec:
  assumes "length ss \<le> length ds" "\<forall>i < length ss. ss ! i \<longrightarrow> ds ! i"
  shows "\<exists>fs. match_cols True ss ds = (fs, True) \<and> length fs = length ss \<and>
    (\<forall>i < length ss. fs ! i \<longleftrightarrow> \<not> ss ! i \<and> ds ! i \<and> (\<forall>j < i. \<not> survives ss ds j))"
  using assms
proof (induction ss arbitrary: ds)
  case (Cons s ss)
  obtain d ds' where ds: "ds = d # ds'" using Cons.prems(1) by (cases ds) auto
  show ?case
  proof (cases "\<not> s \<and> \<not> d")
    case True
    have "survives (s # ss) ds 0" using True ds by (simp add: survives_def)
    then have "\<exists>j < i. survives (s # ss) ds j" if "0 < i" for i using that by blast
    then show ?thesis using True ds match_stuck [of ss ds'] by (auto simp: nth_Cons split: nat.splits)
  next
    case False
    have d: "d" using False Cons.prems(2) ds by auto
    have le: "length ss \<le> length ds'" "\<forall>i < length ss. ss ! i \<longrightarrow> ds' ! i"
      using Cons.prems ds by auto
    obtain fs where fs: "match_cols True ss ds' = (fs, True)" "length fs = length ss"
      "\<forall>i < length ss. fs ! i \<longleftrightarrow> \<not> ss ! i \<and> ds' ! i \<and> (\<forall>j < i. \<not> survives ss ds' j)"
      using Cons.IH [OF le] by blast
    have m: "match_cols True (s # ss) ds = ((\<not> s) # fs, True)" using fs(1) d ds by (cases s) simp_all
    have sv: "(\<forall>j < Suc i. \<not> survives (s # ss) ds j) \<longleftrightarrow> (\<forall>j < i. \<not> survives ss ds' j)" for i
      using d ds by (auto simp: survives_def nth_Cons less_Suc_eq_0_disj)
    have "((\<not> s) # fs) ! i \<longleftrightarrow> \<not> (s # ss) ! i \<and> ds ! i \<and> (\<forall>j < i. \<not> survives (s # ss) ds j)" if "i < Suc (length ss)" for i
      using that fs(3) sv d ds by (cases i) simp_all
    then show ?thesis using m fs(2) by auto
  qed
qed simp

subsection \<open>What is pushed\<close>

text \<open>The columns of a row type from the values at the same positions, nil for those that have none.\<close>

fun cols_by_position :: "('v, 'd) rowenv \<Rightarrow> att list \<Rightarrow> 'v option list \<Rightarrow> string + 'd option list" where
  "cols_by_position env [] vs = Inr []"
| "cols_by_position env (a # as) vs =
     (if attisdropped a then bindR (cols_by_position env as (tl vs)) (\<lambda>ds. Inr (None # ds))
      else bindR (row_col env a (case vs of [] \<Rightarrow> None | v # _ \<Rightarrow> v))
             (\<lambda>d. bindR (cols_by_position env as (tl vs)) (\<lambda>ds. Inr (d # ds))))"

lemma live_atts_simps [simp]: "live_atts [] = []"
  "live_atts (a # as) = (if attisdropped a then live_atts as else a # live_atts as)"
  by (simp_all add: live_atts_def)

fun at_live :: "att list \<Rightarrow> 'v option list \<Rightarrow> 'v option list" where
  "at_live (a # as) (v # vs) = (if attisdropped a then at_live as vs else v # at_live as vs)"
| "at_live _ _ = []"

lemma at_live_length: "length (at_live as vs) \<le> arity_of as"
  by (induction as vs rule: at_live.induct) auto

lemma row_cols_nil: "row_cols env as (replicate (arity_of as) None) = cols_by_position env as []"
  by (induction as) simp_all

lemma row_cols_at_live:
  "length vs \<le> length as \<Longrightarrow>
   row_cols env as (at_live as vs @ replicate (arity_of as - length (at_live as vs)) None) = cols_by_position env as vs"
proof (induction as vs rule: at_live.induct [case_names both no_atts no_values])
  case (no_values as)
  then show ?case using row_cols_nil [of env as] by simp
qed simp_all

lemma push_at_live:
  assumes "length fs = length src" "length vs = length src" "length src \<le> length dst"
    "\<forall>i < length src. attisdropped (src ! i) \<or> fs ! i \<longleftrightarrow> attisdropped (dst ! i)"
  shows "push_cols src fs vs = at_live dst vs"
  using assms
proof (induction src arbitrary: fs vs dst)
  case (Cons a src)
  obtain f fs' v vs' b dst' where e: "fs = f # fs'" "vs = v # vs'" "dst = b # dst'"
    using Cons.prems by (cases fs; cases vs; cases dst) auto
  have "push_cols src fs' vs' = at_live dst' vs'" using Cons.prems e by (intro Cons.IH) auto
  moreover have "attisdropped a \<or> f \<longleftrightarrow> attisdropped b" using Cons.prems(4) e by auto
  ultimately show ?case using e by simp
qed (cases dst; simp)

lemma row_call_plain:
  assumes "length args = arity_of as" "\<And>x. Some x \<in> set args \<Longrightarrow> getfield env x = None"
  shows "pllua_typeinfo_row_call env as args = row_cols env as args"
proof (cases args)
  case (Cons v vs)
  show ?thesis
  proof (cases vs)
    case Nil
    then show ?thesis using Cons assms by (cases v) (auto simp: pllua_typeinfo_row_call_def Let_def simp flip: assms(1))
  qed (use Cons assms in \<open>auto simp: pllua_typeinfo_row_call_def Let_def split: option.splits\<close>)
qed (use assms in \<open>simp add: pllua_typeinfo_row_call_def\<close>)

lemma at_live_set: "x \<in> set (at_live as vs) \<Longrightarrow> x \<in> set vs"
  by (induction as vs rule: at_live.induct) (auto split: if_splits)

lemma no_drops: "\<not> list_ex id fs \<Longrightarrow> fs = replicate (length fs) False"
  by (induction fs) auto

lemma droplist_spec:
  assumes "length src \<le> length dst" "\<forall>i < length src. attisdropped (src ! i) \<longrightarrow> attisdropped (dst ! i)"
  shows "\<exists>droplist. pllua_typeconv_create_row True src dst = CRow droplist \<and>
    (\<forall>i < length src. (case droplist of None \<Rightarrow> False | Some fs \<Rightarrow> fs ! i) \<longleftrightarrow>
       \<not> attisdropped (src ! i) \<and> attisdropped (dst ! i) \<and>
       (\<forall>j < i. attisdropped (src ! j) \<or> attisdropped (dst ! j)))"
proof -
  let ?ss = "map attisdropped src" and ?ds = "map attisdropped dst"
  obtain fs where fs: "match_cols True ?ss ?ds = (fs, True)" "length fs = length src"
    "\<forall>i < length src. fs ! i \<longleftrightarrow> \<not> ?ss ! i \<and> ?ds ! i \<and> (\<forall>j < i. \<not> survives ?ss ?ds j)"
    using match_cols_spec [of ?ss ?ds] assms by auto
  have sv: "survives ?ss ?ds j \<longleftrightarrow> \<not> (attisdropped (src ! j) \<or> attisdropped (dst ! j))" if "j < length src" for j
    using that assms(1) by (simp add: survives_def)
  have mark: "(case if list_ex id fs then Some fs else None of None \<Rightarrow> False | Some fs \<Rightarrow> fs ! i) \<longleftrightarrow> fs ! i" if "i < length src" for i
    using that fs(2) no_drops [of fs] nth_replicate [of i "length fs" False] by (auto split: option.splits)
  have "fs ! i \<longleftrightarrow> \<not> attisdropped (src ! i) \<and> attisdropped (dst ! i) \<and> (\<forall>j < i. attisdropped (src ! j) \<or> attisdropped (dst ! j))"
    if "i < length src" for i
    using fs(3) that assms(1) sv by auto
  then show ?thesis
    using fs(1) mark by (intro exI [of _ "if list_ex id fs then Some fs else None"]) (auto simp: pllua_typeconv_create_row_def)
qed

lemma droplist_length:
  assumes "length src \<le> length dst" "\<forall>i < length src. attisdropped (src ! i) \<longrightarrow> attisdropped (dst ! i)"
    and "pllua_typeconv_create_row True src dst = CRow (Some fs)"
  shows "length fs = length src"
  using match_cols_spec [of "map attisdropped src" "map attisdropped dst"] assms
  by (auto simp: pllua_typeconv_create_row_def split: if_splits)

subsection \<open>Properties\<close>

text \<open>A cast between two versions of a row type leaves out a column that the newer version has dropped
  exactly when no column before it is in both versions.\<close>

theorem droplist_ends_at_first_survivor:
  assumes "length src \<le> length dst" "\<forall>i < length src. attisdropped (src ! i) \<longrightarrow> attisdropped (dst ! i)"
  shows "\<exists>droplist. pllua_typeconv_create_row True src dst = CRow droplist \<and>
    (\<forall>i < length src. (case droplist of None \<Rightarrow> False | Some fs \<Rightarrow> fs ! i) \<longleftrightarrow>
       \<not> attisdropped (src ! i) \<and> attisdropped (dst ! i) \<and>
       (\<forall>j < i. attisdropped (src ! j) \<or> attisdropped (dst ! j)))"
  by (rule droplist_spec [OF assms])

text \<open>C35. If the newer version of a row type has dropped only columns before the first one that it kept,
  the cast gives every column its own old value, and null to dropped and to new columns.\<close>

theorem cast_to_newer_version:
  assumes "length src \<le> length dst" "\<forall>i < length src. attisdropped (src ! i) \<longrightarrow> attisdropped (dst ! i)"
    and "\<forall>i < length src. \<forall>j < i. \<not> attisdropped (src ! i) \<longrightarrow> attisdropped (dst ! i) \<longrightarrow>
        attisdropped (src ! j) \<or> attisdropped (dst ! j)"
    and "length vs = length src" "\<forall>x. Some x \<in> set vs \<longrightarrow> getfield env x = None"
  shows "cast_row env True src dst vs = cols_by_position env dst vs"
proof -
  obtain droplist where d: "pllua_typeconv_create_row True src dst = CRow droplist"
    "\<forall>i < length src. (case droplist of None \<Rightarrow> False | Some fs \<Rightarrow> fs ! i) \<longleftrightarrow>
       \<not> attisdropped (src ! i) \<and> attisdropped (dst ! i) \<and> (\<forall>j < i. attisdropped (src ! j) \<or> attisdropped (dst ! j))"
    using droplist_spec [OF assms(1,2)] by blast
  let ?fs = "case droplist of None \<Rightarrow> replicate (length src) False | Some fs \<Rightarrow> fs"
  have len: "length ?fs = length src" using droplist_length [OF assms(1,2)] d(1) by (auto split: option.splits)
  have fs: "?fs ! i \<longleftrightarrow> \<not> attisdropped (src ! i) \<and> attisdropped (dst ! i)" if "i < length src" for i
    using d(2) assms(3) that by (auto split: option.splits)
  have push: "push_cols src ?fs vs = at_live dst vs"
    by (rule push_at_live [OF len assms(4,1)]) (use fs assms(2) in auto)
  let ?args = "at_live dst vs @ replicate (arity_of dst - length (at_live dst vs)) None"
  have "cast_row env True src dst vs = pllua_typeinfo_row_call env dst ?args"
    using d(1) push by (simp add: cast_row_def pllua_typeconv_row_coerce_def Let_def)
  also have "\<dots> = row_cols env dst ?args"
    by (rule row_call_plain) (use at_live_length [of dst vs] at_live_set [of _ dst vs] assms(5) in auto)
  also have "\<dots> = cols_by_position env dst vs" by (rule row_cols_at_live) (use assms(1,4) in simp)
  finally show ?thesis .
qed

text \<open>A column is null, or has a value of its type with its modifier.\<close>

definition col_fits :: "(nat \<times> int \<Rightarrow> int \<Rightarrow> 'd \<Rightarrow> bool) \<Rightarrow> att \<Rightarrow> 'd option \<Rightarrow> bool" where
  "col_fits fits a d \<longleftrightarrow>
     (\<forall>x. d = Some x \<longrightarrow> \<not> attisdropped a \<and>
        (\<exists>m. fits (col_key a) m x \<and> (atttypid a \<noteq> RECORDOID \<longrightarrow> 0 \<le> atttypmod a \<longrightarrow> m = atttypmod a)))"

text \<open>C36. A row that the constructor makes has in each column null or a value of the column's type with
  the column's modifier, and null in dropped columns.\<close>

theorem constructed_row_fits_its_type:
  assumes "\<forall>k v d. as_datum env k v = Some d \<longrightarrow> fits k (datum_typmod env d) d"
    and "\<forall>t m d d'. coerce_typmod env t m d = Inr (Some d') \<longrightarrow> fits (t, - 1) m d'"
    and "pllua_typeinfo_row_call env as args = Inr ds"
  shows "list_all2 (col_fits fits) as ds"
proof -
  have col: "\<exists>m. fits (col_key a) m x \<and> (atttypid a \<noteq> RECORDOID \<longrightarrow> 0 \<le> atttypmod a \<longrightarrow> m = atttypmod a)"
    if "row_col env a v = Inr (Some x)" for a v x
    using that assms(1,2) unfolding row_col_def col_key_def
    by (auto simp: bindR_eq_Inr split: if_splits option.splits) blast+
  have "row_cols env as vs = Inr ds \<Longrightarrow> list_all2 (col_fits fits) as ds" for as vs ds
  proof (induction as arbitrary: vs ds)
    case (Cons a as)
    have "col_fits fits a d" if "row_col env a v = Inr d" "\<not> attisdropped a" for v d
      using col [of a v] that by (auto simp: col_fits_def)
    then show ?case using Cons by (auto simp: bindR_eq_Inr col_fits_def split: if_splits)
  qed simp
  then show ?thesis using assms(3) by (auto simp: pllua_typeinfo_row_call_def Let_def split: if_splits)
qed

subsection \<open>An example\<close>

text \<open>Values are numbers, a datum carries no modifier, and a column with one keeps the remainder.\<close>

definition ex_env :: "(nat, nat) rowenv" where
  "ex_env = \<lparr>as_datum = (\<lambda>k v. Some v), datum_typmod = (\<lambda>d. - 1), construct = (\<lambda>k v. Inr (Some v)),
     coerce_typmod = (\<lambda>t m d. Inr (map_option (\<lambda>x. x mod nat m) d)), getfield = (\<lambda>v. None)\<rparr>"

definition ex_col :: "string \<Rightarrow> bool \<Rightarrow> int \<Rightarrow> att" where
  "ex_col n d m = \<lparr>attname = n, attisdropped = d, atttypid = 23, atttypmod = m\<rparr>"

text \<open>The first of two columns is dropped and a new one is added.\<close>

theorem cast_to_newer_version_witness:
  "cast_row ex_env True [ex_col ''a'' False (- 1), ex_col ''b'' False (- 1)]
     [ex_col ''a'' True (- 1), ex_col ''b'' False (- 1), ex_col ''c'' False (- 1)] [Some 1, Some 2] =
   Inr [None, Some 2, None]"
  using cast_to_newer_version [of "[ex_col ''a'' False (- 1), ex_col ''b'' False (- 1)]"
      "[ex_col ''a'' True (- 1), ex_col ''b'' False (- 1), ex_col ''c'' False (- 1)]" "[Some 1, Some 2]" ex_env]
  by (simp add: ex_col_def ex_env_def row_col_def RECORDOID_def less_Suc_eq_0_disj)

text \<open>The second one is dropped and a new one is added: the new column gets the old value.\<close>

lemma cast_shifts_columns:
  "cast_row ex_env True [ex_col ''a'' False (- 1), ex_col ''b'' False (- 1)]
     [ex_col ''a'' False (- 1), ex_col ''b'' True (- 1), ex_col ''c'' False (- 1)] [Some 1, Some 2] =
   Inr [Some 1, None, Some 2]"
  by code_simp

text \<open>The second of three is dropped: the cast fails.\<close>

lemma cast_passes_too_many:
  "cast_row ex_env True [ex_col ''a'' False (- 1), ex_col ''b'' False (- 1)]
     [ex_col ''a'' False (- 1), ex_col ''b'' True (- 1)] [Some 1, Some 2] =
   Inl ''incorrect number of arguments for type constructor''"
  by code_simp

theorem droplist_ends_at_first_survivor_witness:
  "\<exists>droplist. pllua_typeconv_create_row True [ex_col ''a'' False (- 1), ex_col ''b'' False (- 1)]
     [ex_col ''a'' False (- 1), ex_col ''b'' True (- 1), ex_col ''c'' False (- 1)] = CRow droplist \<and>
     \<not> (case droplist of None \<Rightarrow> False | Some fs \<Rightarrow> fs ! 1)"
  using droplist_ends_at_first_survivor [of "[ex_col ''a'' False (- 1), ex_col ''b'' False (- 1)]"
      "[ex_col ''a'' False (- 1), ex_col ''b'' True (- 1), ex_col ''c'' False (- 1)]"]
  by (auto simp: ex_col_def less_Suc_eq_0_disj)

theorem constructed_row_fits_its_type_witness:
  "list_all2 (col_fits (\<lambda>k m d. m \<le> 0 \<or> d < nat m)) [ex_col ''a'' False 10, ex_col ''b'' True (- 1)] [Some 3, None]"
proof -
  have call: "pllua_typeinfo_row_call ex_env [ex_col ''a'' False 10, ex_col ''b'' True (- 1)] [Some 13] = Inr [Some 3, None]"
    by code_simp
  show ?thesis
    by (rule constructed_row_fits_its_type [OF _ _ call]) (auto simp: ex_env_def, metis mod_less_divisor not_le zero_less_nat_eq)
qed

end
