(* ===== verification/Typecache_Inv.thy ===== *)
theory Typecache_Inv
  imports Typecache
begin

text \<open>
  The cache of type information (Typecache) follows the catalog: what it takes for an object to be
  up to date, and that lookups keep and restore that.
\<close>

subsection \<open>Objects that are up to date\<close>

definition att_tm :: "att \<Rightarrow> int" where
  "att_tm a = (if atttypid a \<noteq> RECORDOID then - 1 else atttypmod a)"

text \<open>The keys of the two tables: a type has typmod -1, a record type its own.\<close>

definition plain :: "nat \<Rightarrow> int \<Rightarrow> bool" where
  "plain oid tm \<longleftrightarrow> tm = - 1 \<or> is_rec oid tm"

definition same_fields :: "'f tinfo \<Rightarrow> 'f tinfo \<Rightarrow> bool" where
  "same_fields t u \<longleftrightarrow>
     typeoid t = typeoid u \<and> typmod t = typmod u \<and> arity t = arity u \<and> natts t = natts u \<and> tupdesc t = tupdesc u \<and>
     reloid t = reloid u \<and> basetype t = basetype u \<and> elemtype t = elemtype u \<and> props t = props u \<and>
     fromsql t = fromsql u \<and> tosql t = tosql u"

definition cols_rel :: "(nat \<Rightarrow> int \<Rightarrow> nat \<Rightarrow> bool) \<Rightarrow> att list \<Rightarrow> nat option list \<Rightarrow> bool" where
  "cols_rel P = list_all2 (\<lambda>a e. if attisdropped a then e = None else \<exists>y. e = Some y \<and> P (atttypid a) (att_tm a) y)"

lemma cols_rel_mono [mono]: "(\<And>oid tm x. P oid tm x \<longrightarrow> Q oid tm x) \<Longrightarrow> cols_rel P as es \<longrightarrow> cols_rel Q as es"
  unfolding cols_rel_def by (auto elim!: list_all2_mono split: if_splits)

text \<open>The object of a type has what the catalog says, and its columns have the objects of their types, which are up to date too.\<close>

inductive up_to_date :: "'f catalog \<Rightarrow> 'f tst \<Rightarrow> nat \<Rightarrow> int \<Rightarrow> nat \<Rightarrow> bool" for cat s where
  "\<lbrakk> plain oid tm; cat oid tm = Some c; interned oid tm s = Some x; same_fields (tinfos s x) (newtypeinfo_base oid tm c);
     \<not> t_modified (tinfos s x); \<not> obsolete (tinfos s x);
     \<And>as. c_desc c = Some as \<Longrightarrow> as \<noteq> [] \<Longrightarrow> cols_rel (up_to_date cat s) as (u_attrtypes (tinfos s x)) \<rbrakk>
   \<Longrightarrow> up_to_date cat s oid tm x"

inductive_cases up_to_dateE: "up_to_date cat s oid tm x"

text \<open>Types do not contain themselves, and the types of columns exist.\<close>

definition catalog_wf :: "'f catalog \<Rightarrow> (nat \<Rightarrow> int \<Rightarrow> nat) \<Rightarrow> bool" where
  "catalog_wf cat rank \<longleftrightarrow>
     (\<forall>oid tm c. plain oid tm \<longrightarrow> cat oid tm = Some c \<longrightarrow>
        oid \<noteq> 0 \<and> (c_basetype c \<noteq> oid \<longrightarrow> rank (c_basetype c) (- 1) < rank oid tm) \<and>
        (c_elem c \<noteq> 0 \<longrightarrow> rank (c_elem c) (- 1) < rank oid tm) \<and> (c_range c \<noteq> 0 \<longrightarrow> rank (c_range c) (- 1) < rank oid tm) \<and>
        (\<forall>as a. c_desc c = Some as \<longrightarrow> a \<in> set as \<longrightarrow> \<not> attisdropped a \<longrightarrow>
           plain (atttypid a) (att_tm a) \<and> cat (atttypid a) (att_tm a) \<noteq> None \<and>
           rank (atttypid a) (att_tm a) < rank oid tm))"

text \<open>The cache: objects are entered under their own type; what is not marked is up to date.\<close>

definition cache_ok :: "'f tst \<Rightarrow> bool" where
  "cache_ok s \<longleftrightarrow>
     (\<forall>oid tm x. plain oid tm \<longrightarrow> interned oid tm s = Some x \<longrightarrow>
        x < tnext s \<and> typeoid (tinfos s x) = oid \<and> typmod (tinfos s x) = tm \<and>
        \<not> t_modified (tinfos s x) \<and> \<not> obsolete (tinfos s x))"

definition cache_current :: "'f catalog \<Rightarrow> 'f tst \<Rightarrow> bool" where
  "cache_current cat s \<longleftrightarrow>
     (\<forall>oid tm x. plain oid tm \<longrightarrow> interned oid tm s = Some x \<longrightarrow> \<not> revalidate (tinfos s x) \<longrightarrow> up_to_date cat s oid tm x)"

text \<open>What a lookup may change.\<close>

definition free :: "'f tst \<Rightarrow> nat \<Rightarrow> bool" where
  "free s x \<longleftrightarrow> (\<forall>oid tm. plain oid tm \<longrightarrow> interned oid tm s \<noteq> Some x)"

definition later :: "'f catalog \<Rightarrow> nat \<Rightarrow> 'f tst \<Rightarrow> 'f tst \<Rightarrow> bool" where
  "later cat m s s' \<longleftrightarrow>
     tnext s \<le> tnext s' \<and>
     (\<forall>x < m. free s x \<longrightarrow> tinfos s' x = tinfos s x \<and> free s' x) \<and>
     (\<forall>oid tm x. up_to_date cat s oid tm x \<longrightarrow> interned oid tm s' = Some x \<and>
        (tinfos s' x)\<lparr>revalidate := False\<rparr> = (tinfos s x)\<lparr>revalidate := False\<rparr>)"

definition keeps :: "(nat \<Rightarrow> int \<Rightarrow> nat) \<Rightarrow> nat \<Rightarrow> 'f tst \<Rightarrow> 'f tst \<Rightarrow> bool" where
  "keeps rank m s s' \<longleftrightarrow>
     (\<forall>oid tm. plain oid tm \<longrightarrow> m \<le> rank oid tm \<longrightarrow> interned oid tm s' = interned oid tm s \<and>
        (\<forall>x. interned oid tm s = Some x \<longrightarrow> tinfos s' x = tinfos s x))"

lemma core_fields:
  assumes "t\<lparr>revalidate := False\<rparr> = u\<lparr>revalidate := False\<rparr>"
  shows "same_fields t v \<longleftrightarrow> same_fields u v" "t_modified t = t_modified u" "obsolete t = obsolete u" "u_attrtypes t = u_attrtypes u"
proof -
  have f: "f (t\<lparr>revalidate := False\<rparr>) = f (u\<lparr>revalidate := False\<rparr>)" for f :: "'a tinfo \<Rightarrow> 'c" using assms by simp
  show "same_fields t v \<longleftrightarrow> same_fields u v" "t_modified t = t_modified u" "obsolete t = obsolete u" "u_attrtypes t = u_attrtypes u"
    using f [of typeoid] f [of typmod] f [of arity] f [of natts] f [of tupdesc] f [of reloid] f [of basetype] f [of elemtype]
      f [of props] f [of fromsql] f [of tosql] f [of t_modified] f [of obsolete] f [of u_attrtypes]
    by (simp_all add: same_fields_def)
qed

lemma up_to_date_later:
  assumes "up_to_date cat s oid tm x" "later cat m s s'"
  shows "up_to_date cat s' oid tm x"
  using assms(1)
proof (induction rule: up_to_date.induct)
  case (1 oid tm c x)
  have cols: "cols_rel (up_to_date cat s) as (u_attrtypes (tinfos s x))" "cols_rel (up_to_date cat s') as (u_attrtypes (tinfos s x))"
    if "c_desc c = Some as" "as \<noteq> []" for as
    by (rule cols_rel_mono [THEN mp, OF _ 1(7) [OF that]], blast)+
  have "up_to_date cat s oid tm x"
    using 1(1-6) cols(1) by (blast intro: up_to_date.intros)
  then have i: "interned oid tm s' = Some x" and core: "(tinfos s' x)\<lparr>revalidate := False\<rparr> = (tinfos s x)\<lparr>revalidate := False\<rparr>"
    using assms(2) unfolding later_def by blast+
  show ?case
    using 1(1,2) i 1(4-6) cols(2) core_fields [OF core] by (intro up_to_date.intros [of oid tm cat c]) simp_all
qed

lemma later_refl: "later cat m s s"
  by (auto simp: later_def elim: up_to_date.cases)

lemma later_trans:
  assumes "later cat m s t" "later cat m t u"
  shows "later cat m s u"
  unfolding later_def
proof (intro conjI allI impI)
  show "tnext s \<le> tnext u" using assms by (simp add: later_def)
next
  fix x assume x: "x < m" "free s x"
  have t: "tinfos t x = tinfos s x" "free t x" using assms(1) x by (auto simp: later_def)
  then show "tinfos u x = tinfos s x" "free u x" using assms(2) x(1) by (auto simp: later_def)
next
  fix oid tm x assume x: "up_to_date cat s oid tm x"
  then show "interned oid tm u = Some x" "(tinfos u x)\<lparr>revalidate := False\<rparr> = (tinfos s x)\<lparr>revalidate := False\<rparr>"
    using up_to_date_later [OF x assms(1)] assms unfolding later_def by simp_all
qed

lemma keeps_rank_refl: "keeps rank m s s"
  by (simp add: keeps_def)

lemma keeps_rank_trans: "keeps rank m s t \<Longrightarrow> keeps rank m t u \<Longrightarrow> keeps rank m s u"
  by (simp add: keeps_def)

lemma keeps_le: "keeps rank m s t \<Longrightarrow> m \<le> k \<Longrightarrow> keeps rank k s t"
  by (auto simp: keeps_def)

lemma interned_upd [simp]: "interned oid tm (upd_t x f s) = interned oid tm s" "tnext (upd_t x f s) = tnext s"
  "tinfos (upd_t x f s) = (tinfos s)(x := f (tinfos s x))"
  by (simp_all add: interned_def upd_t_def)

lemma interned_intern:
  assumes "plain oid tm" "plain oid' tm'"
  shows "interned oid' tm' (intern oid tm v s) = (if oid' = oid \<and> tm' = tm then v else interned oid' tm' s)"
  using assms by (auto simp: interned_def intern_def is_rec_def plain_def)

lemma intern_simps [simp]: "tnext (intern oid tm v s) = tnext s" "tinfos (intern oid tm v s) = tinfos s"
  by (simp_all add: intern_def)


lemma later_le: "later cat m s t \<Longrightarrow> k \<le> m \<Longrightarrow> later cat k s t"
  by (simp add: later_def)

lemma up_to_date_free: "up_to_date cat s oid tm y \<Longrightarrow> free s x \<Longrightarrow> y \<noteq> x"
  by (auto simp: free_def elim: up_to_date.cases)

lemma up_to_dateD:
  assumes "up_to_date cat s oid tm x"
  shows "plain oid tm" "interned oid tm s = Some x" "cat oid tm \<noteq> None"
  using assms by (auto elim: up_to_date.cases)

lemma cols_rel_unique:
  assumes "cols_rel (up_to_date cat s) as es" "cols_rel (up_to_date cat s) as fs"
  shows "es = fs"
proof (rule nth_equalityI)
  note l = assms [unfolded cols_rel_def, THEN list_all2_lengthD] and n = assms [unfolded cols_rel_def list_all2_conv_all_nth]
  show "length es = length fs" using l by simp
  fix i assume i: "i < length es"
  show "es ! i = fs ! i"
  proof (cases "attisdropped (as ! i)")
    case False
    then obtain x y where xy: "es ! i = Some x" "up_to_date cat s (atttypid (as ! i)) (att_tm (as ! i)) x"
      "fs ! i = Some y" "up_to_date cat s (atttypid (as ! i)) (att_tm (as ! i)) y"
      using n [THEN conjunct2, rule_format, of i] l i by auto
    then show ?thesis using up_to_dateD(2) [OF xy(2)] up_to_dateD(2) [OF xy(4)] by simp
  qed (use n l i in auto)
qed

lemma free_upd [simp]: "free (upd_t x f s) y = free s y"
  by (simp add: free_def)

lemma later_upd:
  assumes "free s x" "m \<le> x"
  shows "later cat m s (upd_t x f s)"
  using assms up_to_date_free [OF _ assms(1)] up_to_dateD(2) by (fastforce simp: later_def)

lemma keeps_upd: "free s x \<Longrightarrow> keeps rank m s (upd_t x f s)"
  by (auto simp: keeps_def free_def)

lemma cache_upd:
  assumes "free s x"
  shows "cache_ok (upd_t x f s) = cache_ok s" "cache_current cat s \<Longrightarrow> cache_current cat (upd_t x f s)"
proof -
  have ne: "y \<noteq> x" if "plain oid tm" "interned oid tm s = Some y" for oid tm y using that assms by (auto simp: free_def)
  show "cache_ok (upd_t x f s) = cache_ok s"
    using ne unfolding cache_ok_def by (auto simp del: fun_upd_apply simp add: fun_upd_other)
  show "cache_current cat (upd_t x f s)" if c: "cache_current cat s"
    unfolding cache_current_def
  proof (intro allI impI)
    fix oid tm y assume y: "plain oid tm" "interned oid tm (upd_t x f s) = Some y" "\<not> revalidate (tinfos (upd_t x f s) y)"
    then have "up_to_date cat s oid tm y" using c ne [of oid tm y] by (simp add: cache_current_def)
    then show "up_to_date cat (upd_t x f s) oid tm y"
      using up_to_date_later [OF _ later_upd [OF assms, of x]] by blast
  qed
qed

text \<open>What a lookup is to do, for types up to a rank.\<close>

definition look_ok :: "'f catalog \<Rightarrow> (nat \<Rightarrow> int \<Rightarrow> nat) \<Rightarrow> nat \<Rightarrow> 'f tlook \<Rightarrow> bool" where
  "look_ok cat rank r look \<longleftrightarrow>
     (\<forall>oid tm s res s'. plain oid tm \<longrightarrow> rank oid tm < r \<longrightarrow> cache_ok s \<longrightarrow> cache_current cat s \<longrightarrow> look oid tm s = (res, s') \<longrightarrow>
        cache_ok s' \<and> cache_current cat s' \<and> later cat (tnext s) s s' \<and> keeps rank (Suc (rank oid tm)) s s' \<and>
        (if cat oid tm = None then res = Inr None
         else \<exists>x. res = Inr (Some x) \<and> up_to_date cat s' oid tm x \<and> \<not> revalidate (tinfos s' x)))"

lemma look_okD:
  assumes "look_ok cat rank r look" "plain oid tm" "rank oid tm < r" "cache_ok s" "cache_current cat s" "look oid tm s = (res, s')"
  shows "cache_ok s'" "cache_current cat s'" "later cat (tnext s) s s'" "keeps rank r s s'"
    "cat oid tm = None \<Longrightarrow> res = Inr None"
    "cat oid tm \<noteq> None \<Longrightarrow> \<exists>x. res = Inr (Some x) \<and> up_to_date cat s' oid tm x \<and> \<not> revalidate (tinfos s' x)"
proof -
  have *: "cache_ok s' \<and> cache_current cat s' \<and> later cat (tnext s) s s' \<and> keeps rank (Suc (rank oid tm)) s s' \<and>
        (if cat oid tm = None then res = Inr None
         else \<exists>x. res = Inr (Some x) \<and> up_to_date cat s' oid tm x \<and> \<not> revalidate (tinfos s' x))"
    using assms unfolding look_ok_def by blast
  then show "cache_ok s'" "cache_current cat s'" "later cat (tnext s) s s'" by blast+
  show "keeps rank r s s'" using * assms(3) keeps_le [of rank "Suc (rank oid tm)" s s' r] by simp
  show "cat oid tm = None \<Longrightarrow> res = Inr None" using * by simp
  show "cat oid tm \<noteq> None \<Longrightarrow> \<exists>x. res = Inr (Some x) \<and> up_to_date cat s' oid tm x \<and> \<not> revalidate (tinfos s' x)"
    using * by simp
qed

lemma later_free: "later cat m s s' \<Longrightarrow> x < m \<Longrightarrow> free s x \<Longrightarrow> tinfos s' x = tinfos s x \<and> free s' x"
  by (simp add: later_def)

lemma later_tnext: "later cat m s s' \<Longrightarrow> tnext s \<le> tnext s'"
  by (simp add: later_def)

lemma attr_types_ok:
  fixes cat :: "'a catalog"
  assumes look: "look_ok cat rank r look"
    and atts: "\<forall>a \<in> set as. \<not> attisdropped a \<longrightarrow> plain (atttypid a) (att_tm a) \<and> cat (atttypid a) (att_tm a) \<noteq> None \<and>
        rank (atttypid a) (att_tm a) < r"
    and s: "cache_ok s" "cache_current cat s" "free s x" "x < tnext s"
    and res: "attr_types look x as s = (res, s')"
  shows "\<exists>es. res = Inr es \<and> cols_rel (up_to_date cat s') as es \<and> cache_ok s' \<and> cache_current cat s' \<and> later cat x s s' \<and>
    keeps rank r s s' \<and> free s' x \<and> x < tnext s' \<and>
    (\<exists>a b. tinfos s' x = (tinfos s x)\<lparr>nested_unknowns := a, nested_composites := b\<rparr>)"
  using atts s res
proof (induction as arbitrary: s res s')
  case Nil
  have "tinfos s x = (tinfos s x)\<lparr>nested_unknowns := nested_unknowns (tinfos s x), nested_composites := nested_composites (tinfos s x)\<rparr>"
    by simp
  then have *: "\<exists>a b. tinfos s x = (tinfos s x)\<lparr>nested_unknowns := a, nested_composites := b\<rparr>" by (intro exI)
  have r: "res = Inr []" "s' = s" using Nil.prems(6) by simp_all
  show ?case
    unfolding r by (intro exI [of _ "[]"] conjI refl Nil.prems(2-5) later_refl keeps_rank_refl *) (simp add: cols_rel_def)
next
  case (Cons a as)
  have as: "\<forall>a \<in> set as. \<not> attisdropped a \<longrightarrow> plain (atttypid a) (att_tm a) \<and> cat (atttypid a) (att_tm a) \<noteq> None \<and>
        rank (atttypid a) (att_tm a) < r" using Cons.prems(1) by simp
  show ?case
  proof (cases "attisdropped a")
    case True
    obtain res1 s1 where r1: "attr_types look x as s = (res1, s1)" by fastforce
    obtain es where *: "res1 = Inr es \<and> cols_rel (up_to_date cat s1) as es \<and> cache_ok s1 \<and> cache_current cat s1 \<and> later cat x s s1 \<and>
      keeps rank r s s1 \<and> free s1 x \<and> x < tnext s1 \<and> (\<exists>a b. tinfos s1 x = (tinfos s x)\<lparr>nested_unknowns := a, nested_composites := b\<rparr>)"
      using Cons.IH [OF as Cons.prems(2-5) r1] by (rule exE)
    note es = conjunct1 [OF *] conjunct1 [OF conjunct2 [OF *]] and rest = conjunct2 [OF conjunct2 [OF *]]
    have "res = Inr (None # es)" "s' = s1" using Cons.prems(6) True r1 es(1) by simp_all
    then show ?thesis using es(2) rest True by (simp add: cols_rel_def)
  next
    case False
    obtain res0 s1 where l: "look (atttypid a) (att_tm a) s = (res0, s1)" by fastforce
    have pa: "plain (atttypid a) (att_tm a)" "cat (atttypid a) (att_tm a) \<noteq> None" "rank (atttypid a) (att_tm a) < r"
      using Cons.prems(1) False by simp_all
    note o = look_okD [OF look pa(1,3) Cons.prems(2,3) l]
    obtain e where e: "res0 = Inr (Some e)" "up_to_date cat s1 (atttypid a) (att_tm a) e" using o(6) [OF pa(2)] by blast
    have x1: "tinfos s1 x = tinfos s x" "free s1 x" "x < tnext s1"
      using later_free [OF o(3) Cons.prems(5,4)] later_tnext [OF o(3)] Cons.prems(5) by simp_all
    define f :: "'a tinfo \<Rightarrow> 'a tinfo" where "f = (\<lambda>t. t\<lparr>nested_unknowns := nested_unknowns t \<or> nested_unknowns (tinfos s1 e),
                       nested_composites := nested_composites t \<or> nested_composites (tinfos s1 e) \<or>
                         natts (tinfos s1 e) \<ge> 0 \<and> typeoid (tinfos s1 e) \<noteq> RECORDOID\<rparr>)"
    let ?s2 = "upd_t x f s1"
    obtain res2 s2 where r2: "attr_types look x as ?s2 = (res2, s2)" by fastforce
    have c2: "cache_ok ?s2" "cache_current cat ?s2" "free ?s2 x" "x < tnext ?s2"
      using cache_upd [OF x1(2)] o(1,2) x1 by simp_all
    obtain es where *: "res2 = Inr es \<and> cols_rel (up_to_date cat s2) as es \<and> cache_ok s2 \<and> cache_current cat s2 \<and> later cat x ?s2 s2 \<and>
      keeps rank r ?s2 s2 \<and> free s2 x \<and> x < tnext s2 \<and> (\<exists>a b. tinfos s2 x = (tinfos ?s2 x)\<lparr>nested_unknowns := a, nested_composites := b\<rparr>)"
      using Cons.IH [OF as c2 r2] by (rule exE)
    obtain a' b' where fl: "tinfos s2 x = (tinfos ?s2 x)\<lparr>nested_unknowns := a', nested_composites := b'\<rparr>" using * by blast
    have es: "res2 = Inr es" "cols_rel (up_to_date cat s2) as es" and rest: "cache_ok s2" "cache_current cat s2" "later cat x ?s2 s2"
      "keeps rank r ?s2 s2" "free s2 x" "x < tnext s2" using * by simp_all
    have "res = Inr (Some e # es)" "s' = s2"
      using Cons.prems(6) False l e(1) r2 es(1) unfolding att_tm_def f_def by (simp_all add: Let_def)
    moreover have "later cat x s s2"
      using later_trans [OF later_trans [OF later_le [OF o(3), of x] later_upd [OF x1(2), of x]] rest(3)] Cons.prems(5) by simp
    moreover have "keeps rank r s s2"
      using keeps_rank_trans [OF keeps_rank_trans [OF o(4) keeps_upd [OF x1(2)]] rest(4)] .
    moreover have "up_to_date cat s2 (atttypid a) (att_tm a) e"
      by (rule up_to_date_later [OF up_to_date_later [OF e(2) later_upd [OF x1(2), of x]] rest(3)]) simp
    moreover have "tinfos s2 x = (tinfos s x)\<lparr>nested_unknowns := a', nested_composites := b'\<rparr>"
      using fl x1(1) by (simp add: f_def)
    ultimately show ?thesis using es(2) rest(1,2,5,6) False by (auto simp: cols_rel_def)
  qed
qed


lemma interned_alloc [simp]: "interned oid tm (s\<lparr>tinfos := f, tnext := n\<rparr>) = interned oid tm s"
  by (simp add: interned_def)

lemma alloc_type_ok:
  assumes s: "cache_ok s" "cache_current cat s" and u: "u = s\<lparr>tinfos := (tinfos s)(tnext s := t), tnext := Suc (tnext s)\<rparr>"
  shows "free s (tnext s)" "free u (tnext s)" "cache_ok u" "cache_current cat u" "later cat (tnext s) s u" "keeps rank m s u"
    "tinfos u (tnext s) = t" "tnext u = Suc (tnext s)"
proof -
  have lt: "y < tnext s" if "plain oid tm" "interned oid tm s = Some y" for oid tm y
    using s(1) that by (simp add: cache_ok_def)
  have i: "interned oid tm u = interned oid tm s" for oid tm by (simp add: u)
  have tu: "tinfos u y = tinfos s y" if "y < tnext s" for y using that by (simp add: u)
  show fr: "free s (tnext s)" "free u (tnext s)" using lt i by (auto simp: free_def)
  show "later cat (tnext s) s u"
    unfolding later_def
  proof (intro conjI allI impI)
    fix oid tm y assume "up_to_date cat s oid tm y"
    then have "plain oid tm" "interned oid tm s = Some y" using up_to_dateD by blast+
    then show "interned oid tm u = Some y" "(tinfos u y)\<lparr>revalidate := False\<rparr> = (tinfos s y)\<lparr>revalidate := False\<rparr>"
      using i tu lt by simp_all
  qed (use i tu in \<open>simp_all add: u free_def\<close>)
  then have up: "up_to_date cat u oid tm y" if "up_to_date cat s oid tm y" for oid tm y
    by (rule up_to_date_later [OF that])
  show "cache_ok u"
    unfolding cache_ok_def i
  proof (intro allI impI)
    fix oid tm y assume y: "plain oid tm" "interned oid tm s = Some y"
    have "y < tnext u" "tinfos u y = tinfos s y" using lt [OF y] tu by (simp_all add: u)
    then show "y < tnext u \<and> typeoid (tinfos u y) = oid \<and> typmod (tinfos u y) = tm \<and> \<not> t_modified (tinfos u y) \<and> \<not> obsolete (tinfos u y)"
      using s(1) y unfolding cache_ok_def by simp
  qed
  show "cache_current cat u"
    unfolding cache_current_def i
  proof (intro allI impI)
    fix oid tm y assume y: "plain oid tm" "interned oid tm s = Some y" "\<not> revalidate (tinfos u y)"
    then have "\<not> revalidate (tinfos s y)" using tu lt by simp
    then show "up_to_date cat u oid tm y" using s(2) y up unfolding cache_current_def by blast
  qed
  show "keeps rank m s u" using lt tu by (simp add: keeps_def i)
  show "tinfos u (tnext s) = t" "tnext u = Suc (tnext s)" by (simp_all add: u)
qed

lemma same_fields_refl: "same_fields t t"
  by (simp add: same_fields_def)

text \<open>One more lookup, of a type of smaller rank or of none, while object \<open>x\<close> is made.\<close>

lemma look_step:
  assumes look: "look_ok cat rank r look" and d: "d \<Longrightarrow> plain oid tm \<and> rank oid tm < r"
    and s: "cache_ok s" "cache_current cat s" "free s x" "x < tnext s"
    and res: "(if d then look oid tm s else (Inr None, s)) = (res, s')"
  shows "\<exists>b. res = Inr b \<and> cache_ok s' \<and> cache_current cat s' \<and> later cat x s s' \<and> keeps rank r s s' \<and> free s' x \<and>
    x < tnext s' \<and> tinfos s' x = tinfos s x"
proof (cases d)
  case True
  note o = look_okD [OF look conjunct1 [OF d [OF True]] conjunct2 [OF d [OF True]] s(1,2)]
  have l: "look oid tm s = (res, s')" using res True by simp
  have "\<exists>b. res = Inr b" using o(5,6) [OF l] by blast
  moreover have "later cat x s s'" using later_le [OF o(3) [OF l]] s(4) by simp
  ultimately show ?thesis
    using o(1,2,4) [OF l] later_free [OF o(3) [OF l] s(4,3)] later_tnext [OF o(3) [OF l]] s(4) by auto
qed (use res s later_refl keeps_rank_refl in auto)

lemma newtypeinfo_ok:
  fixes cat :: "'a catalog"
  assumes look: "look_ok cat rank (rank oid tm) look" and wf: "catalog_wf cat rank" and p: "plain oid tm"
    and s: "cache_ok s" "cache_current cat s" and c: "cat oid tm = Some c"
    and res: "pllua_newtypeinfo_raw cat look oid tm s = (res, s')"
  shows "res = Inr (Some (tnext s)) \<and> tnext s < tnext s' \<and> free s' (tnext s) \<and> cache_ok s' \<and> cache_current cat s' \<and>
    later cat (tnext s) s s' \<and> keeps rank (rank oid tm) s s' \<and>
    same_fields (tinfos s' (tnext s)) (newtypeinfo_base oid tm c) \<and> \<not> t_modified (tinfos s' (tnext s)) \<and>
    \<not> obsolete (tinfos s' (tnext s)) \<and> \<not> revalidate (tinfos s' (tnext s)) \<and>
    (\<forall>as. c_desc c = Some as \<longrightarrow> cols_rel (up_to_date cat s') as (u_attrtypes (tinfos s' (tnext s))))"
proof -
  let ?x = "tnext s" and ?r = "rank oid tm"
  let ?t = "newtypeinfo_base oid tm c"
  let ?s0 = "s\<lparr>tinfos := (tinfos s)(?x := ?t), tnext := Suc ?x\<rparr>"
  note a = alloc_type_ok [OF s, of ?s0 ?t, OF refl]
  note w = wf [unfolded catalog_wf_def, rule_format, OF p c]
  have x0: "?x < tnext ?s0" by simp
  obtain rb s1 where r1: "(if c_basetype c \<noteq> oid then look (c_basetype c) (- 1) ?s0 else (Inr None, ?s0)) = (rb, s1)" by fastforce
  obtain b where b: "rb = Inr b \<and> cache_ok s1 \<and> cache_current cat s1 \<and> later cat ?x ?s0 s1 \<and> keeps rank ?r ?s0 s1 \<and> free s1 ?x \<and>
    ?x < tnext s1 \<and> tinfos s1 ?x = tinfos ?s0 ?x"
    using look_step [OF look _ a(3,4,2) x0 r1] w by (auto simp: plain_def)
  obtain ra s2 where r2: "(case c_desc c of None \<Rightarrow> (Inr [], s1) | Some as \<Rightarrow> attr_types look ?x as s1) = (ra, s2)" by fastforce
  obtain es where es: "ra = Inr es \<and> (\<forall>as. c_desc c = Some as \<longrightarrow> cols_rel (up_to_date cat s2) as es) \<and> cache_ok s2 \<and> cache_current cat s2 \<and>
    later cat ?x s1 s2 \<and> keeps rank ?r s1 s2 \<and> free s2 ?x \<and> ?x < tnext s2 \<and>
    (\<exists>a b. tinfos s2 ?x = ?t\<lparr>nested_unknowns := a, nested_composites := b\<rparr>)"
  proof (cases "c_desc c")
    case None
    have "?t = ?t\<lparr>nested_unknowns := nested_unknowns ?t, nested_composites := nested_composites ?t\<rparr>" by simp
    then have flags: "\<exists>a b. ?t = ?t\<lparr>nested_unknowns := a, nested_composites := b\<rparr>" by (intro exI)
    have eqs: "ra = Inr []" "s2 = s1" using r2 None by simp_all
    have tx: "tinfos s1 ?x = ?t" using b by simp
    show ?thesis
      by (rule that [of "[]"], unfold eqs tx, intro conjI flags refl later_refl keeps_rank_refl) (use None b in simp_all)
  next
    case (Some as)
    have r2': "attr_types look ?x as s1 = (ra, s2)" using r2 Some by simp
    have at: "\<forall>a \<in> set as. \<not> attisdropped a \<longrightarrow> plain (atttypid a) (att_tm a) \<and> cat (atttypid a) (att_tm a) \<noteq> None \<and>
        rank (atttypid a) (att_tm a) < ?r" using w Some by blast
    have tx: "tinfos s1 ?x = ?t" using b by simp
    obtain es where "ra = Inr es \<and> cols_rel (up_to_date cat s2) as es \<and> cache_ok s2 \<and> cache_current cat s2 \<and> later cat ?x s1 s2 \<and>
      keeps rank ?r s1 s2 \<and> free s2 ?x \<and> ?x < tnext s2 \<and>
      (\<exists>a b. tinfos s2 ?x = (tinfos s1 ?x)\<lparr>nested_unknowns := a, nested_composites := b\<rparr>)"
      using attr_types_ok [OF look at _ _ _ _ r2'] b by blast
    then show ?thesis using that [of es] Some tx by simp
  qed
  obtain re s3 where r3: "(if c_range c \<noteq> 0 then look (c_range c) (- 1) s2
                              else if c_elem c \<noteq> 0 then look (c_elem c) (- 1) s2 else (Inr None, s2)) = (re, s3)" by fastforce
  have r3': "(if c_range c \<noteq> 0 \<or> c_elem c \<noteq> 0 then look (if c_range c \<noteq> 0 then c_range c else c_elem c) (- 1) s2 else (Inr None, s2)) = (re, s3)"
    using r3 by (auto split: if_splits)
  have dr: "plain (if c_range c \<noteq> 0 then c_range c else c_elem c) (- 1) \<and> rank (if c_range c \<noteq> 0 then c_range c else c_elem c) (- 1) < ?r"
    if "c_range c \<noteq> 0 \<or> c_elem c \<noteq> 0" using w that by (auto simp: plain_def)
  have s2: "cache_ok s2" "cache_current cat s2" "free s2 ?x" "?x < tnext s2" using es by simp_all
  obtain e where e: "re = Inr e \<and> cache_ok s3 \<and> cache_current cat s3 \<and> later cat ?x s2 s3 \<and> keeps rank ?r s2 s3 \<and> free s3 ?x \<and>
    ?x < tnext s3 \<and> tinfos s3 ?x = tinfos s2 ?x"
    using look_step [OF look dr s2 r3'] by blast
  let ?f = "\<lambda>t. t\<lparr>u_basetype := b, u_attrtypes := es, u_elemtype := e\<rparr>"
  have out: "res = Inr (Some ?x)" "s' = upd_t ?x ?f s3"
    using res c r1 r2 r3 b es e by (simp_all add: pllua_newtypeinfo_raw_def Let_def split: if_splits)
  have fr: "free s3 ?x" using e by simp
  have lat: "later cat ?x s2 s'" using later_trans [of cat ?x s2 s3 s'] later_upd [OF fr, of ?x] e out(2) by simp
  have "cols_rel (up_to_date cat s') as es" if "c_desc c = Some as" for as
    by (rule cols_rel_mono [THEN mp, of "up_to_date cat s2"]) (use up_to_date_later [OF _ lat] es that in blast)+
  moreover have "later cat ?x s s'"
    using later_trans [OF later_trans [OF a(5) _] lat] later_trans [of cat ?x ?s0 s1 s2] b es by blast
  moreover have "keeps rank ?r s s'"
    using keeps_rank_trans [OF a(6)] keeps_rank_trans [of rank ?r ?s0 s1] keeps_rank_trans [of rank ?r s1 s2] keeps_rank_trans [of rank ?r s2 s3]
      keeps_upd [OF fr] b es e out(2) by blast
  moreover obtain a' b' where "tinfos s' ?x = ?t\<lparr>nested_unknowns := a', nested_composites := b', u_basetype := b, u_attrtypes := es, u_elemtype := e\<rparr>"
    using es e out(2) by auto
  ultimately show ?thesis
    using cache_upd [OF fr] e out by (simp add: same_fields_def newtypeinfo_base_def)
qed


text \<open>Keys are the only ones of their objects.\<close>

lemma key_unique:
  assumes "cache_ok s" "plain oid tm" "plain oid' tm'" "interned oid tm s = Some x" "interned oid' tm' s = Some x"
  shows "oid' = oid \<and> tm' = tm"
  using assms unfolding cache_ok_def by metis

lemma replace_ok:
  assumes s: "cache_ok s" "cache_current cat s" and p: "plain oid tm" and old: "\<nexists>x. up_to_date cat s oid tm x"
    and u: "u = intern oid tm v (case interned oid tm s of None \<Rightarrow> s | Some x \<Rightarrow> upd_t x f s)"
    and v: "v = None \<or> (\<exists>y c. v = Some y \<and> m \<le> y \<and> y < tnext s \<and> free s y \<and> cat oid tm = Some c \<and>
        same_fields (tinfos s y) (newtypeinfo_base oid tm c) \<and> \<not> t_modified (tinfos s y) \<and> \<not> obsolete (tinfos s y) \<and>
        (\<forall>as. c_desc c = Some as \<longrightarrow> cols_rel (up_to_date cat s) as (u_attrtypes (tinfos s y))))"
  shows "cache_ok u \<and> cache_current cat u \<and> later cat m s u \<and> keeps rank (Suc (rank oid tm)) s u \<and>
    (\<forall>y. v = Some y \<longrightarrow> up_to_date cat u oid tm y \<and> tinfos u y = tinfos s y)"
proof -
  have i: "interned oid' tm' u = (if oid' = oid \<and> tm' = tm then v else interned oid' tm' s)" if "plain oid' tm'" for oid' tm'
    by (auto simp: u interned_intern [OF p that] split: option.splits)
  have tu: "tinfos u y = tinfos s y" if "interned oid tm s \<noteq> Some y" for y
    using that by (auto simp: u split: option.splits)
  have nu: "tnext u = tnext s" by (simp add: u split: option.splits)
  have oth: "tinfos u y = tinfos s y" if "plain oid' tm'" "interned oid' tm' s = Some y" "\<not> (oid' = oid \<and> tm' = tm)" for oid' tm' y
    using tu key_unique [OF s(1) that(1) p that(2)] that(3) by blast
  have frs: "interned oid tm s \<noteq> Some y" if "free s y" for y using that p by (simp add: free_def)
  have vy: "m \<le> y" "y < tnext s" "free s y" "tinfos u y = tinfos s y" if "v = Some y" for y
    using v that tu frs by auto
  have later: "later cat m s u"
    unfolding later_def
  proof (intro conjI allI impI)
    show "tnext s \<le> tnext u" by (simp add: nu)
  next
    fix y assume y: "y < m" "free s y"
    show "tinfos u y = tinfos s y" by (rule tu [OF frs [OF y(2)]])
    show "free u y" using y i vy(1) by (fastforce simp: free_def split: if_splits)
  next
    fix oid' tm' y assume y: "up_to_date cat s oid' tm' y"
    note d = up_to_dateD [OF y]
    have k: "\<not> (oid' = oid \<and> tm' = tm)" using old y by blast
    show "interned oid' tm' u = Some y" using i [OF d(1)] d(2) k by simp
    show "(tinfos u y)\<lparr>revalidate := False\<rparr> = (tinfos s y)\<lparr>revalidate := False\<rparr>" using oth [OF d(1,2) k] by simp
  qed
  have new: "up_to_date cat u oid tm y" if y: "v = Some y" for y
  proof -
    obtain c where c: "cat oid tm = Some c" "same_fields (tinfos s y) (newtypeinfo_base oid tm c)" "\<not> t_modified (tinfos s y)"
      "\<not> obsolete (tinfos s y)" "\<forall>as. c_desc c = Some as \<longrightarrow> cols_rel (up_to_date cat s) as (u_attrtypes (tinfos s y))"
      using v y by auto
    have "cols_rel (up_to_date cat u) as (u_attrtypes (tinfos s y))" if "c_desc c = Some as" for as
      by (rule cols_rel_mono [THEN mp, of "up_to_date cat s"]) (use up_to_date_later [OF _ later] c(5) that in blast)+
    then show ?thesis
      using c(1-4) vy(4) [OF y] i [OF p] y p by (intro up_to_date.intros [of oid tm cat c]) simp_all
  qed
  have "cache_ok u"
    unfolding cache_ok_def
  proof (intro allI impI)
    fix oid' tm' y assume y: "plain oid' tm'" "interned oid' tm' u = Some y"
    show "y < tnext u \<and> typeoid (tinfos u y) = oid' \<and> typmod (tinfos u y) = tm' \<and> \<not> t_modified (tinfos u y) \<and> \<not> obsolete (tinfos u y)"
    proof (cases "oid' = oid \<and> tm' = tm")
      case True
      then have vyy: "v = Some y" using y i by simp
      have "up_to_date cat u oid tm y" by (rule new [OF vyy])
      then show ?thesis using True vy(2) [OF vyy] nu by (auto simp: same_fields_def newtypeinfo_base_def elim: up_to_date.cases)
    next
      case False
      have si: "interned oid' tm' s = Some y" using y(2) unfolding i [OF y(1)] if_not_P [OF False] .
      show ?thesis using s(1) y(1) si oth [OF y(1) si False] nu unfolding cache_ok_def by simp
    qed
  qed
  moreover have "cache_current cat u"
    unfolding cache_current_def
  proof (intro allI impI)
    fix oid' tm' y assume y: "plain oid' tm'" "interned oid' tm' u = Some y" "\<not> revalidate (tinfos u y)"
    show "up_to_date cat u oid' tm' y"
    proof (cases "oid' = oid \<and> tm' = tm")
      case True
      then show ?thesis using new y i by simp
    next
      case False
      have si: "interned oid' tm' s = Some y" using y(2) unfolding i [OF y(1)] if_not_P [OF False] .
      then have "up_to_date cat s oid' tm' y" using s(2) y oth [OF y(1) si False] unfolding cache_current_def by simp
      then show ?thesis by (rule up_to_date_later [OF _ later])
    qed
  qed
  moreover have "keeps rank (Suc (rank oid tm)) s u"
    unfolding keeps_def
  proof (intro allI impI conjI)
    fix oid' tm' assume k: "plain oid' tm'" "Suc (rank oid tm) \<le> rank oid' tm'"
    then have ne: "\<not> (oid' = oid \<and> tm' = tm)" by auto
    show "interned oid' tm' u = interned oid' tm' s" using i [OF k(1)] ne by simp
    fix y assume "interned oid' tm' s = Some y"
    then show "tinfos u y = tinfos s y" using oth k(1) ne by blast
  qed
  ultimately show ?thesis using later new vy(4) by blast
qed

lemma revalidated_ok:
  assumes s: "cache_ok s" "cache_current cat s" and p: "plain oid tm" and x: "interned oid tm s = Some x"
    and c: "cat oid tm = Some c" and y: "same_fields (tinfos s y) (newtypeinfo_base oid tm c)"
      "\<forall>as. c_desc c = Some as \<longrightarrow> cols_rel (up_to_date cat s) as (u_attrtypes (tinfos s y))"
    and eq: "pllua_typeinfo_eq (tinfos s x) (tinfos s y)"
    and u: "u = upd_t x (\<lambda>t. t\<lparr>fromsql := fromsql (tinfos s y), tosql := tosql (tinfos s y), revalidate := False\<rparr>) s"
  shows "cache_ok u \<and> cache_current cat u \<and> later cat m s u \<and> keeps rank (Suc (rank oid tm)) s u \<and>
    up_to_date cat u oid tm x \<and> \<not> revalidate (tinfos u x)"
proof -
  have i: "interned oid' tm' u = interned oid' tm' s" for oid' tm' by (simp add: u)
  have tu: "tinfos u z = tinfos s z" if "z \<noteq> x" for z using that by (simp add: u)
  have xk: "oid' = oid \<and> tm' = tm" if "plain oid' tm'" "interned oid' tm' s = Some x" for oid' tm'
    by (rule key_unique [OF s(1) p that(1) x that(2)])
  have core: "(tinfos u z)\<lparr>revalidate := False\<rparr> = (tinfos s z)\<lparr>revalidate := False\<rparr>" if z: "up_to_date cat s oid' tm' z" for oid' tm' z
  proof (cases "z = x")
    case True
    then have "oid' = oid \<and> tm' = tm" using xk up_to_dateD [OF z] by simp
    then have "same_fields (tinfos s x) (newtypeinfo_base oid tm c)" using z c True by (auto elim: up_to_date.cases)
    then have "fromsql (tinfos s y) = fromsql (tinfos s x)" "tosql (tinfos s y) = tosql (tinfos s x)"
      using y(1) by (simp_all add: same_fields_def)
    then show ?thesis using True by (simp add: u)
  qed (use tu in simp)
  have later: "later cat m s u"
    unfolding later_def
  proof (intro conjI allI impI)
    fix z assume z: "z < m" "free s z"
    then have "z \<noteq> x" using p x by (auto simp: free_def)
    then show "tinfos u z = tinfos s z" by (rule tu)
    show "free u z" using z i by (simp add: free_def)
  next
    fix oid' tm' z assume z: "up_to_date cat s oid' tm' z"
    show "interned oid' tm' u = Some z" using i up_to_dateD(2) [OF z] by simp
    show "(tinfos u z)\<lparr>revalidate := False\<rparr> = (tinfos s z)\<lparr>revalidate := False\<rparr>" by (rule core [OF z])
  qed (simp add: u)
  have nx: "natts (tinfos s x) = natts (tinfos s y)" using eq by (simp add: pllua_typeinfo_eq_def)
  have "cols_rel (up_to_date cat u) as (u_attrtypes (tinfos u x))" if as: "c_desc c = Some as" "as \<noteq> []" for as
  proof -
    have "natts (tinfos s x) > 0" using y(1) as nx by (simp add: same_fields_def newtypeinfo_base_def)
    then have "u_attrtypes (tinfos u x) = u_attrtypes (tinfos s y)" using eq by (simp add: u pllua_typeinfo_eq_def)
    then show ?thesis
      using cols_rel_mono [THEN mp, OF _ y(2) [rule_format, OF as(1)], of "up_to_date cat u"] up_to_date_later [OF _ later] by simp
  qed
  moreover have "same_fields (tinfos u x) (newtypeinfo_base oid tm c)"
    using y(1) eq by (simp add: u same_fields_def pllua_typeinfo_eq_def)
  moreover have fl: "\<not> t_modified (tinfos u x)" "\<not> obsolete (tinfos u x)" "x < tnext u" "typeoid (tinfos u x) = oid" "typmod (tinfos u x) = tm"
    using s(1) p x unfolding cache_ok_def by (simp_all add: u)
  ultimately have up: "up_to_date cat u oid tm x"
    using p c x i by (intro up_to_date.intros [of oid tm cat c]) simp_all
  have "cache_ok u"
    unfolding cache_ok_def i
  proof (intro allI impI)
    fix oid' tm' z assume z: "plain oid' tm'" "interned oid' tm' s = Some z"
    show "z < tnext u \<and> typeoid (tinfos u z) = oid' \<and> typmod (tinfos u z) = tm' \<and> \<not> t_modified (tinfos u z) \<and> \<not> obsolete (tinfos u z)"
    proof (cases "z = x")
      case True
      then show ?thesis using fl xk z by simp
    next
      case False
      then show ?thesis using s(1) z tu unfolding cache_ok_def by (simp add: u)
    qed
  qed
  moreover have "cache_current cat u"
    unfolding cache_current_def i
  proof (intro allI impI)
    fix oid' tm' z assume z: "plain oid' tm'" "interned oid' tm' s = Some z" "\<not> revalidate (tinfos u z)"
    show "up_to_date cat u oid' tm' z"
    proof (cases "z = x")
      case True
      then show ?thesis using up xk z by simp
    next
      case False
      then have "up_to_date cat s oid' tm' z" using s(2) z tu unfolding cache_current_def by simp
      then show ?thesis by (rule up_to_date_later [OF _ later])
    qed
  qed
  moreover have "keeps rank (Suc (rank oid tm)) s u"
    unfolding keeps_def i
  proof (intro allI impI conjI refl)
    fix oid' tm' z assume z: "plain oid' tm'" "Suc (rank oid tm) \<le> rank oid' tm'" "interned oid' tm' s = Some z"
    then have "z \<noteq> x" using xk by fastforce
    then show "tinfos u z = tinfos s z" by (rule tu)
  qed
  ultimately show ?thesis using later up by (simp add: u)
qed


subsection \<open>Lookups\<close>

lemma lookup_with_ok:
  fixes cat :: "'a catalog"
  assumes look: "look_ok cat rank (rank oid tm) look" and wf: "catalog_wf cat rank" and p: "plain oid tm"
    and s: "cache_ok s" "cache_current cat s" and res: "lookup_with cat look oid tm s = (res, s')"
  shows "cache_ok s' \<and> cache_current cat s' \<and> later cat (tnext s) s s' \<and> keeps rank (Suc (rank oid tm)) s s' \<and>
    (if cat oid tm = None then res = Inr None
     else \<exists>x. res = Inr (Some x) \<and> up_to_date cat s' oid tm x \<and> \<not> revalidate (tinfos s' x))"
proof (cases "oid = 0")
  case True
  then have "cat oid tm = None" using wf p unfolding catalog_wf_def by (cases "cat oid tm") auto
  then show ?thesis using res s True later_refl keeps_rank_refl by (auto simp: lookup_with_def)
next
  case oid: False
  let ?cur = "interned oid tm s"
  show ?thesis
  proof (cases "case ?cur of None \<Rightarrow> False | Some x \<Rightarrow> \<not> revalidate (tinfos s x)")
    case True
    then obtain x where x: "?cur = Some x" "\<not> revalidate (tinfos s x)" by (auto split: option.splits)
    then have "up_to_date cat s oid tm x" using s(2) p by (auto simp: cache_current_def)
    moreover have "res = Inr (Some x)" "s' = s" using res x oid by (simp_all add: lookup_with_def Let_def)
    ultimately show ?thesis using up_to_dateD(3) s later_refl keeps_rank_refl x(2) by metis
  next
    case stale: False
    obtain r1 s1 where n: "pllua_newtypeinfo_raw cat look oid tm s = (r1, s1)" by fastforce
    show ?thesis
    proof (cases "cat oid tm")
      case None
      then have n': "r1 = Inr None" "s1 = s" using n by (simp_all add: pllua_newtypeinfo_raw_def)
      have old: "\<nexists>x. up_to_date cat s oid tm x" using None up_to_dateD(3) by blast
      have e: "res = Inr None" "s' = intern oid tm None (case ?cur of None \<Rightarrow> s | Some x \<Rightarrow> upd_t x (\<lambda>t. t\<lparr>obsolete := True, revalidate := False\<rparr>) s)"
        using res stale n n' oid by (auto simp: lookup_with_def Let_def split: option.splits)
      show ?thesis
        using replace_ok [OF s p old e(2), of "tnext s"] e(1) None by simp
    next
      case (Some c)
      let ?y = "tnext s"
      have n': "r1 = Inr (Some ?y)" "?y < tnext s1" "free s1 ?y" "cache_ok s1" "cache_current cat s1" "later cat ?y s s1"
        "keeps rank (rank oid tm) s s1" "same_fields (tinfos s1 ?y) (newtypeinfo_base oid tm c)" "\<not> t_modified (tinfos s1 ?y)"
        "\<not> obsolete (tinfos s1 ?y)" "\<not> revalidate (tinfos s1 ?y)"
        "\<forall>as. c_desc c = Some as \<longrightarrow> cols_rel (up_to_date cat s1) as (u_attrtypes (tinfos s1 ?y))"
        using newtypeinfo_ok [OF look wf p s Some n] by simp_all
      have cur: "interned oid tm s1 = ?cur" "\<And>x. ?cur = Some x \<Longrightarrow> tinfos s1 x = tinfos s x"
        using n'(7) p by (simp_all add: keeps_def)
      have kr: "keeps rank (Suc (rank oid tm)) s s1" using keeps_le [OF n'(7)] by simp
      show ?thesis
      proof (cases "\<exists>x. ?cur = Some x \<and> pllua_typeinfo_eq (tinfos s1 x) (tinfos s1 ?y)")
        case True
        then obtain x where x: "?cur = Some x" "pllua_typeinfo_eq (tinfos s1 x) (tinfos s1 ?y)" by blast
        have ix: "interned oid tm s1 = Some x" using x cur by simp
        have e: "res = Inr (Some x)"
          "s' = upd_t x (\<lambda>t. t\<lparr>fromsql := fromsql (tinfos s1 ?y), tosql := tosql (tinfos s1 ?y), revalidate := False\<rparr>) s1"
          using res stale n n'(1) oid x by (simp_all add: lookup_with_def Let_def)
        note r = revalidated_ok [OF n'(4,5) p ix Some n'(8,12) x(2) e(2), of ?y rank]
        have l: "later cat ?y s s'" "keeps rank (Suc (rank oid tm)) s s'"
          using later_trans [OF n'(6)] keeps_rank_trans [OF kr] r by blast+
        show ?thesis using r e(1) Some l by simp
      next
        case False
        have old: "\<nexists>x. up_to_date cat s1 oid tm x"
        proof
          assume "\<exists>x. up_to_date cat s1 oid tm x"
          then obtain x where x: "up_to_date cat s1 oid tm x" by blast
          have ix: "?cur = Some x" using up_to_dateD(2) [OF x] cur by simp
          have f: "same_fields (tinfos s1 x) (newtypeinfo_base oid tm c)"
            and cx: "\<And>as. c_desc c = Some as \<Longrightarrow> as \<noteq> [] \<Longrightarrow> cols_rel (up_to_date cat s1) as (u_attrtypes (tinfos s1 x))"
            using x Some by (auto elim: up_to_date.cases)
          have "u_attrtypes (tinfos s1 x) = u_attrtypes (tinfos s1 ?y)" if nat: "natts (tinfos s1 x) > 0"
          proof -
            obtain as where as: "c_desc c = Some as" "as \<noteq> []"
              using nat f by (cases "c_desc c") (auto simp: same_fields_def newtypeinfo_base_def)
            show ?thesis
              by (rule cols_rel_unique [OF cx [OF as] n'(12) [rule_format, OF as(1)]])
          qed
          then have "pllua_typeinfo_eq (tinfos s1 x) (tinfos s1 ?y)"
            using f n'(8) by (simp add: pllua_typeinfo_eq_def same_fields_def)
          then show False using False ix by blast
        qed
        have e: "res = Inr (Some ?y)"
          "s' = intern oid tm (Some ?y) (case interned oid tm s1 of None \<Rightarrow> s1 | Some x \<Rightarrow> upd_t x (\<lambda>t. t\<lparr>t_modified := True, revalidate := False\<rparr>) s1)"
          using res stale n n'(1) oid False cur(1) by (auto simp: lookup_with_def Let_def split: option.splits)
        note r = replace_ok [OF n'(4,5) p old e(2), of ?y rank]
        have v: "Some ?y = None \<or> (\<exists>y c. Some ?y = Some y \<and> ?y \<le> y \<and> y < tnext s1 \<and> free s1 y \<and> cat oid tm = Some c \<and>
            same_fields (tinfos s1 y) (newtypeinfo_base oid tm c) \<and> \<not> t_modified (tinfos s1 y) \<and> \<not> obsolete (tinfos s1 y) \<and>
            (\<forall>as. c_desc c = Some as \<longrightarrow> cols_rel (up_to_date cat s1) as (u_attrtypes (tinfos s1 y))))"
          by (intro disjI2 exI [of _ ?y] exI [of _ c]) (use n'(2,3,8-10,12) Some in simp)
        have l: "later cat ?y s s'" "keeps rank (Suc (rank oid tm)) s s'"
          using later_trans [OF n'(6)] keeps_rank_trans [OF kr] r [OF v] by blast+
        show ?thesis using r [OF v] l e(1) Some n'(11) by simp
      qed
    qed
  qed
qed

lemma lookup_ok:
  assumes "catalog_wf cat rank"
  shows "look_ok cat rank n (pllua_typeinfo_lookup cat n)"
proof (induction n)
  case (Suc n)
  show ?case
    unfolding look_ok_def pllua_typeinfo_lookup.simps
  proof (intro allI impI)
    fix oid tm s res s'
    assume a: "plain oid tm" "rank oid tm < Suc n" "cache_ok s" "cache_current cat s"
      "lookup_with cat (pllua_typeinfo_lookup cat n) oid tm s = (res, s')"
    have "look_ok cat rank (rank oid tm) (pllua_typeinfo_lookup cat n)"
      using Suc a(2) unfolding look_ok_def by (meson less_Suc_eq_le less_le_trans)
    then show "cache_ok s' \<and> cache_current cat s' \<and> later cat (tnext s) s s' \<and> keeps rank (Suc (rank oid tm)) s s' \<and>
        (if cat oid tm = None then res = Inr None
         else \<exists>x. res = Inr (Some x) \<and> up_to_date cat s' oid tm x \<and> \<not> revalidate (tinfos s' x))"
      by (rule lookup_with_ok [OF _ assms a(1,3,4,5)])
  qed
qed (simp add: look_ok_def)

end
