(* ===== verification/Typecache_Props.thy ===== *)
theory Typecache_Props
  imports Typecache_Inv
begin

text \<open>
  The properties of the cache of type information: what a lookup gives after the catalog has
  changed, which objects stay, and which changes are missed.
\<close>

subsection \<open>Sessions\<close>

text \<open>Types are looked up, and the catalog changes with a callback for the table of types.\<close>

datatype 'f tev = TLook nat | TChange "'f catalog"

fun tstep :: "nat \<Rightarrow> 'f tev \<Rightarrow> 'f catalog \<times> 'f tst \<Rightarrow> 'f catalog \<times> 'f tst" where
  "tstep n (TLook oid) (cat, s) = (cat, snd (pllua_typeinfo_lookup cat n oid (- 1) s))"
| "tstep n (TChange cat') (cat, s) = (cat', pllua_syscache_typeoid_callback s)"

definition tstart :: "'f catalog \<Rightarrow> 'f \<Rightarrow> 'f catalog \<times> 'f tst" where
  "tstart cat f = (cat, \<lparr>tinfos = (\<lambda>_. newtypeinfo_base 0 0 \<lparr>c_basetype = 0, c_desc = None, c_relid = 0, c_elem = 0,
     c_range = 0, c_props = f, c_fromsql = 0, c_tosql = 0\<rparr>), tnext = 0, reg_types = (\<lambda>_. None), reg_records = (\<lambda>_. None)\<rparr>)"

definition trun :: "nat \<Rightarrow> 'f tev list \<Rightarrow> 'f catalog \<Rightarrow> 'f \<Rightarrow> 'f catalog \<times> 'f tst" where
  "trun n evs cat f = fold (tstep n) evs (tstart cat f)"

text \<open>Only anonymous records have columns of type record.\<close>

definition catalog_ok :: "nat \<Rightarrow> 'f catalog \<Rightarrow> bool" where
  "catalog_ok n cat \<longleftrightarrow>
     (\<exists>rank. catalog_wf cat rank \<and> (\<forall>oid. rank oid (- 1) < n)) \<and>
     (\<forall>oid tm c as a. cat oid tm = Some c \<longrightarrow> \<not> is_rec oid tm \<longrightarrow> c_desc c = Some as \<longrightarrow> a \<in> set as \<longrightarrow>
        \<not> attisdropped a \<longrightarrow> atttypid a \<noteq> RECORDOID)"

fun ev_ok :: "nat \<Rightarrow> 'f tev \<Rightarrow> bool" where
  "ev_ok n (TLook oid) = True"
| "ev_ok n (TChange cat) = catalog_ok n cat"

lemma not_rec [simp]: "\<not> is_rec oid (- 1)"
  by (simp add: is_rec_def)

lemma attr_types_records:
  assumes "\<And>oid s. reg_records (snd (look oid (- 1) s)) = reg_records s"
    and "\<forall>a \<in> set as. \<not> attisdropped a \<longrightarrow> atttypid a \<noteq> RECORDOID"
  shows "reg_records (snd (attr_types look x as s)) = reg_records s"
  using assms(2)
proof (induction as arbitrary: s)
  case (Cons a as)
  have IH: "reg_records (snd (attr_types look x as u)) = reg_records u" for u using Cons by simp
  have l: "reg_records (snd (look (atttypid a) (- 1) s)) = reg_records s" by (rule assms(1))
  show ?case
  proof (cases "attisdropped a")
    case True
    then show ?thesis using IH [of s] by (auto split: prod.splits sum.splits)
  next
    case False
    obtain r s1 where r: "look (atttypid a) (- 1) s = (r, s1)" by fastforce
    have s1: "reg_records s1 = reg_records s" using l r by simp
    have nr: "atttypid a \<noteq> RECORDOID" using Cons.prems False by simp
    show ?thesis
    proof (cases "\<exists>e. r = Inr (Some e)")
      case True
      then obtain e where e: "r = Inr (Some e)" by blast
      define u where "u = upd_t x (\<lambda>t. t\<lparr>nested_unknowns := nested_unknowns t \<or> nested_unknowns (tinfos s1 e),
                       nested_composites := nested_composites t \<or> nested_composites (tinfos s1 e) \<or>
                         natts (tinfos s1 e) \<ge> 0 \<and> typeoid (tinfos s1 e) \<noteq> RECORDOID\<rparr>) s1"
      obtain r2 s2 where r2: "attr_types look x as u = (r2, s2)" by fastforce
      have "reg_records s2 = reg_records u" using IH [of u] r2 by simp
      then have "reg_records s2 = reg_records s" using s1 by (simp add: u_def upd_t_def)
      then show ?thesis using False nr r e r2 unfolding u_def by (cases r2) (simp_all add: Let_def)
    next
      case False
      then show ?thesis using \<open>\<not> attisdropped a\<close> nr r s1 by (auto split: sum.splits option.splits)
    qed
  qed
qed simp

lemma newtypeinfo_records:
  assumes look: "\<And>oid s. reg_records (snd (look oid (- 1) s)) = reg_records s"
    and c: "\<And>c as a. cat oid tm = Some c \<Longrightarrow> c_desc c = Some as \<Longrightarrow> a \<in> set as \<Longrightarrow> \<not> attisdropped a \<Longrightarrow> atttypid a \<noteq> RECORDOID"
  shows "reg_records (snd (pllua_newtypeinfo_raw cat look oid tm s)) = reg_records s"
proof (cases "cat oid tm")
  case (Some c)
  let ?x = "tnext s" and ?s0 = "s\<lparr>tinfos := (tinfos s)(tnext s := newtypeinfo_base oid tm c), tnext := Suc (tnext s)\<rparr>"
  obtain rb s1 where r1: "(if c_basetype c \<noteq> oid then look (c_basetype c) (- 1) ?s0 else (Inr None, ?s0)) = (rb, s1)" by fastforce
  have e1: "reg_records s1 = reg_records s" using arg_cong [OF r1, of "\<lambda>p. reg_records (snd p)"] look by (auto split: if_splits)
  obtain ra s2 where r2: "(case c_desc c of None \<Rightarrow> (Inr [], s1) | Some as \<Rightarrow> attr_types look ?x as s1) = (ra, s2)" by fastforce
  have e2: "reg_records s2 = reg_records s1"
  proof (cases "c_desc c")
    case (Some as)
    then show ?thesis using attr_types_records [of look as ?x s1, OF look] c [OF \<open>cat oid tm = Some c\<close> Some] r2 by simp
  qed (use r2 in simp)
  obtain re s3 where r3: "(if c_range c \<noteq> 0 then look (c_range c) (- 1) s2
                              else if c_elem c \<noteq> 0 then look (c_elem c) (- 1) s2 else (Inr None, s2)) = (re, s3)" by fastforce
  have e3: "reg_records s3 = reg_records s2" using arg_cong [OF r3, of "\<lambda>p. reg_records (snd p)"] look by (auto split: if_splits)
  show ?thesis
    using Some r1 r2 r3 e1 e2 e3 by (cases rb; cases ra; cases re) (simp_all add: pllua_newtypeinfo_raw_def Let_def upd_t_def)
qed (simp add: pllua_newtypeinfo_raw_def)

lemma lookup_records:
  assumes "catalog_ok m cat" "pllua_typeinfo_lookup cat n oid (- 1) s = (r, s')"
  shows "reg_records s' = reg_records s"
proof -
  have "reg_records (snd (pllua_typeinfo_lookup cat n oid (- 1) s)) = reg_records s"
  proof (induction n arbitrary: oid s)
    case (Suc n)
    have c: "atttypid a \<noteq> RECORDOID" if "cat oid (- 1) = Some c" "c_desc c = Some as" "a \<in> set as" "\<not> attisdropped a" for c as a
      using assms(1) that not_rec unfolding catalog_ok_def by blast
    obtain r s1 where r: "pllua_newtypeinfo_raw cat (pllua_typeinfo_lookup cat n) oid (- 1) s = (r, s1)" by fastforce
    have "reg_records s1 = reg_records s"
      using newtypeinfo_records [of "pllua_typeinfo_lookup cat n" cat oid "- 1" s, OF Suc c] r by simp
    then show ?case
      using r by (auto simp: lookup_with_def Let_def upd_t_def intern_def split: option.splits sum.splits)
  qed simp
  then show ?thesis using assms(2) by simp
qed

lemma callback_simps [simp]:
  "interned oid tm (pllua_syscache_typeoid_callback s) = interned oid tm s" "tnext (pllua_syscache_typeoid_callback s) = tnext s"
  "reg_records (pllua_syscache_typeoid_callback s) = reg_records s"
  "tinfos (pllua_syscache_typeoid_callback s) x =
     (if in_types s x then (tinfos s x)\<lparr>revalidate := True\<rparr> else tinfos s x)"
  by (simp_all add: pllua_syscache_typeoid_callback_def pllua_typeinfo_invalidate_def no_inval_def mark_def interned_def Let_def)

lemma callback_ok:
  assumes "cache_ok s" "reg_records s = (\<lambda>_. None)"
  shows "cache_ok (pllua_syscache_typeoid_callback s)" "cache_current cat (pllua_syscache_typeoid_callback s)"
proof -
  show "cache_ok (pllua_syscache_typeoid_callback s)" using assms(1) by (simp add: cache_ok_def)
  show "cache_current cat (pllua_syscache_typeoid_callback s)"
    unfolding cache_current_def
  proof (intro allI impI)
    fix oid tm x
    assume a: "plain oid tm" "interned oid tm (pllua_syscache_typeoid_callback s) = Some x"
      "\<not> revalidate (tinfos (pllua_syscache_typeoid_callback s) x)"
    have nr: "\<not> is_rec oid tm" using a(2) assms(2) by (auto simp: interned_def)
    then have "reg_types s oid = Some x" "typeoid (tinfos s x) = oid"
      using a(1,2) assms(1) unfolding callback_simps by (auto simp: interned_def cache_ok_def)
    then show "up_to_date cat (pllua_syscache_typeoid_callback s) oid tm x" using a(3) by (simp add: in_types_def)
  qed
qed

lemma trun_ok:
  assumes "catalog_ok n cat0" "\<forall>e \<in> set evs. ev_ok n e" "trun n evs cat0 f = (cat, s)"
  shows "catalog_ok n cat \<and> cache_ok s \<and> cache_current cat s \<and> reg_records s = (\<lambda>_. None)"
proof -
  have loop: "catalog_ok n c \<and> cache_ok s0 \<and> cache_current c s0 \<and> reg_records s0 = (\<lambda>_. None) \<Longrightarrow> fold (tstep n) evs (c, s0) = (cat, s) \<Longrightarrow>
    catalog_ok n cat \<and> cache_ok s \<and> cache_current cat s \<and> reg_records s = (\<lambda>_. None)" for c s0
    using assms(2)
  proof (induction evs arbitrary: c s0)
    case (Cons e evs)
    show ?case
    proof (cases e)
      case (TLook oid)
      obtain r s1 where r: "pllua_typeinfo_lookup c n oid (- 1) s0 = (r, s1)" by fastforce
      obtain rank where rank: "catalog_wf c rank" "\<forall>oid. rank oid (- 1) < n" using Cons.prems(1) by (auto simp: catalog_ok_def)
      have "cache_ok s1 \<and> cache_current c s1"
        using look_okD(1,2) [OF lookup_ok [OF rank(1)] _ _ _ _ r] Cons.prems(1) rank(2) by (simp add: plain_def)
      moreover have "reg_records s1 = (\<lambda>_. None)" using lookup_records [of n c, OF _ r] Cons.prems(1) by simp
      ultimately show ?thesis using Cons.IH [of c s1] Cons.prems r TLook by simp
    next
      case (TChange c')
      then show ?thesis using Cons.IH [of c' "pllua_syscache_typeoid_callback s0"] Cons.prems callback_ok(1) [of s0] callback_ok(2) [of s0 c'] by simp
    qed
  qed simp
  obtain s0 where s0: "tstart cat0 f = (cat0, s0)" by (simp add: tstart_def)
  then have "cache_ok s0 \<and> cache_current cat0 s0 \<and> reg_records s0 = (\<lambda>_. None)"
    by (auto simp: tstart_def cache_ok_def cache_current_def interned_def)
  then show ?thesis using loop [of cat0 s0] assms(1) assms(3) [unfolded trun_def s0] by blast
qed


subsection \<open>Properties\<close>

text \<open>C33. However types were looked up and changed in a session, a lookup after the callback for the
  table of types gives an object with what the catalog says now, whose columns have the objects of
  their types as they are now; it gives nil exactly for a type that is gone.\<close>

theorem lookup_follows_the_catalog:
  assumes "catalog_ok n cat0" "\<forall>e \<in> set evs. ev_ok n e" "trun n evs cat0 f = (cat, s)"
    and "pllua_typeinfo_lookup cat n oid (- 1) s = (r, s')"
  shows "if cat oid (- 1) = None then r = Inr None
    else \<exists>x. r = Inr (Some x) \<and> up_to_date cat s' oid (- 1) x \<and> \<not> revalidate (tinfos s' x)"
proof -
  note t = trun_ok [OF assms(1-3)]
  obtain rank where rank: "catalog_wf cat rank" "\<forall>oid. rank oid (- 1) < n" using t by (auto simp: catalog_ok_def)
  note o = look_okD(5,6) [OF lookup_ok [OF rank(1)] _ _ _ _ assms(4)]
  show ?thesis using o t rank(2) by (simp add: plain_def)
qed

text \<open>A type that the catalog describes as before, down to the types of its columns, keeps its
  object when the cache is checked again, so that the values made with it stay valid.\<close>

theorem unchanged_type_keeps_its_object:
  assumes "catalog_ok n cat0" "\<forall>e \<in> set evs. ev_ok n e" "trun n evs cat0 f = (cat, s)"
    and "catalog_ok n cat'" "up_to_date cat' s oid (- 1) x"
    and "pllua_typeinfo_lookup cat' n oid (- 1) (pllua_syscache_typeoid_callback s) = (r, s')"
  shows "r = Inr (Some x) \<and> (tinfos s' x)\<lparr>revalidate := False\<rparr> = (tinfos s x)\<lparr>revalidate := False\<rparr>"
proof -
  note t = trun_ok [OF assms(1-3)]
  let ?u = "pllua_syscache_typeoid_callback s"
  note c = callback_ok(1) [of s] callback_ok(2) [of s cat']
  have l: "later cat' 0 s ?u" by (auto simp: later_def free_def dest: up_to_dateD)
  have u: "up_to_date cat' ?u oid (- 1) x" by (rule up_to_date_later [OF assms(5) l])
  obtain rank where rank: "catalog_wf cat' rank" "\<forall>oid. rank oid (- 1) < n" using assms(4) by (auto simp: catalog_ok_def)
  note o = look_okD(3,6) [OF lookup_ok [OF rank(1)] _ _ _ _ assms(6)]
  have p: "plain oid (- 1)" by (simp add: plain_def)
  have lat: "later cat' (tnext ?u) ?u s'" using o(1) p rank(2) c t by simp
  obtain y where y: "r = Inr (Some y)" "up_to_date cat' s' oid (- 1) y" using o(2) p rank(2) c t up_to_dateD(3) [OF u] by auto
  have "interned oid (- 1) s' = Some x" "(tinfos s' x)\<lparr>revalidate := False\<rparr> = (tinfos ?u x)\<lparr>revalidate := False\<rparr>"
    using lat u unfolding later_def by blast+
  moreover have "(tinfos ?u x)\<lparr>revalidate := False\<rparr> = (tinfos s x)\<lparr>revalidate := False\<rparr>" by simp
  ultimately show ?thesis using y up_to_dateD(2) [OF y(2)] by simp
qed

text \<open>C34. The callback for changed relations marks nothing that describes a relation: a row type that
  was in use keeps its old columns whatever the catalog says, until some other type changes.\<close>

theorem relcache_callback_misses_composites:
  assumes "interned oid tm s = Some x" "\<not> revalidate (tinfos s x)" "reloid (tinfos s x) \<noteq> 0" "oid \<noteq> 0"
  shows "pllua_typeinfo_lookup cat (Suc n) oid tm (pllua_relcache_callback relid s) = (Inr (Some x), pllua_relcache_callback relid s) \<and>
    tinfos (pllua_relcache_callback relid s) x = tinfos s x"
proof -
  have t: "tinfos (pllua_relcache_callback relid s) x = tinfos s x" "interned oid tm (pllua_relcache_callback relid s) = Some x"
    using assms(1,3)
    by (simp_all add: pllua_relcache_callback_def pllua_typeinfo_invalidate_def no_inval_def mark_def interned_def split: if_splits)
  then show ?thesis using assms(2,4) by (simp add: lookup_with_def)
qed


text \<open>Looking up a type that is to be checked again with the modifier of a column, as assignment to
  a column does, replaces its object by one that has this modifier, although the type did not change.\<close>

theorem lookup_with_typmod_replaces_a_type:
  assumes "cat oid tm = Some c" "c_basetype c = oid" "c_desc c = None" "c_elem c = 0" "c_range c = 0" "oid \<noteq> 0" "\<not> is_rec oid tm"
    and "reg_types s oid = Some x" "x < tnext s" "revalidate (tinfos s x)" "typmod (tinfos s x) \<noteq> tm"
    and "pllua_typeinfo_lookup cat (Suc n) oid tm s = (r, s')"
  shows "r = Inr (Some (tnext s)) \<and> reg_types s' oid = Some (tnext s) \<and> typmod (tinfos s' (tnext s)) = tm \<and> t_modified (tinfos s' x)"
proof -
  have "interned oid tm s = Some x" using assms(7,8) by (simp add: interned_def)
  then show ?thesis
    using assms by (auto simp: lookup_with_def pllua_newtypeinfo_raw_def newtypeinfo_base_def pllua_typeinfo_eq_def intern_def Let_def upd_t_def)
qed

subsection \<open>An example\<close>

definition scalar :: "nat \<Rightarrow> nat cattype" where
  "scalar oid = \<lparr>c_basetype = oid, c_desc = None, c_relid = 0, c_elem = 0, c_range = 0, c_props = 4, c_fromsql = 0, c_tosql = 0\<rparr>"

definition int4_col :: "string \<Rightarrow> att" where
  "int4_col n = \<lparr>attname = n, attisdropped = False, atttypid = 23, atttypmod = - 1\<rparr>"

text \<open>A number, a string, a table with the given columns, and the arrays of its rows.\<close>

definition ex_cat :: "string list \<Rightarrow> nat catalog" where
  "ex_cat cols oid tm =
     (if oid = 23 \<or> oid = 1043 then Some (scalar oid)
      else if oid = 5000 then Some ((scalar 5000)\<lparr>c_desc := Some (map int4_col cols), c_relid := 4999\<rparr>)
      else if oid = 5001 then Some ((scalar 5001)\<lparr>c_elem := 5000\<rparr>) else None)"

lemma ex_cat_ok: "catalog_ok 3 (ex_cat cols)"
proof -
  let ?rank = "\<lambda>oid (tm::int). if oid = 5001 then 2 else if oid = 5000 then 1 else 0::nat"
  have "catalog_wf (ex_cat cols) ?rank"
    by (auto simp: catalog_wf_def ex_cat_def scalar_def int4_col_def att_tm_def plain_def RECORDOID_def split: if_splits)
  then show ?thesis
    by (auto simp: catalog_ok_def ex_cat_def scalar_def int4_col_def RECORDOID_def split: if_splits intro!: exI [of _ ?rank])
qed

abbreviation ex_one :: "nat catalog" where "ex_one \<equiv> ex_cat [''a'']"
abbreviation ex_two :: "nat catalog" where "ex_two \<equiv> ex_cat [''a'', ''b'']"

lemmas ex_eval = trun_def tstart_def numeral_3_eq_3 lookup_with_def pllua_newtypeinfo_raw_def newtypeinfo_base_def pllua_typeinfo_eq_def
  intern_def upd_t_def ex_cat_def scalar_def int4_col_def RECORDOID_def interned_def is_rec_def live_atts_def Let_def

text \<open>The table's type is looked up; then the table gets a second column.\<close>

definition ex_s :: "nat tst" where "ex_s = snd (trun 3 [TLook 5000] ex_one 0)"

lemma ex_s_facts:
  "reg_types ex_s 5000 = Some 0" "reg_types ex_s 23 = Some 1" "tnext ex_s = 2" "reloid (tinfos ex_s 0) = 4999" "natts (tinfos ex_s 0) = 1"
  "\<not> revalidate (tinfos ex_s 0)"
  "tinfos ex_s (Suc 0) = newtypeinfo_base 23 (- 1) (scalar 23)"
  by (simp_all add: ex_s_def ex_eval)

lemma ex_trun: "trun 3 [TLook 5000] ex_one 0 = (ex_one, ex_s)"
  by (simp add: ex_s_def trun_def tstart_def)

theorem lookup_follows_the_catalog_witness:
  "\<exists>x s'. pllua_typeinfo_lookup ex_two 3 5000 (- 1) (pllua_syscache_typeoid_callback ex_s) = (Inr (Some x), s') \<and>
     natts (tinfos s' x) = 2"
proof -
  have t: "trun 3 [TLook 5000, TChange ex_two] ex_one 0 = (ex_two, pllua_syscache_typeoid_callback ex_s)"
    by (simp add: ex_s_def trun_def tstart_def)
  obtain r s' where l: "pllua_typeinfo_lookup ex_two 3 5000 (- 1) (pllua_syscache_typeoid_callback ex_s) = (r, s')" by fastforce
  have c: "ex_two 5000 (- 1) = Some ((scalar 5000)\<lparr>c_desc := Some (map int4_col [''a'', ''b'']), c_relid := 4999\<rparr>)" by (simp add: ex_cat_def)
  then obtain x where "r = Inr (Some x)" "up_to_date ex_two s' 5000 (- 1) x"
    using lookup_follows_the_catalog [OF ex_cat_ok _ t l] ex_cat_ok by auto
  then show ?thesis using c l by (auto simp: same_fields_def newtypeinfo_base_def elim!: up_to_date.cases)
qed

lemma ex_up: "up_to_date ex_two ex_s 23 (- 1) 1"
  by (rule up_to_date.intros [of _ _ _ "scalar 23"])
    (simp_all add: ex_s_facts same_fields_refl plain_def interned_def ex_cat_def, simp_all add: scalar_def newtypeinfo_base_def)

theorem unchanged_type_keeps_its_object_witness:
  "fst (pllua_typeinfo_lookup ex_two 3 23 (- 1) (pllua_syscache_typeoid_callback ex_s)) = Inr (Some 1)"
  using unchanged_type_keeps_its_object [OF ex_cat_ok _ ex_trun ex_cat_ok ex_up prod.collapse [symmetric]] by simp

theorem relcache_callback_misses_composites_witness:
  "natts (newtypeinfo_base 5000 (- 1) (the (ex_two 5000 (- 1)))) = 2 \<and>
   natts (tinfos (snd (pllua_typeinfo_lookup ex_two 3 5000 (- 1) (pllua_relcache_callback 4999 ex_s))) 0) = 1"
proof -
  have "interned 5000 (- 1) ex_s = Some 0" by (simp add: interned_def ex_s_facts)
  from relcache_callback_misses_composites [OF this, of ex_two 2 4999]
  show ?thesis by (simp add: ex_s_facts numeral_3_eq_3 numeral_2_eq_2 newtypeinfo_base_def ex_cat_def)
qed

theorem lookup_with_typmod_replaces_a_type_witness:
  "reg_types (snd (pllua_typeinfo_lookup ex_one 1 23 14 (pllua_syscache_typeoid_callback ex_s))) 23 = Some 2 \<and>
   t_modified (tinfos (snd (pllua_typeinfo_lookup ex_one 1 23 14 (pllua_syscache_typeoid_callback ex_s))) 1)"
proof -
  have "reg_types (pllua_syscache_typeoid_callback ex_s) 23 = Some 1"
    using callback_simps(1) [of 23 "- 1" ex_s] by (simp add: interned_def ex_s_facts del: callback_simps)
  moreover have "in_types ex_s 1" by (simp add: in_types_def ex_s_facts newtypeinfo_base_def)
  ultimately show ?thesis
    using lookup_with_typmod_replaces_a_type [of ex_one 23 14 "scalar 23" "pllua_syscache_typeoid_callback ex_s" 1 0, OF _ _ _ _ _ _ _ _ _ _ _ prod.collapse [symmetric]]
    by (simp add: ex_s_facts newtypeinfo_base_def is_rec_def RECORDOID_def scalar_def ex_cat_def)
qed

text \<open>The type of arrays of rows keeps the object of the old row type, which is replaced.\<close>

lemma array_type_keeps_old_element:
  "let s = snd (trun 3 [TLook 5001, TChange ex_two, TLook 5001] ex_one 0) in
   reg_types s 5001 = Some 0 \<and> u_elemtype (tinfos s 0) = Some 1 \<and> reg_types s 5000 = Some 4 \<and> t_modified (tinfos s 1)"
  by (simp add: ex_eval pllua_syscache_typeoid_callback_def pllua_typeinfo_invalidate_def no_inval_def mark_def in_types_def)

end
