(* ===== verification/Datum_Row.thy ===== *)
theory Datum_Row
  imports Prelude
begin

text \<open>
  Row objects, src/src/datum.c: a row datum is deformed once into a table of column objects that
  point into its storage; before it is modified it is exploded, which copies the columns out and
  frees the row; a nested row that is modified explodes the row it came from.  \<open>'a\<close> is the type of
  values that have no columns (an array is one of them here, its expanded form a block of its own).
\<close>

subsection \<open>Types, storage and objects\<close>

datatype 'a tree = TNull | TAtom 'a | TRow "'a tree list"

text \<open>A column: its name, whether it is dropped, and its type.\<close>

datatype rty = RByval | RScalar | RArray | RRow "((string \<times> bool) \<times> rty) list"

abbreviation col_name :: "(string \<times> bool) \<times> rty \<Rightarrow> string" where "col_name c \<equiv> fst (fst c)"
abbreviation col_dropped :: "(string \<times> bool) \<times> rty \<Rightarrow> bool" where "col_dropped c \<equiv> snd (fst c)"
abbreviation col_type :: "(string \<times> bool) \<times> rty \<Rightarrow> rty" where "col_type c \<equiv> snd c"

fun cols_of :: "rty \<Rightarrow> ((string \<times> bool) \<times> rty) list" where
  "cols_of (RRow cs) = cs"
| "cols_of _ = []"

fun is_row :: "rty \<Rightarrow> bool" where
  "is_row (RRow _) = True"
| "is_row _ = False"

text \<open>A \<open>Datum\<close>: 0, a value passed by value, or a pointer into a block of memory.\<close>

datatype 'a dval = Val0 | VWord 'a | VPtr nat "nat list"

text \<open>What the \<open>.deformed\<close> table has for a column: false, true, a datum object, or nothing.\<close>

datatype entry = EDropped | ENull | EDat nat | ENil

record 'a dobj =
  d_ty :: rty
  d_val :: "'a dval"
  need_gc :: bool
  modified :: bool
  datumref :: "nat option"
  deformed :: "entry list option"
  has_meta :: bool

text \<open>
  The Lua objects and the blocks of PostgreSQL's memory, each numbered in the order of allocation;
  a block that is freed has no contents.  \<open>uaf\<close>: some freed block was read or freed again.
\<close>

record 'a rowst =
  objs :: "nat \<Rightarrow> 'a dobj"
  nobj :: nat
  mem :: "nat \<Rightarrow> 'a tree option"
  nblk :: nat
  uaf :: bool

fun subtree :: "'a tree \<Rightarrow> nat list \<Rightarrow> 'a tree" where
  "subtree t [] = t"
| "subtree (TRow ts) (i # p) = (if i < length ts then subtree (ts ! i) p else TNull)"
| "subtree _ (i # p) = TNull"

definition read_val :: "'a rowst \<Rightarrow> 'a dval \<Rightarrow> 'a tree" where
  "read_val s v =
     (case v of
        Val0 \<Rightarrow> TNull
      | VWord a \<Rightarrow> TAtom a
      | VPtr b p \<Rightarrow> (case mem s b of None \<Rightarrow> TNull | Some t \<Rightarrow> subtree t p))"

abbreviation read_datum :: "'a rowst \<Rightarrow> nat \<Rightarrow> 'a tree" where
  "read_datum s x \<equiv> read_val s (d_val (objs s x))"

definition live_val :: "'a rowst \<Rightarrow> 'a dval \<Rightarrow> bool" where
  "live_val s v = (case v of VPtr b p \<Rightarrow> mem s b \<noteq> None | _ \<Rightarrow> True)"

definition touch :: "nat \<Rightarrow> 'a rowst \<Rightarrow> 'a rowst" where
  "touch x s = s\<lparr>uaf := uaf s \<or> \<not> live_val s (d_val (objs s x))\<rparr>"

definition upd_obj :: "nat \<Rightarrow> ('a dobj \<Rightarrow> 'a dobj) \<Rightarrow> 'a rowst \<Rightarrow> 'a rowst" where
  "upd_obj x f s = s\<lparr>objs := (objs s)(x := f (objs s x))\<rparr>"

definition free_block :: "'a dval \<Rightarrow> 'a rowst \<Rightarrow> 'a rowst" where
  "free_block v s =
     (case v of
        VPtr b p \<Rightarrow> s\<lparr>mem := (mem s)(b := None), uaf := uaf s \<or> mem s b = None\<rparr>
      | _ \<Rightarrow> s)"

subsection \<open>Datum objects\<close>

definition pllua_newdatum :: "rty \<Rightarrow> 'a dval \<Rightarrow> 'a rowst \<Rightarrow> nat \<times> 'a rowst" where
  "pllua_newdatum t v s =
     (nobj s,
      s\<lparr>objs := (objs s)(nobj s := \<lparr>d_ty = t, d_val = v, need_gc = False, modified = False,
                                     datumref = None, deformed = None, has_meta = True\<rparr>),
        nobj := Suc (nobj s)\<rparr>)"

text \<open>A copy in a block of its own; values passed by value need none.\<close>

definition pllua_savedatum :: "nat \<Rightarrow> 'a rowst \<Rightarrow> 'a rowst" where
  "pllua_savedatum x s =
     (if d_ty (objs s x) = RByval then s
      else
        let s1 = touch x s in
        upd_obj x (\<lambda>d. d\<lparr>d_val := VPtr (nblk s) [], need_gc := True\<rparr>)
          (s1\<lparr>mem := (mem s)(nblk s \<mapsto> read_datum s x), nblk := Suc (nblk s)\<rparr>))"

definition pllua_datum_reference :: "nat \<Rightarrow> nat option \<Rightarrow> 'a rowst \<Rightarrow> 'a rowst" where
  "pllua_datum_reference x r = upd_obj x (\<lambda>d. d\<lparr>datumref := r\<rparr>)"

text \<open>The finalizer.\<close>

definition pllua_datum_gc :: "nat \<Rightarrow> 'a rowst \<Rightarrow> 'a rowst" where
  "pllua_datum_gc x s =
     (if \<not> need_gc (objs s x) \<or> d_val (objs s x) = Val0 then s
      else free_block (d_val (objs s x)) (upd_obj x (\<lambda>d. d\<lparr>need_gc := False, has_meta := False\<rparr>) s))"

subsection \<open>Deforming\<close>

text \<open>
  The value of column \<open>i\<close>; \<open>ext\<close> says which nested rows are stored in an extended form, so that
  they have to be copied.
\<close>

fun sub_val :: "'a dval \<Rightarrow> rty \<Rightarrow> nat \<Rightarrow> 'a tree \<Rightarrow> 'a dval" where
  "sub_val v RByval i (TAtom a) = VWord a"
| "sub_val (VPtr b p) ty i t = VPtr b (p @ [i])"
| "sub_val v ty i t = v"

definition needsave :: "(nat \<Rightarrow> nat list \<Rightarrow> bool) \<Rightarrow> rty \<Rightarrow> 'a dval \<Rightarrow> bool" where
  "needsave ext ty v = (is_row ty \<and> (case v of VPtr b p \<Rightarrow> ext b p | _ \<Rightarrow> False))"

definition deform_col ::
  "(nat \<Rightarrow> nat list \<Rightarrow> bool) \<Rightarrow> nat \<Rightarrow> nat \<Rightarrow> (string \<times> bool) \<times> rty \<Rightarrow> 'a tree \<Rightarrow> 'a rowst \<Rightarrow> entry \<times> 'a rowst"
where
  "deform_col ext x i c t s =
     (if col_dropped c then (EDropped, s)
      else if t = TNull then (ENull, s)
      else
        let v = sub_val (d_val (objs s x)) (col_type c) i t;
            (y, s1) = pllua_newdatum (col_type c) v s;
            s2 = pllua_datum_reference y (Some x) s1 in
        (EDat y, if needsave ext (col_type c) v then pllua_savedatum y s2 else s2))"

fun deform_cols ::
  "(nat \<Rightarrow> nat list \<Rightarrow> bool) \<Rightarrow> nat \<Rightarrow> nat \<Rightarrow> ((string \<times> bool) \<times> rty) list \<Rightarrow> 'a tree list \<Rightarrow> 'a rowst \<Rightarrow>
   entry list \<times> 'a rowst"
where
  "deform_cols ext x i (c # cs) (t # ts) s =
     (let (e, s1) = deform_col ext x i c t s; (es, s2) = deform_cols ext x (Suc i) cs ts s1 in (e # es, s2))"
| "deform_cols ext x i _ _ s = ([], s)"

fun row_fields :: "'a tree \<Rightarrow> 'a tree list" where
  "row_fields (TRow ts) = ts"
| "row_fields _ = []"

definition pllua_datum_deform_tuple :: "(nat \<Rightarrow> nat list \<Rightarrow> bool) \<Rightarrow> nat \<Rightarrow> 'a rowst \<Rightarrow> 'a rowst" where
  "pllua_datum_deform_tuple ext x s =
     (if deformed (objs s x) \<noteq> None then s
      else
        let (es, s') = deform_cols ext x 0 (cols_of (d_ty (objs s x))) (row_fields (read_datum s x)) (touch x s)
        in upd_obj x (\<lambda>d. d\<lparr>deformed := Some es\<rparr>) s')"

definition entries :: "'a rowst \<Rightarrow> nat \<Rightarrow> entry list" where
  "entries s x = (case deformed (objs s x) of None \<Rightarrow> [] | Some es \<Rightarrow> es)"

fun dats :: "entry list \<Rightarrow> nat list" where
  "dats [] = []"
| "dats (EDat y # es) = y # dats es"
| "dats (_ # es) = dats es"

subsection \<open>Exploding\<close>

definition save_child :: "nat \<Rightarrow> 'a rowst \<Rightarrow> 'a rowst" where
  "save_child y s = (if \<not> need_gc (objs s y) \<and> \<not> modified (objs s y) then pllua_savedatum y s else s)"

definition drop_value :: "nat \<Rightarrow> 'a rowst \<Rightarrow> 'a rowst" where
  "drop_value x s =
     (let d = objs s x; s1 = upd_obj x (\<lambda>d. d\<lparr>modified := True, need_gc := False, d_val := Val0\<rparr>) s in
      if need_gc d then free_block (d_val d) s1 else s1)"

definition detach_columns :: "nat list \<Rightarrow> nat \<Rightarrow> 'a rowst \<Rightarrow> 'a rowst" where
  "detach_columns ys x s =
     pllua_datum_reference x None
       (fold (\<lambda>y. pllua_datum_reference y None) ys (drop_value x (fold save_child ys s)))"

text \<open>
  The nested rows first, then the row itself.  The first argument bounds the nesting; the size of
  the type is enough.
\<close>

primrec pllua_datum_explode_tuple_inner ::
  "(nat \<Rightarrow> nat list \<Rightarrow> bool) \<Rightarrow> nat \<Rightarrow> nat \<Rightarrow> 'a rowst \<Rightarrow> 'a rowst"
where
  "pllua_datum_explode_tuple_inner ext 0 x s = s"
| "pllua_datum_explode_tuple_inner ext (Suc n) x s =
     (if d_val (objs s x) = Val0 then s
      else
        let recurse = (\<lambda>y s. if is_row (d_ty (objs s y))
                             then pllua_datum_explode_tuple_inner ext n y (pllua_datum_deform_tuple ext y s)
                             else s) in
        detach_columns (dats (entries s x)) x (fold recurse (dats (entries s x)) s))"

text \<open>Up the references to the outermost row; the first argument bounds the way.\<close>

primrec ultimate_parent :: "nat \<Rightarrow> 'a rowst \<Rightarrow> nat \<Rightarrow> nat" where
  "ultimate_parent 0 s x = x"
| "ultimate_parent (Suc n) s x =
     (case datumref (objs s x) of None \<Rightarrow> x | Some y \<Rightarrow> ultimate_parent n s y)"

definition pllua_datum_explode_tuple :: "(nat \<Rightarrow> nat list \<Rightarrow> bool) \<Rightarrow> nat \<Rightarrow> 'a rowst \<Rightarrow> 'a rowst" where
  "pllua_datum_explode_tuple ext x s =
     (let s1 = pllua_datum_deform_tuple ext x s in
      if d_val (objs s1 x) = Val0 then s1
      else
        let r = ultimate_parent (nobj s1) s1 x; s2 = pllua_datum_deform_tuple ext r s1 in
        pllua_datum_explode_tuple_inner ext (size (d_ty (objs s2 r))) r s2)"

subsection \<open>Access\<close>

datatype key = KName string | KNum int | KElse

text \<open>The table \<open>attrs\<close> gives the numbers (from 1) of the columns that are not dropped.\<close>

fun attr_lookup :: "((string \<times> bool) \<times> rty) list \<Rightarrow> int \<Rightarrow> string \<Rightarrow> int option" where
  "attr_lookup [] i n = None"
| "attr_lookup (c # cs) i n =
     (case attr_lookup cs (i + 1) n of
        Some j \<Rightarrow> Some j
      | None \<Rightarrow> if \<not> col_dropped c \<and> col_name c = n then Some i else None)"

definition row_attno :: "rty \<Rightarrow> key \<Rightarrow> string + nat" where
  "row_attno ty k =
     bindR (case k of
              KName n \<Rightarrow> (case attr_lookup (cols_of ty) 1 n of None \<Rightarrow> Inl ''datum has no column'' | Some i \<Rightarrow> Inr i)
            | KNum i \<Rightarrow> Inr i
            | KElse \<Rightarrow> Inl ''invalid type for key field'') (\<lambda>i.
     if i < 1 \<or> i > int (length (cols_of ty)) then Inl ''datum has no column number''
     else if col_dropped (cols_of ty ! (nat i - 1)) then Inl ''datum has no column number''
     else Inr (nat i - 1))"

text \<open>What a column gives: nil or its object (whose value a simple type then reads).\<close>

definition pllua_datum_column :: "nat \<Rightarrow> nat \<Rightarrow> 'a rowst \<Rightarrow> string + nat option" where
  "pllua_datum_column x i s =
     (case entries s x ! i of
        EDat y \<Rightarrow> Inr (Some y)
      | ENull \<Rightarrow> Inr None
      | EDropped \<Rightarrow> Inr None
      | ENil \<Rightarrow> Inl ''missing attribute'')"

definition pllua_datum_row_index ::
  "(nat \<Rightarrow> nat list \<Rightarrow> bool) \<Rightarrow> nat \<Rightarrow> key \<Rightarrow> 'a rowst \<Rightarrow> (string + nat option) \<times> 'a rowst"
where
  "pllua_datum_row_index ext x k s =
     (if \<not> is_row (d_ty (objs s x)) then (Inl ''datum is not a row type'', s)
      else case k of
        KElse \<Rightarrow> (Inr None, s)
      | _ \<Rightarrow>
        (case row_attno (d_ty (objs s x)) k of
           Inl e \<Rightarrow> (Inl e, s)
         | Inr i \<Rightarrow>
             let s1 = pllua_datum_deform_tuple ext x s in
             (case pllua_datum_column x i s1 of
                Inr (Some y) \<Rightarrow>
                  (Inr (Some y), if is_row (d_ty (objs s1 y)) then s1 else touch y s1)
              | r \<Rightarrow> (r, s1))))"

text \<open>
  Assignment.  The constructor of the column's type makes a new object with a copy of the value, or
  gives nil, or fails.
\<close>

definition set_entry :: "nat \<Rightarrow> nat \<Rightarrow> entry \<Rightarrow> 'a rowst \<Rightarrow> 'a rowst" where
  "set_entry x i e = upd_obj x (\<lambda>d. d\<lparr>deformed := map_option (\<lambda>es. es[i := e]) (deformed d)\<rparr>)"

definition owned_datum :: "rty \<Rightarrow> 'a tree \<Rightarrow> 'a rowst \<Rightarrow> nat \<times> 'a rowst" where
  "owned_datum ty t s =
     (case (ty, t) of
        (RByval, TAtom a) \<Rightarrow> pllua_newdatum ty (VWord a) s
      | _ \<Rightarrow>
        let s1 = s\<lparr>mem := (mem s)(nblk s \<mapsto> t), nblk := Suc (nblk s)\<rparr>;
            (y, s2) = pllua_newdatum ty (VPtr (nblk s) []) s1 in
        (y, upd_obj y (\<lambda>d. d\<lparr>need_gc := True\<rparr>) s2))"

definition pllua_datum_row_newindex ::
  "(nat \<Rightarrow> nat list \<Rightarrow> bool) \<Rightarrow> (rty \<Rightarrow> 'v \<Rightarrow> string + 'a tree) \<Rightarrow> nat \<Rightarrow> key \<Rightarrow> 'v \<Rightarrow> 'a rowst \<Rightarrow>
   (string + unit) \<times> 'a rowst"
where
  "pllua_datum_row_newindex ext conv x k v s =
     (if \<not> is_row (d_ty (objs s x)) then (Inl ''datum is not a row type'', s)
      else case row_attno (d_ty (objs s x)) k of
        Inl e \<Rightarrow> (Inl e, s)
      | Inr i \<Rightarrow>
          let s1 = pllua_datum_explode_tuple ext x s; ty = col_type (cols_of (d_ty (objs s x)) ! i) in
          (case conv ty v of
             Inl e \<Rightarrow> (Inl e, s1)
           | Inr TNull \<Rightarrow> (Inr (), set_entry x i ENil s1)
           | Inr t \<Rightarrow> let (y, s2) = owned_datum ty t s1 in (Inr (), set_entry x i (EDat y) s2)))"

text \<open>The value that PostgreSQL gets for a row: its storage, or if it is modified a new row made from
  its columns.  The first argument bounds the nesting.\<close>

primrec row_value :: "nat \<Rightarrow> 'a rowst \<Rightarrow> nat \<Rightarrow> 'a tree" where
  "row_value 0 s x = TNull"
| "row_value (Suc n) s x =
     (if modified (objs s x)
      then TRow (map (\<lambda>e. case e of EDat y \<Rightarrow> row_value n s y | _ \<Rightarrow> TNull) (entries s x))
      else read_datum s x)"

subsection \<open>Arrays in rows\<close>

text \<open>Expansion: a copy in a block of its own; the reference to the row stays.\<close>

definition pllua_datum_array_value :: "nat \<Rightarrow> 'a rowst \<Rightarrow> 'a rowst" where
  "pllua_datum_array_value x s = (if need_gc (objs s x) then s else pllua_savedatum x s)"

text \<open>Assignment to an element: the row that the array came from is exploded first.\<close>

definition array_assign ::
  "(nat \<Rightarrow> nat list \<Rightarrow> bool) \<Rightarrow> nat \<Rightarrow> ('a \<Rightarrow> 'a) \<Rightarrow> 'a rowst \<Rightarrow> 'a rowst"
where
  "array_assign ext x f s =
     (let s1 = (case datumref (objs s x) of None \<Rightarrow> s | Some r \<Rightarrow> pllua_datum_explode_tuple ext r s);
          s2 = pllua_datum_array_value x s1 in
      case (d_val (objs s2 x), read_datum s2 x) of
        (VPtr b p, TAtom a) \<Rightarrow> (touch x s2)\<lparr>mem := (mem s2)(b \<mapsto> TAtom (f a))\<rparr>
      | _ \<Rightarrow> touch x s2)"

end
