(* ===== verification/Datum_Row_Inv.thy ===== *)
theory Datum_Row_Inv
  imports Datum_Row
begin

text \<open>
  The invariant of row objects (Datum_Row): who owns which block of storage, which objects point
  into the storage of another, and that the table of columns of a row that is not modified is what
  is in its storage; and that deforming a row keeps it.
\<close>

subsection \<open>The invariant\<close>

text \<open>Contents that fit a type.\<close>

fun wt :: "rty \<Rightarrow> 'a tree \<Rightarrow> bool" and wts :: "((string \<times> bool) \<times> rty) list \<Rightarrow> 'a tree list \<Rightarrow> bool" where
  "wt (RRow cs) (TRow ts) \<longleftrightarrow> wts cs ts"
| "wt (RRow cs) _ \<longleftrightarrow> False"
| "wt _ (TAtom a) \<longleftrightarrow> True"
| "wt _ _ \<longleftrightarrow> False"
| "wts (((n, d), ty) # cs) (t # ts) \<longleftrightarrow> (t = TNull \<or> \<not> d \<and> wt ty t) \<and> wts cs ts"
| "wts [] [] \<longleftrightarrow> True"
| "wts _ _ \<longleftrightarrow> False"

lemma wts_nth:
  "wts cs ts \<longleftrightarrow> length ts = length cs \<and>
     (\<forall>i < length cs. ts ! i = TNull \<or> \<not> col_dropped (cs ! i) \<and> wt (col_type (cs ! i)) (ts ! i))"
proof (induction cs arbitrary: ts)
  case Nil
  then show ?case by (cases ts) auto
next
  case (Cons c cs)
  then show ?case by (cases c; cases ts) (auto simp: nth_Cons split: nat.splits)
qed

lemma wt_not_null [simp]: "wt ty TNull \<longleftrightarrow> False"
  by (cases ty) simp_all

lemma wt_rowE: "wt (RRow cs) t \<Longrightarrow> (\<And>ts. t = TRow ts \<Longrightarrow> wts cs ts \<Longrightarrow> P) \<Longrightarrow> P"
  by (cases t) auto

lemma wt_atomE: "wt ty t \<Longrightarrow> \<not> is_row ty \<Longrightarrow> (\<And>a. t = TAtom a \<Longrightarrow> P) \<Longrightarrow> P"
  by (cases ty; cases t) auto

text \<open>\<open>D\<close> are the objects that the collector has taken.\<close>

definition alive :: "nat set \<Rightarrow> 'a rowst \<Rightarrow> nat \<Rightarrow> bool" where
  "alive D s x \<longleftrightarrow> x < nobj s \<and> x \<notin> D"

text \<open>What an object's value says of its other fields.\<close>

definition val_ok :: "'a rowst \<Rightarrow> 'a dobj \<Rightarrow> bool" where
  "val_ok s d \<longleftrightarrow>
     (case d_val d of
        Val0 \<Rightarrow> modified d \<and> \<not> need_gc d \<and> datumref d = None \<and> deformed d \<noteq> None \<and> is_row (d_ty d)
      | VWord a \<Rightarrow> d_ty d = RByval \<and> \<not> need_gc d \<and> \<not> modified d
      | VPtr b p \<Rightarrow> d_ty d \<noteq> RByval \<and> \<not> modified d \<and> mem s b \<noteq> None \<and> wt (d_ty d) (read_val s (d_val d)) \<and>
          (need_gc d \<longrightarrow> p = []))"

text \<open>The table of columns fits the type; its objects are younger and belong to this row only.\<close>

definition cols_ok :: "nat set \<Rightarrow> 'a rowst \<Rightarrow> nat \<Rightarrow> bool" where
  "cols_ok D s x \<longleftrightarrow>
     (\<forall>es. deformed (objs s x) = Some es \<longrightarrow>
        (\<exists>cs. d_ty (objs s x) = RRow cs \<and> length es = length cs \<and>
          (\<forall>i < length cs. (es ! i = EDropped) = col_dropped (cs ! i) \<and>
             (\<forall>c. es ! i = EDat c \<longrightarrow> x < c \<and> alive D s c \<and> d_ty (objs s c) = col_type (cs ! i)))))"

definition in_entries :: "'a rowst \<Rightarrow> nat \<Rightarrow> nat \<Rightarrow> nat \<Rightarrow> bool" where
  "in_entries s x i c \<longleftrightarrow> (\<exists>es. deformed (objs s x) = Some es \<and> i < length es \<and> es ! i = EDat c)"

text \<open>The columns of a row that is not modified are what is in its storage.\<close>

definition coherent :: "'a rowst \<Rightarrow> nat \<Rightarrow> bool" where
  "coherent s x \<longleftrightarrow>
     (\<forall>es i. deformed (objs s x) = Some es \<longrightarrow> i < length es \<longrightarrow>
        (case es ! i of
           EDat c \<Rightarrow> datumref (objs s c) = Some x \<and> d_val (objs s c) \<noteq> Val0 \<and>
                     read_datum s c = row_fields (read_datum s x) ! i
         | ENil \<Rightarrow> False
         | _ \<Rightarrow> row_fields (read_datum s x) ! i = TNull))"

text \<open>\<open>X\<close> are the rows that are being exploded.\<close>

definition exploding :: "nat set \<Rightarrow> 'a rowst \<Rightarrow> nat \<Rightarrow> bool" where
  "exploding X s x \<longleftrightarrow>
     d_val (objs s x) \<noteq> Val0 \<and> deformed (objs s x) \<noteq> None \<and>
     (\<forall>y. datumref (objs s x) = Some y \<longrightarrow> y \<in> X) \<and>
     (\<forall>i c. in_entries s x i c \<longrightarrow> d_val (objs s c) = Val0 \<or> datumref (objs s c) = Some x)"

definition ref_ok :: "nat set \<Rightarrow> 'a rowst \<Rightarrow> nat \<Rightarrow> bool" where
  "ref_ok D s x \<longleftrightarrow>
     (\<forall>y. datumref (objs s x) = Some y \<longrightarrow>
        y < x \<and> alive D s y \<and> d_val (objs s y) \<noteq> Val0 \<and> (\<exists>i. in_entries s y i x)) \<and>
     (\<forall>b p. d_val (objs s x) = VPtr b p \<longrightarrow> \<not> need_gc (objs s x) \<longrightarrow>
        (\<exists>y q i. datumref (objs s x) = Some y \<and> d_val (objs s y) = VPtr b q \<and> p = q @ [i]))"

definition rinv :: "nat set \<Rightarrow> nat set \<Rightarrow> 'a rowst \<Rightarrow> bool" where
  "rinv X D s \<longleftrightarrow>
     \<not> uaf s \<and> (\<forall>b. nblk s \<le> b \<longrightarrow> mem s b = None) \<and> (\<forall>x \<in> D. x < nobj s) \<and>
     (\<forall>x. alive D s x \<longrightarrow>
        has_meta (objs s x) \<and> val_ok s (objs s x) \<and> ref_ok D s x \<and> cols_ok D s x \<and> (x \<notin> X \<longrightarrow> d_val (objs s x) \<noteq> Val0 \<longrightarrow> coherent s x)) \<and>
     (\<forall>x \<in> X. alive D s x \<and> exploding X s x) \<and>
     (\<forall>x y b p q. alive D s x \<longrightarrow> alive D s y \<longrightarrow> need_gc (objs s x) \<longrightarrow> need_gc (objs s y) \<longrightarrow>
        d_val (objs s x) = VPtr b p \<longrightarrow> d_val (objs s y) = VPtr b q \<longrightarrow> x = y) \<and>
     (\<forall>x y c i j. alive D s x \<longrightarrow> alive D s y \<longrightarrow> in_entries s x i c \<longrightarrow> in_entries s y j c \<longrightarrow> x = y \<and> i = j)"

lemma rinvD:
  assumes "rinv X D s"
  shows "\<not> uaf s" "\<And>b. nblk s \<le> b \<Longrightarrow> mem s b = None"
    "\<And>x. alive D s x \<Longrightarrow> has_meta (objs s x)" "\<And>x. alive D s x \<Longrightarrow> val_ok s (objs s x)"
    "\<And>x. alive D s x \<Longrightarrow> ref_ok D s x" "\<And>x. alive D s x \<Longrightarrow> cols_ok D s x"
    "\<And>x. alive D s x \<Longrightarrow> x \<notin> X \<Longrightarrow> d_val (objs s x) \<noteq> Val0 \<Longrightarrow> coherent s x"
    "\<And>x. x \<in> X \<Longrightarrow> alive D s x" "\<And>x. x \<in> X \<Longrightarrow> exploding X s x"
    "\<And>x y b p q. alive D s x \<Longrightarrow> alive D s y \<Longrightarrow> need_gc (objs s x) \<Longrightarrow> need_gc (objs s y) \<Longrightarrow>
        d_val (objs s x) = VPtr b p \<Longrightarrow> d_val (objs s y) = VPtr b q \<Longrightarrow> x = y"
    "\<And>x y c i j. alive D s x \<Longrightarrow> alive D s y \<Longrightarrow> in_entries s x i c \<Longrightarrow> in_entries s y j c \<Longrightarrow> x = y \<and> i = j"
    "\<And>x. x \<in> D \<Longrightarrow> x < nobj s"
  using assms unfolding rinv_def by blast+

text \<open>What Lua sees of a row: its columns where it is deformed, its storage otherwise.\<close>

primrec view :: "nat \<Rightarrow> 'a rowst \<Rightarrow> nat \<Rightarrow> 'a tree" where
  "view 0 s x = TNull"
| "view (Suc n) s x =
     (case deformed (objs s x) of
        None \<Rightarrow> read_datum s x
      | Some es \<Rightarrow> TRow (map (\<lambda>e. case e of EDat y \<Rightarrow> view n s y | _ \<Rightarrow> TNull) es))"

lemma dats_set: "y \<in> set (dats es) \<longleftrightarrow> EDat y \<in> set es"
  by (induction es rule: dats.induct) auto

lemma in_entries_dats: "(\<exists>i. in_entries s x i c) \<longleftrightarrow> c \<in> set (dats (entries s x))"
proof -
  have "c \<in> set (dats (entries s x)) \<longleftrightarrow> (\<exists>i < length (entries s x). entries s x ! i = EDat c)"
    using dats_set [of c "entries s x"] in_set_conv_nth [of "EDat c" "entries s x"] by metis
  then show ?thesis by (auto simp: in_entries_def entries_def split: option.splits)
qed

subsection \<open>The primitive operations, field by field\<close>

lemma upd_obj_simps [simp]:
  "objs (upd_obj x f s) = (objs s)(x := f (objs s x))" "nobj (upd_obj x f s) = nobj s"
  "mem (upd_obj x f s) = mem s" "nblk (upd_obj x f s) = nblk s" "uaf (upd_obj x f s) = uaf s"
  by (simp_all add: upd_obj_def)

lemma touch_simps [simp]:
  "objs (touch x s) = objs s" "nobj (touch x s) = nobj s" "mem (touch x s) = mem s" "nblk (touch x s) = nblk s"
  "uaf (touch x s) = (uaf s \<or> \<not> live_val s (d_val (objs s x)))"
  by (simp_all add: touch_def)

lemma reference_simps [simp]:
  "objs (pllua_datum_reference x r s) = (objs s)(x := objs s x\<lparr>datumref := r\<rparr>)"
  "nobj (pllua_datum_reference x r s) = nobj s" "mem (pllua_datum_reference x r s) = mem s"
  "nblk (pllua_datum_reference x r s) = nblk s" "uaf (pllua_datum_reference x r s) = uaf s"
  by (simp_all add: pllua_datum_reference_def)

lemma newdatum_simps [simp]:
  "fst (pllua_newdatum t v s) = nobj s"
  "objs (snd (pllua_newdatum t v s)) =
     (objs s)(nobj s := \<lparr>d_ty = t, d_val = v, need_gc = False, modified = False,
                         datumref = None, deformed = None, has_meta = True\<rparr>)"
  "nobj (snd (pllua_newdatum t v s)) = Suc (nobj s)" "mem (snd (pllua_newdatum t v s)) = mem s"
  "nblk (snd (pllua_newdatum t v s)) = nblk s" "uaf (snd (pllua_newdatum t v s)) = uaf s"
  by (simp_all add: pllua_newdatum_def)

lemma savedatum_simps:
  assumes "d_ty (objs s x) \<noteq> RByval"
  shows "objs (pllua_savedatum x s) = (objs s)(x := objs s x\<lparr>d_val := VPtr (nblk s) [], need_gc := True\<rparr>)"
    "nobj (pllua_savedatum x s) = nobj s" "mem (pllua_savedatum x s) = (mem s)(nblk s \<mapsto> read_datum s x)"
    "nblk (pllua_savedatum x s) = Suc (nblk s)"
    "uaf (pllua_savedatum x s) = (uaf s \<or> \<not> live_val s (d_val (objs s x)))"
  using assms by (simp_all add: pllua_savedatum_def Let_def)

subsection \<open>Deforming\<close>

text \<open>The object made for a column.\<close>

definition new_col :: "nat \<Rightarrow> 'a dval \<Rightarrow> ((string \<times> bool) \<times> rty) \<Rightarrow> nat \<Rightarrow> 'a tree \<Rightarrow> 'a rowst \<Rightarrow> nat \<Rightarrow> 'a rowst \<Rightarrow> bool" where
  "new_col x v c i t s y s' \<longleftrightarrow>
     (let d = objs s' y in
      d_ty d = col_type c \<and> \<not> modified d \<and> datumref d = Some x \<and> deformed d = None \<and> has_meta d \<and>
      (\<not> need_gc d \<and> d_val d = sub_val v (col_type c) i t \<or>
       need_gc d \<and> d_ty d \<noteq> RByval \<and>
         (\<exists>b. d_val d = VPtr b [] \<and> nblk s \<le> b \<and> b < nblk s' \<and> mem s' b = Some t)))"

text \<open>Allocation leaves what was there before alone.\<close>

definition grows :: "'a rowst \<Rightarrow> 'a rowst \<Rightarrow> bool" where
  "grows s s' \<longleftrightarrow>
     (\<forall>z < nobj s. objs s' z = objs s z) \<and> nobj s \<le> nobj s' \<and> nblk s \<le> nblk s' \<and>
     (\<forall>b < nblk s. mem s' b = mem s b) \<and> uaf s' = uaf s \<and>
     ((\<forall>b. nblk s \<le> b \<longrightarrow> mem s b = None) \<longrightarrow> (\<forall>b. nblk s' \<le> b \<longrightarrow> mem s' b = None))"

lemma same_mem: "mem s' = mem s \<Longrightarrow> read_val s' v = read_val s v" "mem s' = mem s \<Longrightarrow> live_val s' v = live_val s v"
  by (simp_all add: read_val_def live_val_def split: dval.split)

lemma grows_refl: "grows s s"
  by (simp add: grows_def)

lemma grows_trans: "grows s t \<Longrightarrow> grows t u \<Longrightarrow> grows s u"
  by (auto simp: grows_def)

lemma sub_val_read:
  assumes "read_val s v = TRow ts" "i < length ts" "ts ! i = t" "wt ty t"
  shows "read_val s (sub_val v ty i t) = t" "live_val s (sub_val v ty i t)"
proof -
  obtain b p u where v: "v = VPtr b p" "mem s b = Some u" "subtree u p = TRow ts"
    using assms(1) by (auto simp: read_val_def split: dval.splits option.splits)
  have "subtree u (p @ [i]) = subtree (subtree u p) [i]"
    by (induction u p rule: subtree.induct) auto
  then have "subtree u (p @ [i]) = t" using v assms by simp
  then show "read_val s (sub_val v ty i t) = t" "live_val s (sub_val v ty i t)"
    using v assms(4) by (cases ty; cases t; auto simp: read_val_def live_val_def)+
qed

lemma deform_col_spec:
  assumes "deform_col ext x i c t s = (e, s')" "read_val s (d_val (objs s x)) = TRow us"
    and "i < length us" "us ! i = t" "t = TNull \<or> \<not> col_dropped c \<and> wt (col_type c) t" "x < nobj s"
  shows "grows s s'" "e = EDropped \<longleftrightarrow> col_dropped c" "e \<noteq> ENil"
    and "case e of EDat y \<Rightarrow> y = nobj s \<and> nobj s' = Suc (nobj s) \<and> t \<noteq> TNull \<and>
                             new_col x (d_val (objs s x)) c i t s y s'
                 | _ \<Rightarrow> t = TNull \<and> nobj s' = nobj s"
proof -
  consider "col_dropped c" | "\<not> col_dropped c" "t = TNull" | "\<not> col_dropped c" "wt (col_type c) t" "t \<noteq> TNull"
    using assms(5) by blast
  then have "grows s s' \<and> (e = EDropped \<longleftrightarrow> col_dropped c) \<and> e \<noteq> ENil \<and>
     (case e of EDat y \<Rightarrow> y = nobj s \<and> nobj s' = Suc (nobj s) \<and> t \<noteq> TNull \<and>
                             new_col x (d_val (objs s x)) c i t s y s'
                 | _ \<Rightarrow> t = TNull \<and> nobj s' = nobj s)"
  proof cases
    case 3
    note r = sub_val_read [OF assms(2-4) 3(2)]
    let ?v = "sub_val (d_val (objs s x)) (col_type c) i t"
    let ?s2 = "pllua_datum_reference (nobj s) (Some x) (snd (pllua_newdatum (col_type c) ?v s))"
    have r2: "read_val ?s2 ?v = t" "live_val ?s2 ?v"
      using r same_mem [of ?s2 s ?v] by simp_all
    have ty: "is_row (col_type c) \<Longrightarrow> col_type c \<noteq> RByval" by (cases "col_type c") auto
    have d: "e = EDat (nobj s)" "s' = (if needsave ext (col_type c) ?v then pllua_savedatum (nobj s) ?s2 else ?s2)"
      using assms(1) 3 by (auto simp: deform_col_def Let_def case_prod_beta)
    show ?thesis
    proof (cases "needsave ext (col_type c) ?v")
      case False
      then show ?thesis using d 3 by (auto simp: grows_def new_col_def)
    next
      case True
      then have nb: "col_type c \<noteq> RByval" using ty by (auto simp: needsave_def)
      then have "d_ty (objs ?s2 (nobj s)) \<noteq> RByval" by simp
      note sv = savedatum_simps [OF this]
      show ?thesis using d 3 True r2 sv nb by (auto simp: grows_def new_col_def)
    qed
  qed (use assms in \<open>auto simp: deform_col_def grows_refl\<close>)
  then show "grows s s'" "e = EDropped \<longleftrightarrow> col_dropped c" "e \<noteq> ENil"
    "case e of EDat y \<Rightarrow> y = nobj s \<and> nobj s' = Suc (nobj s) \<and> t \<noteq> TNull \<and>
                             new_col x (d_val (objs s x)) c i t s y s'
                 | _ \<Rightarrow> t = TNull \<and> nobj s' = nobj s"
    by blast+
qed

definition new_cols :: "nat \<Rightarrow> 'a dval \<Rightarrow> ((string \<times> bool) \<times> rty) list \<Rightarrow> nat \<Rightarrow> 'a tree list \<Rightarrow> 'a rowst \<Rightarrow> entry list \<Rightarrow> 'a rowst \<Rightarrow> bool" where
  "new_cols x v cs i ts s es s' \<longleftrightarrow>
     length es = length cs \<and>
     (\<forall>k < length cs. (es ! k = EDropped) = col_dropped (cs ! k) \<and>
        (case es ! k of
           EDat y \<Rightarrow> nobj s \<le> y \<and> y < nobj s' \<and> ts ! k \<noteq> TNull \<and> new_col x v (cs ! k) (i + k) (ts ! k) s y s'
         | ENil \<Rightarrow> False
         | _ \<Rightarrow> ts ! k = TNull)) \<and>
     (\<forall>y. nobj s \<le> y \<and> y < nobj s' \<longrightarrow> (\<exists>k < length cs. es ! k = EDat y)) \<and>
     (\<forall>k l y. k < length cs \<longrightarrow> l < length cs \<longrightarrow> es ! k = EDat y \<longrightarrow> es ! l = EDat y \<longrightarrow> k = l) \<and>
     (\<forall>y z b p q. nobj s \<le> y \<longrightarrow> y < nobj s' \<longrightarrow> nobj s \<le> z \<longrightarrow> z < nobj s' \<longrightarrow>
        need_gc (objs s' y) \<longrightarrow> need_gc (objs s' z) \<longrightarrow> d_val (objs s' y) = VPtr b p \<longrightarrow> d_val (objs s' z) = VPtr b q \<longrightarrow> y = z)"

lemma new_col_grows:
  assumes "new_col x v c i t s y s'" "y < nobj s'" "grows s' s''"
  shows "new_col x v c i t s y s''"
proof -
  have "objs s'' y = objs s' y" "nblk s' \<le> nblk s''" "\<And>b. b < nblk s' \<Longrightarrow> mem s'' b = mem s' b"
    using assms(2,3) by (simp_all add: grows_def)
  then show ?thesis using assms(1) by (auto simp: new_col_def Let_def)
qed

lemma new_col_later:
  assumes "new_col x v c i t s1 y s'" "grows s s1"
  shows "new_col x v c i t s y s'"
proof -
  have "nblk s \<le> nblk s1" using assms(2) by (simp add: grows_def)
  then show ?thesis using assms(1) by (auto simp: new_col_def Let_def)
qed

lemma new_cols_nth:
  assumes "new_cols x v cs i ts s es s'" "k < length cs"
  shows "(es ! k = EDropped) = col_dropped (cs ! k)"
    "case es ! k of
       EDat y \<Rightarrow> nobj s \<le> y \<and> y < nobj s' \<and> ts ! k \<noteq> TNull \<and> new_col x v (cs ! k) (i + k) (ts ! k) s y s'
     | ENil \<Rightarrow> False
     | _ \<Rightarrow> ts ! k = TNull"
  using assms unfolding new_cols_def by blast+

lemma new_colsD:
  assumes "new_cols x v cs i ts s es s'"
  shows "length es = length cs" "\<And>y. nobj s \<le> y \<Longrightarrow> y < nobj s' \<Longrightarrow> \<exists>k < length cs. es ! k = EDat y"
    "\<And>k l y. k < length cs \<Longrightarrow> l < length cs \<Longrightarrow> es ! k = EDat y \<Longrightarrow> es ! l = EDat y \<Longrightarrow> k = l"
    "\<And>y z b p q. nobj s \<le> y \<Longrightarrow> y < nobj s' \<Longrightarrow> nobj s \<le> z \<Longrightarrow> z < nobj s' \<Longrightarrow>
        need_gc (objs s' y) \<Longrightarrow> need_gc (objs s' z) \<Longrightarrow> d_val (objs s' y) = VPtr b p \<Longrightarrow> d_val (objs s' z) = VPtr b q \<Longrightarrow>
        y = z"
  using assms unfolding new_cols_def by blast+

lemma deform_cols_spec:
  assumes "deform_cols ext x i cs ts s = (es, s')" "read_val s (d_val (objs s x)) = TRow us"
    and "ts = drop i us" "wts cs ts" "x < nobj s" "case d_val (objs s x) of VPtr b p \<Rightarrow> b < nblk s | _ \<Rightarrow> True"
  shows "grows s s' \<and> new_cols x (d_val (objs s x)) cs i ts s es s'"
  using assms
proof (induction cs arbitrary: i ts s es s')
  case Nil
  then show ?case by (auto simp: grows_refl new_cols_def)
next
  case (Cons c cs)
  obtain t ts' where ts: "ts = t # ts'" using Cons.prems(4) by (cases c; cases ts) auto
  have i: "i < length us" "us ! i = t" "ts' = drop (Suc i) us"
    using Cons.prems(3) ts by (metis Cons_nth_drop_Suc drop_eq_Nil2 leI list.distinct(1) list.inject)+
  have wtt: "t = TNull \<or> \<not> col_dropped c \<and> wt (col_type c) t" "wts cs ts'"
    using Cons.prems(4) ts by (cases c; auto)+
  obtain e s1 es' where d: "deform_col ext x i c t s = (e, s1)" "deform_cols ext x (Suc i) cs ts' s1 = (es', s')"
    and es: "es = e # es'"
    using Cons.prems(1) ts by (auto simp: Let_def split: prod.splits)
  note one = deform_col_spec [OF d(1) Cons.prems(2) i(1,2) wtt(1) Cons.prems(5)]
  let ?v = "d_val (objs s x)"
  have x1: "objs s1 x = objs s x" "x < nobj s1"
    using one(1) Cons.prems(5) by (simp_all add: grows_def)
  have "read_val s1 ?v = TRow us"
    using one(1) Cons.prems(2,6) by (auto simp: grows_def read_val_def split: dval.splits option.splits)
  moreover have "case ?v of VPtr b p \<Rightarrow> b < nblk s1 | _ \<Rightarrow> True"
    using one(1) Cons.prems(6) by (auto simp: grows_def split: dval.splits)
  ultimately have IH: "grows s1 s'" "new_cols x ?v cs (Suc i) ts' s1 es' s'"
    using Cons.IH [OF d(2) _ i(3) wtt(2)] x1 by auto
  have g: "grows s s'" by (rule grows_trans [OF one(1) IH(1)])
  have hd: "(e = EDropped) = col_dropped c" "case e of
           EDat y \<Rightarrow> nobj s \<le> y \<and> y < nobj s' \<and> t \<noteq> TNull \<and> new_col x ?v c i t s y s'
         | ENil \<Rightarrow> False
         | _ \<Rightarrow> t = TNull"
    using one new_col_grows [OF _ _ IH(1)] IH(1) by (auto simp: grows_def split: entry.splits)
  have tl: "(es' ! k = EDropped) = col_dropped (cs ! k)"
    "case es' ! k of
           EDat y \<Rightarrow> nobj s1 \<le> y \<and> y < nobj s' \<and> ts' ! k \<noteq> TNull \<and> new_col x ?v (cs ! k) (i + Suc k) (ts' ! k) s y s'
         | ENil \<Rightarrow> False
         | _ \<Rightarrow> ts' ! k = TNull" if "k < length cs" for k
    using new_cols_nth [OF IH(2) that] new_col_later [OF _ one(1)] by (simp_all split: entry.splits)
  have le: "nobj s \<le> nobj s1" using one(1) by (simp add: grows_def)
  show ?case
    unfolding new_cols_def
  proof (intro conjI allI impI)
    show "length es = length (c # cs)" using IH(2) es by (simp add: new_cols_def)
    fix k assume k: "k < length (c # cs)"
    show "(es ! k = EDropped) = col_dropped ((c # cs) ! k)"
      using k hd(1) tl(1) es by (cases k) simp_all
    show "case es ! k of
           EDat y \<Rightarrow> nobj s \<le> y \<and> y < nobj s' \<and> ts ! k \<noteq> TNull \<and> new_col x ?v ((c # cs) ! k) (i + k) (ts ! k) s y s'
         | ENil \<Rightarrow> False
         | _ \<Rightarrow> ts ! k = TNull"
    proof (cases k)
      case 0
      then show ?thesis using hd(2) es ts by (simp split: entry.splits)
    next
      case (Suc j)
      then show ?thesis using tl(2) [of j] k es ts le by (auto split: entry.splits)
    qed
  next
    show "grows s s'" by (rule g)
  next
    fix y assume y: "nobj s \<le> y \<and> y < nobj s'"
    show "\<exists>k<length (c # cs). es ! k = EDat y"
    proof (cases "y < nobj s1")
      case True
      then have "e = EDat y" using one(4) y by (auto split: entry.splits)
      then show ?thesis using es by auto
    next
      case False
      then obtain k where "k < length cs" "es' ! k = EDat y" using new_colsD(2) [OF IH(2), of y] y by auto
      then show ?thesis using es by (intro exI [of _ "Suc k"]) simp
    qed
  next
    fix k l y assume kl: "k < length (c # cs)" "l < length (c # cs)" "es ! k = EDat y" "es ! l = EDat y"
    have no: "es' ! j \<noteq> e \<or> e \<noteq> EDat y" if "j < length cs" for j
      using one(4) tl(2) [OF that] by (auto split: entry.splits)
    have "j = j'" if "j < length cs" "j' < length cs" "es' ! j = EDat y" "es' ! j' = EDat y" for j j'
      using new_colsD(3) [OF IH(2)] that by blast
    then show "k = l" using kl no es by (cases k; cases l) auto
  next
    fix y z b p q
    assume yz: "nobj s \<le> y" "y < nobj s'" "nobj s \<le> z" "z < nobj s'" "need_gc (objs s' y)" "need_gc (objs s' z)"
      "d_val (objs s' y) = VPtr b p" "d_val (objs s' z) = VPtr b q"
    have old: "b < nblk s1" if w: "nobj s \<le> w" "w < nobj s1" "need_gc (objs s' w)" "d_val (objs s' w) = VPtr b r" for w r
    proof -
      have "new_col x ?v c i t s w s1" using one(4) w by (auto simp: less_Suc_eq split: entry.splits)
      moreover have "objs s' w = objs s1 w" using IH(1) w by (simp add: grows_def)
      ultimately show ?thesis using w by (auto simp: new_col_def Let_def)
    qed
    have new: "nblk s1 \<le> b" if w: "nobj s1 \<le> w" "w < nobj s'" "need_gc (objs s' w)" "d_val (objs s' w) = VPtr b r" for w r
    proof -
      obtain k where "k < length cs" "es' ! k = EDat w" using new_colsD(2) [OF IH(2), of w] w by auto
      then have "new_col x ?v (cs ! k) (Suc i + k) (ts' ! k) s1 w s'" using new_cols_nth(2) [OF IH(2), of k] by simp
      then show ?thesis using w by (auto simp: new_col_def Let_def)
    qed
    show "y = z"
    proof (cases "y < nobj s1 \<longleftrightarrow> z < nobj s1")
      case True
      then show ?thesis
      proof (cases "y < nobj s1")
        case t: True
        then have "z < nobj s1" using True by simp
        then show ?thesis using t yz one(4) by (auto split: entry.splits)
      next
        case f: False
        then show ?thesis using True new_colsD(4) [OF IH(2), of y z b p q] yz by simp
      qed
    next
      case False
      then show ?thesis using old new yz by (meson not_less)
    qed
  qed
qed

lemma rinv_blk: "rinv X D s \<Longrightarrow> alive D s x \<Longrightarrow> d_val (objs s x) = VPtr b p \<Longrightarrow> mem s b \<noteq> None \<and> b < nblk s"
  using rinvD(2) [of X D s b] rinvD(4) [of X D s x] by (fastforce simp: val_ok_def not_less)

lemma grows_read:
  assumes "grows s s'" "case v of VPtr b p \<Rightarrow> b < nblk s | _ \<Rightarrow> True"
  shows "read_val s' v = read_val s v" "live_val s' v = live_val s v"
  using assms by (auto simp: grows_def read_val_def live_val_def split: dval.splits)

lemma rinv_grows:
  assumes "rinv X D s" "alive D s x" "grows s s'"
  shows "read_val s' (d_val (objs s x)) = read_datum s x" "live_val s' (d_val (objs s x))"
proof -
  have "case d_val (objs s x) of VPtr b p \<Rightarrow> b < nblk s | _ \<Rightarrow> True"
    using rinv_blk [OF assms(1,2)] by (auto split: dval.splits)
  moreover have "live_val s (d_val (objs s x))"
    using rinv_blk [OF assms(1,2)] by (auto simp: live_val_def split: dval.splits)
  ultimately show "read_val s' (d_val (objs s x)) = read_datum s x" "live_val s' (d_val (objs s x))"
    using grows_read [OF assms(3)] by simp_all
qed

lemma row_storage:
  assumes "rinv X D s" "alive D s x" "is_row (d_ty (objs s x))" "d_val (objs s x) \<noteq> Val0"
  obtains cs us b p where "d_ty (objs s x) = RRow cs" "read_datum s x = TRow us" "wts cs us"
    "d_val (objs s x) = VPtr b p"
proof -
  obtain cs where cs: "d_ty (objs s x) = RRow cs" using assms(3) by (cases "d_ty (objs s x)") auto
  obtain b p where v: "d_val (objs s x) = VPtr b p"
    using rinvD(4) [OF assms(1,2)] cs assms(4) by (cases "d_val (objs s x)") (auto simp: val_ok_def)
  then have "wt (RRow cs) (read_datum s x)" using rinvD(4) [OF assms(1,2)] cs by (simp add: val_ok_def)
  then show ?thesis using that cs v by (auto elim: wt_rowE)
qed

lemma deform_facts:
  assumes "rinv X D s" "alive D s x" "is_row (d_ty (objs s x))" "d_val (objs s x) \<noteq> Val0"
    and "deformed (objs s x) = None"
    and u_def: "u = pllua_datum_deform_tuple ext x s"
  obtains cs us b p es where "d_ty (objs s x) = RRow cs" "read_datum s x = TRow us" "wts cs us"
    "d_val (objs s x) = VPtr b p"
    "new_cols x (VPtr b p) cs 0 us s es u"
    "objs u x = objs s x\<lparr>deformed := Some es\<rparr>"
    "\<forall>z < nobj s. z \<noteq> x \<longrightarrow> objs u z = objs s z"
    "nobj s \<le> nobj u" "nblk s \<le> nblk u"
    "\<forall>b < nblk s. mem u b = mem s b"
    "\<not> uaf u"
    "\<forall>b. nblk u \<le> b \<longrightarrow> mem u b = None"
proof -
  obtain cs us b p where row: "d_ty (objs s x) = RRow cs" "read_datum s x = TRow us" "wts cs us"
    "d_val (objs s x) = VPtr b p"
    by (rule row_storage [OF assms(1-4)])
  obtain es s' where d: "deform_cols ext x 0 cs us (touch x s) = (es, s')" by (cases "deform_cols ext x 0 cs us (touch x s)")
  have blk: "mem s b \<noteq> None" "b < nblk s" using rinv_blk [OF assms(1,2) row(4)] by simp_all
  have x: "x < nobj s" using assms(2) by (simp add: alive_def)
  have "grows (touch x s) s' \<and> new_cols x (d_val (objs (touch x s) x)) cs 0 us (touch x s) es s'"
    using row blk x same_mem(1) [of "touch x s" s "VPtr b p"]
    by (intro deform_cols_spec [OF d, where us = us]) simp_all
  then have g: "grows (touch x s) s'" and n: "new_cols x (VPtr b p) cs 0 us (touch x s) es s'"
    using row by simp_all
  have eq: "pllua_datum_deform_tuple ext x s = upd_obj x (\<lambda>d. d\<lparr>deformed := Some es\<rparr>) s'"
    using assms(5) row d by (simp add: pllua_datum_deform_tuple_def)
  have x': "objs s' x = objs s x" using g x by (simp add: grows_def)
  have u: "\<not> uaf (touch x s)" using rinvD(1) [OF assms(1)] row blk by (simp add: live_val_def)
  have "new_cols x (VPtr b p) cs 0 us s es (upd_obj x (\<lambda>d. d\<lparr>deformed := Some es\<rparr>) s')"
  proof -
    have y: "y \<noteq> x" if "nobj s \<le> y" for y using that x by simp
    have "new_col x (VPtr b p) c i t s y (upd_obj x (\<lambda>d. d\<lparr>deformed := Some es\<rparr>) s')"
      if "new_col x (VPtr b p) c i t (touch x s) y s'" "nobj s \<le> y" for c i t y
      using that y [of y] by (auto simp: new_col_def Let_def)
    then have col: "case es ! k of
       EDat y \<Rightarrow> nobj s \<le> y \<and> y < nobj (upd_obj x (\<lambda>d. d\<lparr>deformed := Some es\<rparr>) s') \<and> us ! k \<noteq> TNull \<and>
           new_col x (VPtr b p) (cs ! k) (0 + k) (us ! k) s y (upd_obj x (\<lambda>d. d\<lparr>deformed := Some es\<rparr>) s')
     | ENil \<Rightarrow> False
     | _ \<Rightarrow> us ! k = TNull" if "k < length cs" for k
      using new_cols_nth(2) [OF n that] by (auto split: entry.splits)
    show ?thesis
      unfolding new_cols_def
    proof (intro conjI allI impI)
      show "length es = length cs" by (rule new_colsD(1) [OF n])
      show "(es ! k = EDropped) = col_dropped (cs ! k)" if "k < length cs" for k
        by (rule new_cols_nth(1) [OF n that])
      show "\<exists>k<length cs. es ! k = EDat z"
        if "nobj s \<le> z \<and> z < nobj (upd_obj x (\<lambda>d. d\<lparr>deformed := Some es\<rparr>) s')" for z
        using new_colsD(2) [OF n, of z] that by simp
      show "k = l" if "k < length cs" "l < length cs" "es ! k = EDat z" "es ! l = EDat z" for k l z
        by (rule new_colsD(3) [OF n that])
    next
      fix z w b p q
      let ?t = "upd_obj x (\<lambda>d. d\<lparr>deformed := Some es\<rparr>) s'"
      assume *: "nobj s \<le> z" "z < nobj ?t" "nobj s \<le> w" "w < nobj ?t" "need_gc (objs ?t z)" "need_gc (objs ?t w)"
        "d_val (objs ?t z) = VPtr b p" "d_val (objs ?t w) = VPtr b q"
      show "z = w" using new_colsD(4) [OF n, of z w b p q] * y by simp
    qed (rule col)
  qed
  then show ?thesis
    using that [of cs us b p es] row g u x x' rinvD(2) [OF assms(1)] unfolding u_def eq by (simp add: grows_def)
qed

text \<open>What every step of an explosion keeps: the objects, their types, their tables of columns, what is
  already exploded, and what Lua sees; and a row
  that it explodes has no nested row that is not exploded.\<close>

definition prog :: "nat set \<Rightarrow> nat set \<Rightarrow> 'a rowst \<Rightarrow> 'a rowst \<Rightarrow> bool" where
  "prog X D s s' \<longleftrightarrow>
     nobj s \<le> nobj s' \<and>
     (\<forall>z < nobj s. d_ty (objs s' z) = d_ty (objs s z) \<and>
        (deformed (objs s z) \<noteq> None \<longrightarrow> deformed (objs s' z) = deformed (objs s z)) \<and>
        (d_val (objs s z) = Val0 \<longrightarrow> d_val (objs s' z) = Val0) \<and>
        (z \<in> X \<longrightarrow> objs s' z = objs s z)) \<and>
     (\<forall>z < nobj s. d_val (objs s z) \<noteq> Val0 \<longrightarrow> d_val (objs s' z) = Val0 \<longrightarrow>
        deformed (objs s' z) \<noteq> None \<and>
        (\<forall>i c. in_entries s' z i c \<longrightarrow> c < nobj s' \<and> (is_row (d_ty (objs s' c)) \<longrightarrow> d_val (objs s' c) = Val0))) \<and>
     (\<forall>n z. alive D s z \<longrightarrow> size (d_ty (objs s z)) < n \<longrightarrow> view n s' z = view n s z) \<and>
     (\<forall>z i c. z < nobj s \<longrightarrow> in_entries s' z i c \<longrightarrow> nobj s \<le> c \<or> in_entries s z i c)"

lemma progD:
  assumes "prog X D s s'" "z < nobj s"
  shows "z < nobj s'" "d_ty (objs s' z) = d_ty (objs s z)"
    "deformed (objs s z) \<noteq> None \<Longrightarrow> deformed (objs s' z) = deformed (objs s z)"
    "d_val (objs s z) = Val0 \<Longrightarrow> d_val (objs s' z) = Val0"
    "z \<in> X \<Longrightarrow> objs s' z = objs s z"
    "z \<notin> D \<Longrightarrow> size (d_ty (objs s z)) < n \<Longrightarrow> view n s' z = view n s z"
    "d_val (objs s z) \<noteq> Val0 \<Longrightarrow> d_val (objs s' z) = Val0 \<Longrightarrow> deformed (objs s' z) \<noteq> None"
    "d_val (objs s z) \<noteq> Val0 \<Longrightarrow> d_val (objs s' z) = Val0 \<Longrightarrow> in_entries s' z i c \<Longrightarrow>
       c < nobj s' \<and> (is_row (d_ty (objs s' c)) \<longrightarrow> d_val (objs s' c) = Val0)"
    "in_entries s' z i c \<Longrightarrow> nobj s \<le> c \<or> in_entries s z i c"
proof -
  note * = assms(1) [unfolded prog_def]
  show "z < nobj s'" using * assms(2) by simp
  show "d_ty (objs s' z) = d_ty (objs s z)" using * assms(2) by blast
  show "deformed (objs s z) \<noteq> None \<Longrightarrow> deformed (objs s' z) = deformed (objs s z)" using * assms(2) by blast
  show "d_val (objs s z) = Val0 \<Longrightarrow> d_val (objs s' z) = Val0" using * assms(2) by blast
  show "z \<in> X \<Longrightarrow> objs s' z = objs s z" using * assms(2) by blast
  show "z \<notin> D \<Longrightarrow> size (d_ty (objs s z)) < n \<Longrightarrow> view n s' z = view n s z" using * assms(2) by (simp add: alive_def)
  show "d_val (objs s z) \<noteq> Val0 \<Longrightarrow> d_val (objs s' z) = Val0 \<Longrightarrow> deformed (objs s' z) \<noteq> None"
    using * assms(2) by blast
  show "d_val (objs s z) \<noteq> Val0 \<Longrightarrow> d_val (objs s' z) = Val0 \<Longrightarrow> in_entries s' z i c \<Longrightarrow>
       c < nobj s' \<and> (is_row (d_ty (objs s' c)) \<longrightarrow> d_val (objs s' c) = Val0)"
    using * assms(2) by blast
  show "in_entries s' z i c \<Longrightarrow> nobj s \<le> c \<or> in_entries s z i c" using * assms(2) by blast
qed

lemma prog_refl: "prog X D s s"
  by (simp add: prog_def)

lemma prog_trans:
  assumes "prog X D s t" "prog X D t u"
  shows "prog X D s u"
proof -
  have le: "nobj s \<le> nobj t" using assms(1) by (simp add: prog_def)
  show ?thesis
    unfolding prog_def
  proof (intro conjI allI impI)
    show "nobj s \<le> nobj u" using assms by (simp add: prog_def)
  next
    fix z assume z: "z < nobj s"
    note st = progD [OF assms(1) z] and tu = progD [OF assms(2) st(1)]
    show "d_ty (objs u z) = d_ty (objs s z)" using st(2) tu(2) by simp
    show "deformed (objs u z) = deformed (objs s z)" if "deformed (objs s z) \<noteq> None" using st(3) tu(3) that by simp
    show "d_val (objs u z) = Val0" if "d_val (objs s z) = Val0" using st(4) tu(4) that by simp
    show "objs u z = objs s z" if "z \<in> X" using st(5) tu(5) that by simp
    assume new: "d_val (objs s z) \<noteq> Val0" "d_val (objs u z) = Val0"
    show "deformed (objs u z) \<noteq> None"
      using st(7) tu(3,7) new by (cases "d_val (objs t z) = Val0") auto
    fix i c assume c: "in_entries u z i c"
    have "c < nobj u \<and> (is_row (d_ty (objs u c)) \<longrightarrow> d_val (objs u c) = Val0)"
    proof (cases "d_val (objs t z) = Val0")
      case True
      have "in_entries t z i c" using c tu(3) st(7) new(1) True by (simp add: in_entries_def)
      then have *: "c < nobj t" "is_row (d_ty (objs t c)) \<Longrightarrow> d_val (objs t c) = Val0" using st(8) new(1) True by blast+
      show ?thesis using progD(1,2,4) [OF assms(2) *(1)] *(2) by auto
    next
      case False
      then show ?thesis using tu(8) new(2) c by blast
    qed
    then show "c < nobj u" "is_row (d_ty (objs u c)) \<Longrightarrow> d_val (objs u c) = Val0" by auto
  next
    fix n z assume "alive D s z" "size (d_ty (objs s z)) < n"
    then show "view n u z = view n s z"
      using progD(1,2,6) [OF assms(1), of z] progD(6) [OF assms(2), of z] by (simp add: alive_def)
  next
    fix z i c assume "z < nobj s" "in_entries u z i c"
    then show "nobj s \<le> c \<or> in_entries s z i c"
      using progD(9) [OF assms(2), of z i c] progD(1) [OF assms(1), of z] progD(9) [OF assms(1), of z i c] le by auto
  qed
qed

text \<open>Views do not change if tables and storage stay the same.\<close>

lemma view_same:
  assumes "rinv X D s" "alive D s z"
    and "\<And>z. alive D s z \<Longrightarrow> deformed (objs s' z) = deformed (objs s z)"
    and "\<And>z. alive D s z \<Longrightarrow> deformed (objs s z) = None \<Longrightarrow> read_datum s' z = read_datum s z"
  shows "view n s' z = view n s z"
  using assms(2)
proof (induction n arbitrary: z)
  case (Suc n)
  show ?case
  proof (cases "deformed (objs s z)")
    case None
    then show ?thesis using assms(3,4) Suc.prems by simp
  next
    case (Some es)
    have "view n s' y = view n s y" if "EDat y \<in> set es" for y
    proof -
      have "alive D s y" using rinvD(6) [OF assms(1) Suc.prems] Some that by (auto simp: cols_ok_def in_set_conv_nth)
      then show ?thesis by (rule Suc.IH)
    qed
    then show ?thesis using assms(3) Suc.prems Some by (auto split: entry.splits)
  qed
qed simp

lemma col_size: "c \<in> set cs \<Longrightarrow> size (col_type c) < size (RRow cs)"
proof (induction cs)
  case (Cons a cs)
  then show ?case by (cases a; cases c) auto
qed simp

lemma deform_new:
  assumes "new_cols x (VPtr b p) cs 0 us s es u" "read_datum s x = TRow us" "wts cs us"
    and "d_val (objs s x) = VPtr b p" "nobj s \<le> z" "z < nobj u" "b < nblk s" "mem s b \<noteq> None"
    and "nblk s \<le> nblk u" "\<And>b. b < nblk s \<Longrightarrow> mem u b = mem s b"
  obtains k where "k < length cs" "es ! k = EDat z" "\<not> col_dropped (cs ! k)" "d_ty (objs u z) = col_type (cs ! k)"
    "\<not> modified (objs u z)" "datumref (objs u z) = Some x" "deformed (objs u z) = None" "has_meta (objs u z)"
    "read_datum u z = us ! k" "val_ok u (objs u z)" "d_val (objs u z) \<noteq> Val0"
    "\<forall>b' q. d_val (objs u z) = VPtr b' q \<longrightarrow>
       need_gc (objs u z) \<and> q = [] \<and> nblk s \<le> b' \<or> \<not> need_gc (objs u z) \<and> b' = b \<and> q = p @ [k]"
proof -
  obtain k where k: "k < length cs" "es ! k = EDat z" using new_colsD(2) [OF assms(1,5,6)] by blast
  have nn: "us ! k \<noteq> TNull" and n: "new_col x (VPtr b p) (cs ! k) k (us ! k) s z u"
    using new_cols_nth(2) [OF assms(1) k(1)] k(2) by simp_all
  have wtk: "length us = length cs" "\<not> col_dropped (cs ! k)" "wt (col_type (cs ! k)) (us ! k)"
    using assms(3) k(1) nn unfolding wts_nth by blast+
  let ?v = "sub_val (VPtr b p) (col_type (cs ! k)) k (us ! k)"
  have r: "read_val s ?v = us ! k"
    using sub_val_read(1) [of s "VPtr b p" us k "us ! k" "col_type (cs ! k)"] assms(2,4) wtk k(1) by simp
  have vv: "?v = (case us ! k of TAtom a \<Rightarrow> if col_type (cs ! k) = RByval then VWord a else VPtr b (p @ [k]) | _ \<Rightarrow> VPtr b (p @ [k]))"
    using wtk(3) by (cases "col_type (cs ! k)"; cases "us ! k") auto
  have "read_val u ?v = read_val s ?v"
    using assms(7,8,10) by (simp add: vv read_val_def split: tree.splits)
  then have r': "read_val u ?v = us ! k" using r by simp
  have mb: "mem u b \<noteq> None" using assms(7,8,10) by simp
  note nc = n [unfolded new_col_def Let_def]
  have rd: "read_datum u z = us ! k"
    using nc r' by (auto simp: read_val_def [of u "VPtr _ []"])
  have bv: "col_type (cs ! k) = RByval \<Longrightarrow> \<exists>a. ?v = VWord a"
    using wtk(3) by (cases "us ! k") auto
  have nbv: "col_type (cs ! k) \<noteq> RByval \<Longrightarrow> ?v = VPtr b (p @ [k])"
    by (simp add: vv split: tree.splits)
  show ?thesis
  proof (rule that [OF k wtk(2)])
    show "val_ok u (objs u z)"
      using nc rd wtk(3) bv nbv mb by (cases "col_type (cs ! k) = RByval") (auto simp: val_ok_def)
    show "d_val (objs u z) \<noteq> Val0" using nc bv nbv by (cases "col_type (cs ! k) = RByval") auto
    show "\<forall>b' q. d_val (objs u z) = VPtr b' q \<longrightarrow>
       need_gc (objs u z) \<and> q = [] \<and> nblk s \<le> b' \<or> \<not> need_gc (objs u z) \<and> b' = b \<and> q = p @ [k]"
      using nc bv nbv by (cases "col_type (cs ! k) = RByval") auto
  qed (use nc rd in auto)
qed

lemma deform_rinv:
  assumes inv: "rinv X D s" and x: "alive D s x" "is_row (d_ty (objs s x))" "d_val (objs s x) \<noteq> Val0"
    and nd: "deformed (objs s x) = None"
    and u_def: "u = pllua_datum_deform_tuple ext x s"
  shows "rinv X D u" "prog X D s u" "deformed (objs u x) \<noteq> None"
    "objs u x = objs s x\<lparr>deformed := deformed (objs u x)\<rparr>"
proof -
  obtain cs us es b p where row: "d_ty (objs s x) = RRow cs" "read_datum s x = TRow us" "wts cs us"
    "d_val (objs s x) = VPtr b p"
    and nw: "new_cols x (VPtr b p) cs 0 us s es u"
    and ux: "objs u x = objs s x\<lparr>deformed := Some es\<rparr>"
    and old_all: "\<forall>z < nobj s. z \<noteq> x \<longrightarrow> objs u z = objs s z"
    and le: "nobj s \<le> nobj u" "nblk s \<le> nblk u"
    and mems_all: "\<forall>b < nblk s. mem u b = mem s b"
    and fin: "\<not> uaf u" "\<forall>b. nblk u \<le> b \<longrightarrow> mem u b = None"
    by (rule deform_facts [OF inv x nd u_def])
  note old = old_all [rule_format] and mems = mems_all [rule_format]
  note blk = rinv_blk [OF inv x(1) row(4)]
  have xX: "x \<notin> X" using rinvD(9) [OF inv, of x] nd by (auto simp: exploding_def)
  have xn: "x < nobj s" using x(1) by (simp add: alive_def)
  note D = rinvD [OF inv]
  have aliveI: "alive D u z" if "alive D s z" for z using that le by (simp add: alive_def)
  have aliveE: "alive D s z \<or> nobj s \<le> z \<and> z < nobj u" if "alive D u z" for z using that by (auto simp: alive_def)
  have same: "d_ty (objs u z) = d_ty (objs s z)" "d_val (objs u z) = d_val (objs s z)"
    "need_gc (objs u z) = need_gc (objs s z)" "modified (objs u z) = modified (objs s z)"
    "datumref (objs u z) = datumref (objs s z)" "has_meta (objs u z) = has_meta (objs s z)"
    if z: "z < nobj s" for z by (cases "z = x", simp_all add: ux old [OF z])+
  have reads: "read_val u (d_val (objs s z)) = read_datum s z" if "alive D s z" for z
    using rinv_blk [OF inv that] mems by (auto simp: read_val_def split: dval.splits)
  have new: "\<exists>k < length cs. es ! k = EDat z \<and> \<not> col_dropped (cs ! k) \<and> d_ty (objs u z) = col_type (cs ! k) \<and>
      datumref (objs u z) = Some x \<and> deformed (objs u z) = None \<and> has_meta (objs u z) \<and>
      read_datum u z = us ! k \<and> val_ok u (objs u z) \<and> d_val (objs u z) \<noteq> Val0 \<and>
      (\<forall>b' q. d_val (objs u z) = VPtr b' q \<longrightarrow>
         need_gc (objs u z) \<and> q = [] \<and> nblk s \<le> b' \<or> \<not> need_gc (objs u z) \<and> b' = b \<and> q = p @ [k])"
    if z: "nobj s \<le> z" "z < nobj u" for z
  proof -
    obtain k where "k < length cs" "es ! k = EDat z" "\<not> col_dropped (cs ! k)" "d_ty (objs u z) = col_type (cs ! k)"
      "\<not> modified (objs u z)" "datumref (objs u z) = Some x" "deformed (objs u z) = None" "has_meta (objs u z)"
      "read_datum u z = us ! k" "val_ok u (objs u z)" "d_val (objs u z) \<noteq> Val0"
      "\<forall>b' q. d_val (objs u z) = VPtr b' q \<longrightarrow>
         need_gc (objs u z) \<and> q = [] \<and> nblk s \<le> b' \<or> \<not> need_gc (objs u z) \<and> b' = b \<and> q = p @ [k]"
      by (rule deform_new [OF nw row(2,3,4) z conjunct2 [OF blk] conjunct1 [OF blk] le(2) mems])
    then show ?thesis by (intro exI [of _ k] conjI)
  qed
  have ents: "in_entries u z i c \<longleftrightarrow> (if z = x then i < length es \<and> es ! i = EDat c else in_entries s z i c)"
    if "z < nobj s" for z i c
    using that old [of z] ux by (auto simp: in_entries_def)
  have ents_new: "\<not> in_entries u z i c" if "nobj s \<le> z" "z < nobj u" for z i c
    using new [OF that] by (auto simp: in_entries_def)
  have esD: "nobj s \<le> c \<and> c < nobj u" if "i < length es" "es ! i = EDat c" for i c
    using new_cols_nth(2) [OF nw, of i] new_colsD(1) [OF nw] that by simp
  have old_ent: "c < nobj s" if "alive D s z" "in_entries s z i c" for z i c
    using D(6) [OF that(1)] that(2) by (auto simp: cols_ok_def in_entries_def alive_def)
  have Dlt: "z \<notin> D" if "nobj s \<le> z" for z using D(12) [of z] that by auto
  have vals: "val_ok u (objs u z)" if "alive D s z" for z
  proof -
    have "d_val (objs s z) = VPtr b' q \<Longrightarrow> mem u b' \<noteq> None" for b' q using rinv_blk [OF inv that] mems by metis
    moreover have "deformed (objs s z) \<noteq> None \<Longrightarrow> deformed (objs u z) \<noteq> None"
      using old [of z] ux that by (cases "z = x") (auto simp: alive_def)
    ultimately show ?thesis
      using D(4) [OF that] same [of z] reads [OF that] that
      by (cases "d_val (objs s z)") (auto simp: val_ok_def alive_def)
  qed
  have refs: "ref_ok D u z" if z: "alive D u z" for z
  proof (cases "alive D s z")
    case True
    then have zn: "z < nobj s" by (simp add: alive_def)
    show ?thesis
      unfolding ref_ok_def
    proof (intro conjI allI impI)
      fix y assume "datumref (objs u z) = Some y"
      then have "datumref (objs s z) = Some y" using same zn by simp
      then have y: "y < z" "alive D s y" "d_val (objs s y) \<noteq> Val0" "\<exists>i. in_entries s y i z"
        using D(5) [OF True] by (auto simp: ref_ok_def)
      then have "y \<noteq> x" using nd by (auto simp: in_entries_def)
      then show "y < z" "alive D u y" "d_val (objs u y) \<noteq> Val0" "\<exists>i. in_entries u y i z"
        using y same [of y] ents [of y] aliveI by (auto simp: alive_def)
    next
      fix b' q assume "d_val (objs u z) = VPtr b' q" "\<not> need_gc (objs u z)"
      then obtain y q' i where "datumref (objs s z) = Some y" "d_val (objs s y) = VPtr b' q'" "q = q' @ [i]" "alive D s y"
        using D(5) [OF True] same zn unfolding ref_ok_def by metis
      then show "\<exists>y q' i. datumref (objs u z) = Some y \<and> d_val (objs u y) = VPtr b' q' \<and> q = q' @ [i]"
        using same zn by (auto simp: alive_def)
    qed
  next
    case False
    then have "nobj s \<le> z" "z < nobj u" using aliveE [OF z] by auto
    then obtain k where k: "k < length cs" "es ! k = EDat z" "datumref (objs u z) = Some x"
      "\<And>b' q. d_val (objs u z) = VPtr b' q \<Longrightarrow>
         need_gc (objs u z) \<and> q = [] \<and> nblk s \<le> b' \<or> \<not> need_gc (objs u z) \<and> b' = b \<and> q = p @ [k]"
      using new by blast
    have "in_entries u x k z" using k ents [OF xn] new_colsD(1) [OF nw] by simp
    then show ?thesis
      using k \<open>nobj s \<le> z\<close> xn x aliveI [OF x(1)] same(2) [OF xn] row(4) unfolding ref_ok_def by auto
  qed
  have colsok: "cols_ok D u z" if z: "alive D u z" for z
  proof (cases "alive D s z")
    case True
    then have zn: "z < nobj s" by (simp add: alive_def)
    show ?thesis
    proof (cases "z = x")
      case True
      have "(es ! i = EDropped) = col_dropped (cs ! i)" "es ! i = EDat c \<Longrightarrow> x < c \<and> alive D u c \<and> d_ty (objs u c) = col_type (cs ! i)"
        if "i < length cs" for i c
      proof -
        show "(es ! i = EDropped) = col_dropped (cs ! i)" by (rule new_cols_nth(1) [OF nw that])
        assume e: "es ! i = EDat c"
        then have c: "nobj s \<le> c" "c < nobj u" using esD [of i c] that new_colsD(1) [OF nw] by auto
        then obtain k where "k < length cs" "es ! k = EDat c" "d_ty (objs u c) = col_type (cs ! k)" using new by blast
        then show "x < c \<and> alive D u c \<and> d_ty (objs u c) = col_type (cs ! i)"
          using new_colsD(3) [OF nw that, of k c] e c xn Dlt by (auto simp: alive_def)
      qed
      then show ?thesis using True ux row(1) new_colsD(1) [OF nw] by (simp add: cols_ok_def)
    next
      case False
      have "d_ty (objs u c) = d_ty (objs s c)" "alive D u c" if "alive D s c" for c
        using that same(1) [of c] aliveI by (simp_all add: alive_def)
      then show ?thesis using D(6) [OF True] old [OF zn False] unfolding cols_ok_def by metis
    qed
  next
    case False
    then show ?thesis using new [of z] aliveE [OF z] by (auto simp: cols_ok_def)
  qed
  have fx: "row_fields (read_datum u x) = us"
    using reads [OF x(1)] row(2) same(2) [OF xn] by simp
  have coh: "coherent u z" if z: "alive D u z" "z \<notin> X" "d_val (objs u z) \<noteq> Val0" for z
  proof (cases "alive D s z")
    case True
    then have zn: "z < nobj s" by (simp add: alive_def)
    show ?thesis
    proof (cases "z = x")
      case True
      have "case es ! i of
           EDat c \<Rightarrow> datumref (objs u c) = Some x \<and> d_val (objs u c) \<noteq> Val0 \<and> read_datum u c = us ! i
         | ENil \<Rightarrow> False
         | _ \<Rightarrow> us ! i = TNull" if i: "i < length cs" for i
      proof (cases "es ! i")
        case (EDat c)
        then have "nobj s \<le> c" "c < nobj u" using esD [of i c] i new_colsD(1) [OF nw] by auto
        then obtain k where "k < length cs" "es ! k = EDat c" "datumref (objs u c) = Some x" "read_datum u c = us ! k"
          "d_val (objs u c) \<noteq> Val0" using new by blast
        then show ?thesis using new_colsD(3) [OF nw i, of k c] EDat by simp
      qed (use new_cols_nth(2) [OF nw i] in simp_all)
      then show ?thesis
        unfolding coherent_def True fx using ux new_colsD(1) [OF nw] by simp
    next
      case False
      have "datumref (objs u c) = datumref (objs s c) \<and> d_val (objs u c) = d_val (objs s c) \<and>
          read_val u (d_val (objs s c)) = read_datum s c" if "in_entries s z i c" for i c
      proof -
        have "alive D s c" using D(6) [OF True] that by (auto simp: cols_ok_def in_entries_def)
        then show ?thesis using same [of c] reads [of c] by (simp add: alive_def)
      qed
      then show ?thesis
        using D(7) [OF True z(2)] z(3) same(2) [OF zn] reads [OF True] old [OF zn False]
        unfolding coherent_def in_entries_def by (auto split: entry.splits)
    qed
  next
    case False
    then show ?thesis using new [of z] aliveE [OF z(1)] by (auto simp: coherent_def)
  qed
  show "deformed (objs u x) \<noteq> None" "objs u x = objs s x\<lparr>deformed := deformed (objs u x)\<rparr>" using ux by simp_all
  have "view n u z = view n s z" if "alive D s z" "size (d_ty (objs s z)) < n" for n z
    using that
  proof (induction n arbitrary: z)
    case (Suc n)
    then have zn: "z < nobj s" by (simp add: alive_def)
    show ?case
    proof (cases "z = x")
      case True
      have "0 < n" using Suc.prems True row(1) by (cases n) auto
      then obtain m where m: "n = Suc m" by (cases n) auto
      have pt: "(case es ! i of EDat y \<Rightarrow> view n u y | _ \<Rightarrow> TNull) = us ! i" if i: "i < length cs" for i
      proof (cases "es ! i")
        case (EDat c)
        then have "nobj s \<le> c" "c < nobj u" using esD [of i c] i new_colsD(1) [OF nw] by auto
        then obtain k where k: "k < length cs" "es ! k = EDat c" "deformed (objs u c) = None" "read_datum u c = us ! k"
          using new by blast
        then have "k = i" using new_colsD(3) [OF nw i, of k c] EDat by simp
        then show ?thesis using k EDat m by simp
      qed (use new_cols_nth(2) [OF nw i] in simp_all)
      have len: "length es = length cs" "length us = length cs"
        using new_colsD(1) [OF nw] row(3) by (simp_all add: wts_nth)
      have "map (\<lambda>e. case e of EDat y \<Rightarrow> view n u y | _ \<Rightarrow> TNull) es = us"
        by (rule nth_equalityI) (simp_all add: len pt)
      then show ?thesis using True ux nd row(2) by simp
    next
      case False
      show ?thesis
      proof (cases "deformed (objs s z)")
        case None
        then show ?thesis using old [OF zn False] reads [OF Suc.prems(1)] by simp
      next
        case (Some es')
        obtain cs' where cs': "d_ty (objs s z) = RRow cs'" "length es' = length cs'"
          "\<And>i c. i < length cs' \<Longrightarrow> es' ! i = EDat c \<Longrightarrow> alive D s c \<and> d_ty (objs s c) = col_type (cs' ! i)"
          using D(6) [OF Suc.prems(1)] Some unfolding cols_ok_def by metis
        have "view n u y = view n s y" if ye: "EDat y \<in> set es'" for y
        proof -
          obtain i where i: "i < length cs'" "es' ! i = EDat y" using ye cs'(2) by (auto simp: in_set_conv_nth)
          have "size (col_type (cs' ! i)) < size (RRow cs')" using i by (intro col_size) simp
          then show ?thesis using Suc cs'(1) cs'(3) [OF i] by simp
        qed
        then show ?thesis using old [OF zn False] Some by (auto split: entry.splits)
      qed
    qed
  qed simp
  then show "prog X D s u"
    unfolding prog_def
  proof (intro conjI allI impI)
    fix z assume z: "z < nobj s"
    show "d_ty (objs u z) = d_ty (objs s z)" by (rule same(1) [OF z])
    show "d_val (objs u z) = Val0" if "d_val (objs s z) = Val0" using same(2) [OF z] that by simp
    show "deformed (objs u z) = deformed (objs s z)" if "deformed (objs s z) \<noteq> None"
      using old [OF z] nd that by (cases "z = x") simp_all
    show "objs u z = objs s z" if "z \<in> X" using old [OF z] xX that by (cases "z = x") simp_all
    show "nobj s \<le> c \<or> in_entries s z i c" if "in_entries u z i c" for i c
      using that ents [OF z] esD by (cases "z = x") auto
  qed (use le(1) same(2) in simp_all)
  show "rinv X D u"
    unfolding rinv_def
  proof (intro conjI allI ballI impI)
    fix z assume z: "alive D u z"
    show "has_meta (objs u z)" "val_ok u (objs u z)"
      using aliveE [OF z] new [of z] same(6) [of z] D(3) [of z] vals [of z] by (auto simp: alive_def)
    show "ref_ok D u z" "cols_ok D u z" by (rule refs [OF z], rule colsok [OF z])
    show "coherent u z" if "z \<notin> X" "d_val (objs u z) \<noteq> Val0" by (rule coh [OF z that])
  next
    fix z assume z: "z \<in> X"
    note zs = D(8) [OF z] D(9) [OF z]
    then have zn: "z < nobj s" "z \<noteq> x" using z xX by (auto simp: alive_def)
    show "alive D u z" by (rule aliveI [OF zs(1)])
    have "d_val (objs u c) = d_val (objs s c)" "datumref (objs u c) = datumref (objs s c)" if "in_entries s z i c" for i c
      using same [of c] old_ent [OF zs(1) that] by simp_all
    then show "exploding X u z" using zs(2) old [OF zn] ents [OF zn(1)] zn(2) by (auto simp: exploding_def)
  next
    fix z w b' q q'
    assume zw: "alive D u z" "alive D u w" "need_gc (objs u z)" "need_gc (objs u w)"
      "d_val (objs u z) = VPtr b' q" "d_val (objs u w) = VPtr b' q'"
    have lt: "b' < nblk s" if "alive D s v" "d_val (objs u v) = VPtr b' r" for v r
      using rinv_blk [OF inv that(1)] that same(2) [of v] by (simp add: alive_def)
    have ge: "nblk s \<le> b'" if "nobj s \<le> v" "v < nobj u" "need_gc (objs u v)" "d_val (objs u v) = VPtr b' r" for v r
      using new [OF that(1,2)] that(3,4) by blast
    show "z = w"
      using aliveE [OF zw(1)] aliveE [OF zw(2)]
    proof (elim disjE)
      assume "alive D s z" "alive D s w"
      then show ?thesis using D(10) [of z w b' q q'] zw same [of z] same [of w] by (simp add: alive_def)
    next
      assume "nobj s \<le> z \<and> z < nobj u" "nobj s \<le> w \<and> w < nobj u"
      then show ?thesis using new_colsD(4) [OF nw, of z w b' q q'] zw by simp
    qed (use lt ge zw in \<open>meson not_less\<close>)+
  next
    fix z w c i j assume zw: "alive D u z" "alive D u w" "in_entries u z i c" "in_entries u w j c"
    have o: "alive D s v" if "alive D u v" "in_entries u v l c" for v l
      using aliveE [OF that(1)] ents_new [of v] that(2) by blast
    note zs = o [OF zw(1,3)] and ws = o [OF zw(2,4)]
    have xe: "nobj s \<le> c" if "in_entries u x l c" for l
      using that ents [OF xn] esD [of l c] by simp
    have oe: "c < nobj s" if "alive D s v" "v \<noteq> x" "in_entries u v l c" for v l
      using that old_ent [of v l c] ents [of v] by (simp add: alive_def)
    show "z = w" "i = j"
    proof -
      have "z = w \<and> i = j"
      proof (cases "z = x \<or> w = x")
        case True
        then have "z = x \<and> w = x" using xe oe zs ws zw(3,4) by (meson not_less)
        moreover from this have "i < length es" "es ! i = EDat c" "j < length es" "es ! j = EDat c"
          using zw(3,4) ents [OF xn] by simp_all
        ultimately show ?thesis using new_colsD(1) [OF nw] new_colsD(3) [OF nw, of i j c] by simp
      next
        case False
        then have "in_entries s z i c" "in_entries s w j c"
          using zw(3,4) ents [of z] ents [of w] zs ws by (auto simp: alive_def)
        then show ?thesis by (rule D(11) [OF zs ws])
      qed
      then show "z = w" "i = j" by simp_all
    qed
  next
    show "z < nobj u" if "z \<in> D" for z using D(12) [OF that] le by simp
  qed (use fin in auto)
qed

end
