(* ===== verification/Datum_Row_Explode.thy ===== *)
theory Datum_Row_Explode
  imports Datum_Row_Inv
begin

text \<open>
  Copies and explosions of row objects (Datum_Row) keep the invariant and what Lua sees.  The
  recursion over nested rows is proved for a set of rows that are being exploded: each of them has
  columns that are exploded already and columns that still refer to it.
\<close>

subsection \<open>Copies\<close>

lemma fresh_read:
  assumes "rinv X D s" "alive D s z" "mem t = (mem s)(nblk s \<mapsto> c)"
  shows "read_val t (d_val (objs s z)) = read_datum s z"
proof -
  have "case d_val (objs s z) of VPtr b p \<Rightarrow> b < nblk s | _ \<Rightarrow> True"
    using rinv_blk [OF assms(1,2)] by (auto split: dval.splits)
  then show ?thesis using assms(3) by (auto simp: read_val_def split: dval.splits)
qed

lemma no_children:
  assumes "deformed (objs s y) = None"
  shows "\<not> in_entries s y i c"
  using assms by (simp add: in_entries_def)

lemma savedatum_rinv:
  assumes inv: "rinv X D s" and y: "alive D s y" "\<not> need_gc (objs s y)" "d_val (objs s y) \<noteq> Val0" "deformed (objs s y) = None"
    and u: "u = pllua_savedatum y s"
  shows "rinv X D u" "prog X D s u" "need_gc (objs u y) \<or> d_ty (objs s y) = RByval"
    "objs u y = objs s y\<lparr>d_val := d_val (objs u y), need_gc := need_gc (objs u y)\<rparr>"
    "\<And>z. z \<noteq> y \<Longrightarrow> objs u z = objs s z" "nobj u = nobj s" "read_datum u y = read_datum s y" "d_val (objs u y) \<noteq> Val0"
proof -
  have "rinv X D u \<and> prog X D s u \<and> (need_gc (objs u y) \<or> d_ty (objs s y) = RByval) \<and>
    objs u y = objs s y\<lparr>d_val := d_val (objs u y), need_gc := need_gc (objs u y)\<rparr> \<and>
    (\<forall>z. z \<noteq> y \<longrightarrow> objs u z = objs s z) \<and> nobj u = nobj s \<and> read_datum u y = read_datum s y \<and> d_val (objs u y) \<noteq> Val0"
  proof (cases "d_ty (objs s y) = RByval")
    case True
    then have "u = s" by (simp add: u pllua_savedatum_def)
    then show ?thesis using inv True y by (simp add: prog_refl)
  next
    case nb: False
    note D = rinvD [OF inv]
    obtain b p where v: "d_val (objs s y) = VPtr b p"
      using D(4) [OF y(1)] nb y(3) by (cases "d_val (objs s y)") (auto simp: val_ok_def)
    note blk = rinv_blk [OF inv y(1) v]
    have ou: "objs u = (objs s)(y := objs s y\<lparr>d_val := VPtr (nblk s) [], need_gc := True\<rparr>)"
      and fu: "nobj u = nobj s" "mem u = (mem s)(nblk s \<mapsto> read_datum s y)" "nblk u = Suc (nblk s)" "\<not> uaf u"
      using savedatum_simps [OF nb] D(1) v blk unfolding u by (simp_all add: live_val_def)
    have yX: "y \<notin> X" using D(9) [of y] y(4) by (auto simp: exploding_def)
    have al: "alive D u = alive D s" using fu(1) by (simp add: fun_eq_iff alive_def)
    have rdy: "read_datum u y = read_datum s y" by (simp add: ou fu read_val_def)
    have rd: "read_datum u z = read_datum s z" if "alive D s z" for z
      using rdy fresh_read [OF inv that, of u] fu(2) by (cases "z = y") (simp_all add: ou)
    have ents: "in_entries u z i c \<longleftrightarrow> in_entries s z i c" for z i c by (simp add: in_entries_def ou)
    have V0: "d_val (objs u z) = Val0 \<longleftrightarrow> d_val (objs s z) = Val0" for z using y(3) by (simp add: ou)
    have fld: "datumref (objs u z) = datumref (objs s z)" "d_ty (objs u z) = d_ty (objs s z)"
      "deformed (objs u z) = deformed (objs s z)" "has_meta (objs u z) = has_meta (objs s z)"
      "modified (objs u z) = modified (objs s z)" for z
      by (simp_all add: ou)
    have child: "alive D s c" if "alive D s z" "in_entries s z i c" for z i c
      using D(6) [OF that(1)] that(2) by (auto simp: cols_ok_def in_entries_def)
    have "rinv X D u"
      unfolding rinv_def al
    proof (intro conjI allI ballI impI)
      fix z assume z: "alive D s z"
      show "has_meta (objs u z)" using D(3) [OF z] fld by simp
      show "val_ok u (objs u z)"
      proof (cases "z = y")
        case True
        have "wt (d_ty (objs s y)) (read_datum s y)" using D(4) [OF y(1)] v by (simp add: val_ok_def)
        moreover have "\<not> modified (objs s y)" using D(4) [OF y(1)] v by (simp add: val_ok_def)
        ultimately show ?thesis using True nb rdy by (simp add: val_ok_def ou fu)
      next
        case False
        then have oz: "objs u z = objs s z" by (simp add: ou)
        show ?thesis
          using D(4) [OF z] rd [OF z] rinv_blk [OF inv z] unfolding oz
          by (cases "d_val (objs s z)") (auto simp: val_ok_def fu)
      qed
      show "ref_ok D u z"
        unfolding ref_ok_def al fld V0 ents
      proof (intro conjI)
        show "\<forall>w. datumref (objs s z) = Some w \<longrightarrow>
            w < z \<and> alive D s w \<and> d_val (objs s w) \<noteq> Val0 \<and> (\<exists>i. in_entries s w i z)"
          using D(5) [OF z] unfolding ref_ok_def by blast
        show "\<forall>b p. d_val (objs u z) = VPtr b p \<longrightarrow> \<not> need_gc (objs u z) \<longrightarrow>
            (\<exists>w q i. datumref (objs s z) = Some w \<and> d_val (objs u w) = VPtr b q \<and> p = q @ [i])"
        proof (intro allI impI)
          fix b p assume zp: "d_val (objs u z) = VPtr b p" "\<not> need_gc (objs u z)"
          then have zy: "z \<noteq> y" "d_val (objs s z) = VPtr b p" "\<not> need_gc (objs s z)" by (auto simp: ou split: if_splits)
          then obtain w q i where w: "datumref (objs s z) = Some w" "d_val (objs s w) = VPtr b q" "p = q @ [i]"
            "\<exists>i. in_entries s w i z"
            using D(5) [OF z] unfolding ref_ok_def by metis
          then have "w \<noteq> y" using no_children [OF y(4)] by blast
          then show "\<exists>w q i. datumref (objs s z) = Some w \<and> d_val (objs u w) = VPtr b q \<and> p = q @ [i]"
            using w by (auto simp: ou)
        qed
      qed
      show "cols_ok D u z" using D(6) [OF z] by (simp add: cols_ok_def fld al)
      show "coherent u z" if "z \<notin> X" "d_val (objs u z) \<noteq> Val0"
      proof -
        have "read_datum u c = read_datum s c" if "deformed (objs s z) = Some es" "i < length es" "es ! i = EDat c" for es i c
          using rd child [OF z] that by (auto simp: in_entries_def)
        then show ?thesis
          using D(7) [OF z that(1)] that(2) rd [OF z] unfolding coherent_def fld V0 by (simp split: entry.splits)
      qed
    next
      fix z assume "z \<in> X"
      then show "alive D s z" "exploding X u z"
        using D(8,9) by (auto simp: exploding_def fld V0 ents)
    next
      fix z w b p q
      assume zw: "alive D s z" "alive D s w" "need_gc (objs u z)" "need_gc (objs u w)"
        "d_val (objs u z) = VPtr b p" "d_val (objs u w) = VPtr b q"
      show "z = w"
        using zw rinv_blk [OF inv zw(1)] rinv_blk [OF inv zw(2)] D(10) [OF zw(1,2)]
        by (cases "z = y"; cases "w = y") (auto simp: ou)
    next
      fix z w c i j assume "alive D s z" "alive D s w" "in_entries u z i c" "in_entries u w j c"
      then show "z = w" "i = j" using D(11) unfolding ents by blast+
    qed (use fu D(2,12) in auto)
    moreover have "prog X D s u"
      using view_same [OF inv, of _ u] rd fld V0 fu(1) yX ents unfolding prog_def by (simp add: ou)
    ultimately show ?thesis using fu rdy by (simp add: ou)
  qed
  then show "rinv X D u" "prog X D s u" "need_gc (objs u y) \<or> d_ty (objs s y) = RByval"
    "objs u y = objs s y\<lparr>d_val := d_val (objs u y), need_gc := need_gc (objs u y)\<rparr>"
    "\<And>z. z \<noteq> y \<Longrightarrow> objs u z = objs s z" "nobj u = nobj s" "read_datum u y = read_datum s y" "d_val (objs u y) \<noteq> Val0"
    by blast+
qed

subsection \<open>The end of an explosion\<close>

text \<open>After the columns are copied out nothing else points into the row's block.\<close>

lemma block_private:
  assumes inv: "rinv X D u" and x: "alive D u x" "need_gc (objs u x)" "d_val (objs u x) = VPtr b p"
    and done_: "\<And>i y. in_entries u x i y \<Longrightarrow> need_gc (objs u y) \<or> d_val (objs u y) = Val0 \<or> d_ty (objs u y) = RByval"
    and z: "alive D u z" "z \<noteq> x"
  shows "d_val (objs u z) \<noteq> VPtr b q"
  using z
proof (induction z arbitrary: q rule: less_induct)
  case (less z)
  note D = rinvD [OF inv]
  show ?case
  proof
    assume v: "d_val (objs u z) = VPtr b q"
    have ng: "\<not> need_gc (objs u z)" using D(10) [OF x(1) less.prems(1) x(2) _ x(3) v] less.prems(2) by blast
    then obtain w q' i where w: "datumref (objs u z) = Some w" "d_val (objs u w) = VPtr b q'"
      "w < z" "alive D u w" "\<exists>i. in_entries u w i z"
      using D(5) [OF less.prems(1)] v unfolding ref_ok_def by metis
    show False
    proof (cases "w = x")
      case True
      have "d_ty (objs u z) \<noteq> RByval" using D(4) [OF less.prems(1)] v by (simp add: val_ok_def)
      moreover obtain i where "in_entries u x i z" using w(5) True by blast
      ultimately show ?thesis using done_ [of i z] ng v by auto
    next
      case False
      then show ?thesis using less.IH [OF w(3,4)] w(2) by blast
    qed
  qed
qed

lemma fold_reference:
  "objs (fold (\<lambda>y. pllua_datum_reference y None) ys s) = (\<lambda>z. if z \<in> set ys then objs s z\<lparr>datumref := None\<rparr> else objs s z)"
  "nobj (fold (\<lambda>y. pllua_datum_reference y None) ys s) = nobj s"
  "mem (fold (\<lambda>y. pllua_datum_reference y None) ys s) = mem s"
  "nblk (fold (\<lambda>y. pllua_datum_reference y None) ys s) = nblk s"
  "uaf (fold (\<lambda>y. pllua_datum_reference y None) ys s) = uaf s"
  by (induction ys arbitrary: s) (auto simp: fun_eq_iff)

lemma drop_value_simps:
  "objs (drop_value x s) = (objs s)(x := objs s x\<lparr>modified := True, need_gc := False, d_val := Val0\<rparr>)"
  "nobj (drop_value x s) = nobj s" "nblk (drop_value x s) = nblk s"
  "mem (drop_value x s) = (case d_val (objs s x) of VPtr b p \<Rightarrow> if need_gc (objs s x) then (mem s)(b := None) else mem s | _ \<Rightarrow> mem s)"
  "uaf (drop_value x s) = (uaf s \<or> (case d_val (objs s x) of VPtr b p \<Rightarrow> need_gc (objs s x) \<and> mem s b = None | _ \<Rightarrow> False))"
  by (auto simp: drop_value_def free_block_def Let_def split: dval.splits)

lemma detach_rinv:
  assumes inv: "rinv (insert x X) D u" and ord: "\<And>z. z \<in> X \<Longrightarrow> z < x" and row_x: "is_row (d_ty (objs u x))"
    and ys: "\<And>y. y \<in> set ys \<longleftrightarrow> (\<exists>i. in_entries u x i y)"
    and done_: "\<And>y. y \<in> set ys \<Longrightarrow> need_gc (objs u y) \<or> d_val (objs u y) = Val0 \<or> d_ty (objs u y) = RByval"
    and rows: "\<And>y. y \<in> set ys \<Longrightarrow> is_row (d_ty (objs u y)) \<Longrightarrow> d_val (objs u y) = Val0"
    and w: "w = pllua_datum_reference x None (fold (\<lambda>y. pllua_datum_reference y None) ys (drop_value x u))"
  shows "rinv X D w" "prog X D u w" "d_val (objs w x) = Val0"
proof -
  note D = rinvD [OF inv]
  have x: "x \<notin> X" using ord by auto
  have ax: "alive D u x" and ex: "exploding (insert x X) u x" using D(8,9) by blast+
  obtain cs us b p where row: "d_ty (objs u x) = RRow cs" "d_val (objs u x) = VPtr b p"
    by (rule row_storage [OF inv ax row_x]) (use ex in \<open>auto simp: exploding_def\<close>)
  note blk = rinv_blk [OF inv ax row(2)]
  have ow: "objs w x = objs u x\<lparr>modified := True, need_gc := False, d_val := Val0, datumref := None\<rparr>"
    "\<And>z. z \<noteq> x \<Longrightarrow> objs w z = (if z \<in> set ys then objs u z\<lparr>datumref := None\<rparr> else objs u z)"
    by (simp_all add: w fold_reference drop_value_simps)
  have fw: "nobj w = nobj u" "nblk w = nblk u" "\<not> uaf w"
    "mem w = (if need_gc (objs u x) then (mem u)(b := None) else mem u)"
    using D(1) blk row(2) by (auto simp: w fold_reference drop_value_simps)
  have al: "alive D w = alive D u" using fw(1) by (simp add: fun_eq_iff alive_def)
  have xy: "x \<notin> set ys" using D(6) [OF ax] ys by (fastforce simp: cols_ok_def in_entries_def)
  have ay: "alive D u y" if "y \<in> set ys" for y using D(6) [OF ax] ys that by (auto simp: cols_ok_def in_entries_def)
  have refy: "d_val (objs u y) = Val0 \<or> datumref (objs u y) = Some x" if "y \<in> set ys" for y
    using ex ys that by (auto simp: exploding_def)
  have fld: "d_ty (objs w z) = d_ty (objs u z)" "deformed (objs w z) = deformed (objs u z)"
    "has_meta (objs w z) = has_meta (objs u z)" for z
    using ow by (cases "z = x"; simp)+
  have fld': "d_val (objs w z) = d_val (objs u z)" "need_gc (objs w z) = need_gc (objs u z)" "modified (objs w z) = modified (objs u z)"
    if "z \<noteq> x" for z
    using ow(2) [OF that] by simp_all
  have ents: "in_entries w z i c \<longleftrightarrow> in_entries u z i c" for z i c by (simp add: in_entries_def fld)
  have keep: "mem w b' = mem u b'" if "alive D u z" "z \<noteq> x" "d_val (objs u z) = VPtr b' q" for z b' q
  proof (cases "need_gc (objs u x)")
    case True
    then have "b' \<noteq> b" using block_private [OF inv ax True row(2) _ that(1,2), of q] done_ ys that(3) by blast
    then show ?thesis using fw(4) by simp
  qed (simp add: fw(4))
  have rd: "read_val w (d_val (objs u z)) = read_datum u z" if "alive D u z" "z \<noteq> x" for z
    using keep [OF that] by (auto simp: read_val_def split: dval.splits)
  have ref_none: "datumref (objs w z) = None" if "z = x \<or> z \<in> set ys" for z
    using that ow(1) ow(2) [of z] xy by (cases "z = x") auto
  have ref_same: "datumref (objs w z) = datumref (objs u z)" if "z \<noteq> x" "z \<notin> set ys" for z
    using ow(2) that by simp
  have rinv: "rinv X D w"
    unfolding rinv_def al
  proof (intro conjI allI ballI impI)
    fix z assume z: "alive D u z"
    show "has_meta (objs w z)" using D(3) [OF z] fld by simp
    show "val_ok w (objs w z)"
    proof (cases "z = x")
      case True
      then show ?thesis using ex row by (simp add: val_ok_def ow(1) exploding_def)
    next
      case False
      have r0: "datumref (objs w z) = None" if "datumref (objs u z) = None" using ow(2) [OF False] that by simp
      show ?thesis
        using D(4) [OF z] rd [OF z False] keep [OF z False] fld [of z] fld' [OF False] r0
        by (cases "d_val (objs u z)") (auto simp: val_ok_def)
    qed
    show "ref_ok D w z"
    proof (cases "z = x \<or> z \<in> set ys")
      case True
      have "need_gc (objs w z)" if "d_val (objs w z) = VPtr b' q" for b' q
      proof -
        have "z \<noteq> x" using that ow(1) by auto
        moreover from this have "z \<in> set ys" using True by simp
        ultimately show ?thesis
          using done_ [of z] that fld' [of z] D(4) [OF z] by (auto simp: val_ok_def)
      qed
      then show ?thesis using ref_none [OF True] by (simp add: ref_ok_def)
    next
      case False
      then have zx: "z \<noteq> x" "z \<notin> set ys" by simp_all
      have wx: "v \<noteq> x" if "datumref (objs u z) = Some v" for v
        using D(5) [OF z] that zx ys unfolding ref_ok_def by metis
      show ?thesis
        unfolding ref_ok_def al fld'(1,2) [OF zx(1)] ref_same [OF zx] ents
      proof (intro conjI)
        show "\<forall>y. datumref (objs u z) = Some y \<longrightarrow>
            y < z \<and> alive D u y \<and> d_val (objs w y) \<noteq> Val0 \<and> (\<exists>i. in_entries u y i z)"
          using D(5) [OF z] wx fld'(1) unfolding ref_ok_def by metis
        show "\<forall>b p. d_val (objs u z) = VPtr b p \<longrightarrow> \<not> need_gc (objs u z) \<longrightarrow>
            (\<exists>y q i. datumref (objs u z) = Some y \<and> d_val (objs w y) = VPtr b q \<and> p = q @ [i])"
          using D(5) [OF z] wx fld'(1) unfolding ref_ok_def by metis
      qed
    qed
    show "cols_ok D w z" using D(6) [OF z] by (simp add: cols_ok_def fld al)
    show "coherent w z" if zX: "z \<notin> X" "d_val (objs w z) \<noteq> Val0"
    proof -
      have zx: "z \<noteq> x" using zX ow(1) by auto
      then have cz: "coherent u z" using D(7) [OF z] zX fld' by simp
      have "datumref (objs w c) = Some z \<and> d_val (objs w c) \<noteq> Val0 \<and> read_datum w c = row_fields (read_datum u z) ! i"
        if e: "deformed (objs u z) = Some es" "i < length es" "es ! i = EDat c" for es i c
      proof -
        have c: "datumref (objs u c) = Some z" "d_val (objs u c) \<noteq> Val0" "read_datum u c = row_fields (read_datum u z) ! i"
          using cz e unfolding coherent_def by fastforce+
        have "c \<noteq> x" using ex c(1) zx zX by (auto simp: exploding_def)
        moreover have "c \<notin> set ys" using refy [of c] c zx by auto
        moreover have "alive D u c" using D(6) [OF z] e by (auto simp: cols_ok_def)
        ultimately show ?thesis using c ref_same [of c] fld' [of c] rd [of c] by simp
      qed
      then show ?thesis
        using cz rd [OF z zx] fld'(1) [OF zx] unfolding coherent_def fld by (simp split: entry.splits)
    qed
  next
    fix z assume zX: "z \<in> X"
    then have z: "alive D u z" "exploding (insert x X) u z" "z \<noteq> x" using D(8,9) x by auto
    show "alive D u z" by (rule z(1))
    have rX: "v \<in> X" if v: "datumref (objs w z) = Some v" for v
    proof -
      have "z \<notin> set ys" using ref_none [of z] v by auto
      moreover from this have "datumref (objs u z) = Some v" using v ref_same z(3) by simp
      ultimately show ?thesis using z(2) D(5) [OF z(1)] ys unfolding exploding_def ref_ok_def by blast
    qed
    have ch: "d_val (objs w c) = Val0 \<or> datumref (objs w c) = Some z" if e: "in_entries u z i c" for i c
    proof (cases "c = x")
      case False
      have "d_val (objs u c) = Val0 \<or> datumref (objs u c) = Some z" using z(2) e by (auto simp: exploding_def)
      moreover have "datumref (objs w c) = Some z" if "datumref (objs u c) = Some z" "d_val (objs u c) \<noteq> Val0"
        using that refy [of c] ref_same [OF False] z(3) by auto
      ultimately show ?thesis using fld'(1) [OF False] by auto
    qed (simp add: ow(1))
    show "exploding X w z"
      unfolding exploding_def fld ents
    proof (intro conjI allI impI)
      show "d_val (objs w z) \<noteq> Val0" "deformed (objs u z) \<noteq> None"
        using z fld'(1) by (auto simp: exploding_def)
    qed (use rX ch in blast)+
  next
    fix z v b' q q'
    assume zv: "alive D u z" "alive D u v" "need_gc (objs w z)" "need_gc (objs w v)"
      "d_val (objs w z) = VPtr b' q" "d_val (objs w v) = VPtr b' q'"
    then have "z \<noteq> x" "v \<noteq> x" using ow(1) by auto
    then show "z = v" using D(10) [OF zv(1,2)] zv(3-6) fld' by simp
  next
    fix z v c i j assume "alive D u z" "alive D u v" "in_entries w z i c" "in_entries w v j c"
    then show "z = v" "i = j" using D(11) unfolding ents by blast+
  next
    show "mem w b' = None" if "nblk w \<le> b'" for b' using D(2) [of b'] that fw by auto
    show "z < nobj w" if "z \<in> D" for z using D(12) that fw(1) by simp
  qed (rule fw(3))
  show "rinv X D w" by (rule rinv)
  show "d_val (objs w x) = Val0" by (simp add: ow(1))
  have "view n w z = view n u z" if "alive D u z" for n z
  proof (rule view_same [OF inv that])
    fix v assume v: "alive D u v" "deformed (objs u v) = None"
    then have "v \<noteq> x" using ex by (auto simp: exploding_def)
    then show "read_datum w v = read_datum u v" using rd [OF v(1)] fld'(1) by simp
  qed (rule fld(2))
  moreover have "objs w z = objs u z" if z: "z \<in> X" for z
  proof -
    have "z \<notin> set ys" using D(6) [OF ax] ys ord [OF z] by (fastforce simp: cols_ok_def in_entries_def)
    moreover have "z \<noteq> x" using x z by auto
    ultimately show ?thesis using ow(2) [of z] by simp
  qed
  moreover have "d_val (objs w z) = Val0" if "d_val (objs u z) = Val0" for z
    using that ow(1) fld'(1) by (cases "z = x") auto
  moreover have "c < nobj w \<and> (is_row (d_ty (objs w c)) \<longrightarrow> d_val (objs w c) = Val0)"
    if "d_val (objs u z) \<noteq> Val0" "d_val (objs w z) = Val0" "in_entries w z i c" for z i c
  proof -
    have "z = x" using that(1,2) fld'(1) by (cases "z = x") auto
    then have c: "c \<in> set ys" using that(3) ys ents by blast
    then have "c \<noteq> x" using xy by auto
    then show ?thesis using rows [OF c] ay [OF c] fld fld'(1) fw(1) by (simp add: alive_def)
  qed
  moreover have "deformed (objs w z) \<noteq> None" if "d_val (objs u z) \<noteq> Val0" "d_val (objs w z) = Val0" for z
    using that fld'(1) ex fld(2) by (cases "z = x") (auto simp: exploding_def)
  ultimately show "prog X D u w"
    unfolding prog_def using fw(1) fld ents by simp
qed

subsection \<open>Explosions\<close>

lemma prog_sub: "prog (insert x X) D s t \<Longrightarrow> prog X D s t"
  by (auto simp: prog_def)

lemma prog_entries:
  assumes "prog X D s t" "rinv Y D s" "alive D s x" "deformed (objs s x) \<noteq> None"
  shows "in_entries t x i c \<longleftrightarrow> in_entries s x i c"
  using progD(3) [OF assms(1), of x] assms(3,4) by (simp add: in_entries_def alive_def)

lemma prog_alive: "prog X D s t \<Longrightarrow> alive D s x \<Longrightarrow> alive D t x"
  by (auto simp: prog_def alive_def)

text \<open>Deforming, whether or not it is done already.\<close>

lemma deform_any:
  assumes inv: "rinv X D s" and x: "alive D s x" "is_row (d_ty (objs s x))"
    and u: "u = pllua_datum_deform_tuple ext x s"
  shows "rinv X D u" "prog X D s u" "deformed (objs u x) \<noteq> None"
    "objs u x = objs s x\<lparr>deformed := deformed (objs u x)\<rparr>"
proof -
  have "rinv X D u \<and> prog X D s u \<and> deformed (objs u x) \<noteq> None \<and> objs u x = objs s x\<lparr>deformed := deformed (objs u x)\<rparr>"
  proof (cases "deformed (objs s x)")
    case None
    then have nv: "d_val (objs s x) \<noteq> Val0" using rinvD(4) [OF inv x(1)] by (auto simp: val_ok_def)
    show ?thesis by (intro conjI deform_rinv [OF inv x nv None u])
  next
    case (Some es)
    then show ?thesis using inv u by (simp add: pllua_datum_deform_tuple_def prog_refl)
  qed
  then show "rinv X D u" "prog X D s u" "deformed (objs u x) \<noteq> None"
    "objs u x = objs s x\<lparr>deformed := deformed (objs u x)\<rparr>" by blast+
qed

lemma save_child_rinv:
  assumes inv: "rinv X D s" and y: "alive D s y" "d_val (objs s y) \<noteq> Val0 \<Longrightarrow> \<not> is_row (d_ty (objs s y))"
  shows "rinv X D (save_child y s)" "prog X D s (save_child y s)"
    "need_gc (objs (save_child y s) y) \<or> d_val (objs (save_child y s) y) = Val0 \<or> d_ty (objs (save_child y s) y) = RByval"
    "\<And>z. z \<noteq> y \<Longrightarrow> objs (save_child y s) z = objs s z"
proof -
  let ?u = "save_child y s"
  have "rinv X D ?u \<and> prog X D s ?u \<and> (need_gc (objs ?u y) \<or> d_val (objs ?u y) = Val0 \<or> d_ty (objs ?u y) = RByval) \<and>
    (\<forall>z. z \<noteq> y \<longrightarrow> objs ?u z = objs s z)"
  proof (cases "\<not> need_gc (objs s y) \<and> d_val (objs s y) \<noteq> Val0")
    case True
    have v: "val_ok s (objs s y)" by (rule rinvD(4) [OF inv y(1)])
    have "\<not> modified (objs s y)" using v True by (cases "d_val (objs s y)") (auto simp: val_ok_def)
    then have eq: "?u = pllua_savedatum y s" using True by (simp add: save_child_def)
    have "deformed (objs s y) = None"
      using rinvD(6) [OF inv y(1)] y(2) True unfolding cols_ok_def by (metis is_row.simps(1) not_Some_eq)
    note sv = savedatum_rinv [OF inv y(1) _ _ this eq]
    show ?thesis using sv True by (metis progD(2) alive_def y(1))
  next
    case False
    then have "?u = s" using rinvD(4) [OF inv y(1)] by (auto simp: save_child_def val_ok_def split: dval.splits)
    then show ?thesis using inv False by (auto simp: prog_refl)
  qed
  then show "rinv X D ?u" "prog X D s ?u"
    "need_gc (objs ?u y) \<or> d_val (objs ?u y) = Val0 \<or> d_ty (objs ?u y) = RByval"
    "\<And>z. z \<noteq> y \<Longrightarrow> objs ?u z = objs s z" by blast+
qed

lemma save_children_rinv:
  assumes "rinv X D s" "\<And>y. y \<in> set ys \<Longrightarrow> alive D s y"
    and "\<And>y. y \<in> set ys \<Longrightarrow> d_val (objs s y) \<noteq> Val0 \<Longrightarrow> \<not> is_row (d_ty (objs s y))"
  shows "rinv X D (fold save_child ys s) \<and> prog X D s (fold save_child ys s) \<and>
    (\<forall>y. y \<in> set ys \<or> need_gc (objs s y) \<or> d_val (objs s y) = Val0 \<or> d_ty (objs s y) = RByval \<longrightarrow>
       need_gc (objs (fold save_child ys s) y) \<or> d_val (objs (fold save_child ys s) y) = Val0 \<or>
       d_ty (objs (fold save_child ys s) y) = RByval)"
  using assms
proof (induction ys arbitrary: s)
  case (Cons y ys)
  let ?t = "save_child y s"
  note one = save_child_rinv [OF Cons.prems(1), of y]
  have y: "alive D s y" "d_val (objs s y) \<noteq> Val0 \<Longrightarrow> \<not> is_row (d_ty (objs s y))" using Cons.prems(2,3) by auto
  note one = one [OF y]
  have pz: "alive D ?t z \<and> d_ty (objs ?t z) = d_ty (objs s z) \<and> (d_val (objs s z) = Val0 \<longrightarrow> d_val (objs ?t z) = Val0)"
    if "alive D s z" for z
    using progD(1,2,4) [OF one(2), of z] that by (simp add: alive_def)
  have IH: "rinv X D (fold save_child ys ?t) \<and> prog X D ?t (fold save_child ys ?t) \<and>
    (\<forall>y. y \<in> set ys \<or> need_gc (objs ?t y) \<or> d_val (objs ?t y) = Val0 \<or> d_ty (objs ?t y) = RByval \<longrightarrow>
       need_gc (objs (fold save_child ys ?t) y) \<or> d_val (objs (fold save_child ys ?t) y) = Val0 \<or>
       d_ty (objs (fold save_child ys ?t) y) = RByval)"
    using Cons.prems(2,3) pz by (intro Cons.IH one(1)) (metis list.set_intros(2))+
  have "need_gc (objs ?t z) \<or> d_val (objs ?t z) = Val0 \<or> d_ty (objs ?t z) = RByval"
    if "need_gc (objs s z) \<or> d_val (objs s z) = Val0 \<or> d_ty (objs s z) = RByval \<or> z = y" for z
    using that one(3,4) by (cases "z = y") auto
  then show ?case using IH prog_trans [OF one(2)] by auto
qed (simp add: prog_refl)

definition explode_child :: "(nat \<Rightarrow> nat list \<Rightarrow> bool) \<Rightarrow> nat \<Rightarrow> nat \<Rightarrow> 'a rowst \<Rightarrow> 'a rowst" where
  "explode_child ext n y s =
     (if is_row (d_ty (objs s y)) then pllua_datum_explode_tuple_inner ext n y (pllua_datum_deform_tuple ext y s) else s)"

lemma explode_inner_Suc:
  "pllua_datum_explode_tuple_inner ext (Suc n) x s =
     (if d_val (objs s x) = Val0 then s
      else detach_columns (dats (entries s x)) x (fold (explode_child ext n) (dats (entries s x)) s))"
  by (simp add: explode_child_def [abs_def])

lemma rinv_start:
  assumes inv: "rinv X D s" and x: "alive D s x" "x \<notin> X" "d_val (objs s x) \<noteq> Val0" "deformed (objs s x) \<noteq> None"
    and ref: "\<And>y. datumref (objs s x) = Some y \<Longrightarrow> y \<in> X"
  shows "rinv (insert x X) D s"
proof -
  have "coherent s x" by (rule rinvD(7) [OF inv x(1-3)])
  then have "datumref (objs s c) = Some x" if "in_entries s x i c" for i c
    using that unfolding coherent_def in_entries_def by fastforce
  then have "exploding (insert x X) s x" using x ref by (auto simp: exploding_def)
  moreover have "exploding (insert x X) s z" if "z \<in> X" for z
    using rinvD(9) [OF inv that] by (auto simp: exploding_def)
  ultimately show ?thesis using inv x(1) unfolding rinv_def by blast
qed

lemma child_size:
  assumes "rinv X D s" "alive D s x" "in_entries s x i y"
  shows "size (d_ty (objs s y)) < size (d_ty (objs s x))" "alive D s y" "x < y"
proof -
  obtain es cs where "deformed (objs s x) = Some es" "i < length es" "es ! i = EDat y"
    "d_ty (objs s x) = RRow cs" "length es = length cs" "x < y" "alive D s y" "d_ty (objs s y) = col_type (cs ! i)"
    using rinvD(6) [OF assms(1,2)] assms(3) unfolding cols_ok_def in_entries_def by metis
  moreover from this have "size (col_type (cs ! i)) < size (RRow cs)" by (intro col_size) simp
  ultimately show "size (d_ty (objs s y)) < size (d_ty (objs s x))" "alive D s y" "x < y" by simp_all
qed

lemma row_size: "is_row ty \<Longrightarrow> 0 < size ty"
  by (cases ty) auto

lemma explode_child_rinv:
  assumes IH: "\<And>X (s :: 'a rowst) x. rinv X D s \<Longrightarrow> alive D s x \<Longrightarrow> (\<And>z. z \<in> X \<Longrightarrow> z < x) \<Longrightarrow> is_row (d_ty (objs s x)) \<Longrightarrow>
      d_val (objs s x) \<noteq> Val0 \<Longrightarrow> deformed (objs s x) \<noteq> None \<Longrightarrow>
      (\<And>y. datumref (objs s x) = Some y \<Longrightarrow> y \<in> X) \<Longrightarrow> size (d_ty (objs s x)) \<le> n \<Longrightarrow>
      rinv X D (pllua_datum_explode_tuple_inner ext n x s) \<and> prog X D s (pllua_datum_explode_tuple_inner ext n x s) \<and>
      d_val (objs (pllua_datum_explode_tuple_inner ext n x s) x) = Val0"
    and inv: "rinv X D (t :: 'a rowst)" and x: "x \<in> X" "\<And>z. z \<in> X \<Longrightarrow> z \<le> x" and y: "in_entries t x i y"
    and n: "size (d_ty (objs t y)) \<le> n"
  shows "rinv X D (explode_child ext n y t) \<and> prog X D t (explode_child ext n y t) \<and>
    (is_row (d_ty (objs t y)) \<longrightarrow> d_val (objs (explode_child ext n y t) y) = Val0)"
proof (cases "is_row (d_ty (objs t y))")
  case row: True
  have ax: "alive D t x" and ex: "exploding X t x" using rinvD(8,9) [OF inv x(1)] by simp_all
  note c = child_size [OF inv ax y]
  let ?t = "pllua_datum_deform_tuple ext y t"
  note d = deform_any [OF inv c(2) row refl, of ext]
  have same: "d_ty (objs ?t y) = d_ty (objs t y)" "d_val (objs ?t y) = d_val (objs t y)" "datumref (objs ?t y) = datumref (objs t y)"
    using d(4) by (metis dobj.select_convs dobj.surjective dobj.update_convs)+
  show ?thesis
  proof (cases "d_val (objs t y) = Val0")
    case True
    have "pllua_datum_explode_tuple_inner ext n y ?t = ?t"
      using same True by (cases n) simp_all
    then show ?thesis using d row True same by (simp add: explode_child_def)
  next
    case False
    then have "datumref (objs t y) = Some x" using ex y by (auto simp: exploding_def)
    then have "rinv X D (pllua_datum_explode_tuple_inner ext n y ?t) \<and> prog X D ?t (pllua_datum_explode_tuple_inner ext n y ?t) \<and>
      d_val (objs (pllua_datum_explode_tuple_inner ext n y ?t) y) = Val0"
      using row same False d(3) x c(3) n by (intro IH [OF d(1) prog_alive [OF d(2) c(2)]]) (auto dest: le_less_trans)
    then show ?thesis using row prog_trans [OF d(2)] by (simp add: explode_child_def)
  qed
qed (simp add: explode_child_def inv prog_refl)

lemma explode_children_rinv:
  assumes IH: "\<And>X (s :: 'a rowst) x. rinv X D s \<Longrightarrow> alive D s x \<Longrightarrow> (\<And>z. z \<in> X \<Longrightarrow> z < x) \<Longrightarrow> is_row (d_ty (objs s x)) \<Longrightarrow>
      d_val (objs s x) \<noteq> Val0 \<Longrightarrow> deformed (objs s x) \<noteq> None \<Longrightarrow>
      (\<And>y. datumref (objs s x) = Some y \<Longrightarrow> y \<in> X) \<Longrightarrow> size (d_ty (objs s x)) \<le> n \<Longrightarrow>
      rinv X D (pllua_datum_explode_tuple_inner ext n x s) \<and> prog X D s (pllua_datum_explode_tuple_inner ext n x s) \<and>
      d_val (objs (pllua_datum_explode_tuple_inner ext n x s) x) = Val0"
    and x: "x \<in> X" "\<And>z. z \<in> X \<Longrightarrow> z \<le> x"
    and "rinv X D (t :: 'a rowst)" "\<And>y. y \<in> set ys \<Longrightarrow> \<exists>i. in_entries t x i y"
    and "\<And>y. y \<in> set ys \<Longrightarrow> size (d_ty (objs t y)) \<le> n"
  shows "rinv X D (fold (explode_child ext n) ys t) \<and> prog X D t (fold (explode_child ext n) ys t) \<and>
    (\<forall>y \<in> set ys. is_row (d_ty (objs t y)) \<longrightarrow> d_val (objs (fold (explode_child ext n) ys t) y) = Val0)"
  using assms(4-)
proof (induction ys arbitrary: t)
  case (Cons y ys)
  obtain i where y: "in_entries t x i y" using Cons.prems(2) by auto
  let ?t = "explode_child ext n y t"
  have sz: "size (d_ty (objs t y)) \<le> n" using Cons.prems(3) by simp
  have "rinv X D ?t \<and> prog X D t ?t \<and> (is_row (d_ty (objs t y)) \<longrightarrow> d_val (objs ?t y) = Val0)"
    by (rule explode_child_rinv [OF IH Cons.prems(1) x y sz])
  then have one: "rinv X D ?t" "prog X D t ?t" "is_row (d_ty (objs t y)) \<longrightarrow> d_val (objs ?t y) = Val0"
    by blast+
  have ax: "alive D t x" and ex: "exploding X t x" using rinvD(8,9) [OF Cons.prems(1) x(1)] by simp_all
  have ent: "in_entries ?t x j z \<longleftrightarrow> in_entries t x j z" for j z
    using prog_entries [OF one(2) Cons.prems(1) ax] ex by (simp add: exploding_def)
  have kid: "z < nobj t \<and> d_ty (objs ?t z) = d_ty (objs t z)" if "z \<in> set (y # ys)" for z
    using Cons.prems(2) [OF that] child_size(2) [OF Cons.prems(1) ax] progD(2) [OF one(2), of z] by (auto simp: alive_def)
  have rest: "rinv X D (fold (explode_child ext n) ys ?t) \<and> prog X D ?t (fold (explode_child ext n) ys ?t) \<and>
    (\<forall>y \<in> set ys. is_row (d_ty (objs ?t y)) \<longrightarrow> d_val (objs (fold (explode_child ext n) ys ?t) y) = Val0)"
    using Cons.prems(2,3) ent kid by (intro Cons.IH one(1)) auto
  have "d_val (objs (fold (explode_child ext n) ys ?t) y) = Val0" if "is_row (d_ty (objs t y))"
    using one(3) that progD(4) [of X D ?t "fold (explode_child ext n) ys ?t" y] rest kid [of y] progD(1) [OF one(2), of y] by auto
  then show ?case using rest kid prog_trans [OF one(2)] by auto
qed (simp add: prog_refl)

lemma explode_inner_rinv:
  assumes "rinv X D s" "alive D s x" "\<And>z. z \<in> X \<Longrightarrow> z < x" "is_row (d_ty (objs s x))"
    and "d_val (objs s x) \<noteq> Val0" "deformed (objs s x) \<noteq> None"
    and "\<And>y. datumref (objs s x) = Some y \<Longrightarrow> y \<in> X" "size (d_ty (objs s x)) \<le> n"
  shows "rinv X D (pllua_datum_explode_tuple_inner ext n x s) \<and> prog X D s (pllua_datum_explode_tuple_inner ext n x s) \<and>
    d_val (objs (pllua_datum_explode_tuple_inner ext n x s) x) = Val0"
  using assms
proof (induction n arbitrary: X s x)
  case 0
  then show ?case using row_size by fastforce
next
  case (Suc n)
  have xX: "x \<notin> X" using Suc.prems(3) by auto
  let ?X = "insert x X" and ?ys = "dats (entries s x)"
  have inv: "rinv ?X D s" using Suc.prems xX by (intro rinv_start) auto
  let ?t = "fold (explode_child ext n) ?ys s"
  have kid: "\<exists>i. in_entries s x i y" if "y \<in> set ?ys" for y using that by (simp add: in_entries_dats)
  have "rinv ?X D ?t \<and> prog ?X D s ?t \<and> (\<forall>y \<in> set ?ys. is_row (d_ty (objs s y)) \<longrightarrow> d_val (objs ?t y) = Val0)"
  proof (rule explode_children_rinv [where x = x])
    show "size (d_ty (objs s y)) \<le> n" if "y \<in> set ?ys" for y
      using child_size(1) [OF Suc.prems(1,2)] kid [OF that] Suc.prems(8) by fastforce
    show "z \<le> x" if "z \<in> insert x X" for z
      using that by (auto intro: less_imp_le Suc.prems(3))
  qed (use Suc.IH inv kid in auto)
  then have t: "rinv ?X D ?t" "prog ?X D s ?t" "\<And>y. y \<in> set ?ys \<Longrightarrow> is_row (d_ty (objs s y)) \<Longrightarrow> d_val (objs ?t y) = Val0"
    by blast+
  have kid_alive: "alive D s y" if "y \<in> set ?ys" for y
    using child_size(2) [OF Suc.prems(1,2)] kid [OF that] by blast
  let ?u = "fold save_child ?ys ?t"
  have u: "rinv ?X D ?u" "prog ?X D ?t ?u"
    "\<And>y. y \<in> set ?ys \<Longrightarrow> need_gc (objs ?u y) \<or> d_val (objs ?u y) = Val0 \<or> d_ty (objs ?u y) = RByval"
    using save_children_rinv [OF t(1), of ?ys] kid_alive prog_alive [OF t(2)] t(3) progD(2) [OF t(2)]
    by (auto simp: alive_def)
  have su: "prog ?X D s ?u" by (rule prog_trans [OF t(2) u(2)])
  let ?w = "pllua_datum_reference x None (fold (\<lambda>y. pllua_datum_reference y None) ?ys (drop_value x ?u))"
  have wr: "is_row (d_ty (objs ?u x))" using progD(2) [OF su, of x] Suc.prems(2,4) by (simp add: alive_def)
  have wk: "y \<in> set ?ys \<longleftrightarrow> (\<exists>i. in_entries ?u x i y)" for y
    using prog_entries [OF su Suc.prems(1,2,6)] by (simp add: in_entries_dats)
  have rows: "d_val (objs ?u y) = Val0" if "y \<in> set ?ys" "is_row (d_ty (objs ?u y))" for y
  proof -
    have "alive D ?t y" "alive D s y" using kid_alive [OF that(1)] prog_alive [OF t(2)] by blast+
    then show ?thesis
      using t(3) [OF that(1)] that(2) progD(2) [OF su, of y] progD(4) [OF u(2), of y] by (simp add: alive_def)
  qed
  note w = detach_rinv [OF u(1) Suc.prems(3) wr wk u(3) rows refl]
  have eq: "pllua_datum_explode_tuple_inner ext (Suc n) x s = ?w"
    using Suc.prems(5) by (simp add: explode_inner_Suc detach_columns_def del: pllua_datum_explode_tuple_inner.simps)
  show ?case unfolding eq using w prog_trans [OF prog_sub [OF su] w(2)] by blast
qed

end
