(* ===== verification/Datum_Row_Ops.thy ===== *)
theory Datum_Row_Ops
  imports Datum_Row_Explode
begin

text \<open>
  The operations on row objects (Datum_Row) keep the invariant: explosion from anywhere in a row,
  new objects, assignment to columns and to array elements, collection.
\<close>

subsection \<open>Exploding from anywhere in a row\<close>

lemma ultimate_parent_spec:
  assumes "rinv {} D s" "alive D s x" "d_val (objs s x) \<noteq> Val0" "x < n"
  shows "alive D s (ultimate_parent n s x) \<and> d_val (objs s (ultimate_parent n s x)) \<noteq> Val0 \<and>
    datumref (objs s (ultimate_parent n s x)) = None \<and> ultimate_parent n s x \<le> x \<and>
    (ultimate_parent n s x = x \<or> deformed (objs s (ultimate_parent n s x)) \<noteq> None)"
  using assms(2-)
proof (induction n arbitrary: x)
  case (Suc n)
  show ?case
  proof (cases "datumref (objs s x)")
    case (Some y)
    then have y: "y < x" "alive D s y" "d_val (objs s y) \<noteq> Val0" "\<exists>i. in_entries s y i x"
      using rinvD(5) [OF assms(1) Suc.prems(1)] by (auto simp: ref_ok_def)
    then have "y < n" "deformed (objs s y) \<noteq> None" using Suc.prems(3) by (auto simp: in_entries_def)
    then show ?thesis using Suc.IH [OF y(2,3)] y(1) Some by auto
  qed (use Suc.prems in simp)
qed simp


text \<open>A row whose way up ends in a row that was exploded is exploded too.\<close>

lemma exploded_below:
  assumes "prog {} D s u" "rinv {} D s" "alive D s x" "d_val (objs s x) \<noteq> Val0" "x < n" "is_row (d_ty (objs s x))"
    and "d_val (objs u (ultimate_parent n s x)) = Val0"
  shows "d_val (objs u x) = Val0"
  using assms(3-)
proof (induction n arbitrary: x)
  case (Suc n)
  show ?case
  proof (cases "datumref (objs s x)")
    case None
    then show ?thesis using Suc.prems by simp
  next
    case (Some y)
    then obtain i where y: "y < x" "alive D s y" "d_val (objs s y) \<noteq> Val0" "in_entries s y i x"
      using rinvD(5) [OF assms(2) Suc.prems(1)] by (auto simp: ref_ok_def)
    have yn: "y < nobj s" "x < nobj s" using y(2) Suc.prems(1) by (simp_all add: alive_def)
    have "is_row (d_ty (objs s y))"
      using rinvD(6) [OF assms(2) y(2)] y(4) by (auto simp: cols_ok_def in_entries_def)
    then have "d_val (objs u y) = Val0" using Suc.IH [OF y(2,3)] Suc.prems(3,5) y(1) Some by simp
    moreover have "in_entries u y i x"
      using progD(3) [OF assms(1) yn(1)] y(4) by (auto simp: in_entries_def)
    ultimately show ?thesis
      using progD(8) [OF assms(1) yn(1) y(3)] progD(2) [OF assms(1) yn(2)] Suc.prems(4) by auto
  qed
qed simp

lemma prog_deformed: "prog X D s u \<Longrightarrow> x < nobj s \<Longrightarrow> deformed (objs s x) \<noteq> None \<Longrightarrow> deformed (objs u x) \<noteq> None"
  using progD(3) by metis

lemma explode_tuple_rinv:
  assumes inv: "rinv {} D s" and x: "alive D s x" "is_row (d_ty (objs s x))"
    and u: "u = pllua_datum_explode_tuple ext x s"
  shows "rinv {} D u" "prog {} D s u" "d_val (objs u x) = Val0" "deformed (objs u x) \<noteq> None"
proof -
  let ?s = "pllua_datum_deform_tuple ext x s"
  note d = deform_any [OF inv x refl, of ext]
  have xn: "x < nobj s" using x(1) by (simp add: alive_def)
  have x': "alive D ?s x" "is_row (d_ty (objs ?s x))"
    using prog_alive [OF d(2) x(1)] progD(2) [OF d(2) xn] x(2) by simp_all
  have "rinv {} D u \<and> prog {} D s u \<and> d_val (objs u x) = Val0 \<and> deformed (objs u x) \<noteq> None"
  proof (cases "d_val (objs ?s x) = Val0")
    case True
    then show ?thesis using d u by (simp add: pllua_datum_explode_tuple_def)
  next
    case False
    let ?r = "ultimate_parent (nobj ?s) ?s x"
    have xn': "x < nobj ?s" using x'(1) by (simp add: alive_def)
    have r: "alive D ?s ?r" "d_val (objs ?s ?r) \<noteq> Val0" "datumref (objs ?s ?r) = None"
      "?r = x \<or> deformed (objs ?s ?r) \<noteq> None"
      using ultimate_parent_spec [OF d(1) x'(1) False xn'] by blast+
    have rd: "deformed (objs ?s ?r) \<noteq> None" using r(4) d(3) by metis
    have row: "is_row (d_ty (objs ?s ?r))"
      using rinvD(6) [OF d(1) r(1)] rd by (auto simp: cols_ok_def)
    let ?u = "pllua_datum_explode_tuple_inner ext (size (d_ty (objs ?s ?r))) ?r ?s"
    have same: "pllua_datum_deform_tuple ext ?r ?s = ?s" using rd by (simp add: pllua_datum_deform_tuple_def)
    have eq: "u = ?u" using False u same by (simp add: pllua_datum_explode_tuple_def Let_def)
    have e: "rinv {} D ?u" "prog {} D ?s ?u" "d_val (objs ?u ?r) = Val0"
      using explode_inner_rinv [OF d(1) r(1) _ row r(2) rd, where ext = ext and n = "size (d_ty (objs ?s ?r))"] r(3) by auto
    have "d_val (objs ?u x) = Val0"
      by (rule exploded_below [OF e(2) d(1) x'(1) False xn' x'(2) e(3)])
    then show ?thesis
      unfolding eq using e prog_trans [OF d(2) e(2)] prog_deformed [OF e(2) xn' d(3)] by blast
  qed
  then show "rinv {} D u" "prog {} D s u" "d_val (objs u x) = Val0" "deformed (objs u x) \<noteq> None" by blast+
qed

subsection \<open>New objects\<close>

lemma view_alloc:
  assumes "rinv {} D s" "alive D s z" "\<And>y. y < nobj s \<Longrightarrow> objs u y = objs s y" "\<And>b. b < nblk s \<Longrightarrow> mem u b = mem s b"
  shows "view n u z = view n s z"
proof (rule view_same [OF assms(1,2)])
  fix y assume y: "alive D s y"
  then show "deformed (objs u y) = deformed (objs s y)" using assms(3) by (simp add: alive_def)
  have "read_val u (d_val (objs s y)) = read_datum s y"
    using rinv_blk [OF assms(1) y] assms(4) by (auto simp: read_val_def split: dval.splits)
  then show "read_datum u y = read_datum s y" using assms(3) y by (simp add: alive_def)
qed

lemma cols_ok_alloc:
  assumes "cols_ok D s z" "objs u z = objs s z" "\<And>c. alive D s c \<Longrightarrow> alive D' u c \<and> objs u c = objs s c"
  shows "cols_ok D' u z"
  unfolding cols_ok_def assms(2)
proof (intro allI impI)
  fix es assume "deformed (objs s z) = Some es"
  then obtain cs where cs: "d_ty (objs s z) = RRow cs" "length es = length cs"
    and c: "\<forall>i < length cs. (es ! i = EDropped) = col_dropped (cs ! i) \<and>
       (\<forall>c. es ! i = EDat c \<longrightarrow> z < c \<and> alive D s c \<and> d_ty (objs s c) = col_type (cs ! i))"
    using assms(1) unfolding cols_ok_def by blast
  have "\<forall>i < length cs. (es ! i = EDropped) = col_dropped (cs ! i) \<and>
       (\<forall>c. es ! i = EDat c \<longrightarrow> z < c \<and> alive D' u c \<and> d_ty (objs u c) = col_type (cs ! i))"
    using c by (simp add: assms(3))
  then show "\<exists>cs. d_ty (objs s z) = RRow cs \<and> length es = length cs \<and>
      (\<forall>i < length cs. (es ! i = EDropped) = col_dropped (cs ! i) \<and>
         (\<forall>c. es ! i = EDat c \<longrightarrow> z < c \<and> alive D' u c \<and> d_ty (objs u c) = col_type (cs ! i)))"
    using cs by blast
qed

lemma alloc_rinv:
  assumes inv: "rinv {} D s" and wt: "wt ty t"
    and u: "(y, u) = owned_datum ty t s"
  shows "rinv {} D u" "y = nobj s" "nobj u = Suc (nobj s)" "\<And>z. z < nobj s \<Longrightarrow> objs u z = objs s z"
    "d_ty (objs u y) = ty" "read_datum u y = t" "deformed (objs u y) = None" "d_val (objs u y) \<noteq> Val0"
    "datumref (objs u y) = None" "\<And>n z. alive D s z \<Longrightarrow> view n u z = view n s z"
proof -
  note D = rinvD [OF inv]
  let ?d = "\<lambda>v g. \<lparr>d_ty = ty, d_val = v, need_gc = g, modified = False, datumref = None, deformed = None, has_meta = True\<rparr>"
  have u2: "u = snd (owned_datum ty t s)" "y = fst (owned_datum ty t s)" by (simp_all flip: u)
  have cases: "ty = RByval \<and> (\<exists>a. t = TAtom a \<and> u = snd (pllua_newdatum ty (VWord a) s)) \<or>
    ty \<noteq> RByval \<and> objs u = (objs s)(nobj s := ?d (VPtr (nblk s) []) True) \<and> nobj u = Suc (nobj s) \<and>
      mem u = (mem s)(nblk s \<mapsto> t) \<and> nblk u = Suc (nblk s) \<and> uaf u = uaf s"
    using u2 wt by (cases ty; cases t) (simp_all add: owned_datum_def Let_def case_prod_beta)
  have y: "y = nobj s" using u2 by (cases ty; cases t) (simp_all add: owned_datum_def Let_def case_prod_beta)
  obtain v g where ou: "objs u = (objs s)(nobj s := ?d v g)" and fu: "nobj u = Suc (nobj s)" "\<not> uaf u"
    "nblk s \<le> nblk u" and mu: "\<forall>b < nblk s. mem u b = mem s b" "\<forall>b. nblk u \<le> b \<longrightarrow> mem u b = None"
    and rv: "read_val u v = t" "val_ok u (?d v g)" "v \<noteq> Val0"
    and vp: "\<forall>b p. v = VPtr b p \<longrightarrow> g \<and> nblk s \<le> b"
    using cases
  proof (elim disjE conjE exE)
    fix a assume "ty = RByval" "t = TAtom a" "u = snd (pllua_newdatum ty (VWord a) s)"
    then show ?thesis using that [of "VWord a" False] D(1,2) by (simp add: val_ok_def read_val_def)
  next
    assume *: "ty \<noteq> RByval" "objs u = (objs s)(nobj s := ?d (VPtr (nblk s) []) True)" "nobj u = Suc (nobj s)"
      "mem u = (mem s)(nblk s \<mapsto> t)" "nblk u = Suc (nblk s)" "uaf u = uaf s"
    have "read_val u (VPtr (nblk s) []) = t" using * by (simp add: read_val_def)
    then show ?thesis using that [of "VPtr (nblk s) []" True] D(1,2) * wt by (simp add: val_ok_def)
  qed
  show "y = nobj s" by (rule y)
  show "nobj u = Suc (nobj s)" by (rule fu(1))
  show old: "objs u z = objs s z" if "z < nobj s" for z using that ou by simp
  show "d_ty (objs u y) = ty" "read_datum u y = t" "deformed (objs u y) = None" "d_val (objs u y) \<noteq> Val0"
    "datumref (objs u y) = None"
    using rv by (simp_all add: y ou)
  show "view n u z = view n s z" if "alive D s z" for n z
    using mu(1) by (intro view_alloc [OF inv that old]) auto
  have aliveE: "alive D u z \<longleftrightarrow> alive D s z \<or> z = nobj s" for z
    using D(12) [of "nobj s"] by (auto simp: alive_def fu less_Suc_eq)
  have rd: "read_val u (d_val (objs s z)) = read_datum s z" if "alive D s z" for z
    using rinv_blk [OF inv that] mu(1) by (auto simp: read_val_def split: dval.splits)
  have ents: "in_entries u z i c \<longleftrightarrow> z \<noteq> nobj s \<and> in_entries s z i c" for z i c
    by (simp add: in_entries_def ou)
  have kid: "c < nobj s" if "alive D s z" "in_entries s z i c" for z i c
    using D(6) [OF that(1)] that(2) by (auto simp: cols_ok_def in_entries_def alive_def)
  show "rinv {} D u"
    unfolding rinv_def
  proof (intro conjI allI ballI impI)
    fix z assume z: "alive D u z"
    have "has_meta (objs u z) \<and> val_ok u (objs u z) \<and> ref_ok D u z \<and> cols_ok D u z \<and>
      (d_val (objs u z) \<noteq> Val0 \<longrightarrow> coherent u z)"
    proof (cases "z = nobj s")
      case True
      have "ref_ok D u (nobj s)" using vp by (auto simp: ref_ok_def ou)
      then show ?thesis using True rv by (simp add: ou cols_ok_def coherent_def)
    next
      case False
      then have az: "alive D s z" and oz: "objs u z = objs s z" using z aliveE old by (auto simp: alive_def)
      have "val_ok u (objs u z)"
        using D(4) [OF az] rd [OF az] rinv_blk [OF inv az] mu(1) unfolding oz
        by (cases "d_val (objs s z)") (auto simp: val_ok_def)
      moreover have "ref_ok D u z"
        unfolding ref_ok_def oz
      proof (intro conjI allI impI)
        fix w assume "datumref (objs s z) = Some w"
        then have w: "w < z" "alive D s w" "d_val (objs s w) \<noteq> Val0" "\<exists>i. in_entries s w i z"
          using D(5) [OF az] by (auto simp: ref_ok_def)
        then show "w < z" "alive D u w" "d_val (objs u w) \<noteq> Val0" "\<exists>i. in_entries u w i z"
          using old [of w] aliveE ents [of w] by (auto simp: alive_def)
      next
        fix b p assume "d_val (objs s z) = VPtr b p" "\<not> need_gc (objs s z)"
        then obtain w q i where "datumref (objs s z) = Some w" "d_val (objs s w) = VPtr b q" "p = q @ [i]" "alive D s w"
          using D(5) [OF az] unfolding ref_ok_def by metis
        then show "\<exists>w q i. datumref (objs s z) = Some w \<and> d_val (objs u w) = VPtr b q \<and> p = q @ [i]"
          using old [of w] by (auto simp: alive_def)
      qed
      moreover have "cols_ok D u z"
        using cols_ok_alloc [OF D(6) [OF az] oz, of D] fu(1) old by (simp add: alive_def)
      moreover have "coherent u z" if "d_val (objs u z) \<noteq> Val0"
      proof -
        have "objs u c = objs s c \<and> read_val u (d_val (objs s c)) = read_datum s c"
          if "deformed (objs s z) = Some es" "i < length es" "es ! i = EDat c" for es i c
        proof -
          have "in_entries s z i c" using that by (simp add: in_entries_def)
          moreover have "alive D s c" using D(6) [OF az] that by (auto simp: cols_ok_def)
          ultimately show ?thesis using kid [OF az] old rd by simp
        qed
        then show ?thesis
          using D(7) [OF az] that rd [OF az] unfolding coherent_def oz by (auto split: entry.splits)
      qed
      ultimately show ?thesis using D(3) [OF az] oz by simp
    qed
    then show "has_meta (objs u z)" "val_ok u (objs u z)" "ref_ok D u z" "cols_ok D u z"
      "d_val (objs u z) \<noteq> Val0 \<Longrightarrow> coherent u z" by blast+
  next
    fix z w b p q
    assume zw: "alive D u z" "alive D u w" "need_gc (objs u z)" "need_gc (objs u w)"
      "d_val (objs u z) = VPtr b p" "d_val (objs u w) = VPtr b q"
    have lo: "b < nblk s" if "alive D s v" "d_val (objs u v) = VPtr b r" for v r
      using rinv_blk [OF inv that(1)] that old [of v] by (simp add: alive_def)
    have hi: "nblk s \<le> b" if "v = nobj s" "d_val (objs u v) = VPtr b r" for v r
      using vp that by (simp add: ou)
    consider "alive D s z" "alive D s w" | "z = nobj s" "w = nobj s" | "alive D s z" "w = nobj s" | "z = nobj s" "alive D s w"
      using aliveE zw(1,2) by blast
    then show "z = w"
    proof cases
      case 1
      then have "objs u z = objs s z" "objs u w = objs s w" using old by (simp_all add: alive_def)
      then show ?thesis using D(10) [OF 1] zw by simp
    next
      case 3
      then show ?thesis using lo [OF 3(1) zw(5)] hi [OF 3(2) zw(6)] by simp
    next
      case 4
      then show ?thesis using lo [OF 4(2) zw(6)] hi [OF 4(1) zw(5)] by simp
    qed simp
  next
    fix z w c i j assume "alive D u z" "alive D u w" "in_entries u z i c" "in_entries u w j c"
    then show "z = w" "i = j" using D(11) aliveE unfolding ents by blast+
  qed (use fu mu D(12) in \<open>auto intro: less_SucI\<close>)
qed

subsection \<open>Assignments\<close>

lemma set_entry_rinv:
  assumes inv: "rinv {} D s" and x: "alive D s x" "d_val (objs s x) = Val0" "d_ty (objs s x) = RRow cs"
    and i: "i < length cs" "\<not> col_dropped (cs ! i)"
    and e: "e = ENil \<or> (\<exists>y. e = EDat y \<and> alive D s y \<and> x < y \<and> d_ty (objs s y) = col_type (cs ! i) \<and>
              (\<forall>z j. alive D s z \<longrightarrow> \<not> in_entries s z j y))"
    and u: "u = set_entry x i e s"
  shows "rinv {} D u"
proof -
  note D = rinvD [OF inv]
  obtain es where es: "deformed (objs s x) = Some es" "length es = length cs"
    using D(4) [OF x(1)] D(6) [OF x(1)] x(2,3) by (auto simp: val_ok_def cols_ok_def)
  have ou: "objs u = (objs s)(x := objs s x\<lparr>deformed := Some (es[i := e])\<rparr>)"
    and fu: "nobj u = nobj s" "mem u = mem s" "nblk u = nblk s" "uaf u = uaf s"
    by (simp_all add: u set_entry_def es(1))
  have al: "alive D u = alive D s" using fu(1) by (simp add: fun_eq_iff alive_def)
  have fld: "d_ty (objs u z) = d_ty (objs s z)" "d_val (objs u z) = d_val (objs s z)" "need_gc (objs u z) = need_gc (objs s z)"
    "modified (objs u z) = modified (objs s z)" "datumref (objs u z) = datumref (objs s z)" "has_meta (objs u z) = has_meta (objs s z)" for z
    by (simp_all add: ou)
  have rd: "read_val u v = read_val s v" for v using fu(2) by (rule same_mem)
  have ents: "in_entries u z j c \<longleftrightarrow> (if z = x \<and> j = i then e = EDat c else in_entries s z j c)" for z j c
    using es i(1) by (auto simp: in_entries_def ou nth_list_update)
  have oz: "objs u z = objs s z" if "z \<noteq> x" for z using that by (simp add: ou)
  show ?thesis
    unfolding rinv_def al
  proof (intro conjI allI ballI impI)
    fix z assume z: "alive D s z"
    show "has_meta (objs u z)" using D(3) [OF z] fld by simp
    show "val_ok u (objs u z)"
      using D(4) [OF z] x(2) es(1) oz [of z] by (cases "z = x"; cases "d_val (objs s z)") (auto simp: val_ok_def ou fu rd)
    show "ref_ok D u z"
      unfolding ref_ok_def fld al
    proof (intro conjI allI impI)
      fix w assume "datumref (objs s z) = Some w"
      then have w: "w < z" "alive D s w" "d_val (objs s w) \<noteq> Val0" "\<exists>i. in_entries s w i z"
        using D(5) [OF z] by (auto simp: ref_ok_def)
      then have "w \<noteq> x" using x(2) by auto
      then show "w < z" "alive D s w" "d_val (objs s w) \<noteq> Val0" "\<exists>i. in_entries u w i z"
        using w ents [of w] by auto
    next
      fix b p assume "d_val (objs s z) = VPtr b p" "\<not> need_gc (objs s z)"
      then show "\<exists>w q i. datumref (objs s z) = Some w \<and> d_val (objs s w) = VPtr b q \<and> p = q @ [i]"
        using D(5) [OF z] unfolding ref_ok_def by blast
    qed
    show "cols_ok D u z"
    proof (cases "z = x")
      case True
      have "(es[i := e] ! j = EDropped) = col_dropped (cs ! j) \<and>
          (\<forall>c. es[i := e] ! j = EDat c \<longrightarrow> x < c \<and> alive D s c \<and> d_ty (objs s c) = col_type (cs ! j))" if "j < length cs" for j
      proof (cases "j = i")
        case True
        then show ?thesis using e i es(2) by auto
      next
        case False
        then show ?thesis using D(6) [OF x(1)] es x(3) that by (auto simp: cols_ok_def)
      qed
      then show ?thesis using True x(3) es by (simp add: cols_ok_def fld al) (simp add: ou)
    next
      case False
      then show ?thesis using D(6) [OF z] oz by (simp add: cols_ok_def fld al)
    qed
    show "coherent u z" if "d_val (objs u z) \<noteq> Val0"
    proof -
      have zx: "z \<noteq> x" using that x(2) fld by auto
      have "coherent s z" using D(7) [OF z] that fld by simp
      then show ?thesis using oz [OF zx] unfolding coherent_def fld rd by simp
    qed
  next
    fix z w b p q
    assume "alive D s z" "alive D s w" "need_gc (objs u z)" "need_gc (objs u w)"
      "d_val (objs u z) = VPtr b p" "d_val (objs u w) = VPtr b q"
    then show "z = w" using D(10) fld by metis
  next
    fix z w c j k assume zw: "alive D s z" "alive D s w" "in_entries u z j c" "in_entries u w k c"
    have "z = w \<and> j = k"
    proof (cases "e = EDat c")
      case True
      then have "\<not> in_entries s v l c" if "alive D s v" for v l using e that by auto
      then show ?thesis using zw ents by (metis (full_types))
    next
      case False
      then have "in_entries s z j c" "in_entries s w k c" using zw(3,4) ents by (metis (full_types))+
      then show ?thesis using D(11) zw(1,2) by blast
    qed
    then show "z = w" "j = k" by simp_all
  qed (use fu D(1,2,12) in auto)
qed

text \<open>The contents of an array that no row that is not modified refers to.\<close>

lemma array_write_rinv:
  assumes inv: "rinv {} D s" and x: "alive D s x" "need_gc (objs s x)" "d_val (objs s x) = VPtr b p" "datumref (objs s x) = None"
    and nr: "\<not> is_row (d_ty (objs s x))"
    and u: "u = s\<lparr>mem := (mem s)(b \<mapsto> TAtom a)\<rparr>"
  shows "rinv {} D u"
proof -
  note D = rinvD [OF inv]
  have p: "p = []" using D(4) [OF x(1)] x(2,3) by (auto simp: val_ok_def)
  have nd: "deformed (objs s x) = None"
    using D(6) [OF x(1)] nr by (cases "deformed (objs s x)") (auto simp: cols_ok_def)
  have priv: "d_val (objs s z) \<noteq> VPtr b q" if "alive D s z" "z \<noteq> x" for z q
    using block_private [OF inv x(1-3) _ that] no_children [OF nd] by blast
  have rd: "read_val u (d_val (objs s z)) = (if z = x then TAtom a else read_datum s z)" if "alive D s z" for z
    using priv [OF that] x(3) p by (cases "z = x") (auto simp: u read_val_def split: dval.splits)
  have ents: "in_entries u z i c = in_entries s z i c" for z i c by (simp add: u in_entries_def)
  have al: "alive D u = alive D s" by (simp add: fun_eq_iff alive_def u)
  have ou: "objs u = objs s" by (simp add: u)
  have blk: "b < nblk s" using rinv_blk [OF inv x(1,3)] by simp
  show ?thesis
    unfolding rinv_def al ou ents
  proof (intro conjI allI ballI impI)
    fix z assume z: "alive D s z"
    show "has_meta (objs s z)" by (rule D(3) [OF z])
    show "val_ok u (objs s z)"
    proof (cases "z = x")
      case True
      have "d_ty (objs s x) \<noteq> RByval" using D(4) [OF x(1)] x(3) by (simp add: val_ok_def)
      then have "wt (d_ty (objs s x)) (TAtom a)" using nr by (cases "d_ty (objs s x)") auto
      then show ?thesis using True D(4) [OF x(1)] rd [OF x(1)] x(3) p by (auto simp: val_ok_def u)
    next
      case False
      then show ?thesis using D(4) [OF z] rd [OF z]
        by (cases "d_val (objs s z)") (auto simp: val_ok_def u)
    qed
    show "ref_ok D u z" using D(5) [OF z] unfolding ref_ok_def al ou ents .
    show "cols_ok D u z" using D(6) [OF z] unfolding cols_ok_def al ou .
    show "coherent u z" if "d_val (objs s z) \<noteq> Val0"
    proof (cases "deformed (objs s z)")
      case (Some es)
      then have zx: "z \<noteq> x" using nd by auto
      have "read_val u (d_val (objs s c)) = read_datum s c" if "i < length es" "es ! i = EDat c" for i c
      proof -
        have "datumref (objs s c) = Some z"
          using D(7) [OF z _ \<open>d_val (objs s z) \<noteq> Val0\<close>] Some that unfolding coherent_def by fastforce
        then have "c \<noteq> x" using x(4) by auto
        moreover have "alive D s c" using D(6) [OF z] Some that by (auto simp: cols_ok_def)
        ultimately show ?thesis using rd by simp
      qed
      then show ?thesis
        using D(7) [OF z _ that] rd [OF z] zx Some unfolding coherent_def ou by (auto split: entry.splits)
    qed (simp add: coherent_def ou)
  next
    show "z = w" if "alive D s z" "alive D s w" "need_gc (objs s z)" "need_gc (objs s w)"
      "d_val (objs s z) = VPtr b' q" "d_val (objs s w) = VPtr b' q'" for z w b' q q'
      by (rule D(10) [OF that])
    show "z = w" if "alive D s z" "alive D s w" "in_entries s z i c" "in_entries s w j c" for z w c i j
      using D(11) [OF that] by simp
    show "i = j" if "alive D s z" "alive D s w" "in_entries s z i c" "in_entries s w j c" for z w c i j
      using D(11) [OF that] by simp
  qed (use D(1,2,12) blk in \<open>auto simp: u\<close>)
qed

subsection \<open>Collection\<close>

lemma gc_simps:
  "objs (pllua_datum_gc x s) = (if need_gc (objs s x) \<and> d_val (objs s x) \<noteq> Val0
     then (objs s)(x := objs s x\<lparr>need_gc := False, has_meta := False\<rparr>) else objs s)"
  "nobj (pllua_datum_gc x s) = nobj s" "nblk (pllua_datum_gc x s) = nblk s"
  "mem (pllua_datum_gc x s) = (case d_val (objs s x) of VPtr b p \<Rightarrow> if need_gc (objs s x) then (mem s)(b := None) else mem s | _ \<Rightarrow> mem s)"
  "uaf (pllua_datum_gc x s) = (uaf s \<or> (case d_val (objs s x) of VPtr b p \<Rightarrow> need_gc (objs s x) \<and> mem s b = None | _ \<Rightarrow> False))"
  by (auto simp: pllua_datum_gc_def free_block_def split: dval.splits)

text \<open>The objects \<open>gs\<close> own their blocks; what finalizing them does.\<close>

definition owners_ok :: "nat list \<Rightarrow> 'a rowst \<Rightarrow> bool" where
  "owners_ok gs s \<longleftrightarrow>
     (\<forall>g b p. g \<in> set gs \<longrightarrow> need_gc (objs s g) \<longrightarrow> d_val (objs s g) = VPtr b p \<longrightarrow> mem s b \<noteq> None) \<and>
     (\<forall>g h b p q. g \<in> set gs \<longrightarrow> h \<in> set gs \<longrightarrow> need_gc (objs s g) \<longrightarrow> need_gc (objs s h) \<longrightarrow>
          d_val (objs s g) = VPtr b p \<longrightarrow> d_val (objs s h) = VPtr b q \<longrightarrow> g = h)"

lemma owners_okD:
  assumes "owners_ok gs s" "g \<in> set gs" "need_gc (objs s g)" "d_val (objs s g) = VPtr b p"
  shows "mem s b \<noteq> None" "h \<in> set gs \<Longrightarrow> need_gc (objs s h) \<Longrightarrow> d_val (objs s h) = VPtr b q \<Longrightarrow> g = h"
  using assms unfolding owners_ok_def by blast+

lemma fold_gc:
  assumes "distinct gs" "\<not> uaf s" "owners_ok gs s"
  shows "(\<forall>z. z \<notin> set gs \<longrightarrow> objs (fold pllua_datum_gc gs s) z = objs s z) \<and>
    nobj (fold pllua_datum_gc gs s) = nobj s \<and> nblk (fold pllua_datum_gc gs s) = nblk s \<and>
    \<not> uaf (fold pllua_datum_gc gs s) \<and>
    (\<forall>b. mem (fold pllua_datum_gc gs s) b =
       (if \<exists>g p. g \<in> set gs \<and> need_gc (objs s g) \<and> d_val (objs s g) = VPtr b p then None else mem s b)) \<and>
    (\<forall>z \<in> set gs. has_meta (objs (fold pllua_datum_gc gs s) z) = (has_meta (objs s z) \<and> \<not> (need_gc (objs s z) \<and> d_val (objs s z) \<noteq> Val0)) \<and>
       d_val (objs (fold pllua_datum_gc gs s) z) = d_val (objs s z))"
  using assms
proof (induction gs arbitrary: s)
  case (Cons g gs)
  let ?t = "pllua_datum_gc g s"
  have oth: "objs ?t z = objs s z" if "z \<noteq> g" for z using that by (simp add: gc_simps)
  have g: "g \<notin> set gs" using Cons.prems(1) by simp
  have mt: "mem ?t b = (if need_gc (objs s g) \<and> (\<exists>p. d_val (objs s g) = VPtr b p) then None else mem s b)" for b
    by (auto simp: gc_simps split: dval.splits)
  have ut: "\<not> uaf ?t" using Cons.prems(2) owners_okD(1) [OF Cons.prems(3), of g] by (auto simp: gc_simps split: dval.splits)
  have IH: "(\<forall>z. z \<notin> set gs \<longrightarrow> objs (fold pllua_datum_gc gs ?t) z = objs ?t z) \<and>
    nobj (fold pllua_datum_gc gs ?t) = nobj ?t \<and> nblk (fold pllua_datum_gc gs ?t) = nblk ?t \<and>
    \<not> uaf (fold pllua_datum_gc gs ?t) \<and>
    (\<forall>b. mem (fold pllua_datum_gc gs ?t) b =
       (if \<exists>g p. g \<in> set gs \<and> need_gc (objs ?t g) \<and> d_val (objs ?t g) = VPtr b p then None else mem ?t b)) \<and>
    (\<forall>z \<in> set gs. has_meta (objs (fold pllua_datum_gc gs ?t) z) = (has_meta (objs ?t z) \<and> \<not> (need_gc (objs ?t z) \<and> d_val (objs ?t z) \<noteq> Val0)) \<and>
       d_val (objs (fold pllua_datum_gc gs ?t) z) = d_val (objs ?t z))"
  proof (rule Cons.IH)
    show "distinct gs" using Cons.prems(1) by simp
    show "\<not> uaf ?t" by (rule ut)
    have hs: "h \<noteq> g" "objs ?t h = objs s h" if "h \<in> set gs" for h
      using that g oth [of h] by (cases "h = g"; simp)+
    show "owners_ok gs ?t"
      unfolding owners_ok_def
    proof (intro conjI allI impI)
      fix h b p assume "h \<in> set gs" "need_gc (objs ?t h)" "d_val (objs ?t h) = VPtr b p"
      then show "mem ?t b \<noteq> None"
        using owners_okD [OF Cons.prems(3), of h b p] hs [of h] by (auto simp: mt)
    next
      fix h k b p q assume "h \<in> set gs" "k \<in> set gs" "need_gc (objs ?t h)" "need_gc (objs ?t k)"
        "d_val (objs ?t h) = VPtr b p" "d_val (objs ?t k) = VPtr b q"
      then show "h = k" using owners_okD(2) [OF Cons.prems(3), of h b p k q] hs [of h] hs [of k] by simp
    qed
  qed
  have ot: "objs ?t z = objs s z" if "z \<in> set gs" for z using oth [of z] g that by (cases "z = g") simp_all
  have "mem (fold pllua_datum_gc gs ?t) b =
    (if \<exists>h p. h \<in> set (g # gs) \<and> need_gc (objs s h) \<and> d_val (objs s h) = VPtr b p then None else mem s b)" for b
    using IH ot by (auto simp: mt)
  moreover have "has_meta (objs ?t g) = (has_meta (objs s g) \<and> \<not> (need_gc (objs s g) \<and> d_val (objs s g) \<noteq> Val0)) \<and>
    d_val (objs ?t g) = d_val (objs s g)" by (simp add: gc_simps)
  ultimately show ?case using IH ot oth g by (simp add: gc_simps(2,3))
qed simp

text \<open>\<open>gs\<close> may be collected if nothing outside refers to it.\<close>

definition collectable :: "nat set \<Rightarrow> nat list \<Rightarrow> 'a rowst \<Rightarrow> bool" where
  "collectable D gs s \<longleftrightarrow>
     distinct gs \<and> list_all (alive D s) gs \<and>
     list_all (\<lambda>z. z \<in> D \<or> z \<in> set gs \<or>
       (case datumref (objs s z) of None \<Rightarrow> True | Some y \<Rightarrow> y \<notin> set gs) \<and>
       list_all (\<lambda>y. y \<notin> set gs) (dats (entries s z))) [0..<nobj s]"

lemma collectableD:
  assumes "collectable D gs s"
  shows "distinct gs" "\<And>g. g \<in> set gs \<Longrightarrow> alive D s g"
    "\<And>z y. alive D s z \<Longrightarrow> z \<notin> set gs \<Longrightarrow> datumref (objs s z) = Some y \<Longrightarrow> y \<notin> set gs"
    "\<And>z i y. alive D s z \<Longrightarrow> z \<notin> set gs \<Longrightarrow> in_entries s z i y \<Longrightarrow> y \<notin> set gs"
proof -
  note * = assms [unfolded collectable_def list_all_iff]
  show "distinct gs" using * by simp
  show "alive D s g" if "g \<in> set gs" for g using * that by simp
  have z: "(case datumref (objs s z) of None \<Rightarrow> True | Some y \<Rightarrow> y \<notin> set gs) \<and> (\<forall>y \<in> set (dats (entries s z)). y \<notin> set gs)"
    if "alive D s z" "z \<notin> set gs" for z
  proof -
    have "z \<in> set [0..<nobj s]" "z \<notin> D" using that(1) by (simp_all add: alive_def)
    then show ?thesis using * that(2) by blast
  qed
  show "y \<notin> set gs" if "alive D s z" "z \<notin> set gs" "datumref (objs s z) = Some y" for z y
    using z [OF that(1,2)] that(3) by simp
  show "y \<notin> set gs" if a: "alive D s z" "z \<notin> set gs" and e: "in_entries s z i y" for z i y
    using z [OF a] in_entries_dats [of s z y] e by blast
qed

text \<open>The owner of the storage that an object points into.\<close>

lemma has_owner:
  assumes inv: "rinv {} D s" and c: "collectable D gs s"
    and "alive D s z" "z \<notin> set gs" "d_val (objs s z) = VPtr b p"
  shows "\<exists>w q. alive D s w \<and> w \<notin> set gs \<and> need_gc (objs s w) \<and> d_val (objs s w) = VPtr b q"
  using assms(3-)
proof (induction z arbitrary: p rule: less_induct)
  case (less z)
  show ?case
  proof (cases "need_gc (objs s z)")
    case False
    then obtain y q i where y: "datumref (objs s z) = Some y" "d_val (objs s y) = VPtr b q" "y < z" "alive D s y"
      using rinvD(5) [OF inv less.prems(1)] less.prems(3) unfolding ref_ok_def by metis
    then show ?thesis using less.IH [OF y(3,4)] collectableD(3) [OF c less.prems(1,2) y(1)] by blast
  qed (use less.prems in blast)
qed

lemma collect_rinv:
  assumes inv: "rinv {} D s" and c: "collectable D gs s" and u: "u = fold pllua_datum_gc gs s"
  shows "rinv {} (D \<union> set gs) u" "\<And>n z. alive (D \<union> set gs) u z \<Longrightarrow> view n u z = view n s z"
    "\<And>z. alive (D \<union> set gs) u z \<Longrightarrow> alive D s z \<and> objs u z = objs s z"
proof -
  note D = rinvD [OF inv] and C = collectableD [OF c]
  have own: "owners_ok gs s"
    using rinv_blk [OF inv C(2)] D(10) [OF C(2) C(2)] unfolding owners_ok_def by blast
  have fg: "\<forall>z. z \<notin> set gs \<longrightarrow> objs u z = objs s z" "nobj u = nobj s" "nblk u = nblk s" "\<not> uaf u"
    "\<forall>b. mem u b = (if \<exists>g p. g \<in> set gs \<and> need_gc (objs s g) \<and> d_val (objs s g) = VPtr b p then None else mem s b)"
    using fold_gc [OF C(1) D(1) own] unfolding u by blast+
  show al: "alive D s z \<and> objs u z = objs s z" if "alive (D \<union> set gs) u z" for z
    using that fg(1,2) by (simp add: alive_def)
  have alI: "alive (D \<union> set gs) u z" if "alive D s z" "z \<notin> set gs" for z using that fg(2) by (simp add: alive_def)
  have ng: "z \<notin> set gs" if "alive (D \<union> set gs) u z" for z using that by (simp add: alive_def)
  have keep: "mem u b = mem s b" if z: "alive (D \<union> set gs) u z" "d_val (objs s z) = VPtr b p" for z b p
  proof -
    obtain w q where w: "alive D s w" "w \<notin> set gs" "need_gc (objs s w)" "d_val (objs s w) = VPtr b q"
      using has_owner [OF inv c _ ng [OF z(1)] z(2)] al [OF z(1)] by blast
    have "\<not> (\<exists>g p. g \<in> set gs \<and> need_gc (objs s g) \<and> d_val (objs s g) = VPtr b p)"
      using D(10) [OF w(1) C(2) w(3) _ w(4)] w(2) by blast
    then show ?thesis by (subst fg(5) [rule_format]) (simp only: if_False)
  qed
  have rd: "read_val u (d_val (objs s z)) = read_datum s z" if "alive (D \<union> set gs) u z" for z
    using keep [OF that] by (auto simp: read_val_def split: dval.splits)
  have ents: "in_entries u z i y = in_entries s z i y" if "alive (D \<union> set gs) u z" for z i y
    using al [OF that] by (simp add: in_entries_def)
  have kid: "alive (D \<union> set gs) u y" if "alive (D \<union> set gs) u z" "in_entries s z i y" for z i y
  proof -
    have "alive D s y" using D(6) al [OF that(1)] that(2) by (fastforce simp: cols_ok_def in_entries_def)
    then show ?thesis using alI C(4) [OF _ ng [OF that(1)] that(2)] al [OF that(1)] by blast
  qed
  show rinv: "rinv {} (D \<union> set gs) u"
    unfolding rinv_def
  proof (intro conjI allI ballI impI)
    fix z assume z: "alive (D \<union> set gs) u z"
    then have az: "alive D s z" and oz: "objs u z = objs s z" using al by blast+
    show "has_meta (objs u z)" using D(3) [OF az] oz by simp
    show "val_ok u (objs u z)"
      using D(4) [OF az] rd [OF z] keep [OF z] unfolding oz by (cases "d_val (objs s z)") (auto simp: val_ok_def)
    show "ref_ok (D \<union> set gs) u z"
      unfolding ref_ok_def oz
    proof (intro conjI allI impI)
      fix w assume r: "datumref (objs s z) = Some w"
      then have w: "w < z" "alive D s w" "d_val (objs s w) \<noteq> Val0" "\<exists>i. in_entries s w i z"
        using D(5) [OF az] by (auto simp: ref_ok_def)
      have aw: "alive (D \<union> set gs) u w" using alI [OF w(2)] C(3) [OF az ng [OF z] r] by blast
      then show "w < z" "alive (D \<union> set gs) u w" "d_val (objs u w) \<noteq> Val0" "\<exists>i. in_entries u w i z"
        using w al [OF aw] ents [OF aw] by simp_all
    next
      fix b p assume "d_val (objs s z) = VPtr b p" "\<not> need_gc (objs s z)"
      then obtain w q i where w: "datumref (objs s z) = Some w" "d_val (objs s w) = VPtr b q" "p = q @ [i]"
        using D(5) [OF az] unfolding ref_ok_def by blast
      then have "objs u w = objs s w" using fg(1) C(3) [OF az ng [OF z]] by blast
      then show "\<exists>w q i. datumref (objs s z) = Some w \<and> d_val (objs u w) = VPtr b q \<and> p = q @ [i]"
        using w by auto
    qed
    show "cols_ok (D \<union> set gs) u z"
    proof -
      have "alive (D \<union> set gs) u y \<and> objs u y = objs s y" if "deformed (objs s z) = Some es" "i < length es" "es ! i = EDat y" for es i y
        using kid [OF z, of i y] al that by (auto simp: in_entries_def)
      then show ?thesis using D(6) [OF az] unfolding cols_ok_def oz by metis
    qed
    show "coherent u z" if nz: "d_val (objs u z) \<noteq> Val0"
    proof -
      have "objs u y = objs s y \<and> read_val u (d_val (objs s y)) = read_datum s y"
        if "deformed (objs s z) = Some es" "i < length es" "es ! i = EDat y" for es i y
        using kid [OF z, of i y] al rd that by (auto simp: in_entries_def)
      then show ?thesis
        using D(7) [OF az] nz rd [OF z] unfolding coherent_def oz by (auto split: entry.splits)
    qed
  next
    fix z w b p q
    assume "alive (D \<union> set gs) u z" "alive (D \<union> set gs) u w" "need_gc (objs u z)" "need_gc (objs u w)"
      "d_val (objs u z) = VPtr b p" "d_val (objs u w) = VPtr b q"
    then show "z = w" using D(10) al by metis
  next
    fix z w y i j assume "alive (D \<union> set gs) u z" "alive (D \<union> set gs) u w" "in_entries u z i y" "in_entries u w j y"
    then have "z = w \<and> i = j" using D(11) al ents by metis
    then show "z = w" "i = j" by simp_all
  qed (use fg D(2,12) C(2) in \<open>auto simp: alive_def\<close>)
  show "view n u z = view n s z" if "alive (D \<union> set gs) u z" for n z
    using that
  proof (induction n arbitrary: z)
    case (Suc n)
    have "view n u y = view n s y" if "deformed (objs s z) = Some es" "EDat y \<in> set es" for es y
      using that Suc.IH kid [OF Suc.prems] by (auto simp: in_entries_def in_set_conv_nth)
    then show ?case
      using al [OF Suc.prems] rd [OF Suc.prems] by (auto split: option.splits entry.splits)
  qed simp
qed

end
