(* ===== verification/Datum_Row_Run.thy ===== *)
theory Datum_Row_Run
  imports Datum_Row_Ops
begin

text \<open>
  The operations of Lua code on row objects (Datum_Row): access to columns, assignment to columns
  and to elements of arrays; any sequence of them, with collections in between, keeps the
  invariant of Datum_Row_Inv.
\<close>

subsection \<open>Access and assignment\<close>

lemma touch_id: "rinv X D s \<Longrightarrow> alive D s x \<Longrightarrow> touch x s = s"
  using rinvD(1) [of X D s] rinv_blk [of X D s x] by (auto simp: touch_def live_val_def split: dval.splits)

lemma attr_lookup_ok:
  "attr_lookup cs i n = Some j \<Longrightarrow> i \<le> j \<and> j < i + int (length cs) \<and> \<not> col_dropped (cs ! nat (j - i))"
proof (induction cs arbitrary: i)
  case (Cons c cs)
  show ?case
  proof (cases "attr_lookup cs (i + 1) n")
    case None
    then show ?thesis using Cons.prems by (auto split: if_splits)
  next
    case (Some k)
    then have "k = j" "i + 1 \<le> j" "j < i + 1 + int (length cs)" "\<not> col_dropped (cs ! nat (j - (i + 1)))"
      using Cons by auto
    moreover from this have "nat (j - i) = Suc (nat (j - (i + 1)))" by simp
    ultimately show ?thesis by simp
  qed
qed simp

lemma row_attno_ok: "row_attno ty k = Inr i \<Longrightarrow> i < length (cols_of ty) \<and> \<not> col_dropped (cols_of ty ! i)"
  by (auto simp: row_attno_def bindR_eq_Inr split: if_splits)

lemma index_rinv:
  assumes inv: "rinv {} D s" and x: "alive D s x" and r: "pllua_datum_row_index ext x k s = (r, u)"
  shows "rinv {} D u" "prog {} D s u"
    "r = Inr (Some y) \<Longrightarrow> \<exists>i. row_attno (d_ty (objs s x)) k = Inr i \<and> in_entries u x i y"
proof -
  have "rinv {} D u \<and> prog {} D s u \<and> (r = Inr (Some y) \<longrightarrow> (\<exists>i. row_attno (d_ty (objs s x)) k = Inr i \<and> in_entries u x i y))"
  proof (cases "is_row (d_ty (objs s x)) \<and> k \<noteq> KElse \<and> (\<exists>i. row_attno (d_ty (objs s x)) k = Inr i)")
    case False
    then show ?thesis
      using r inv by (auto simp: pllua_datum_row_index_def prog_refl split: key.splits sum.splits if_splits)
  next
    case True
    then obtain i where i: "row_attno (d_ty (objs s x)) k = Inr i" by blast
    let ?s = "pllua_datum_deform_tuple ext x s"
    note d = deform_any [OF inv x _ refl, of ext]
    have d: "rinv {} D ?s" "prog {} D s ?s" "deformed (objs ?s x) \<noteq> None" using d True by blast+
    have ax: "alive D ?s x" by (rule prog_alive [OF d(2) x])
    have u: "u = ?s" and ry: "r = pllua_datum_column x i ?s"
    proof -
      have "u = ?s \<and> r = pllua_datum_column x i ?s"
      proof (cases "pllua_datum_column x i ?s")
        case (Inr yo)
        show ?thesis
        proof (cases yo)
          case (Some z)
          then have "entries ?s x ! i = EDat z" using Inr by (auto simp: pllua_datum_column_def split: entry.splits)
          moreover have "i < length (entries ?s x)"
            using rinvD(6) [OF d(1) ax] row_attno_ok [OF i] d(3) progD(2) [OF d(2), of x] x
            by (auto simp: cols_ok_def entries_def alive_def)
          ultimately have "in_entries ?s x i z" using d(3) by (auto simp: in_entries_def entries_def)
          then have "alive D ?s z" by (rule child_size(2) [OF d(1) ax])
          then have "touch z ?s = ?s" by (rule touch_id [OF d(1)])
          then show ?thesis using r True i Inr Some
            by (cases k) (auto simp: pllua_datum_row_index_def Let_def split: if_splits)
        qed (use r True i Inr in \<open>cases k; auto simp: pllua_datum_row_index_def Let_def\<close>)
      qed (use r True i in \<open>cases k; auto simp: pllua_datum_row_index_def Let_def\<close>)
      then show "u = ?s" "r = pllua_datum_column x i ?s" by blast+
    qed
    have "in_entries ?s x i y" if "r = Inr (Some y)"
    proof -
      have "entries ?s x ! i = EDat y" using that ry by (auto simp: pllua_datum_column_def split: entry.splits)
      moreover have "i < length (entries ?s x)"
        using rinvD(6) [OF d(1) ax] row_attno_ok [OF i] d(3) progD(2) [OF d(2), of x] x
        by (auto simp: cols_ok_def entries_def alive_def)
      ultimately show ?thesis using d(3) by (auto simp: in_entries_def entries_def)
    qed
    then show ?thesis using u d i by blast
  qed
  then show "rinv {} D u" "prog {} D s u"
    "r = Inr (Some y) \<Longrightarrow> \<exists>i. row_attno (d_ty (objs s x)) k = Inr i \<and> in_entries u x i y" by blast+
qed

text \<open>The constructors give values of their type.\<close>

definition conv_ok :: "(rty \<Rightarrow> 'v \<Rightarrow> string + 'a tree) \<Rightarrow> bool" where
  "conv_ok conv \<longleftrightarrow> (\<forall>ty v t. conv ty v = Inr t \<longrightarrow> t = TNull \<or> wt ty t)"

text \<open>An assignment explodes the row, makes an object for the value, and enters it.\<close>

lemma newindex_cases:
  assumes inv: "rinv {} D s" and x: "alive D s x" and c: "conv_ok conv"
    and r: "pllua_datum_row_newindex ext conv x k v s = (r, w)"
  obtains (error) e where "r = Inl e" "rinv {} D w"
  | (ok) i t u u2 e where "r = Inr ()" "row_attno (d_ty (objs s x)) k = Inr i" "is_row (d_ty (objs s x))"
      "conv (col_type (cols_of (d_ty (objs s x)) ! i)) v = Inr t"
      "u = pllua_datum_explode_tuple ext x s" "rinv {} D u2" "rinv {} D w" "w = set_entry x i e u2"
      "prog {} D u u2" "alive D u2 x" "d_val (objs u2 x) = Val0" "d_ty (objs u2 x) = d_ty (objs s x)"
      "t = TNull \<and> e = ENil \<or>
         (\<exists>y. e = EDat y \<and> alive D u2 y \<and> deformed (objs u2 y) = None \<and> read_datum u2 y = t \<and>
            (\<forall>z j. alive D u2 z \<longrightarrow> \<not> in_entries u2 z j y) \<and> x < y)"
proof (cases "is_row (d_ty (objs s x)) \<and> (\<exists>i. row_attno (d_ty (objs s x)) k = Inr i)")
  case False
  then show ?thesis using r inv error by (auto simp: pllua_datum_row_newindex_def split: sum.splits if_splits)
next
  case True
  then obtain i cs where i: "row_attno (d_ty (objs s x)) k = Inr i" and cs: "d_ty (objs s x) = RRow cs"
    by (cases "d_ty (objs s x)") auto
  have icol: "i < length cs" "\<not> col_dropped (cs ! i)" using row_attno_ok [OF i] cs by simp_all
  let ?u = "pllua_datum_explode_tuple ext x s"
  have row: "is_row (d_ty (objs s x))" using True by blast
  note e = explode_tuple_rinv [OF inv x row refl, of ext]
  have xn: "x < nobj s" using x by (simp add: alive_def)
  have xu: "alive D ?u x" "d_ty (objs ?u x) = RRow cs"
    using prog_alive [OF e(2) x] progD(2) [OF e(2) xn] cs by simp_all
  show ?thesis
  proof (cases "conv (col_type (cs ! i)) v")
    case (Inl m)
    then have "r = Inl m" "w = ?u" using r True i cs by (auto simp: pllua_datum_row_newindex_def Let_def)
    then show ?thesis using error e(1) by blast
  next
    case (Inr t)
    show ?thesis
    proof (cases "t = TNull")
      case tn: True
      then have w: "r = Inr ()" "w = set_entry x i ENil ?u" using r row i cs Inr by (auto simp: pllua_datum_row_newindex_def Let_def)
      have "rinv {} D w" by (rule set_entry_rinv [OF e(1) xu(1) e(3) xu(2) icol _ w(2)]) simp
      then show ?thesis using ok [OF w(1) i row _ refl e(1) _ w(2)] Inr cs xu e(3) tn prog_refl by auto
    next
      case False
      obtain y u2 where y: "(y, u2) = owned_datum (col_type (cs ! i)) t ?u" by (cases "owned_datum (col_type (cs ! i)) t ?u") auto
      have wt: "wt (col_type (cs ! i)) t" using c Inr False unfolding conv_ok_def by blast
      note a = alloc_rinv [OF e(1) wt y]
      have w: "r = Inr ()" "w = set_entry x i (EDat y) u2"
        using r row i cs Inr False y by (cases t; auto simp: pllua_datum_row_newindex_def Let_def split: prod.splits)+
      have xn': "x < nobj ?u" using xu(1) by (simp add: alive_def)
      have ou: "objs u2 x = objs ?u x" by (rule a(4) [OF xn'])
      have ay: "alive D u2 y" using a(2,3) rinvD(12) [OF e(1), of y] by (auto simp: alive_def)
      have ax: "alive D u2 x" using xu(1) a(3) by (simp add: alive_def)
      have fresh: "\<not> in_entries u2 z j y" if z: "alive D u2 z" for z j
      proof (cases "z = y")
        case True
        then show ?thesis using a(7) by (simp add: in_entries_def)
      next
        case zy: False
        then have zn: "z < nobj ?u" "alive D ?u z" using z a(2,3) by (auto simp: alive_def)
        show ?thesis
        proof
          assume "in_entries u2 z j y"
          then have "in_entries ?u z j y" using a(4) [OF zn(1)] by (simp add: in_entries_def)
          then show False using child_size(2) [OF e(1) zn(2)] a(2) by (auto simp: alive_def)
        qed
      qed
      have pr: "prog {} D ?u u2"
        using a(3,4,10) by (auto simp: prog_def in_entries_def)
      have "rinv {} D w"
        using ay a(5) fresh xn' a(2) ou e(3) xu(2)
        by (intro set_entry_rinv [OF a(1) ax _ _ icol _ w(2)]) auto
      then show ?thesis
        using ok [OF w(1) i row _ refl a(1) _ w(2) pr ax] Inr cs ou e(3) xu(2) False ay a(2,6,7) fresh xn' by auto
    qed
  qed
qed


text \<open>Assignment to an element of an array.\<close>

lemma array_value_rinv:
  assumes inv: "rinv {} D s" and x: "alive D s x" "d_ty (objs s x) = RArray" and u: "u = pllua_datum_array_value x s"
  shows "rinv {} D u" "prog {} D s u" "need_gc (objs u x)" "datumref (objs u x) = datumref (objs s x)"
    "read_datum u x = read_datum s x"
proof -
  have nr: "deformed (objs s x) = None"
    using rinvD(6) [OF inv x(1)] x(2) by (cases "deformed (objs s x)") (auto simp: cols_ok_def)
  have nv: "d_val (objs s x) \<noteq> Val0" using rinvD(4) [OF inv x(1)] nr by (auto simp: val_ok_def)
  have "rinv {} D u \<and> prog {} D s u \<and> need_gc (objs u x) \<and> datumref (objs u x) = datumref (objs s x) \<and>
    read_datum u x = read_datum s x"
  proof (cases "need_gc (objs s x)")
    case True
    then show ?thesis using inv by (simp add: u pllua_datum_array_value_def prog_refl)
  next
    case False
    then have "u = pllua_datum_array_value x s" "u = pllua_savedatum x s" by (simp_all add: u pllua_datum_array_value_def)
    note sv = savedatum_rinv [OF inv x(1) False nv nr this(2)]
    have "datumref (objs u x) = datumref (objs s x)" using arg_cong [OF sv(4), of datumref] by simp
    then show ?thesis using sv(1,2,3,7) x(2) by simp
  qed
  then show "rinv {} D u" "prog {} D s u" "need_gc (objs u x)" "datumref (objs u x) = datumref (objs s x)"
    "read_datum u x = read_datum s x" by blast+
qed

lemma parent_exploded:
  assumes "rinv {} D u" "prog {} D s u" "alive D u x" "datumref (objs s x) = Some r" "ref_ok D s x" "alive D s x"
    and "d_val (objs u r) = Val0"
  shows "datumref (objs u x) = None"
proof (rule ccontr)
  assume "datumref (objs u x) \<noteq> None"
  then obtain y where y: "datumref (objs u x) = Some y" by blast
  then obtain j where j: "alive D u y" "d_val (objs u y) \<noteq> Val0" "in_entries u y j x"
    using rinvD(5) [OF assms(1,3)] by (auto simp: ref_ok_def)
  obtain i where i: "alive D s r" "in_entries s r i x" using assms(4,5) by (auto simp: ref_ok_def)
  have rn: "r < nobj s" using i(1) by (simp add: alive_def)
  have "in_entries u r i x" using i(2) progD(3) [OF assms(2) rn] by (auto simp: in_entries_def)
  then have "r = y" using rinvD(11) [OF assms(1) prog_alive [OF assms(2) i(1)] j(1) _ j(3)] by blast
  then show False using j(2) assms(7) by simp
qed

lemma array_assign_rinv:
  assumes inv: "rinv {} D s" and x: "alive D s x" "d_ty (objs s x) = RArray" and w: "w = array_assign ext x f s"
  obtains u b p a where "rinv {} D u" "rinv {} D w" "prog {} D s u" "alive D u x" "d_val (objs u x) = VPtr b p"
    "read_datum u x = TAtom a" "need_gc (objs u x)" "datumref (objs u x) = None" "w = u\<lparr>mem := (mem u)(b \<mapsto> TAtom (f a))\<rparr>"
    "d_ty (objs u x) = RArray"
proof -
  let ?t = "case datumref (objs s x) of None \<Rightarrow> s | Some r \<Rightarrow> pllua_datum_explode_tuple ext r s"
  have t: "rinv {} D ?t \<and> prog {} D s ?t \<and> datumref (objs ?t x) = None"
  proof (cases "datumref (objs s x)")
    case None
    then show ?thesis using inv by (simp add: prog_refl)
  next
    case (Some r)
    then obtain i where r: "alive D s r" "in_entries s r i x" using rinvD(5) [OF inv x(1)] by (auto simp: ref_ok_def)
    have "is_row (d_ty (objs s r))" using rinvD(6) [OF inv r(1)] r(2) by (auto simp: cols_ok_def in_entries_def)
    note e = explode_tuple_rinv [OF inv r(1) this refl, of ext]
    show ?thesis
      using e(1,2) parent_exploded [OF e(1,2) prog_alive [OF e(2) x(1)] Some rinvD(5) [OF inv x(1)] x(1) e(3)] Some by simp
  qed
  have xn: "x < nobj s" using x(1) by (simp add: alive_def)
  have xt: "alive D ?t x" "d_ty (objs ?t x) = RArray"
    using t prog_alive x progD(2) [OF _ xn] by metis+
  let ?u = "pllua_datum_array_value x ?t"
  note a = array_value_rinv [OF conjunct1 [OF t] xt refl]
  have xu: "alive D ?u x" "d_ty (objs ?u x) = RArray"
    using prog_alive [OF a(2) xt(1)] progD(2) [OF a(2), of x] xt by (simp_all add: alive_def)
  have nr: "deformed (objs ?u x) = None"
    using rinvD(6) [OF a(1) xu(1)] xu(2) by (cases "deformed (objs ?u x)") (auto simp: cols_ok_def)
  obtain b p where v: "d_val (objs ?u x) = VPtr b p"
    using rinvD(4) [OF a(1) xu(1)] a(3) by (cases "d_val (objs ?u x)") (auto simp: val_ok_def)
  have "wt RArray (read_datum ?u x)" using rinvD(4) [OF a(1) xu(1)] v xu(2) by (simp add: val_ok_def)
  then obtain c where c: "read_datum ?u x = TAtom c" by (cases "read_datum ?u x") auto
  have w': "w = ?u\<lparr>mem := (mem ?u)(b \<mapsto> TAtom (f c))\<rparr>"
    using touch_id [OF a(1) xu(1)] v c by (simp add: w array_assign_def Let_def)
  have "datumref (objs ?u x) = None" using a(4) t by simp
  moreover have "rinv {} D w"
    by (rule array_write_rinv [OF a(1) xu(1) a(3) v _ _ w']) (use a(4) t xu(2) in simp_all)
  ultimately show ?thesis
    using that [OF a(1) _ prog_trans [OF _ a(2)] xu(1) v c a(3) _ w' xu(2)] t by blast
qed


subsection \<open>The operations of a session\<close>

datatype ('a, 'v) rop =
    ONew rty "'a tree" | OIndex nat key | OAssign nat key 'v | OArray nat | OArrSet nat "'a \<Rightarrow> 'a" | OCollect "nat list"

definition rstart :: "nat set \<times> 'a rowst" where
  "rstart = ({}, \<lparr>objs = (\<lambda>_. \<lparr>d_ty = RByval, d_val = Val0, need_gc = False, modified = False, datumref = None,
     deformed = None, has_meta = False\<rparr>), nobj = 0, mem = (\<lambda>_. None), nblk = 0, uaf = False\<rparr>)"

text \<open>An operation on what is there; the collector takes what nothing else refers to.\<close>

fun rstep ::
  "(nat \<Rightarrow> nat list \<Rightarrow> bool) \<Rightarrow> (rty \<Rightarrow> 'v \<Rightarrow> string + 'a tree) \<Rightarrow> ('a, 'v) rop \<Rightarrow>
   nat set \<times> 'a rowst \<Rightarrow> nat set \<times> 'a rowst"
where
  "rstep ext conv (ONew ty t) (D, s) = (D, if wt ty t then snd (owned_datum ty t s) else s)"
| "rstep ext conv (OIndex x k) (D, s) = (D, if alive D s x then snd (pllua_datum_row_index ext x k s) else s)"
| "rstep ext conv (OAssign x k v) (D, s) = (D, if alive D s x then snd (pllua_datum_row_newindex ext conv x k v s) else s)"
| "rstep ext conv (OArray x) (D, s) =
     (D, if alive D s x \<and> d_ty (objs s x) = RArray then pllua_datum_array_value x s else s)"
| "rstep ext conv (OArrSet x f) (D, s) =
     (D, if alive D s x \<and> d_ty (objs s x) = RArray then array_assign ext x f s else s)"
| "rstep ext conv (OCollect gs) (D, s) =
     (if collectable D gs s then (D \<union> set gs, fold pllua_datum_gc gs s) else (D, s))"

definition rrun ::
  "(nat \<Rightarrow> nat list \<Rightarrow> bool) \<Rightarrow> (rty \<Rightarrow> 'v \<Rightarrow> string + 'a tree) \<Rightarrow> ('a, 'v) rop list \<Rightarrow> nat set \<times> 'a rowst"
where
  "rrun ext conv ops = fold (rstep ext conv) ops rstart"

lemma rstep_rinv:
  assumes inv: "rinv {} D s" and c: "conv_ok conv" and u: "rstep ext conv oper (D, s) = (D', u)"
  shows "rinv {} D' u"
proof (cases oper)
  case (ONew ty t)
  then show ?thesis using u inv alloc_rinv(1) [OF inv _ prod.collapse] by (auto split: if_splits)
next
  case (OIndex x k)
  then show ?thesis using u inv index_rinv(1) [OF inv _ prod.collapse [symmetric]] by (auto split: if_splits)
next
  case (OAssign x k v)
  show ?thesis
  proof (cases "alive D s x")
    case True
    obtain r w where r: "pllua_datum_row_newindex ext conv x k v s = (r, w)" by fastforce
    have "rinv {} D w" by (rule newindex_cases [OF inv True c r])
    then show ?thesis using u OAssign True r by simp
  qed (use u inv OAssign in simp)
next
  case (OArray x)
  then show ?thesis using u inv array_value_rinv(1) [OF inv _ _ refl] by (auto split: if_splits)
next
  case (OArrSet x f)
  show ?thesis
  proof (cases "alive D s x \<and> d_ty (objs s x) = RArray")
    case True
    then have "rinv {} D (array_assign ext x f s)" using array_assign_rinv [OF inv _ _ refl] by metis
    then show ?thesis using u OArrSet True by simp
  qed (use u inv OArrSet in auto)
next
  case (OCollect gs)
  then show ?thesis using u inv collect_rinv(1) [OF inv _ refl] by (auto split: if_splits)
qed

lemma rrun_rinv:
  assumes "conv_ok conv" "rrun ext conv ops = (D, s)"
  shows "rinv {} D s"
proof -
  have "rinv {} D0 s0 \<Longrightarrow> fold (rstep ext conv) ops (D0, s0) = (D, s) \<Longrightarrow> rinv {} D s" for D0 s0
  proof (induction ops arbitrary: D0 s0)
    case (Cons p ops)
    obtain D1 s1 where "rstep ext conv p (D0, s0) = (D1, s1)" by fastforce
    then show ?case using Cons.IH [of D1 s1] Cons.prems rstep_rinv [OF Cons.prems(1) assms(1)] by simp
  qed simp
  moreover have "rinv {} (fst rstart) (snd rstart)" by (simp add: rstart_def rinv_def alive_def)
  ultimately show ?thesis using assms(2) by (simp add: rrun_def rstart_def)
qed

end
