(* ===== verification/Datum_Row_Props.thy ===== *)
theory Datum_Row_Props
  imports Datum_Row_Run
begin

text \<open>
  The properties of row objects: what PostgreSQL gets for a row is what Lua sees of it, an
  assignment changes the rows that the assigned one is a part of and nothing else, reading changes
  nothing, and no object refers to freed storage, unless finalized objects are kept.
\<close>

subsection \<open>What PostgreSQL gets is what Lua sees\<close>

lemma row_value_view:
  assumes inv: "rinv {} D s"
  shows "alive D s x \<Longrightarrow> size (d_ty (objs s x)) < n \<Longrightarrow> row_value n s x = view n s x"
proof (induction n arbitrary: x)
  case (Suc n)
  note D = rinvD [OF inv]
  show ?case
  proof (cases "deformed (objs s x)")
    case None
    then have "\<not> modified (objs s x)" using D(4) [OF Suc.prems(1)] by (auto simp: val_ok_def split: dval.splits)
    then show ?thesis using None by simp
  next
    case (Some es)
    have kid: "row_value n s c = view n s c" "alive D s c" "n \<noteq> 0" if ce: "EDat c \<in> set es" for c
    proof -
      obtain i where "i < length es" "es ! i = EDat c" using ce unfolding in_set_conv_nth by blast
      then have "in_entries s x i c" using Some by (simp add: in_entries_def)
      note c = child_size [OF inv Suc.prems(1) this]
      show "alive D s c" by (rule c(2))
      show "row_value n s c = view n s c" using Suc.IH [OF c(2)] c(1) Suc.prems(2) by simp
      show "n \<noteq> 0" using c(1) Suc.prems(2) by simp
    qed
    show ?thesis
    proof (cases "modified (objs s x)")
      case True
      then show ?thesis using Some kid by (auto simp: entries_def split: entry.splits)
    next
      case False
      then have nv: "d_val (objs s x) \<noteq> Val0" using D(4) [OF Suc.prems(1)] by (auto simp: val_ok_def)
      have row: "is_row (d_ty (objs s x))" using D(6) [OF Suc.prems(1)] Some by (auto simp: cols_ok_def)
      obtain cs us b p where us: "d_ty (objs s x) = RRow cs" "read_datum s x = TRow us" "wts cs us"
        by (rule row_storage [OF inv Suc.prems(1) row nv])
      have len: "length us = length es"
        using us(1,3) Some D(6) [OF Suc.prems(1)] by (auto simp: cols_ok_def wts_nth)
      note co = D(7) [OF Suc.prems(1) _ nv, unfolded coherent_def, rule_format, OF _ Some, simplified, unfolded us(2), simplified]
      have "us = map (\<lambda>e. case e of EDat c \<Rightarrow> view n s c | _ \<Rightarrow> TNull) es"
      proof (rule nth_equalityI)
        fix i assume "i < length us"
        then have i: "i < length es" using len by simp
        show "us ! i = map (\<lambda>e. case e of EDat c \<Rightarrow> view n s c | _ \<Rightarrow> TNull) es ! i"
        proof (cases "es ! i")
          case (EDat c)
          then have c: "EDat c \<in> set es" using i nth_mem by metis
          have cv: "d_val (objs s c) \<noteq> Val0" "read_datum s c = us ! i" using co [OF i] EDat by simp_all
          have "\<not> modified (objs s c)" using D(4) [OF kid(2) [OF c]] cv(1) by (auto simp: val_ok_def split: dval.splits)
          then have "row_value n s c = us ! i" using cv(2) kid(3) [OF c] by (cases n) simp_all
          then show ?thesis using kid(1) [OF c] EDat i by simp
        qed (use co [OF i] i in simp_all)
      qed (use len in simp)
      then show ?thesis using False Some us(2) by simp
    qed
  qed
qed simp

subsection \<open>Changing a part of a row\<close>

fun put :: "'a tree \<Rightarrow> nat list \<Rightarrow> 'a tree \<Rightarrow> 'a tree" where
  "put t [] v = v"
| "put (TRow ts) (i # p) v = TRow (ts[i := put (ts ! i) p v])"
| "put t _ v = t"

text \<open>Object \<open>x\<close> is what the columns \<open>p\<close> lead to from object \<open>z\<close>.\<close>

primrec col_path :: "'a rowst \<Rightarrow> nat \<Rightarrow> nat list \<Rightarrow> nat \<Rightarrow> bool" where
  "col_path s z [] x \<longleftrightarrow> z = x"
| "col_path s z (i # p) x \<longleftrightarrow>
     i < length (entries s z) \<and> (case entries s z ! i of EDat y \<Rightarrow> col_path s y p x | _ \<Rightarrow> False)"

lemma col_path_Cons: "col_path s z (i # p) x \<longleftrightarrow> (\<exists>y. in_entries s z i y \<and> col_path s y p x)"
  by (auto simp: in_entries_def entries_def split: option.splits entry.splits)

declare col_path.simps(2) [simp del]

lemma col_path_snoc: "col_path s z (p @ [i]) x \<longleftrightarrow> (\<exists>y. col_path s z p y \<and> in_entries s y i x)"
  by (induction p arbitrary: z) (auto simp: col_path_Cons)

lemma col_path_alive:
  assumes "rinv {} D s"
  shows "alive D s z \<Longrightarrow> col_path s z p x \<Longrightarrow> alive D s x \<and> z \<le> x \<and> (z = x \<longrightarrow> p = [])"
proof (induction p arbitrary: z)
  case (Cons i p)
  then obtain y where "in_entries s z i y" "col_path s y p x" by (auto simp: col_path_Cons)
  then show ?case using Cons.IH [of y] child_size(2,3) [OF assms Cons.prems(1)] by fastforce
qed simp

lemma col_path_unique:
  assumes inv: "rinv {} D s" and z: "alive D s z"
  shows "col_path s z p x \<Longrightarrow> col_path s z q x \<Longrightarrow> p = q"
proof (induction p arbitrary: q x rule: rev_induct)
  case Nil
  then show ?case using col_path_alive [OF inv z] by fastforce
next
  case (snoc i p)
  obtain y where y: "col_path s z p y" "in_entries s y i x" using snoc.prems(1) by (auto simp: col_path_snoc)
  show ?case
  proof (cases q rule: rev_cases)
    case Nil
    then show ?thesis using col_path_alive [OF inv z snoc.prems(1)] snoc.prems(2) by simp
  next
    case (snoc q' j)
    obtain w where w: "col_path s z q' w" "in_entries s w j x" using snoc.prems(2) snoc by (auto simp: col_path_snoc)
    have "y = w \<and> i = j"
      by (rule rinvD(11) [OF inv _ _ y(2) w(2)]) (use col_path_alive [OF inv z] y(1) w(1) in blast)+
    then show ?thesis using snoc.IH [OF y(1)] w(1) snoc by simp
  qed
qed

lemma col_path_prog:
  assumes inv: "rinv {} D s" "rinv {} D u" and pr: "prog {} D s u" and x: "alive D s x"
  shows "alive D s z \<Longrightarrow> col_path u z p x \<longleftrightarrow> col_path s z p x"
proof (induction p arbitrary: z)
  case (Cons i p)
  have zn: "z < nobj s" and xn: "x < nobj s" using Cons.prems x by (simp_all add: alive_def)
  have "in_entries u z i y \<and> col_path u y p x \<longleftrightarrow> in_entries s z i y \<and> col_path s y p x" for y
  proof
    assume y: "in_entries u z i y \<and> col_path u y p x"
    have ay: "alive D u y" by (rule child_size(2) [OF inv(2) prog_alive [OF pr Cons.prems] conjunct1 [OF y]])
    have yn: "y < nobj s" using col_path_alive [OF inv(2) ay conjunct2 [OF y]] xn by simp
    then have "in_entries s z i y" using progD(9) [OF pr zn conjunct1 [OF y]] by simp
    moreover from this have "alive D s y" by (rule child_size(2) [OF inv(1) Cons.prems])
    ultimately show "in_entries s z i y \<and> col_path s y p x" using Cons.IH y by simp
  next
    assume y: "in_entries s z i y \<and> col_path s y p x"
    then have "in_entries u z i y" using progD(3) [OF pr zn] by (auto simp: in_entries_def)
    moreover have "alive D s y" by (rule child_size(2) [OF inv(1) Cons.prems conjunct1 [OF y]])
    ultimately show "in_entries u z i y \<and> col_path u y p x" using Cons.IH y by simp
  qed
  then show ?case by (simp add: col_path_Cons)
qed simp

text \<open>A change at \<open>x\<close> is what changes at the end of every path to \<open>x\<close>, and nothing else.\<close>

lemma view_put:
  assumes inv: "rinv {} D u" and x: "alive D u x"
    and other: "\<And>z. alive D u z \<Longrightarrow> z \<noteq> x \<Longrightarrow> deformed (objs w z) = deformed (objs u z) \<and>
        (deformed (objs u z) = None \<longrightarrow> read_datum w z = read_datum u z)"
    and local: "\<And>n. size (d_ty (objs u x)) < Suc n \<Longrightarrow> \<forall>j c. in_entries u x j c \<longrightarrow> view n w c = view n u c \<Longrightarrow>
        view (Suc n) w x = put (view (Suc n) u x) q t"
  shows "alive D u z \<Longrightarrow> size (d_ty (objs u z)) < n \<Longrightarrow>
    (\<forall>p. col_path u z p x \<longrightarrow> view n w z = put (view n u z) (p @ q) t) \<and>
    ((\<forall>p. \<not> col_path u z p x) \<longrightarrow> view n w z = view n u z)"
proof (induction n arbitrary: z)
  case (Suc n)
  note cs = child_size [OF inv Suc.prems(1)]
  have IH: "(\<forall>p. col_path u c p x \<longrightarrow> view n w c = put (view n u c) (p @ q) t) \<and>
      ((\<forall>p. \<not> col_path u c p x) \<longrightarrow> view n w c = view n u c)" if "in_entries u z i c" for i c
    using Suc.IH [OF cs(2) [OF that]] cs(1) [OF that] Suc.prems(2) by simp
  show ?case
  proof (cases "z = x")
    case True
    have "\<not> col_path u c p x" if "in_entries u z i c" for i c p
      using col_path_alive [OF inv cs(2) [OF that], of p x] cs(3) [OF that] True by auto
    then have "view (Suc n) w x = put (view (Suc n) u x) q t"
      using local [of n] IH Suc.prems(2) True by blast
    moreover have "p = []" if "col_path u z p x" for p using col_path_alive [OF inv Suc.prems(1) that] True by simp
    moreover have "col_path u z [] x" using True by simp
    ultimately show ?thesis using True by (metis append_Nil)
  next
    case zx: False
    note o = other [OF Suc.prems(1) zx]
    show ?thesis
    proof (cases "deformed (objs u z)")
      case None
      then have "\<not> col_path u z p x" for p using zx by (cases p) (auto simp: col_path_Cons in_entries_def)
      then show ?thesis using None o by simp
    next
      case (Some es)
      have ent: "in_entries u z j c \<longleftrightarrow> j < length es \<and> es ! j = EDat c" for j c using Some by (simp add: in_entries_def)
      let ?f = "\<lambda>s e. case e of EDat y \<Rightarrow> view n s y | _ \<Rightarrow> TNull"
      have v: "view (Suc n) u z = TRow (map (?f u) es)" "view (Suc n) w z = TRow (map (?f w) es)" using Some o by simp_all
      have same: "?f w (es ! j) = ?f u (es ! j)" if "j < length es" "\<forall>c p. es ! j = EDat c \<longrightarrow> \<not> col_path u c p x" for j
        using that IH ent by (cases "es ! j") simp_all
      show ?thesis
      proof (intro conjI allI impI)
        fix p assume p: "col_path u z p x"
        obtain j p' c where jp: "p = j # p'" "in_entries u z j c" "col_path u c p' x"
          using p zx by (cases p) (auto simp: col_path_Cons)
        have "map (?f w) es = (map (?f u) es)[j := put (?f u (es ! j)) (p' @ q) t]"
        proof (rule nth_equalityI)
          fix k assume "k < length (map (?f w) es)"
          then have k: "k < length es" by simp
          show "map (?f w) es ! k = (map (?f u) es)[j := put (?f u (es ! j)) (p' @ q) t] ! k"
          proof (cases "k = j")
            case True
            then show ?thesis using IH [OF jp(2)] jp k by (simp add: ent)
          next
            case False
            have "\<not> col_path u c' r x" if "es ! k = EDat c'" for c' r
            proof
              assume "col_path u c' r x"
              then have "col_path u z (k # r) x" using that k ent by (auto simp: col_path_Cons)
              then show False using col_path_unique [OF inv Suc.prems(1) p] jp(1) False by auto
            qed
            then show ?thesis using same [OF k] k False by simp
          qed
        qed simp
        then show "view (Suc n) w z = put (view (Suc n) u z) (p @ q) t"
          using v jp by (simp add: ent)
      next
        assume no: "\<forall>p. \<not> col_path u z p x"
        have "map (?f w) es = map (?f u) es"
        proof (rule nth_equalityI)
          fix k assume "k < length (map (?f w) es)"
          then have k: "k < length es" by simp
          have "\<not> col_path u c r x" if "es ! k = EDat c" for c r
          proof
            assume "col_path u c r x"
            then have "col_path u z (k # r) x" using that k ent by (auto simp: col_path_Cons)
            then show False using no by blast
          qed
          then show "map (?f w) es ! k = map (?f u) es ! k" using same [OF k] k by simp
        qed simp
        then show "view (Suc n) w z = view (Suc n) u z" using v by simp
      qed
    qed
  qed
qed simp



lemma array_assign_put:
  assumes inv: "rinv {} D s" and x: "alive D s x" "d_ty (objs s x) = RArray" and w: "w = array_assign ext x f s"
    and z: "alive D s z" "size (d_ty (objs s z)) < n" and a: "view 1 s x = TAtom a"
  shows "alive D w z" "d_ty (objs w z) = d_ty (objs s z)"
    "(\<forall>p. col_path s z p x \<longrightarrow> view n w z = put (view n s z) p (TAtom (f a))) \<and>
     ((\<forall>p. \<not> col_path s z p x) \<longrightarrow> view n w z = view n s z)"
proof -
  obtain u b p c where u: "rinv {} D u" "rinv {} D w" "prog {} D s u" "alive D u x" "d_val (objs u x) = VPtr b p"
    "read_datum u x = TAtom c" "need_gc (objs u x)" "datumref (objs u x) = None" "w = u\<lparr>mem := (mem u)(b \<mapsto> TAtom (f c))\<rparr>"
    "d_ty (objs u x) = RArray"
    by (rule array_assign_rinv [OF inv x w])
  have nr: "deformed (objs u x) = None"
    using rinvD(6) [OF u(1,4)] u(10) by (cases "deformed (objs u x)") (auto simp: cols_ok_def)
  have zu: "alive D u z" "d_ty (objs u z) = d_ty (objs s z)" "view n u z = view n s z"
    using prog_alive [OF u(3) z(1)] progD(2,6) [OF u(3)] z by (auto simp: alive_def)
  have "view 1 u x = view 1 s x" using progD(6) [OF u(3), of x 1] x by (simp add: alive_def)
  then have ca: "c = a" using nr u(6) a by simp
  have p: "p = []" using rinvD(4) [OF u(1,4)] u(5,7) by (simp add: val_ok_def)
  have priv: "d_val (objs u y) \<noteq> VPtr b q" if "alive D u y" "y \<noteq> x" for y q
    using block_private [OF u(1,4,7,5) _ that] no_children [OF nr] by blast
  have ow: "objs w = objs u" "nobj w = nobj u" using u(9) by simp_all
  have "(\<forall>p. col_path u z p x \<longrightarrow> view n w z = put (view n u z) (p @ []) (TAtom (f a))) \<and>
    ((\<forall>p. \<not> col_path u z p x) \<longrightarrow> view n w z = view n u z)"
  proof (rule view_put [OF u(1,4) _ _ zu(1)])
    fix y assume y: "alive D u y" "y \<noteq> x"
    have "read_datum w y = read_datum u y"
      using priv [OF y] by (auto simp: u(9) read_val_def split: dval.splits)
    then show "deformed (objs w y) = deformed (objs u y) \<and> (deformed (objs u y) = None \<longrightarrow> read_datum w y = read_datum u y)"
      using ow by simp
  next
    fix m show "view (Suc m) w x = put (view (Suc m) u x) [] (TAtom (f a))"
      using nr ow u(5,9) p ca by (simp add: read_val_def)
  qed (use zu z in simp)
  then show "(\<forall>p. col_path s z p x \<longrightarrow> view n w z = put (view n s z) p (TAtom (f a))) \<and>
     ((\<forall>p. \<not> col_path s z p x) \<longrightarrow> view n w z = view n s z)"
    using zu col_path_prog [OF inv u(1,3) x(1) z(1)] by simp
  show "alive D w z" "d_ty (objs w z) = d_ty (objs s z)" using zu ow by (simp_all add: alive_def)
qed

text \<open>What only reads, makes objects or collects leaves every value as it is.\<close>

fun reads_only :: "('a, 'v) rop \<Rightarrow> bool" where
  "reads_only (OAssign x k v) = False"
| "reads_only (OArrSet x f) = False"
| "reads_only _ = True"

lemma reads_view:
  assumes inv: "rinv {} D s" and r: "reads_only oper" and u: "rstep ext conv oper (D, s) = (D', u)"
    and z: "alive D s z" "size (d_ty (objs s z)) < n" "alive D' u z"
  shows "view n u z = view n s z \<and> d_ty (objs u z) = d_ty (objs s z)"
proof (cases oper)
  case (ONew ty t)
  show ?thesis
  proof (cases "wt ty t")
    case True
    note a = alloc_rinv [OF inv True prod.collapse]
    have "objs u z = objs s z" using a(4) z u ONew True by (auto simp: alive_def)
    then show ?thesis using a(10) [OF z(1)] u ONew True by auto
  qed (use u ONew in simp)
next
  case (OIndex x k)
  show ?thesis
  proof (cases "alive D s x")
    case True
    have "prog {} D s u" using index_rinv(2) [OF inv True prod.collapse [symmetric]] u OIndex True by auto
    then show ?thesis using progD(2,6) z by (auto simp: alive_def)
  qed (use u OIndex in simp)
next
  case (OArray x)
  show ?thesis
  proof (cases "alive D s x \<and> d_ty (objs s x) = RArray")
    case True
    then have "prog {} D s u" using array_value_rinv(2) [OF inv _ _ refl] u OArray by auto
    then show ?thesis using progD(2,6) z by (auto simp: alive_def)
  qed (use u OArray in auto)
next
  case (OCollect gs)
  show ?thesis
  proof (cases "collectable D gs s")
    case True
    then have "u = fold pllua_datum_gc gs s" "D' = D \<union> set gs" using u OCollect by auto
    then show ?thesis using collect_rinv(2,3) [OF inv True] z(3) by auto
  qed (use u OCollect in auto)
qed (use r in simp_all)

subsection \<open>Properties\<close>

definition ex_conv :: "rty \<Rightarrow> nat tree \<Rightarrow> string + nat tree" where
  "ex_conv ty t = (if t = TNull \<or> wt ty t then Inr t else Inl ''bad value'')"

lemma ex_conv_ok: "conv_ok ex_conv"
  by (auto simp: conv_ok_def ex_conv_def)

text \<open>A row with an integer, a dropped column and an inner row of an array and a null.\<close>

definition ex_ty :: rty where
  "ex_ty = RRow [((''a'', False), RByval), ((''x'', True), RScalar),
                 ((''r'', False), RRow [((''v'', False), RArray), ((''s'', False), RScalar)])]"

text \<open>It is made, and its inner row and the array are read.\<close>

definition ex_ops :: "(nat, nat tree) rop list" where
  "ex_ops = [ONew ex_ty (TRow [TAtom 1, TNull, TRow [TAtom 7, TNull]]), OIndex 0 (KName ''r''), OIndex 2 (KNum 1)]"

text \<open>The array and the inner row are changed and the outer row is collected.\<close>

definition ex_more :: "(nat, nat tree) rop list" where
  "ex_more = ex_ops @ [OArrSet 3 Suc, OAssign 2 (KName ''s'') (TAtom 9), OCollect [0, 1]]"

abbreviation ex_run :: "(nat, nat tree) rop list \<Rightarrow> nat set \<times> nat rowst" where
  "ex_run \<equiv> rrun (\<lambda>b p. False) ex_conv"

text \<open>C28. Whatever sequence of constructions, accesses, assignments and collections a session makes, no
  row object that Lua code can reach refers to freed storage or has lost its metatable, and nothing
  is freed twice.\<close>

theorem rows_never_dangle:
  assumes "conv_ok conv" "rrun ext conv ops = (D, s)"
  shows "\<not> uaf s \<and> (\<forall>x < nobj s. x \<notin> D \<longrightarrow> has_meta (objs s x) \<and> live_val s (d_val (objs s x)))"
proof -
  have inv: "rinv {} D s" by (rule rrun_rinv [OF assms])
  have "has_meta (objs s x) \<and> live_val s (d_val (objs s x))" if "alive D s x" for x
    using rinvD(3) [OF inv that] rinv_blk [OF inv that] by (auto simp: live_val_def split: dval.splits)
  then show ?thesis using rinvD(1) [OF inv] by (simp add: alive_def)
qed

lemma ex_more_facts: "nobj (snd (ex_run ex_more)) = 5 \<and> fst (ex_run ex_more) = {0, 1}"
  by code_simp

theorem rows_never_dangle_witness:
  "nobj (snd (ex_run ex_more)) = 5 \<and> fst (ex_run ex_more) = {0, 1} \<and> \<not> uaf (snd (ex_run ex_more)) \<and>
   live_val (snd (ex_run ex_more)) (d_val (objs (snd (ex_run ex_more)) 3))"
  using rows_never_dangle [OF ex_conv_ok prod.collapse [symmetric], of "\<lambda>b p. False" ex_more] ex_more_facts
  by simp




text \<open>C30. Reading columns, expanding arrays, making objects and collecting leave the value of every
  object that stays as it is.\<close>

theorem reading_keeps_values:
  assumes "conv_ok conv" "rrun ext conv ops = (D, s)" "reads_only oper" "rstep ext conv oper (D, s) = (D', u)"
    and "alive D s z" "alive D' u z" "size (d_ty (objs s z)) < n"
  shows "row_value n u z = row_value n s z"
proof -
  have inv: "rinv {} D s" by (rule rrun_rinv [OF assms(1,2)])
  note v = reads_view [OF inv assms(3,4,5,7,6)]
  show ?thesis
    using row_value_view [OF inv assms(5,7)] row_value_view [OF rstep_rinv [OF inv assms(1,4)] assms(6)] v assms(7) by simp
qed

lemma ex_reads:
  "reads_only (OIndex 0 (KName ''a''))" "alive (fst (ex_run ex_ops)) (snd (ex_run ex_ops)) 0"
  "alive (fst (rstep (\<lambda>b p. False) ex_conv (OIndex 0 (KName ''a'')) (ex_run ex_ops)))
     (snd (rstep (\<lambda>b p. False) ex_conv (OIndex 0 (KName ''a'')) (ex_run ex_ops))) 0"
  "size (d_ty (objs (snd (ex_run ex_ops)) 0)) < 20"
  by code_simp+

theorem reading_keeps_values_witness:
  "row_value 20 (snd (rstep (\<lambda>b p. False) ex_conv (OIndex 0 (KName ''a'')) (ex_run ex_ops))) 0 =
   row_value 20 (snd (ex_run ex_ops)) 0"
  using reading_keeps_values [OF ex_conv_ok prod.collapse [symmetric] ex_reads(1) _ ex_reads(2) ex_reads(3) ex_reads(4)]
  by simp




text \<open>C32. The finalizer takes the metatable of the object that owns the storage only: an inner row or
  column that is finalized with it and that Lua code still has (in a table with a finalizer of its
  own, or as the key of a weak table) keeps its metatable, and using it reads freed storage.\<close>

theorem finalized_child_dangles:
  assumes "conv_ok conv" "rrun ext conv ops = (D, s)" "collectable D gs s" "{g, c} \<subseteq> set gs"
    and "need_gc (objs s g)" "d_val (objs s g) = VPtr b p" "\<not> need_gc (objs s c)" "d_val (objs s c) = VPtr b q"
  shows "let u = fold pllua_datum_gc gs s in
    \<not> has_meta (objs u g) \<and> has_meta (objs u c) \<and> \<not> live_val u (d_val (objs u c)) \<and> uaf (touch c u)"
proof -
  have inv: "rinv {} D s" by (rule rrun_rinv [OF assms(1,2)])
  note C = collectableD [OF assms(3)]
  have own: "owners_ok gs s"
    using rinv_blk [OF inv C(2)] rinvD(10) [OF inv C(2) C(2)] unfolding owners_ok_def by blast
  let ?u = "fold pllua_datum_gc gs s"
  note f = fold_gc [OF C(1) rinvD(1) [OF inv] own]
  have "mem ?u b = None" using f assms(4,5,6) by auto
  then have "\<not> live_val ?u (d_val (objs ?u c))" using f assms(4,8) by (auto simp: live_val_def)
  moreover have "\<not> has_meta (objs ?u g)" "has_meta (objs ?u c)"
    using f assms(4-8) rinvD(3) [OF inv C(2), of c] by auto
  ultimately show ?thesis by (simp add: Let_def)
qed

lemma ex_collect:
  "collectable (fst (ex_run ex_ops)) [0, 1, 2, 3] (snd (ex_run ex_ops))"
  "need_gc (objs (snd (ex_run ex_ops)) 0)" "d_val (objs (snd (ex_run ex_ops)) 0) = VPtr 0 []"
  "\<not> need_gc (objs (snd (ex_run ex_ops)) 2)" "d_val (objs (snd (ex_run ex_ops)) 2) = VPtr 0 [2]"
  by code_simp+

theorem finalized_child_dangles_witness:
  "let u = fold pllua_datum_gc [0, 1, 2, 3] (snd (ex_run ex_ops)) in has_meta (objs u 2) \<and> uaf (touch 2 u)"
  using finalized_child_dangles [OF ex_conv_ok prod.collapse [symmetric] ex_collect(1) _ ex_collect(2-5)]
  by (simp add: Let_def)

end
