(* ===== verification/Datum_Array.thy ===== *)
theory Datum_Array
  imports Prelude
begin

text \<open>
  Arrays, src/src/datum.c: construction from Lua tables (\<open>pllua_typeinfo_array_call\<close>), access by
  index through chains of index lists, iteration, and conversion to nested tables
  (\<open>pllua_datum_array_map\<close>).  \<open>'d\<close> is the type of element datums.  PostgreSQL's array is what
  \<open>construct_md_array\<close> is given: dimensions, lower bounds and the elements in row-major order;
  \<open>array_get_element\<close> is a parameter.
\<close>

subsection \<open>Values\<close>

text \<open>A Lua value with the tables in it; the entries of a table with the last one written first.\<close>

datatype atree = AVal lval | ATab "(int \<times> atree) list"

abbreviation ANil :: atree where "ANil \<equiv> AVal LNil"

fun tab_get :: "(int \<times> atree) list \<Rightarrow> int \<Rightarrow> atree" where
  "tab_get [] i = ANil"
| "tab_get ((k, v) # es) i = (if k = i then v else tab_get es i)"

text \<open>\<open>lua_geti\<close>; on values that are not tables it is the parameter \<open>ix\<close>.\<close>

fun lua_geti :: "(lval \<Rightarrow> int \<Rightarrow> string + atree) \<Rightarrow> atree \<Rightarrow> int \<Rightarrow> string + atree" where
  "lua_geti ix (ATab es) i = Inr (tab_get es i)"
| "lua_geti ix (AVal v) i = ix v i"

record 'd pg_array =
  arr_dims :: "int list"
  arr_lbound :: "int list"
  arr_elems :: "'d option list"

definition MAXDIM :: nat where "MAXDIM = 6"
definition INT_MAX :: int where "INT_MAX = 2147483647"
definition MaxAllocSize :: int where "MaxAllocSize = 1073741823"

subsection \<open>Construction\<close>

text \<open>The number of elements: the product of the dimensions, within limits.\<close>

fun count_elems :: "int \<Rightarrow> int list \<Rightarrow> string + int" where
  "count_elems n [] = Inr n"
| "count_elems n (d # ds) =
     (if d > (MaxAllocSize div 8) div n then Inl ''number of elements in array exceeds limit''
      else count_elems (n * d) ds)"

definition array_nelems :: "int list \<Rightarrow> string + int" where
  "array_nelems dims =
     (case dims of
        [] \<Rightarrow> Inr 0
      | d # ds \<Rightarrow>
          bindR (count_elems d ds) (\<lambda>n.
          if n > INT_MAX then Inl ''number of elements in array exceeds limit'' else Inr n))"

text \<open>
  The loop's state: \<open>data\<close> is the part of the Lua stack above the result table, the deepest level
  first; \<open>cur\<close> is \<open>curidx\<close> up to \<open>topidx\<close>, in the same order.
\<close>

record 'd fromtab =
  data :: "atree list"
  cur :: "int list"
  vals :: "'d option list"

text \<open>The value at the current index of the top item, nil inside nil.\<close>

definition cur_geti :: "(lval \<Rightarrow> int \<Rightarrow> string + atree) \<Rightarrow> atree \<Rightarrow> int \<Rightarrow> string + atree" where
  "cur_geti ix t i = (if t = ANil then Inr ANil else lua_geti ix t i)"

text \<open>\<open>n\<close> levels are missing.\<close>

fun descend :: "(lval \<Rightarrow> int \<Rightarrow> string + atree) \<Rightarrow> nat \<Rightarrow> atree list \<Rightarrow> int list \<Rightarrow> string + atree list \<times> int list" where
  "descend ix (Suc n) (t # ts) (c # cs) =
     bindR (cur_geti ix t c) (\<lambda>v. descend ix n (v # t # ts) (1 # c # cs))"
| "descend ix n ts cs = Inr (ts, cs)"

fun advance :: "int list \<Rightarrow> atree list \<Rightarrow> int list \<Rightarrow> atree list \<times> int list" where
  "advance dims (t # ts) (c # cs) =
     (if c + 1 > dims ! length cs then advance dims ts cs else (t # ts, (c + 1) # cs))"
| "advance dims ts cs = (ts, cs)"

definition fromtable_step ::
  "(lval \<Rightarrow> int \<Rightarrow> string + atree) \<Rightarrow> (atree \<Rightarrow> string + 'd option) \<Rightarrow> int list \<Rightarrow> 'd fromtab \<Rightarrow>
   string + 'd fromtab"
where
  "fromtable_step ix conv dims s =
     bindR (descend ix (length dims - length (data s)) (data s) (cur s)) (\<lambda>(ts, cs).
     bindR (cur_geti ix (hd ts) (hd cs)) (\<lambda>v.
     bindR (conv v) (\<lambda>d.
     case advance dims ts cs of (ts', cs') \<Rightarrow> Inr \<lparr>data = ts', cur = cs', vals = vals s @ [d]\<rparr>)))"

fun fromtable_loop ::
  "(lval \<Rightarrow> int \<Rightarrow> string + atree) \<Rightarrow> (atree \<Rightarrow> string + 'd option) \<Rightarrow> int list \<Rightarrow> nat \<Rightarrow> 'd fromtab \<Rightarrow>
   string + 'd fromtab"
where
  "fromtable_loop ix conv dims 0 s = Inr s"
| "fromtable_loop ix conv dims (Suc n) s =
     (if data s = [] then Inr s
      else bindR (fromtable_step ix conv dims s) (fromtable_loop ix conv dims n))"

text \<open>The lower bounds are 1; an array without elements has no dimensions.\<close>

definition pllua_typeinfo_array_fromtable ::
  "(lval \<Rightarrow> int \<Rightarrow> string + atree) \<Rightarrow> (atree \<Rightarrow> string + 'd option) \<Rightarrow> atree \<Rightarrow> int list \<Rightarrow>
   string + 'd pg_array"
where
  "pllua_typeinfo_array_fromtable ix conv t dims =
     bindR (array_nelems dims) (\<lambda>nelems.
     if nelems = 0 then Inr \<lparr>arr_dims = [], arr_lbound = [], arr_elems = []\<rparr>
     else bindR (fromtable_loop ix conv dims (nat nelems) \<lparr>data = [t], cur = [1], vals = []\<rparr>) (\<lambda>s.
          Inr \<lparr>arr_dims = dims, arr_lbound = map (\<lambda>_. 1) dims, arr_elems = vals s\<rparr>))"

text \<open>The largest key that is a positive int, over the entries as \<open>pairs\<close> gives them.\<close>

fun largest_int_key :: "int \<Rightarrow> (int option) list \<Rightarrow> int" where
  "largest_int_key n [] = n"
| "largest_int_key n (k # ks) =
     largest_int_key
       (case k of Some i \<Rightarrow> if i > 0 \<and> i \<le> INT_MAX \<and> i > n then i else n | None \<Rightarrow> n) ks"

text \<open>What the constructor looks at in its arguments besides the tables themselves.\<close>

record array_args_env =
  is_container :: "atree \<Rightarrow> bool"
  is_element_datum :: "atree \<Rightarrow> bool"
  int_keys :: "atree \<Rightarrow> int option list"

fun is_tab :: "atree \<Rightarrow> bool" where
  "is_tab (ATab _) = True"
| "is_tab (AVal (LTab _)) = True"
| "is_tab _ = False"

fun is_udata :: "atree \<Rightarrow> bool" where
  "is_udata (AVal (LUdata _)) = True"
| "is_udata _ = False"

fun arg_integer :: "atree \<Rightarrow> int option" where
  "arg_integer (AVal (LInt i)) = Some i"
| "arg_integer _ = None"

text \<open>\<open>lua_tointeger\<close> of a further dimension: \<open>tointeger\<close> for what is not an integer.\<close>

definition dim_of :: "(atree \<Rightarrow> int) \<Rightarrow> atree \<Rightarrow> int" where
  "dim_of tointeger a = c_int (case arg_integer a of Some i \<Rightarrow> i | None \<Rightarrow> tointeger a)"

definition pllua_typeinfo_array_call ::
  "array_args_env \<Rightarrow> (atree \<Rightarrow> int) \<Rightarrow> (lval \<Rightarrow> int \<Rightarrow> string + atree) \<Rightarrow> (atree \<Rightarrow> string + 'd option) \<Rightarrow>
   atree list \<Rightarrow> string + 'd pg_array"
where
  "pllua_typeinfo_array_call e tointeger ix conv args =
     (let flat = pllua_typeinfo_array_fromtable ix conv
                   (ATab (rev (zip (map int [1..<Suc (length args)]) args))) [int (length args)]
      in case args of
           [] \<Rightarrow> flat
         | a # ds \<Rightarrow>
             if ds \<noteq> [] \<and> (is_tab a \<or> is_udata a) \<and> arg_integer (hd ds) \<noteq> None then
               (if length ds > MAXDIM then Inl ''too many dimensions for array''
                else
                  let dims = map (dim_of tointeger) ds in
                  if list_ex (\<lambda>d. d < 0 \<or> d = 0 \<and> length dims > 1) dims then Inl ''invalid dimension for array''
                  else pllua_typeinfo_array_fromtable ix conv a dims)
             else if ds = [] \<and> (is_tab a \<or> is_udata a \<and> \<not> is_element_datum e a \<and> is_container e a)
             then pllua_typeinfo_array_fromtable ix conv a [largest_int_key 0 (int_keys e a)]
             else flat)"

subsection \<open>Access\<close>

text \<open>
  The array object that an index list is for is known by its address.  \<open>il_idx\<close> are the indexes
  written so far, \<open>cur_dim\<close> of them; the C array has room for \<open>MAXDIM\<close>.
\<close>

record idxlist =
  il_ndim :: nat
  il_idx :: "int list"
  il_datum :: nat

abbreviation cur_dim :: "idxlist \<Rightarrow> nat" where "cur_dim il \<equiv> length (il_idx il)"

datatype array_key = KInt int | KStr string | KIdx idxlist | KOther

datatype 'd array_result = RElem "'d option" | RIdx idxlist | RMethod string

datatype array_exn = ArrayErr string | IdxOverflow

definition arr_ndims :: "'d pg_array \<Rightarrow> nat" where
  "arr_ndims a = length (arr_dims a)"

text \<open>\<open>get\<close> is \<open>array_get_element\<close>; an integer key is cut to an \<open>int\<close>.\<close>

definition pllua_datum_array_index ::
  "('d pg_array \<Rightarrow> int list \<Rightarrow> 'd option) \<Rightarrow> nat \<Rightarrow> 'd pg_array \<Rightarrow> array_key \<Rightarrow> array_exn + 'd array_result"
where
  "pllua_datum_array_index get self a key =
     (case key of
        KInt i \<Rightarrow>
          if arr_ndims a > 1 then Inr (RIdx \<lparr>il_ndim = arr_ndims a, il_idx = [c_int i], il_datum = self\<rparr>)
          else Inr (RElem (get a [c_int i]))
      | KStr m \<Rightarrow> Inr (RMethod m)
      | KIdx il \<Rightarrow>
          if il_ndim il \<noteq> arr_ndims a \<or> cur_dim il \<noteq> arr_ndims a \<or> il_datum il \<noteq> self
          then Inl (ArrayErr ''wrong idxlist'')
          else Inr (RElem (get a (il_idx il)))
      | KOther \<Rightarrow> Inl (ArrayErr ''bad argument''))"

text \<open>A copy of the list with one more index.\<close>

definition push_idx :: "idxlist \<Rightarrow> int \<Rightarrow> array_exn + idxlist" where
  "push_idx il i =
     (if cur_dim il \<ge> MAXDIM then Inl IdxOverflow else Inr (il\<lparr>il_idx := il_idx il @ [c_int i]\<rparr>))"

definition pllua_datum_idxlist_index ::
  "('d pg_array \<Rightarrow> int list \<Rightarrow> 'd option) \<Rightarrow> nat \<Rightarrow> 'd pg_array \<Rightarrow> idxlist \<Rightarrow> int \<Rightarrow> array_exn + 'd array_result"
where
  "pllua_datum_idxlist_index get self a il i =
     bindR (push_idx il i) (\<lambda>il'.
     if cur_dim il' \<ge> il_ndim il' then pllua_datum_array_index get self a (KIdx il')
     else Inr (RIdx il'))"

text \<open>\<open>setel\<close> is \<open>array_set_element\<close>, \<open>conv\<close> the element type's constructor.\<close>

definition pllua_datum_array_newindex ::
  "('d pg_array \<Rightarrow> int list \<Rightarrow> 'd option \<Rightarrow> string + 'd pg_array) \<Rightarrow> (atree \<Rightarrow> string + 'd option) \<Rightarrow>
   'd pg_array \<Rightarrow> array_key \<Rightarrow> atree \<Rightarrow> array_exn + 'd pg_array"
where
  "pllua_datum_array_newindex setel conv a key v =
     (case (case key of KInt i \<Rightarrow> Some [c_int i] | KIdx il \<Rightarrow> Some (il_idx il) | _ \<Rightarrow> None) of
        None \<Rightarrow> Inl (ArrayErr ''bad argument (integer expected)'')
      | Some idx \<Rightarrow>
          if length idx < arr_ndims a then Inl (ArrayErr ''not enough subscripts for array'')
          else if length idx > arr_ndims a \<and> arr_ndims a > 0 then Inl (ArrayErr ''too many subscripts for array'')
          else case conv v of
                 Inl e \<Rightarrow> Inl (ArrayErr e)
               | Inr d \<Rightarrow> (case setel a idx d of Inl e \<Rightarrow> Inl (ArrayErr e) | Inr a' \<Rightarrow> Inr a'))"

definition pllua_datum_idxlist_newindex ::
  "('d pg_array \<Rightarrow> int list \<Rightarrow> 'd option \<Rightarrow> string + 'd pg_array) \<Rightarrow> (atree \<Rightarrow> string + 'd option) \<Rightarrow>
   'd pg_array \<Rightarrow> idxlist \<Rightarrow> int \<Rightarrow> atree \<Rightarrow> array_exn + 'd pg_array"
where
  "pllua_datum_idxlist_newindex setel conv a il i v =
     bindR (push_idx il i) (\<lambda>il'.
     if cur_dim il' \<noteq> il_ndim il' then Inl (ArrayErr ''incorrect number of dimensions in array assignment'')
     else pllua_datum_array_newindex setel conv a (KIdx il') v)"

text \<open>The length is the upper bound of the first dimension, or of the one after an index list.\<close>

definition pllua_datum_array_len :: "'d pg_array \<Rightarrow> idxlist option \<Rightarrow> int" where
  "pllua_datum_array_len a il =
     (let reqdim = (case il of None \<Rightarrow> 1 | Some l \<Rightarrow> cur_dim l + 1) in
      if arr_ndims a < 1 \<or> reqdim > arr_ndims a then 0
      else arr_lbound a ! (reqdim - 1) + arr_dims a ! (reqdim - 1) - 1)"

text \<open>The iterator behind \<open>pairs\<close>: its index and its end; and one call of it.\<close>

definition pllua_datum_array_pairs :: "'d pg_array \<Rightarrow> int \<times> int" where
  "pllua_datum_array_pairs a =
     (if arr_ndims a < 1 then (0, 0) else (arr_lbound a ! 0, arr_lbound a ! 0 + arr_dims a ! 0))"

definition pllua_datum_idxlist_pairs :: "'d pg_array \<Rightarrow> idxlist \<Rightarrow> int \<times> int" where
  "pllua_datum_idxlist_pairs a il =
     (arr_lbound a ! cur_dim il, arr_lbound a ! cur_dim il + arr_dims a ! cur_dim il)"

definition pllua_datum_array_next :: "int \<times> int \<Rightarrow> (int \<times> (int \<times> int)) option" where
  "pllua_datum_array_next it =
     (case it of (idx, ubound) \<Rightarrow> if idx \<ge> ubound then None else Some (idx, (idx + 1, ubound)))"

subsection \<open>Conversion to tables\<close>

text \<open>
  What the map is configured with: \<open>mapf\<close> gets the value and the indexes, \<open>nullv\<close> replaces nil.
\<close>

record mapconf =
  mapf :: "(lval \<Rightarrow> int list \<Rightarrow> string + atree) option"
  nullv :: "lval option"
  noresult :: bool

text \<open>
  \<open>tabs\<close>: the tables on the Lua stack, the deepest first; \<open>idx\<close>: the current indexes (from 0), the
  first dimension first; \<open>leftover\<close>: the values that were pushed and neither stored nor popped.
\<close>

record arrmap =
  tabs :: "atree list"
  idx :: "int list"
  nstack :: nat
  leftover :: nat

definition tab_set :: "int \<Rightarrow> atree \<Rightarrow> atree \<Rightarrow> atree" where
  "tab_set i v t = (case t of ATab es \<Rightarrow> ATab ((i, v) # es) | AVal x \<Rightarrow> AVal x)"

definition map_value :: "mapconf \<Rightarrow> int list \<Rightarrow> lval \<Rightarrow> string + atree" where
  "map_value c ix v =
     (let w = (if v = LNil then (case nullv c of None \<Rightarrow> v | Some x \<Rightarrow> x) else v)
      in case mapf c of None \<Rightarrow> Inr (AVal w) | Some f \<Rightarrow> f w ix)"

text \<open>New tables up to the depth of the array.\<close>

definition map_push :: "mapconf \<Rightarrow> nat \<Rightarrow> arrmap \<Rightarrow> arrmap" where
  "map_push c ndim s =
     s\<lparr>tabs := (if noresult c then [] else replicate (ndim - nstack s) (ATab [])) @ tabs s,
       idx := take (nstack s) (idx s) @ replicate (ndim - nstack s) 0,
       nstack := ndim\<rparr>"

text \<open>The innermost index that has not reached its end is counted up; finished tables go into the
  next one down.\<close>

fun map_carry :: "mapconf \<Rightarrow> int list \<Rightarrow> int list \<Rightarrow> nat \<Rightarrow> arrmap \<Rightarrow> arrmap" where
  "map_carry c dims lbs 0 s = s"
| "map_carry c dims lbs (Suc i) s =
     (let x = (idx s ! i + 1) mod (dims ! i); s' = s\<lparr>idx := (idx s)[i := x]\<rparr> in
      if x \<noteq> 0 then s'
      else if i > 0 then
        map_carry c dims lbs i
          (s'\<lparr>nstack := nstack s - 1,
              tabs := (if noresult c then tabs s'
                       else tab_set (idx s' ! (nstack s - 2) + lbs ! (nstack s - 2)) (hd (tabs s')) (hd (tl (tabs s')))
                              # tl (tl (tabs s')))\<rparr>)
      else s')"

definition map_store :: "mapconf \<Rightarrow> int list \<Rightarrow> atree \<Rightarrow> arrmap \<Rightarrow> arrmap" where
  "map_store c lbs v s =
     (if noresult c then s\<lparr>leftover := Suc (leftover s)\<rparr>
      else s\<lparr>tabs := tab_set (idx s ! (nstack s - 1) + lbs ! (nstack s - 1)) v (hd (tabs s)) # tl (tabs s)\<rparr>)"

definition map_elem ::
  "mapconf \<Rightarrow> ('d option \<Rightarrow> lval) \<Rightarrow> int list \<Rightarrow> int list \<Rightarrow> 'd option \<Rightarrow> arrmap \<Rightarrow> string + arrmap"
where
  "map_elem c single dims lbs d s =
     (let s1 = map_push c (length dims) s in
      bindR (map_value c (map2 (+) (idx s1) lbs) (single d)) (\<lambda>v.
      Inr (map_carry c dims lbs (length dims) (map_store c lbs v s1))))"

primrec map_elems ::
  "mapconf \<Rightarrow> ('d option \<Rightarrow> lval) \<Rightarrow> int list \<Rightarrow> int list \<Rightarrow> 'd option list \<Rightarrow> arrmap \<Rightarrow> string + arrmap"
where
  "map_elems c single dims lbs [] s = Inr s"
| "map_elems c single dims lbs (d # ds) s =
     bindR (map_elem c single dims lbs d s) (map_elems c single dims lbs ds)"

text \<open>The result is what is on top of the stack; none if results are discarded.  \<open>single\<close> is
  \<open>pllua_datum_single\<close>.\<close>

definition pllua_datum_array_map ::
  "mapconf \<Rightarrow> ('d option \<Rightarrow> lval) \<Rightarrow> 'd pg_array \<Rightarrow> string + atree option \<times> nat"
where
  "pllua_datum_array_map c single a =
     (if arr_elems a = [] then Inr (if noresult c then None else Some (ATab []), 0)
      else bindR (map_elems c single (arr_dims a) (arr_lbound a) (arr_elems a)
                    \<lparr>tabs = [], idx = [], nstack = 0, leftover = 0\<rparr>) (\<lambda>s.
           Inr (if noresult c then None else Some (hd (tabs s)), leftover s)))"

end
