(* ===== verification/Datum_Array_Loops.thy ===== *)
theory Datum_Array_Loops
  imports Datum_Array
begin

text \<open>
  The loops of array construction and of the conversion to tables (Datum_Array), each proved to be
  a recursion over the dimensions.
\<close>

subsection \<open>Construction in row-major order\<close>

text \<open>The reference: the elements of a nest of tables, innermost index fastest.\<close>

primrec collectR :: "('i \<Rightarrow> 'e + 'a list) \<Rightarrow> 'i list \<Rightarrow> 'e + 'a list" where
  "collectR f [] = Inr []"
| "collectR f (i # is) = bindR (f i) (\<lambda>xs. bindR (collectR f is) (\<lambda>ys. Inr (xs @ ys)))"

primrec row_major ::
  "(lval \<Rightarrow> int \<Rightarrow> string + atree) \<Rightarrow> (atree \<Rightarrow> string + 'd option) \<Rightarrow> int list \<Rightarrow> atree \<Rightarrow> string + 'd option list"
where
  "row_major ix conv [] t = bindR (conv t) (\<lambda>d. Inr [d])"
| "row_major ix conv (d # ds) t = collectR (\<lambda>i. bindR (cur_geti ix t i) (row_major ix conv ds)) [1..d]"

definition after :: "int list \<Rightarrow> atree list \<Rightarrow> int list \<Rightarrow> 'd option list \<Rightarrow> 'd fromtab" where
  "after dims ts cs xs = (case advance dims ts cs of (ts', cs') \<Rightarrow> \<lparr>data = ts', cur = cs', vals = xs\<rparr>)"

lemma step_down:
  assumes "length (t # ts) < length dims"
  shows "fromtable_step ix conv dims \<lparr>data = t # ts, cur = c # cs, vals = xs\<rparr> =
         bindR (cur_geti ix t c) (\<lambda>v. fromtable_step ix conv dims \<lparr>data = v # t # ts, cur = 1 # c # cs, vals = xs\<rparr>)"
proof -
  have "length dims - length (t # ts) = Suc (length dims - length (t # t # ts))"
    using assms by simp
  then show ?thesis by (simp add: fromtable_step_def bindR_assoc)
qed

lemma step_leaf:
  assumes "length (t # ts) = length dims"
  shows "fromtable_step ix conv dims \<lparr>data = t # ts, cur = c # cs, vals = xs\<rparr> =
         bindR (bindR (cur_geti ix t c) conv) (\<lambda>d. Inr (after dims (t # ts) (c # cs) (xs @ [d])))"
  using assms by (cases "advance dims ts cs") (auto simp: fromtable_step_def bindR_assoc after_def)

lemma advance_top:
  "after dims (t # ts) (c # cs) xs =
     (if c + 1 > dims ! length cs then after dims ts cs xs else \<lparr>data = t # ts, cur = (c + 1) # cs, vals = xs\<rparr>)"
  by (simp add: after_def)

abbreviation pos_prod :: "int list \<Rightarrow> nat" where
  "pos_prod ds \<equiv> nat (prod_list ds)"

lemma pos_prod_Cons: "0 < d \<Longrightarrow> list_all ((<) 0) ds \<Longrightarrow> pos_prod (d # ds) = nat d * pos_prod ds"
  by (simp add: nat_mult_distrib)

lemma prod_list_pos: "list_all ((<) (0::int)) ds \<Longrightarrow> 0 < prod_list ds"
  by (induction ds) auto

lemma loop_level:
  assumes "dims = pre @ d # ds" "list_all ((<) 0) (d # ds)" "length ts = length pre" "length cs = length pre"
    and "1 \<le> c" "c \<le> d"
  shows "fromtable_loop ix conv dims (nat (d - c + 1) * pos_prod ds + n) \<lparr>data = t # ts, cur = c # cs, vals = xs\<rparr> =
         bindR (collectR (\<lambda>i. bindR (cur_geti ix t i) (row_major ix conv ds)) [c..d])
           (\<lambda>ys. fromtable_loop ix conv dims n (after dims ts cs (xs @ ys)))"
  using assms
proof (induction ds arbitrary: pre d ts cs t c xs n)
  case Nil
  from Nil.prems(5,6) show ?case
  proof (induction "nat (d - c)" arbitrary: c xs)
    case 0
    then have "c = d" by simp
    then show ?case
      using Nil.prems step_leaf [of t ts dims ix conv c cs xs]
      by (auto simp: advance_top nth_append bindR_def split: sum.splits)
  next
    case (Suc k)
    have split: "[c..d] = c # [c + 1..d]" using Suc by (simp add: upto_rec1)
    have n: "nat (d - c + 1) * pos_prod [] + n = Suc (nat (d - (c + 1) + 1) * pos_prod [] + n)"
      using Suc by simp
    have cd: "\<not> c + 1 > dims ! length cs" using Suc Nil.prems by (simp add: nth_append)
    have IH: "fromtable_loop ix conv dims (nat (d - (c + 1) + 1) * pos_prod [] + n)
        \<lparr>data = t # ts, cur = (c + 1) # cs, vals = ys\<rparr> =
        bindR (collectR (\<lambda>i. bindR (cur_geti ix t i) (row_major ix conv [])) [c + 1..d])
          (\<lambda>zs. fromtable_loop ix conv dims n (after dims ts cs (ys @ zs)))" for ys
      using Suc by (intro Suc.hyps(1)) auto
    show ?case
      unfolding split n using Nil.prems step_leaf [of t ts dims ix conv c cs xs] cd IH
      by (auto simp: advance_top bindR_def split: sum.splits)
  qed
next
  case (Cons e ds)
  let ?one = "\<lambda>i. bindR (cur_geti ix t i) (row_major ix conv (e # ds))"
  have pos: "0 < e" "list_all ((<) 0) ds" using Cons.prems(2) by simp_all
  have down: "fromtable_loop ix conv dims (pos_prod (e # ds) + m) \<lparr>data = t # ts, cur = c # cs, vals = xs\<rparr> =
      bindR (?one c) (\<lambda>ys. fromtable_loop ix conv dims m (after dims (t # ts) (c # cs) (xs @ ys)))" for c xs m
  proof -
    have ge1: "0 < pos_prod (e # ds)" using prod_list_pos [of "e # ds"] Cons.prems(2) by simp
    then obtain k where k: "pos_prod (e # ds) + m = Suc k" by (cases "pos_prod (e # ds) + m") auto
    have "fromtable_loop ix conv dims (Suc k) \<lparr>data = t # ts, cur = c # cs, vals = xs\<rparr> =
        bindR (cur_geti ix t c) (\<lambda>v.
          fromtable_loop ix conv dims (Suc k) \<lparr>data = v # t # ts, cur = 1 # c # cs, vals = xs\<rparr>)"
      using Cons.prems step_down [of t ts dims ix conv c cs xs] by (simp add: bindR_assoc)
    moreover have "fromtable_loop ix conv dims (Suc k) \<lparr>data = v # t # ts, cur = 1 # c # cs, vals = xs\<rparr> =
        bindR (row_major ix conv (e # ds) v)
          (\<lambda>ys. fromtable_loop ix conv dims m (after dims (t # ts) (c # cs) (xs @ ys)))" for v
    proof -
      have "pos_prod (e # ds) = nat (e - 1 + 1) * pos_prod ds" using pos_prod_Cons [OF pos] by simp
      then have "fromtable_loop ix conv dims (pos_prod (e # ds) + m) \<lparr>data = v # t # ts, cur = 1 # c # cs, vals = xs\<rparr> =
        bindR (collectR (\<lambda>i. bindR (cur_geti ix v i) (row_major ix conv ds)) [1..e])
          (\<lambda>ys. fromtable_loop ix conv dims m (after dims (t # ts) (c # cs) (xs @ ys)))"
        using Cons.prems pos Cons.IH [where pre = "pre @ [d]" and d = e and ts = "t # ts" and cs = "c # cs" and c = 1]
        by simp
      then show ?thesis using k by simp
    qed
    ultimately show ?thesis unfolding k by (simp add: bindR_assoc)
  qed
  from Cons.prems(5,6) show ?case
  proof (induction "nat (d - c)" arbitrary: c xs)
    case 0
    then have c: "c = d" by simp
    then have "c + 1 > dims ! length cs" using Cons.prems by (simp add: nth_append)
    then show ?case
      using down [where c = d and xs = xs and m = n] c by (simp add: advance_top bindR_assoc del: row_major.simps)
  next
    case (Suc k)
    have split: "[c..d] = c # [c + 1..d]" using Suc by (simp add: upto_rec1)
    have n: "nat (d - c + 1) * pos_prod (e # ds) + n =
        pos_prod (e # ds) + (nat (d - (c + 1) + 1) * pos_prod (e # ds) + n)"
    proof -
      have "nat (d - c + 1) = Suc (nat (d - (c + 1) + 1))" using Suc by simp
      then show ?thesis by simp
    qed
    have cd: "\<not> c + 1 > dims ! length cs" using Suc Cons.prems by (simp add: nth_append)
    have IH: "fromtable_loop ix conv dims (nat (d - (c + 1) + 1) * pos_prod (e # ds) + n)
        \<lparr>data = t # ts, cur = (c + 1) # cs, vals = ys\<rparr> =
        bindR (collectR ?one [c + 1..d]) (\<lambda>zs. fromtable_loop ix conv dims n (after dims ts cs (ys @ zs)))" for ys
      using Suc by (intro Suc.hyps(1)) auto
    show ?case
      unfolding split n down collectR.simps advance_top using cd IH
      by (simp add: bindR_assoc del: row_major.simps)
  qed
qed

subsection \<open>Conversion to tables\<close>

text \<open>The reference: one table per prefix of the indexes; \<open>f\<close> gives the values from their indexes.\<close>

primrec mapR :: "('i \<Rightarrow> 'e + 'a) \<Rightarrow> 'i list \<Rightarrow> 'e + 'a list" where
  "mapR f [] = Inr []"
| "mapR f (i # is) = bindR (f i) (\<lambda>x. bindR (mapR f is) (\<lambda>xs. Inr (x # xs)))"

definition chunk :: "nat \<Rightarrow> 'a list \<Rightarrow> nat \<Rightarrow> 'a list" where
  "chunk p xs i = take p (drop (i * p) xs)"

definition num_tab :: "int \<Rightarrow> atree list \<Rightarrow> atree" where
  "num_tab l ts = ATab (rev (zip (map (\<lambda>i. int i + l) [0..<length ts]) ts))"

fun nested ::
  "(int list \<Rightarrow> 'd option \<Rightarrow> string + atree) \<Rightarrow> int list \<Rightarrow> int list \<Rightarrow> int list \<Rightarrow> 'd option list \<Rightarrow> string + atree"
where
  "nested f (d # ds) (l # ls) path xs =
     bindR (mapR (\<lambda>i. nested f ds ls (path @ [int i + l]) (chunk (nat (prod_list ds)) xs i)) [0..<nat d])
       (\<lambda>ts. Inr (num_tab l ts))"
| "nested f _ _ path xs = f path (hd xs)"

text \<open>States with tables down to level \<open>k\<close> and the indexes \<open>p\<close> so far.\<close>

definition at_level :: "nat \<Rightarrow> nat \<Rightarrow> int list \<Rightarrow> atree list \<Rightarrow> arrmap" where
  "at_level n lo p ts = \<lparr>tabs = ts, idx = p @ replicate (n - length p) 0, nstack = length p, leftover = lo\<rparr>"

lemma map_push_level:
  assumes "length p < n" "\<not> noresult c"
  shows "map_push c n (at_level n lo p ts) = map_push c n (at_level n lo (p @ [0]) (ATab [] # ts))"
proof -
  have "n - length p = Suc (n - Suc (length p))" using assms by simp
  then show ?thesis
    using assms by (simp add: map_push_def at_level_def replicate_app_Cons_same)
qed

lemma map_elem_level:
  assumes "length p < n" "\<not> noresult c" "n = length dims"
  shows "map_elem c single dims lbs d (at_level n lo p ts) =
         map_elem c single dims lbs d (at_level n lo (p @ [0]) (ATab [] # ts))"
  using map_push_level [OF assms(1,2)] assms(3) by (simp add: map_elem_def)

text \<open>A finished table goes into the one below, whose index is counted up.\<close>

definition finish :: "mapconf \<Rightarrow> int list \<Rightarrow> int list \<Rightarrow> nat \<Rightarrow> int list \<Rightarrow> atree \<Rightarrow> atree list \<Rightarrow> arrmap" where
  "finish c dims lbs lo p t ts =
     (if p = [] then at_level (length dims) lo [0] [t]
      else map_carry c dims lbs (length p)
             (at_level (length dims) lo p
                (tab_set (last p + lbs ! (length p - 1)) t (hd ts) # tl ts)))"

lemma map_carry_top:
  assumes "length p < length dims" "\<not> noresult c" "d = dims ! length p" "0 \<le> i" "i < d"
    and "p = [] \<Longrightarrow> ts = []"
  shows "map_carry c dims lbs (Suc (length p)) (at_level (length dims) lo (p @ [i]) (t # ts)) =
         (if i + 1 < d then at_level (length dims) lo (p @ [i + 1]) (t # ts) else finish c dims lbs lo p t ts)"
proof (cases "i + 1 < d")
  case True
  then show ?thesis
    using assms by (simp add: at_level_def nth_append list_update_append Let_def)
next
  case False
  then have "i + 1 = d" using assms by simp
  moreover have "p @ 0 # replicate (length dims - Suc (length p)) 0 = p @ replicate (length dims - length p) (0::int)"
    using assms(1) by (metis Suc_diff_Suc replicate_Suc)
  ultimately show ?thesis
    using assms by (auto simp: at_level_def finish_def nth_append list_update_append Let_def last_conv_nth)
qed

lemma map_carry_nat:
  assumes "length p < length dims" "\<not> noresult c" "d = dims ! length p" "i < nat d"
    and "p = [] \<Longrightarrow> ts = []"
  shows "map_carry c dims lbs (Suc (length p)) (at_level (length dims) lo (p @ [int i]) (u # ts)) =
         (if Suc i < nat d then at_level (length dims) lo (p @ [int (Suc i)]) (u # ts)
          else finish c dims lbs lo p u ts)"
proof -
  have "int i + 1 < d \<longleftrightarrow> Suc i < nat d" "int i < d" using assms(4) by auto
  then show ?thesis
    using map_carry_top [OF assms(1-3), of "int i" ts lbs lo u] assms(5)
    by (simp add: add.commute del: map_carry.simps)
qed

primrec add_entries :: "int \<Rightarrow> nat \<Rightarrow> atree list \<Rightarrow> atree \<Rightarrow> atree" where
  "add_entries l i [] t = t"
| "add_entries l i (u # us) t = add_entries l (Suc i) us (tab_set (int i + l) u t)"

lemma add_entries_eq:
  "add_entries l i us (ATab es) = ATab (rev (zip (map (\<lambda>j. int j + l) [i..<i + length us]) us) @ es)"
proof (induction us arbitrary: i es)
  case (Cons u us)
  have "[i..<i + length (u # us)] = i # [Suc i..<Suc i + length us]"
    by (simp add: upt_rec)
  then show ?case using Cons by (simp add: tab_set_def)
qed simp

lemma add_entries_num_tab: "add_entries l 0 us (ATab []) = num_tab l us"
  by (simp add: add_entries_eq num_tab_def)

abbreviation elem_fun :: "mapconf \<Rightarrow> ('d option \<Rightarrow> lval) \<Rightarrow> int list \<Rightarrow> 'd option \<Rightarrow> string + atree" where
  "elem_fun c single path d \<equiv> map_value c path (single d)"

lemma zip_snoc_left: "length p < length ys \<Longrightarrow> zip (p @ [x]) ys = zip p ys @ [(x, ys ! length p)]"
proof (induction p arbitrary: ys)
  case Nil
  then show ?case by (cases ys) auto
next
  case (Cons a p)
  then show ?case by (cases ys) auto
qed

lemma map_elem_full:
  assumes "Suc (length p) = length dims" "length lbs = length dims" "\<not> noresult c"
  shows "map_elem c single dims lbs d (at_level (length dims) lo (p @ [int i]) (t # ts)) =
         bindR (elem_fun c single (map2 (+) p lbs @ [int i + lbs ! length p]) d) (\<lambda>v.
         Inr (map_carry c dims lbs (Suc (length p))
                (at_level (length dims) lo (p @ [int i]) (tab_set (int i + lbs ! length p) v t # ts))))"
proof -
  have "map2 (+) (p @ [int i]) lbs = map2 (+) p lbs @ [int i + lbs ! length p]"
    using zip_snoc_left [of p lbs "int i"] assms by simp
  moreover have "length dims - Suc 0 = length p" using assms by simp
  ultimately show ?thesis
    using assms by (simp add: map_elem_def map_push_def at_level_def map_store_def nth_append)
qed

lemma chunk_split: "length xs = Suc m * p \<Longrightarrow> chunk p xs 0 = take p xs \<and> chunk p xs (Suc i) = chunk p (drop p xs) i"
  by (simp add: chunk_def add.commute)

lemma mapR_cong: "(\<And>i. i \<in> set is \<Longrightarrow> f i = g i) \<Longrightarrow> mapR f is = mapR g is"
  by (induction "is") simp_all

lemma mapR_shift: "mapR f (map Suc is) = mapR (\<lambda>i. f (Suc i)) is"
  by (induction "is") simp_all

lemma drop_ConsD: "drop k xs = y # ys \<Longrightarrow> k < length xs \<and> xs ! k = y \<and> drop (Suc k) xs = ys"
  by (metis Cons_nth_drop_Suc drop_eq_Nil2 leI list.distinct(1) list.inject)

text \<open>From one index to all of a level; \<open>g\<close> gives the value at an index, \<open>fin\<close> what comes after.\<close>

lemma level_loop:
  assumes one: "\<And>i t xs zs. i < m \<Longrightarrow> length xs = q \<Longrightarrow>
      run (xs @ zs) (st i t) = bindR (g i xs) (\<lambda>u.
        run zs (if Suc i < m then st (Suc i) (tab_set (int i + l) u t) else fin (tab_set (int i + l) u t)))"
    and "i < m" "length xs = (m - i) * q"
  shows "run (xs @ ys) (st i t) =
         bindR (mapR (\<lambda>j. g j (chunk q xs (j - i))) [i..<m]) (\<lambda>us. run ys (fin (add_entries l i us t)))"
  using assms(2,3)
proof (induction "m - Suc i" arbitrary: i xs t)
  case 0
  then have m: "m = Suc i" by linarith
  then have "length xs = q" using 0 by simp
  then show ?case using one [of i xs ys t] m by (simp add: chunk_def bindR_assoc)
next
  case (Suc k)
  have split: "[i..<m] = i # [Suc i..<m]" using Suc by (simp add: upt_rec)
  have len: "length xs = Suc (m - Suc i) * q" using Suc by (metis Suc_diff_Suc)
  have shift: "mapR (\<lambda>j. g j (chunk q xs (j - i))) [Suc i..<m] =
               mapR (\<lambda>j. g j (chunk q (drop q xs) (j - Suc i))) [Suc i..<m]"
  proof (rule mapR_cong)
    fix j assume "j \<in> set [Suc i..<m]"
    then have "j - i = Suc (j - Suc i)" by auto
    then show "g j (chunk q xs (j - i)) = g j (chunk q (drop q xs) (j - Suc i))"
      using chunk_split [OF len, of "j - Suc i"] by simp
  qed
  have "run (xs @ ys) (st i t) = bindR (g i (take q xs)) (\<lambda>u. run (drop q xs @ ys) (st (Suc i) (tab_set (int i + l) u t)))"
  proof -
    have "length (take q xs) = q" "Suc i < m" using Suc len by auto
    moreover have "take q xs @ drop q xs @ ys = xs @ ys"
      by (simp only: append_assoc [symmetric] append_take_drop_id)
    ultimately show ?thesis
      using one [OF Suc(3), of "take q xs" "drop q xs @ ys" t] by (simp only: if_True simp_thms)
  qed
  also have "\<dots> = bindR (g i (take q xs)) (\<lambda>u.
      bindR (mapR (\<lambda>j. g j (chunk q (drop q xs) (j - Suc i))) [Suc i..<m])
        (\<lambda>us. run ys (fin (add_entries l (Suc i) us (tab_set (int i + l) u t)))))"
    using Suc len by (intro bindR_cong refl Suc.hyps(1)) auto
  finally show ?case
    unfolding split using shift chunk_split [OF len] by (simp add: bindR_assoc)
qed

lemma map_level:
  assumes "length p = k" "drop k dims = d # ds" "drop k lbs = l # ls" "length lbs = length dims"
    and "list_all ((<) 0) (d # ds)" "\<not> noresult c" "p = [] \<Longrightarrow> ts = []"
    and "i < nat d" "length xs = (nat d - i) * nat (prod_list ds)"
  shows "map_elems c single dims lbs (xs @ ys) (at_level (length dims) lo (p @ [int i]) (t # ts)) =
         bindR (mapR (\<lambda>j. nested (elem_fun c single) ds ls (map2 (+) p lbs @ [int j + l])
                            (chunk (nat (prod_list ds)) xs (j - i))) [i..<nat d])
           (\<lambda>us. map_elems c single dims lbs ys (finish c dims lbs lo p (add_entries l i us t) ts))"
  using assms
proof (induction ds arbitrary: p k d l ls i xs ys t ts)
  case Nil
  have k: "k < length dims" "dims ! k = d" "length dims = Suc k" "lbs ! k = l" "ls = []"
    using drop_ConsD [OF Nil.prems(2)] drop_ConsD [OF Nil.prems(3)] Nil.prems(4) by simp_all
  show ?case
  proof (rule level_loop [where run = "map_elems c single dims lbs" and l = l and q = "nat (prod_list [])" and
      st = "\<lambda>i t. at_level (length dims) lo (p @ [int i]) (t # ts)" and
      fin = "\<lambda>t. finish c dims lbs lo p t ts" and
      g = "\<lambda>j. nested (elem_fun c single) [] ls (map2 (+) p lbs @ [int j + l])"])
    fix i t xs zs assume i: "i < nat d" and "length (xs :: 'a option list) = nat (prod_list [])"
    then obtain x where x: "xs = [x]" by (cases xs) auto
    show "map_elems c single dims lbs (xs @ zs) (at_level (length dims) lo (p @ [int i]) (t # ts)) =
        bindR (nested (elem_fun c single) [] ls (map2 (+) p lbs @ [int i + l]) xs) (\<lambda>u.
          map_elems c single dims lbs zs
            (if Suc i < nat d then at_level (length dims) lo (p @ [int (Suc i)]) (tab_set (int i + l) u t # ts)
             else finish c dims lbs lo p (tab_set (int i + l) u t) ts))"
    proof -
      have "map_elem c single dims lbs x (at_level (length dims) lo (p @ [int i]) (t # ts)) =
          bindR (elem_fun c single (map2 (+) p lbs @ [int i + l]) x) (\<lambda>u.
          Inr (map_carry c dims lbs (Suc (length p))
                (at_level (length dims) lo (p @ [int i]) (tab_set (int i + l) u t # ts))))"
        using map_elem_full [of p dims lbs c single x lo i t ts] Nil.prems k by simp
      moreover have "map_carry c dims lbs (Suc (length p))
                (at_level (length dims) lo (p @ [int i]) (u # ts)) =
            (if Suc i < nat d then at_level (length dims) lo (p @ [int (Suc i)]) (u # ts)
             else finish c dims lbs lo p u ts)" for u
        using Nil.prems k i by (intro map_carry_nat) auto
      ultimately show ?thesis by (simp add: x bindR_assoc k(5) del: map_carry.simps)
    qed
  qed (use Nil.prems in auto)
next
  case (Cons e ds)
  have k: "k < length dims" "dims ! k = d" "lbs ! k = l" "drop (Suc k) dims = e # ds" "drop (Suc k) lbs = ls"
    using drop_ConsD [OF Cons.prems(2)] drop_ConsD [OF Cons.prems(3)] Cons.prems(4) by simp_all
  then obtain l' ls' where ls: "ls = l' # ls'"
    using Cons.prems(4) by (cases ls) (metis drop_eq_Nil2 list.distinct(1), auto)
  have pos: "0 < e" "list_all ((<) 0) ds" using Cons.prems(5) by simp_all
  show ?case
  proof (rule level_loop [where run = "map_elems c single dims lbs" and l = l and q = "nat (prod_list (e # ds))" and
      st = "\<lambda>i t. at_level (length dims) lo (p @ [int i]) (t # ts)" and
      fin = "\<lambda>t. finish c dims lbs lo p t ts" and
      g = "\<lambda>j. nested (elem_fun c single) (e # ds) ls (map2 (+) p lbs @ [int j + l])"])
    fix i t xs zs assume i: "i < nat d" and len: "length (xs :: 'a option list) = nat (prod_list (e # ds))"
    let ?st = "at_level (length dims) lo (p @ [int i]) (t # ts)"
    have len': "length xs = (nat e - 0) * nat (prod_list ds)" using len pos by (simp add: nat_mult_distrib)
    moreover have "0 < nat (prod_list ds)" using prod_list_pos [OF pos(2)] by simp
    ultimately obtain x xs' where x: "xs = x # xs'" using pos(1) by (cases xs) auto
    have "map_elems c single dims lbs (xs @ zs) ?st =
          map_elems c single dims lbs (xs @ zs) (at_level (length dims) lo ((p @ [int i]) @ [int 0]) (ATab [] # t # ts))"
      using x Cons.prems k drop_ConsD [OF k(4)] map_elem_level [of "p @ [int i]" "length dims" c dims single lbs x lo "t # ts"]
      by simp
    also have "\<dots> = bindR (mapR (\<lambda>j. nested (elem_fun c single) ds ls' (map2 (+) (p @ [int i]) lbs @ [int j + l'])
                            (chunk (nat (prod_list ds)) xs (j - 0))) [0..<nat e])
           (\<lambda>us. map_elems c single dims lbs zs (finish c dims lbs lo (p @ [int i]) (add_entries l' 0 us (ATab [])) (t # ts)))"
      (is "_ = ?rhs")
      using Cons.prems k ls pos len'
      by (intro Cons.IH [where k = "Suc k"]) auto
    finally have eq: "map_elems c single dims lbs (xs @ zs) ?st = ?rhs" .
    show "map_elems c single dims lbs (xs @ zs) ?st =
        bindR (nested (elem_fun c single) (e # ds) ls (map2 (+) p lbs @ [int i + l]) xs) (\<lambda>u.
          map_elems c single dims lbs zs
            (if Suc i < nat d then at_level (length dims) lo (p @ [int (Suc i)]) (tab_set (int i + l) u t # ts)
             else finish c dims lbs lo p (tab_set (int i + l) u t) ts))"
    proof -
      have "finish c dims lbs lo (p @ [int i]) u (t # ts) =
            (if Suc i < nat d then at_level (length dims) lo (p @ [int (Suc i)]) (tab_set (int i + l) u t # ts)
             else finish c dims lbs lo p (tab_set (int i + l) u t) ts)" for u
        using map_carry_nat [of p dims c d i ts lbs lo "tab_set (int i + l) u t"] Cons.prems k i
        by (simp add: finish_def [of c dims lbs lo "p @ [int i]"] del: map_carry.simps)
      moreover have "map2 (+) (p @ [int i]) lbs = map2 (+) p lbs @ [int i + l]"
        using zip_snoc_left [of p lbs "int i"] Cons.prems k by simp
      ultimately show ?thesis unfolding eq by (simp add: bindR_assoc add_entries_num_tab ls)
    qed
  qed (use Cons.prems in \<open>auto simp: ac_simps\<close>)
qed

end
