(* ===== verification/Datum_Array_Props.thy ===== *)
theory Datum_Array_Props
  imports Datum_Array_Loops
begin

text \<open>
  Properties of arrays (Datum_Array): what the constructor puts where, what an index chain reads
  back, and what the conversion to tables builds.
\<close>

subsection \<open>Index tuples\<close>

text \<open>All index tuples within the dimensions, the last index fastest; the offset of a tuple as
  \<open>ArrayGetOffset\<close> counts it.\<close>

primrec box :: "int list \<Rightarrow> int list list" where
  "box [] = [[]]"
| "box (d # ds) = concat (map (\<lambda>i. map ((#) i) (box ds)) [1..d])"

fun pg_offset :: "int list \<Rightarrow> int list \<Rightarrow> int list \<Rightarrow> nat" where
  "pg_offset (d # ds) (l # ls) (i # p) = nat (i - l) * pos_prod ds + pg_offset ds ls p"
| "pg_offset _ _ _ = 0"

fun in_bounds :: "int list \<Rightarrow> int list \<Rightarrow> int list \<Rightarrow> bool" where
  "in_bounds (d # ds) (l # ls) (i # p) \<longleftrightarrow> l \<le> i \<and> i < l + d \<and> in_bounds ds ls p"
| "in_bounds [] [] [] \<longleftrightarrow> True"
| "in_bounds _ _ _ \<longleftrightarrow> False"

abbreviation ones :: "int list \<Rightarrow> int list" where
  "ones ds \<equiv> map (\<lambda>_. 1) ds"

lemma box_in_bounds: "p \<in> set (box ds) \<longleftrightarrow> in_bounds ds (ones ds) p"
proof (induction ds arbitrary: p)
  case Nil
  then show ?case by (cases p) simp_all
next
  case (Cons d ds)
  then show ?case by (cases p) (auto simp: image_iff)
qed

lemma length_box: "list_all ((<) 0) ds \<Longrightarrow> length (box ds) = pos_prod ds"
  by (induction ds) (simp_all add: length_concat comp_def sum_list_triv pos_prod_Cons del: prod_list.Cons)

lemma in_bounds_offset:
  "in_bounds ds ls p \<Longrightarrow> list_all ((<) 0) ds \<Longrightarrow> pg_offset ds ls p < pos_prod ds"
proof (induction ds ls p rule: in_bounds.induct)
  case (1 d ds l ls i p)
  then have "nat (i - l) < nat d" "pg_offset ds ls p < pos_prod ds" by auto
  then have "nat (i - l) * pos_prod ds + pg_offset ds ls p < Suc (nat (i - l)) * pos_prod ds" by simp
  also have "\<dots> \<le> nat d * pos_prod ds" using \<open>nat (i - l) < nat d\<close> by (intro mult_right_mono) auto
  finally show ?case using 1 by (simp add: pos_prod_Cons del: prod_list.Cons)
qed simp_all

lemma nth_concat_blocks:
  assumes "\<And>x. x \<in> set xs \<Longrightarrow> length (f x) = q" "i < length xs" "j < q"
  shows "concat (map f xs) ! (i * q + j) = f (xs ! i) ! j"
  using assms
proof (induction xs arbitrary: i)
  case (Cons x xs)
  show ?case
  proof (cases i)
    case 0
    then show ?thesis using Cons.prems by (simp add: nth_append)
  next
    case (Suc k)
    then have "concat (map f xs) ! (k * q + j) = f (xs ! k) ! j"
      using Cons by (intro Cons.IH) auto
    then show ?thesis using Cons.prems Suc by (simp add: nth_append add.assoc)
  qed
qed simp

lemma box_nth:
  "in_bounds ds (ones ds) p \<Longrightarrow> list_all ((<) 0) ds \<Longrightarrow> box ds ! pg_offset ds (ones ds) p = p"
proof (induction ds arbitrary: p)
  case Nil
  then show ?case by (cases p) simp_all
next
  case (Cons d ds)
  from Cons.prems obtain i p' where p: "p = i # p'" "1 \<le> i" "i < 1 + d" "in_bounds ds (ones ds) p'"
    by (cases p) auto
  have off: "pg_offset ds (ones ds) p' < pos_prod ds"
    using Cons.prems in_bounds_offset [OF p(4)] by simp
  have "box (d # ds) ! (nat (i - 1) * pos_prod ds + pg_offset ds (ones ds) p') =
        map ((#) ([1..d] ! nat (i - 1))) (box ds) ! pg_offset ds (ones ds) p'"
    unfolding box.simps using Cons.prems p off by (intro nth_concat_blocks) (auto simp: length_box)
  then show ?case
    using Cons p off length_box [of ds] by (simp add: nth_upto)
qed

subsection \<open>Construction\<close>

text \<open>What is in a nest of tables at an index tuple, and nests as deep as the dimensions.\<close>

fun path_get :: "atree \<Rightarrow> int list \<Rightarrow> atree" where
  "path_get t [] = t"
| "path_get (ATab es) (i # p) = path_get (tab_get es i) p"
| "path_get (AVal v) (i # p) = ANil"

fun nest :: "int list \<Rightarrow> atree \<Rightarrow> bool" where
  "nest [] t \<longleftrightarrow> (case t of AVal _ \<Rightarrow> True | ATab _ \<Rightarrow> False)"
| "nest (d # ds) (ATab es) \<longleftrightarrow> list_all (\<lambda>i. nest ds (tab_get es i)) [1..d]"
| "nest (d # ds) (AVal v) \<longleftrightarrow> v = LNil"

lemma path_get_nil [simp]: "path_get ANil p = ANil"
  by (cases p) simp_all

lemma nest_nil [simp]: "nest ds ANil"
  by (cases ds) simp_all

lemma mapR_append: "mapR f (xs @ ys) = bindR (mapR f xs) (\<lambda>us. bindR (mapR f ys) (\<lambda>vs. Inr (us @ vs)))"
  by (induction xs) (simp_all add: bindR_assoc bindR_right)

lemma mapR_map: "mapR f (map g xs) = mapR (\<lambda>x. f (g x)) xs"
  by (induction xs) simp_all

lemma collectR_mapR: "collectR (\<lambda>i. mapR f (g i)) is = mapR f (concat (map g is))"
  by (induction "is") (simp_all add: mapR_append)

lemma collectR_cong: "(\<And>i. i \<in> set is \<Longrightarrow> f i = g i) \<Longrightarrow> collectR f is = collectR g is"
  by (induction "is") simp_all

lemma mapR_Inr: "mapR f is = Inr xs \<Longrightarrow> length xs = length is \<and> (\<forall>k < length is. f (is ! k) = Inr (xs ! k))"
proof (induction "is" arbitrary: xs)
  case (Cons i "is")
  then obtain y ys where "f i = Inr y" "mapR f is = Inr ys" "xs = y # ys"
    by (auto simp: bindR_eq_Inr)
  then show ?case using Cons.IH by (auto simp: nth_Cons split: nat.splits)
qed simp

lemma row_major_box:
  "nest ds t \<Longrightarrow> row_major ix conv ds t = mapR (\<lambda>p. conv (path_get t p)) (box ds)"
proof (induction ds arbitrary: t)
  case (Cons d ds)
  have get: "bindR (cur_geti ix t i) (row_major ix conv ds) = mapR (\<lambda>p. conv (path_get t p)) (map ((#) i) (box ds))"
    if "i \<in> set [1..d]" for i
  proof (cases t)
    case (AVal v)
    then show ?thesis using Cons by (simp add: cur_geti_def mapR_map)
  next
    case (ATab es)
    then show ?thesis using Cons that by (simp add: cur_geti_def mapR_map list_all_iff)
  qed
  then show ?case
    by (simp add: collectR_mapR cong: collectR_cong del: set_upto)
qed simp

lemma count_elems_Inr: "count_elems n ds = Inr m \<Longrightarrow> m = n * prod_list ds"
proof (induction ds arbitrary: n)
  case (Cons d ds)
  then have "m = n * d * prod_list ds" by (auto split: if_splits)
  then show ?case by (simp add: mult.assoc)
qed simp

lemma array_nelems_Inr: "array_nelems dims = Inr n \<Longrightarrow> dims \<noteq> [] \<Longrightarrow> n = prod_list dims"
  by (cases dims) (auto simp: array_nelems_def bindR_eq_Inr dest: count_elems_Inr split: if_splits)

lemma fromtable_box:
  assumes "nest dims t" "dims \<noteq> []" "list_all ((<) 0) dims" "array_nelems dims = Inr n"
  shows "pllua_typeinfo_array_fromtable ix conv t dims =
         bindR (mapR (\<lambda>p. conv (path_get t p)) (box dims))
           (\<lambda>xs. Inr \<lparr>arr_dims = dims, arr_lbound = ones dims, arr_elems = xs\<rparr>)"
proof -
  obtain d ds where dims: "dims = d # ds" using assms(2) by (cases dims) auto
  have n: "n = prod_list dims" "0 < n"
    using array_nelems_Inr assms prod_list_pos by blast+
  have "fromtable_loop ix conv dims (nat n) \<lparr>data = [t], cur = [1], vals = []\<rparr> =
      bindR (row_major ix conv dims t) (\<lambda>ys. Inr (after dims [] [] ys))"
    using loop_level [of dims "[]" d ds "[]" "[]" 1 ix conv 0 t "[]"] assms dims n pos_prod_Cons [of d ds] by simp
  then show ?thesis
    using n assms by (simp add: pllua_typeinfo_array_fromtable_def row_major_box bindR_assoc after_def)
qed

text \<open>The constructor's dimensions: at most \<open>MAXDIM\<close>, positive, each an \<open>int\<close>.\<close>

definition dims_ok :: "int list \<Rightarrow> bool" where
  "dims_ok dims \<longleftrightarrow>
     dims \<noteq> [] \<and> length dims \<le> MAXDIM \<and> list_all ((<) 0) dims \<and> list_all (\<lambda>d. d \<le> INT_MAX) dims \<and>
     (case array_nelems dims of Inl _ \<Rightarrow> False | Inr _ \<Rightarrow> True)"

abbreviation ints :: "int list \<Rightarrow> atree list" where
  "ints \<equiv> map (\<lambda>d. AVal (LInt d))"

lemma array_call_box:
  assumes "nest dims t" "is_tab t" "dims_ok dims"
  shows "pllua_typeinfo_array_call e tointeger ix conv (t # ints dims) =
         bindR (mapR (\<lambda>p. conv (path_get t p)) (box dims))
           (\<lambda>xs. Inr \<lparr>arr_dims = dims, arr_lbound = ones dims, arr_elems = xs\<rparr>)"
proof -
  have pos: "list_all ((<) 0) dims" and ne: "dims \<noteq> []" using assms(3) by (simp_all add: dims_ok_def)
  obtain n where n: "array_nelems dims = Inr n"
    using assms(3) by (auto simp: dims_ok_def split: sum.splits)
  have "map (dim_of tointeger \<circ> (\<lambda>d. AVal (LInt d))) dims = dims"
    using assms(3) by (intro map_idI) (auto simp: dims_ok_def list_all_iff dim_of_def INT_MAX_def intro!: c_int_id)
  moreover have "\<not> list_ex (\<lambda>d. d < 0 \<or> d = 0 \<and> length dims > 1) dims"
    using pos by (auto simp: list_ex_iff list_all_iff)
  moreover have "arg_integer (hd (ints dims)) \<noteq> None" using ne by (cases dims) auto
  ultimately show ?thesis
    using assms(2,3) ne fromtable_box [OF assms(1) ne pos n]
    by (simp add: pllua_typeinfo_array_call_def dims_ok_def)
qed

subsection \<open>Access\<close>

text \<open>\<open>a[i1][i2]...\<close>: the array is indexed, then the index list that comes out.\<close>

fun index_rest ::
  "('d pg_array \<Rightarrow> int list \<Rightarrow> 'd option) \<Rightarrow> nat \<Rightarrow> 'd pg_array \<Rightarrow> 'd array_result \<Rightarrow> int list \<Rightarrow>
   array_exn + 'd array_result"
where
  "index_rest get self a r [] = Inr r"
| "index_rest get self a (RIdx il) (i # p) =
     bindR (pllua_datum_idxlist_index get self a il i) (\<lambda>r. index_rest get self a r p)"
| "index_rest get self a _ (i # p) = Inl (ArrayErr ''attempt to index'')"

definition index_chain ::
  "('d pg_array \<Rightarrow> int list \<Rightarrow> 'd option) \<Rightarrow> nat \<Rightarrow> 'd pg_array \<Rightarrow> int list \<Rightarrow> array_exn + 'd array_result"
where
  "index_chain get self a p =
     bindR (pllua_datum_array_index get self a (KInt (hd p))) (\<lambda>r. index_rest get self a r (tl p))"

lemma index_rest_get:
  assumes "arr_ndims a \<le> MAXDIM" "il_ndim il = arr_ndims a" "il_datum il = self"
    and "cur_dim il < arr_ndims a" "cur_dim il + length p = arr_ndims a"
  shows "index_rest get self a (RIdx il) p = Inr (RElem (get a (il_idx il @ map c_int p)))"
  using assms(2-)
proof (induction p arbitrary: il)
  case (Cons i p)
  have push: "push_idx il i = Inr (il\<lparr>il_idx := il_idx il @ [c_int i]\<rparr>)"
    using Cons.prems assms(1) by (simp add: push_idx_def)
  show ?case
  proof (cases p)
    case Nil
    then show ?thesis
      using Cons.prems push by (simp add: pllua_datum_idxlist_index_def pllua_datum_array_index_def)
  next
    case (Cons j q)
    then show ?thesis
      using Cons.IH [of "il\<lparr>il_idx := il_idx il @ [c_int i]\<rparr>"] Cons.prems push
      by (simp add: pllua_datum_idxlist_index_def)
  qed
qed simp

lemma index_chain_get:
  assumes "length p = arr_ndims a" "p \<noteq> []" "arr_ndims a \<le> MAXDIM"
  shows "index_chain get self a p = Inr (RElem (get a (map c_int p)))"
proof -
  obtain i q where p: "p = i # q" using assms(2) by (cases p) auto
  show ?thesis
    using assms p index_rest_get [of a "\<lparr>il_ndim = arr_ndims a, il_idx = [c_int i], il_datum = self\<rparr>" self q get]
    by (cases q) (auto simp: index_chain_def pllua_datum_array_index_def)
qed

text \<open>The indexes of an index list never run out of their array: a list that a program gets hold of
  is incomplete.\<close>

definition idxlist_ok :: "idxlist \<Rightarrow> bool" where
  "idxlist_ok il \<longleftrightarrow> 0 < cur_dim il \<and> cur_dim il < il_ndim il \<and> il_ndim il \<le> MAXDIM"

lemma array_index_idxlist_ok:
  "pllua_datum_array_index get self a key = Inr (RIdx il) \<Longrightarrow> arr_ndims a \<le> MAXDIM \<Longrightarrow> idxlist_ok il"
  by (auto simp: pllua_datum_array_index_def idxlist_ok_def split: array_key.splits if_splits)

lemma idxlist_index_ok:
  assumes "idxlist_ok il" "arr_ndims a \<le> MAXDIM"
  shows "pllua_datum_idxlist_index get self a il i \<noteq> Inl IdxOverflow"
    and "pllua_datum_idxlist_index get self a il i = Inr (RIdx il') \<Longrightarrow> idxlist_ok il'"
  using assms
  by (auto simp: pllua_datum_idxlist_index_def push_idx_def idxlist_ok_def pllua_datum_array_index_def split: if_splits)

lemma idxlist_newindex_ok:
  "idxlist_ok il \<Longrightarrow> pllua_datum_idxlist_newindex setel conv a il i v \<noteq> Inl IdxOverflow"
  by (auto simp: pllua_datum_idxlist_newindex_def push_idx_def idxlist_ok_def pllua_datum_array_newindex_def
      split: sum.splits)

lemma in_bounds_length: "in_bounds ds ls p \<Longrightarrow> length p = length ds"
  by (induction ds ls p rule: in_bounds.induct) auto

lemma in_bounds_c_int:
  "in_bounds ds (ones ds) p \<Longrightarrow> list_all (\<lambda>d. d \<le> INT_MAX) ds \<Longrightarrow> map c_int p = p"
proof (induction ds arbitrary: p)
  case (Cons d ds)
  then show ?case by (cases p) (auto simp: INT_MAX_def intro!: c_int_id)
qed (auto elim: in_bounds.elims)

text \<open>C26. An array made from nested tables with given dimensions gives back, under the indexes
  \<open>a[i1]...[in]\<close>, what the element type's constructor made of \<open>t[i1]...[in]\<close>; \<open>array_get_element\<close>
  is assumed to return the element at the row-major offset.
\<close>

theorem array_elements_read_back:
  assumes "nest dims t" "is_tab t" "dims_ok dims"
    and "pllua_typeinfo_array_call e tointeger ix conv (t # ints dims) = Inr a"
    and get: "\<And>b q. in_bounds (arr_dims b) (arr_lbound b) q \<Longrightarrow>
      get b q = arr_elems b ! pg_offset (arr_dims b) (arr_lbound b) q"
    and "in_bounds dims (ones dims) p"
  shows "\<exists>d. conv (path_get t p) = Inr d \<and> index_chain get self a p = Inr (RElem d)"
proof -
  obtain xs where xs: "mapR (\<lambda>p. conv (path_get t p)) (box dims) = Inr xs"
    and a: "a = \<lparr>arr_dims = dims, arr_lbound = ones dims, arr_elems = xs\<rparr>"
    using assms(4) unfolding array_call_box [OF assms(1-3)] by (auto simp: bindR_eq_Inr)
  have ok: "list_all ((<) 0) dims" "list_all (\<lambda>d. d \<le> INT_MAX) dims" "length dims \<le> MAXDIM" "dims \<noteq> []"
    using assms(3) by (simp_all add: dims_ok_def)
  let ?k = "pg_offset dims (ones dims) p"
  have "?k < length (box dims)" using in_bounds_offset [OF assms(6) ok(1)] by (simp add: length_box [OF ok(1)])
  then have "conv (path_get t (box dims ! ?k)) = Inr (xs ! ?k)"
    using mapR_Inr [OF xs] by blast
  moreover have "index_chain get self a p = Inr (RElem (get a p))"
    using index_chain_get [of p a get self] ok in_bounds_length [OF assms(6)] in_bounds_c_int [OF assms(6)]
    by (cases p) (auto simp: a arr_ndims_def)
  ultimately show ?thesis
    using get [of a p] assms(6) by (simp add: a box_nth [OF assms(6) ok(1)])
qed

subsection \<open>Conversion to tables\<close>

definition array_ok :: "'d pg_array \<Rightarrow> bool" where
  "array_ok a \<longleftrightarrow> length (arr_lbound a) = length (arr_dims a) \<and> list_all ((<) 0) (arr_dims a) \<and>
     (if arr_dims a = [] then arr_elems a = [] else length (arr_elems a) = pos_prod (arr_dims a))"

lemma map_start: "map_elem c single dims lbs d \<lparr>tabs = [], idx = [], nstack = 0, leftover = 0\<rparr> =
    map_elem c single dims lbs d (at_level (length dims) 0 [] [])"
  by (simp add: map_elem_def map_push_def at_level_def)

text \<open>C27. \<open>array_map\<close> (and \<open>table()\<close>, the map without a function) builds the nested tables of the
  reference: one table for each prefix of the indexes, keyed from the lower bound, with the mapped
  elements in row-major order; an error of the function is the result; nothing is left on the Lua
  stack besides the result.
\<close>

theorem array_map_builds_the_tables:
  assumes "array_ok a" "arr_elems a \<noteq> []" "\<not> noresult c"
  shows "pllua_datum_array_map c single a =
         bindR (nested (elem_fun c single) (arr_dims a) (arr_lbound a) [] (arr_elems a)) (\<lambda>t. Inr (Some t, 0))"
proof -
  obtain x xs where xs: "arr_elems a = x # xs" using assms(2) by (cases "arr_elems a") auto
  have ne: "arr_dims a \<noteq> []" using assms by (auto simp: array_ok_def)
  then obtain d ds where dims: "arr_dims a = d # ds" by (cases "arr_dims a") auto
  obtain l ls where lbs: "arr_lbound a = l # ls"
    using assms(1) dims by (cases "arr_lbound a") (auto simp: array_ok_def)
  have pos: "list_all ((<) 0) (d # ds)" using assms(1) dims by (simp add: array_ok_def)
  have len: "length (arr_elems a) = (nat d - 0) * pos_prod ds"
    using assms(1) dims pos_prod_Cons [of d ds] pos by (simp add: array_ok_def)
  have "map_elems c single (arr_dims a) (arr_lbound a) (arr_elems a @ []) (at_level (length (arr_dims a)) 0 [] []) =
      map_elems c single (arr_dims a) (arr_lbound a) (arr_elems a @ [])
        (at_level (length (arr_dims a)) 0 ([] @ [int 0]) [ATab []])"
    using map_elem_level [of "[]" "length (arr_dims a)" c "arr_dims a" single "arr_lbound a" x 0 "[]"] assms(3) ne
    by (simp add: xs)
  also have "\<dots> = bindR (nested (elem_fun c single) (arr_dims a) (arr_lbound a) [] (arr_elems a))
      (\<lambda>t. Inr (at_level (length (arr_dims a)) 0 [0] [t]))"
    using map_level [of "[]" 0 "arr_dims a" d ds "arr_lbound a" l ls c "[]" 0 "arr_elems a" single "[]" 0 "ATab []"]
      assms dims lbs pos len
    by (simp add: array_ok_def bindR_assoc add_entries_num_tab finish_def)
  finally show ?thesis
    using assms(2) map_start [of c single "arr_dims a" "arr_lbound a" x]
    by (simp add: pllua_datum_array_map_def xs bindR_assoc assms(3) at_level_def)
qed

lemma tab_get_map_of: "tab_get es i = (case map_of es i of None \<Rightarrow> ANil | Some v \<Rightarrow> v)"
  by (induction es) auto

lemma num_tab_get:
  assumes "k < length ts"
  shows "tab_get (rev (zip (map (\<lambda>i. int i + l) [0..<length ts]) ts)) (int k + l) = ts ! k"
proof -
  let ?es = "zip (map (\<lambda>i. int i + l) [0..<length ts]) ts"
  have "distinct (map fst (rev ?es))" by (simp add: rev_map [symmetric] distinct_map inj_on_def)
  moreover have "(int k + l, ts ! k) \<in> set (rev ?es)"
    using assms by (auto simp: set_zip intro!: exI [of _ k])
  ultimately have "map_of (rev ?es) (int k + l) = Some (ts ! k)" by (rule map_of_is_SomeI)
  then show ?thesis by (simp add: tab_get_map_of)
qed

lemma nested_get:
  assumes "nested f ds ls path xs = Inr t" "in_bounds ds ls p" "list_all ((<) 0) ds" "length xs = pos_prod ds"
  shows "f (path @ p) (xs ! pg_offset ds ls p) = Inr (path_get t p)"
  using assms
proof (induction f ds ls path xs arbitrary: t p rule: nested.induct [case_names level leaf_l leaf_d])
  case (level f d ds l ls path xs)
  obtain i p' where p: "p = i # p'" "l \<le> i" "i < l + d" "in_bounds ds ls p'"
    using level(3) by (cases p) auto
  obtain ts where ts: "t = num_tab l ts"
    and sub: "mapR (\<lambda>i. nested f ds ls (path @ [int i + l]) (chunk (pos_prod ds) xs i)) [0..<nat d] = Inr ts"
    using level(2) by (auto simp: bindR_eq_Inr)
  define k where "k = nat (i - l)"
  have k: "k < nat d" "int k + l = i" using p by (simp_all add: k_def)
  have ts_k: "length ts = nat d" "nested f ds ls (path @ [int k + l]) (chunk (pos_prod ds) xs k) = Inr (ts ! k)"
    using mapR_Inr [OF sub] k(1) by auto
  have pos: "list_all ((<) 0) ds" "0 < d" using level(4) by simp_all
  have "length xs = nat d * pos_prod ds" using level(5) pos by (simp add: nat_mult_distrib)
  moreover have "Suc k * pos_prod ds \<le> nat d * pos_prod ds" using k(1) by (intro mult_right_mono) auto
  ultimately have room: "k * pos_prod ds + pos_prod ds \<le> length xs" by simp
  have off: "pg_offset ds ls p' < pos_prod ds" by (rule in_bounds_offset [OF p(4) pos(1)])
  have "length (chunk (pos_prod ds) xs k) = pos_prod ds" using room by (simp add: chunk_def)
  then have "f ((path @ [int k + l]) @ p') (chunk (pos_prod ds) xs k ! pg_offset ds ls p') = Inr (path_get (ts ! k) p')"
    by (rule level(1) [OF ts_k(2) p(4) pos(1)])
  moreover have "chunk (pos_prod ds) xs k ! pg_offset ds ls p' = xs ! (k * pos_prod ds + pg_offset ds ls p')"
    using room off by (simp add: chunk_def)
  moreover have "path_get t p = path_get (ts ! k) p'"
    using num_tab_get [of k ts l] k ts_k(1) p(1) by (simp add: ts num_tab_def)
  ultimately show ?case using k(2) p(1) by (simp flip: k_def)
next
  case (leaf_l f ls path xs)
  then show ?case by (cases ls; cases p; cases xs) auto
next
  case (leaf_d f ds path xs)
  then show ?case by (cases ds; cases p; cases xs) auto
qed

lemma nest_path_leaf: "nest ds t \<Longrightarrow> in_bounds ds (ones ds) p \<Longrightarrow> \<exists>v. path_get t p = AVal v"
proof (induction ds arbitrary: t p)
  case Nil
  then show ?case by (cases p; cases t) auto
next
  case (Cons d ds)
  then obtain i p' where p: "p = i # p'" "1 \<le> i" "i \<le> d" "in_bounds ds (ones ds) p'" by (cases p) auto
  show ?case
  proof (cases t)
    case (ATab es)
    then have "nest ds (tab_get es i)" using Cons.prems p by (auto simp: list_all_iff)
    then show ?thesis using Cons.IH p ATab by simp
  qed (use p in simp)
qed

lemma constructed_ok:
  assumes "nest dims t" "is_tab t" "dims_ok dims"
    and "pllua_typeinfo_array_call e tointeger ix conv (t # ints dims) = Inr a"
  obtains xs where "a = \<lparr>arr_dims = dims, arr_lbound = ones dims, arr_elems = xs\<rparr>"
    "length xs = pos_prod dims" "array_ok a" "xs \<noteq> []"
    "\<And>p. in_bounds dims (ones dims) p \<Longrightarrow> conv (path_get t p) = Inr (xs ! pg_offset dims (ones dims) p)"
proof -
  have ok: "list_all ((<) 0) dims" "dims \<noteq> []" using assms(3) by (simp_all add: dims_ok_def)
  obtain xs where xs: "mapR (\<lambda>p. conv (path_get t p)) (box dims) = Inr xs"
    and a: "a = \<lparr>arr_dims = dims, arr_lbound = ones dims, arr_elems = xs\<rparr>"
    using assms(4) unfolding array_call_box [OF assms(1-3)] by (auto simp: bindR_eq_Inr)
  have len: "length xs = pos_prod dims" using mapR_Inr [OF xs] length_box [OF ok(1)] by simp
  have "conv (path_get t p) = Inr (xs ! pg_offset dims (ones dims) p)" if p: "in_bounds dims (ones dims) p" for p
    using mapR_Inr [OF xs] in_bounds_offset [OF p ok(1)] box_nth [OF p ok(1)] length_box [OF ok(1)] by metis
  moreover have "xs \<noteq> []" using len prod_list_pos [OF ok(1)] by auto
  ultimately show ?thesis using that a len ok by (simp add: array_ok_def)
qed

lemma mapR_returns: "(\<And>i. \<exists>t. g i = Inr t) \<Longrightarrow> \<exists>ts. mapR g is = Inr ts"
proof (induction "is")
  case (Cons i "is")
  then obtain t ts where "g i = Inr t" "mapR g is = Inr ts" by blast
  then show ?case by simp
qed simp

lemma nested_returns:
  assumes "\<And>q x. \<exists>u. f q x = Inr u"
  shows "\<exists>t. nested f ds ls path xs = Inr t"
  using assms
proof (induction f ds ls path xs rule: nested.induct)
  case (1 f d ds l ls path xs)
  obtain ts where "mapR (\<lambda>i. nested f ds ls (path @ [int i + l]) (chunk (pos_prod ds) xs i)) [0..<nat d] = Inr ts"
    using mapR_returns [of "\<lambda>i. nested f ds ls (path @ [int i + l]) (chunk (pos_prod ds) xs i)" "[0..<nat d]"]
      1(1) [OF 1(2)] by blast
  then show ?case by simp
qed simp_all

text \<open>Nested tables survive the way into an array and back: \<open>table()\<close> on the array that was made
  from them has, at every index tuple within the dimensions, the value that was there; the type's
  conversions are assumed to be inverse to each other.
\<close>

theorem array_table_roundtrip:
  assumes "nest dims t" "is_tab t" "dims_ok dims"
    and "pllua_typeinfo_array_call e tointeger ix conv (t # ints dims) = Inr a"
    and inv: "\<And>v d. conv (AVal v) = Inr d \<Longrightarrow> single d = v"
    and "mapf c = None" "nullv c = None" "\<not> noresult c"
  shows "\<exists>t'. pllua_datum_array_map c single a = Inr (Some t', 0) \<and>
           (\<forall>p. in_bounds dims (ones dims) p \<longrightarrow> path_get t' p = path_get t p)"
proof -
  obtain xs where a: "a = \<lparr>arr_dims = dims, arr_lbound = ones dims, arr_elems = xs\<rparr>"
    and xs: "length xs = pos_prod dims" "array_ok a" "xs \<noteq> []"
    and el: "\<And>p. in_bounds dims (ones dims) p \<Longrightarrow> conv (path_get t p) = Inr (xs ! pg_offset dims (ones dims) p)"
    using constructed_ok [OF assms(1-4)] by blast
  have f: "elem_fun c single q x = Inr (AVal (single x))" for q x
    using assms(6,7) by (simp add: map_value_def)
  obtain t' where t': "nested (elem_fun c single) dims (ones dims) [] xs = Inr t'"
    using nested_returns [of "elem_fun c single" dims "ones dims" "[]" xs] f by auto
  have "path_get t' p = path_get t p" if p: "in_bounds dims (ones dims) p" for p
  proof -
    obtain v where v: "path_get t p = AVal v" using nest_path_leaf [OF assms(1) p] by blast
    have "Inr (AVal (single (xs ! pg_offset dims (ones dims) p))) = Inr (path_get t' p)"
      using nested_get [OF t' p _ xs(1)] assms(3) by (simp add: f dims_ok_def)
    then show ?thesis using inv [of v] el [OF p] v by simp
  qed
  moreover have "pllua_datum_array_map c single a = Inr (Some t', 0)"
    using array_map_builds_the_tables [of a c single] xs t' assms(8) a by simp
  ultimately show ?thesis by blast
qed

text \<open>Without results nothing pops the values: each element leaves one on the Lua stack.\<close>

lemma map_carry_leftover: "noresult c \<Longrightarrow> leftover (map_carry c dims lbs i s) = leftover s"
  by (induction i arbitrary: s) (auto simp: Let_def)

lemma map_elems_leftover:
  "noresult c \<Longrightarrow> map_elems c single dims lbs ds s = Inr s' \<Longrightarrow> leftover s' = leftover s + length ds"
  by (induction ds arbitrary: s)
     (auto simp: bindR_eq_Inr map_elem_def map_store_def map_push_def map_carry_leftover)

text \<open>\<open>array_map\<close> with \<open>discard\<close> returns nothing and leaves one value for each element of the array
  on the Lua stack, whatever the number of elements.
\<close>

theorem array_map_discard_leaves_values:
  assumes "noresult c" "pllua_datum_array_map c single a = Inr r"
  shows "r = (None, length (arr_elems a))"
  using assms map_elems_leftover [OF assms(1)]
  by (fastforce simp: pllua_datum_array_map_def bindR_eq_Inr split: if_splits)

subsection \<open>Witnesses\<close>

text \<open>A nest of depth two with a missing element, over integers.\<close>

fun ex_conv :: "atree \<Rightarrow> string + int option" where
  "ex_conv (AVal (LInt i)) = Inr (Some i)"
| "ex_conv (AVal LNil) = Inr None"
| "ex_conv _ = Inl ''cannot convert''"

definition ex_single :: "int option \<Rightarrow> lval" where
  "ex_single d = (case d of None \<Rightarrow> LNil | Some i \<Rightarrow> LInt i)"

definition ex_nest :: atree where
  "ex_nest = ATab [(2, ATab [(2, AVal (LInt 9))]), (1, ATab [(1, AVal (LInt 7)), (2, AVal (LInt 8))])]"

definition ex_env :: array_args_env where
  "ex_env = \<lparr>is_container = (\<lambda>_. False), is_element_datum = (\<lambda>_. False), int_keys = (\<lambda>_. [])\<rparr>"

definition ex_array :: "int pg_array" where
  "ex_array = \<lparr>arr_dims = [2, 2], arr_lbound = [1, 1], arr_elems = [Some 7, Some 8, None, Some 9]\<rparr>"

lemma ex_call:
  "pllua_typeinfo_array_call ex_env (\<lambda>_. 0) (\<lambda>_ _. Inl ''attempt to index'') ex_conv (ex_nest # ints [2, 2]) = Inr ex_array"
  by code_simp

lemma ex_dims: "nest [2, 2] ex_nest" "is_tab ex_nest" "dims_ok [2, 2]" "array_ok ex_array"
  by code_simp+

lemma array_elements_read_back_witness:
  "\<exists>d. ex_conv (path_get ex_nest [2, 2]) = Inr d \<and>
     index_chain (\<lambda>b q. arr_elems b ! pg_offset (arr_dims b) (arr_lbound b) q) 5 ex_array [2, 2] = Inr (RElem d)"
  by (rule array_elements_read_back [OF ex_dims(1-3) ex_call]) simp_all

lemma array_map_builds_the_tables_witness:
  "pllua_datum_array_map \<lparr>mapf = None, nullv = Some (LInt 0), noresult = False\<rparr> ex_single ex_array =
   Inr (Some (ATab [(2, ATab [(2, AVal (LInt 9)), (1, AVal (LInt 0))]),
                    (1, ATab [(2, AVal (LInt 8)), (1, AVal (LInt 7))])]), 0)"
  using array_map_builds_the_tables [of ex_array "\<lparr>mapf = None, nullv = Some (LInt 0), noresult = False\<rparr>" ex_single]
  by (simp add: ex_dims) code_simp

lemma array_table_roundtrip_witness:
  "\<exists>t'. pllua_datum_array_map \<lparr>mapf = None, nullv = None, noresult = False\<rparr> ex_single ex_array = Inr (Some t', 0) \<and>
     (\<forall>p. in_bounds [2, 2] (ones [2, 2]) p \<longrightarrow> path_get t' p = path_get ex_nest p)"
proof (rule array_table_roundtrip [OF ex_dims(1-3) ex_call])
  show "ex_single d = v" if "ex_conv (AVal v) = Inr d" for v d
    using that by (cases v) (auto simp: ex_single_def)
qed simp_all

lemma ex_discard: "pllua_datum_array_map \<lparr>mapf = None, nullv = None, noresult = True\<rparr> ex_single ex_array = Inr (None, 4)"
  by code_simp

lemma array_map_discard_leaves_values_witness:
  "\<exists>r. pllua_datum_array_map \<lparr>mapf = None, nullv = None, noresult = True\<rparr> ex_single ex_array = Inr r \<and>
     r = (None, length (arr_elems ex_array))"
proof (intro exI conjI)
  show "(None, 4) = (None :: atree option, length (arr_elems ex_array))"
    by (rule array_map_discard_leaves_values [OF _ ex_discard]) simp
qed (rule ex_discard)

end
