(* ===== verification/Spi.thy ===== *)
theory Spi
  imports Prelude
begin

text \<open>
  Queries and cursors, src/src/spi.c.  A cursor object refers to a portal of PostgreSQL, and a
  reset callback in the portal's memory refers back to the cursor; the weak registry table
  \<open>PLLUA_PORTALS\<close> finds the cursor of a portal.  Portals disappear when PostgreSQL says so, cursor
  objects when Lua's collector does, and all three kinds of memory are reused, so the addresses
  that the allocators choose are arguments.  Access to memory that is not allocated is \<open>PgPanic\<close>.

  \<open>'p\<close> is the state of a portal's scan; parsing, execution and scrolling belong to PostgreSQL and
  are the fields of \<open>spi_env\<close>, the type constructor of an argument's type among them.
  \<open>spi_faults\<close> and \<open>spi_lua_faults\<close> are the failures of PostgreSQL and of protected Lua calls, in
  order.
\<close>

subsection \<open>State\<close>

datatype fetch_direction = FETCH_FORWARD | FETCH_BACKWARD | FETCH_ABSOLUTE | FETCH_RELATIVE

datatype cursor_opt =
    CURSOR_OPT_SCROLL | CURSOR_OPT_NO_SCROLL | CURSOR_OPT_HOLD
  | CURSOR_OPT_FAST_PLAN | CURSOR_OPT_CUSTOM_PLAN | CURSOR_OPT_GENERIC_PLAN

record spi_statement =
  st_plan :: string
  st_kept :: bool
  cursor_plan :: bool
  st_fetch_count :: int
  nparams :: nat
  param_types :: "int list"

record cursor =
  curs_portal :: "nat option"
  curs_cb :: "nat option"
  curs_fetch_count :: int
  is_ours :: bool
  is_private :: bool
  is_live :: bool
  curs_name :: "string option"
  curs_q :: "int \<Rightarrow> nat option"

text \<open>\<open>portal_cbs\<close>: the reset callbacks registered on the portal's memory, the latest first.\<close>

record 'p portal =
  portal_name :: string
  portal_cbs :: "nat list"
  portal_scan :: 'p

text \<open>
  A callback lives in the memory of a portal and has an argument, a cursor or null.  Cursor
  objects in \<open>finalizing\<close> are garbage whose finalizer has not run yet.
\<close>

record 'p spi =
  portals :: "nat \<Rightarrow> 'p portal option"
  by_name :: "string \<Rightarrow> nat option"
  cbs :: "nat \<Rightarrow> (nat \<times> nat option) option"
  cursors :: "nat \<Rightarrow> cursor option"
  reg :: "nat \<Rightarrow> nat option"
  finalizing :: "nat list"
  prepare_recursion :: int
  pllua_ending :: bool
  cur_readonly :: bool
  cur_atomic :: bool
  in_subxact :: bool
  spi_faults :: "errdata option list"
  spi_lua_faults :: "bool list"

text \<open>An argument of a query: a datum with its type's oid, or another Lua value.\<close>

record spi_datum =
  sd_type :: int
  sd_stale :: bool
  sd_modified :: bool
  sd_value :: nat

datatype spi_arg = SNil | SDatum spi_datum | SOther lval

text \<open>
  \<open>e_prepare\<close> gives the parameter types as the parser leaves them and whether the plan can be a
  cursor; \<open>e_scroll\<close> gives the tuple table, if any, the number of rows and the new position.
\<close>

record 'p spi_env =
  e_prepare :: "string option \<Rightarrow> int list \<Rightarrow> cursor_opt set \<Rightarrow> errdata + (int list \<times> bool) option"
  e_execute :: "string \<Rightarrow> (nat \<times> bool) list \<Rightarrow> bool \<Rightarrow> int \<Rightarrow> errdata + nat list option \<times> int"
  e_cursor :: "string \<Rightarrow> (nat \<times> bool) list \<Rightarrow> bool \<Rightarrow> errdata + 'p"
  e_scroll :: "fetch_direction \<Rightarrow> int \<Rightarrow> 'p \<Rightarrow> nat list option \<times> int \<times> 'p"
  e_construct :: "int \<Rightarrow> spi_arg \<Rightarrow> string + spi_arg"
  e_encoding :: "string \<Rightarrow> bool"
  e_obj :: "errdata \<Rightarrow> lval"
  e_to_pg :: "string \<Rightarrow> errdata"
  e_parsetype :: "lval \<Rightarrow> string + int option"
  e_typeinfo :: "lval \<Rightarrow> int option"
  e_lookup :: "int \<Rightarrow> bool"
  e_tointegerx :: "lval \<Rightarrow> int option"

subsection \<open>Access to memory and to PostgreSQL\<close>

definition spi_panic :: "string \<Rightarrow> ('p spi, 'a) m" where
  [mdefs]: "spi_panic msg s = (PgPanic msg, s)"

definition get_cursor :: "nat \<Rightarrow> ('p spi, cursor) m" where
  [mdefs]: "get_cursor c s =
     (case cursors s c of
        None \<Rightarrow> (PgPanic ''use of a freed cursor'', s)
      | Some cu \<Rightarrow> (Ret cu, s))"

definition upd_cursor :: "nat \<Rightarrow> (cursor \<Rightarrow> cursor) \<Rightarrow> ('p spi, unit) m" where
  [mdefs]: "upd_cursor c f = modify (\<lambda>s. s\<lparr>cursors := (cursors s)(c := map_option f (cursors s c))\<rparr>)"

definition get_portal :: "nat \<Rightarrow> ('p spi, 'p portal) m" where
  [mdefs]: "get_portal p s =
     (case portals s p of
        None \<Rightarrow> (PgPanic ''use of a freed portal'', s)
      | Some po \<Rightarrow> (Ret po, s))"

definition get_cb_arg :: "nat \<Rightarrow> ('p spi, nat option) m" where
  [mdefs]: "get_cb_arg b s =
     (case cbs s b of
        None \<Rightarrow> (PgPanic ''use of a freed callback'', s)
      | Some (p, a) \<Rightarrow> (Ret a, s))"

definition set_cb_arg :: "nat \<Rightarrow> nat option \<Rightarrow> ('p spi, unit) m" where
  [mdefs]: "set_cb_arg b a s =
     (case cbs s b of
        None \<Rightarrow> (PgPanic ''use of a freed callback'', s)
      | Some (p, a0) \<Rightarrow> (Ret (), s\<lparr>cbs := (cbs s)(b \<mapsto> (p, a))\<rparr>))"

definition spi_pg_call :: "('p spi, unit) m" where
  [mdefs]: "spi_pg_call s =
     (case spi_faults s of
        [] \<Rightarrow> (Ret (), s)
      | f # fs \<Rightarrow>
          (case f of
             None \<Rightarrow> (Ret (), s\<lparr>spi_faults := fs\<rparr>)
           | Some e \<Rightarrow> (PgThrow e, s\<lparr>spi_faults := fs\<rparr>)))"

text \<open>\<open>PLLUA_TRY\<close> with \<open>PLLUA_CATCH_RETHROW\<close>.\<close>

definition spi_try :: "'p spi_env \<Rightarrow> ('p spi, 'a) m \<Rightarrow> ('p spi, 'a) m" where
  [mdefs]: "spi_try e body s =
     (case body s of
        (PgThrow err, s') \<Rightarrow> (LuaThrow LUA_ERRRUN (e_obj e err), s')
      | r \<Rightarrow> r)"

text \<open>The outcome of an oracle of PostgreSQL.\<close>

definition pg_result :: "errdata + 'a \<Rightarrow> ('p spi, 'a) m" where
  [mdefs]: "pg_result r = (case r of Inl err \<Rightarrow> pg_throw err | Inr a \<Rightarrow> ret a)"

subsection \<open>Portals and their callbacks\<close>

definition pllua_cursor_cleanup_portal :: "nat \<Rightarrow> ('p spi, unit) m" where
  [mdefs]: "pllua_cursor_cleanup_portal p = modify (\<lambda>s. s\<lparr>reg := (reg s)(p := None)\<rparr>)"

text \<open>\<open>pllua_cpcall\<close> with the error dropped: out of memory, the call has no effect.\<close>

definition spi_cpcall :: "('p spi, unit) m \<Rightarrow> ('p spi, unit) m" where
  [mdefs]: "spi_cpcall body s =
     (case spi_lua_faults s of
        [] \<Rightarrow> body s
      | f # fs \<Rightarrow> if f then (Ret (), s\<lparr>spi_lua_faults := fs\<rparr>) else body (s\<lparr>spi_lua_faults := fs\<rparr>))"

definition pllua_cursor_cb :: "nat option \<Rightarrow> ('p spi, unit) m" where
  [mdefs]: "pllua_cursor_cb arg =
     (case arg of
        None \<Rightarrow> ret ()
      | Some c \<Rightarrow>
          bindm (get_cursor c) (\<lambda>cu.
          if \<not> is_live cu then ret ()
          else
            bindm (upd_cursor c (\<lambda>r. r\<lparr>is_live := False\<rparr>)) (\<lambda>_.
            bindm (case curs_cb cu of None \<Rightarrow> ret () | Some b \<Rightarrow> set_cb_arg b None) (\<lambda>_.
            bindm (upd_cursor c (\<lambda>r. r\<lparr>curs_cb := None, curs_portal := None\<rparr>)) (\<lambda>_.
            case curs_portal cu of
              None \<Rightarrow> ret ()
            | Some p \<Rightarrow> spi_cpcall (pllua_cursor_cleanup_portal p))))))"

text \<open>What PostgreSQL does to a portal: the callbacks run, then its memory is freed.\<close>

primrec run_callbacks :: "nat list \<Rightarrow> ('p spi, unit) m" where
  "run_callbacks [] = ret ()"
| "run_callbacks (b # bs) =
     bindm (get_cb_arg b) (\<lambda>a. bindm (pllua_cursor_cb a) (\<lambda>_. run_callbacks bs))"

definition portal_free :: "nat \<Rightarrow> string \<Rightarrow> 'p spi \<Rightarrow> 'p spi" where
  "portal_free p n s =
     s\<lparr>portals := (portals s)(p := None), by_name := (by_name s)(n := None),
       cbs := (\<lambda>b. case cbs s b of None \<Rightarrow> None | Some (p', a) \<Rightarrow> if p' = p then None else Some (p', a))\<rparr>"

definition portal_drop :: "nat \<Rightarrow> ('p spi, unit) m" where
  [mdefs]: "portal_drop p =
     bindm (get_portal p) (\<lambda>po.
     bindm (run_callbacks (portal_cbs po)) (\<lambda>_.
     modify (portal_free p (portal_name po))))"

definition SPI_cursor_close :: "nat \<Rightarrow> ('p spi, unit) m" where
  [mdefs]: "SPI_cursor_close p = bindm spi_pg_call (\<lambda>_. portal_drop p)"

text \<open>A portal at the free address \<open>p\<close>; one without a name gets the name \<open>gen\<close>.\<close>

definition SPI_cursor_open :: "string option \<Rightarrow> string \<Rightarrow> nat \<Rightarrow> 'p \<Rightarrow> ('p spi, unit) m" where
  [mdefs]: "SPI_cursor_open name gen p scan s =
     (let n = (case name of None \<Rightarrow> gen | Some n \<Rightarrow> n) in
      if by_name s n \<noteq> None then (PgThrow (pg_elog ''cursor already in use''), s)
      else (Ret (), s\<lparr>portals := (portals s)(p \<mapsto> \<lparr>portal_name = n, portal_cbs = [], portal_scan = scan\<rparr>),
                      by_name := (by_name s)(n \<mapsto> p)\<rparr>))"

subsection \<open>Cursor objects\<close>

definition pllua_newcursor :: "nat \<Rightarrow> ('p spi, unit) m" where
  [mdefs]: "pllua_newcursor c =
     modify (\<lambda>s. s\<lparr>cursors := (cursors s)(c \<mapsto>
       \<lparr>curs_portal = None, curs_cb = None, curs_fetch_count = 0, is_ours = False, is_private = False,
        is_live = False, curs_name = None, curs_q = (\<lambda>_. None)\<rparr>)\<rparr>)"

definition detach_portal :: "nat \<Rightarrow> cursor \<Rightarrow> nat \<Rightarrow> ('p spi, unit) m" where
  [mdefs]: "detach_portal c cu old =
     bindm (case curs_cb cu of None \<Rightarrow> ret () | Some b \<Rightarrow> set_cb_arg b None) (\<lambda>_.
     bindm (modify (\<lambda>s. s\<lparr>reg := (reg s)(old := None)\<rparr>)) (\<lambda>_.
     upd_cursor c (\<lambda>r. r\<lparr>curs_portal := None\<rparr>)))"

text \<open>\<open>MemoryContextAlloc\<close> in the portal's memory gives the address \<open>b\<close>.\<close>

definition alloc_cb :: "nat \<Rightarrow> nat \<Rightarrow> nat \<Rightarrow> ('p spi, unit) m" where
  [mdefs]: "alloc_cb c p b =
     bindm (get_portal p) (\<lambda>_.
     bindm spi_pg_call (\<lambda>_.
     bindm (modify (\<lambda>s. s\<lparr>cbs := (cbs s)(b \<mapsto> (p, None))\<rparr>)) (\<lambda>_.
     upd_cursor c (\<lambda>r. r\<lparr>curs_cb := Some b\<rparr>))))"

definition attach_portal :: "nat \<Rightarrow> nat \<Rightarrow> bool \<Rightarrow> nat \<Rightarrow> ('p spi, unit) m" where
  [mdefs]: "attach_portal c p ours b =
     bindm (modify (\<lambda>s. s\<lparr>reg := (reg s)(p \<mapsto> c)\<rparr>)) (\<lambda>_.
     bindm (upd_cursor c (\<lambda>r. r\<lparr>curs_portal := Some p\<rparr>)) (\<lambda>_.
     bindm (set_cb_arg b (Some c)) (\<lambda>_.
     bindm (upd_cursor c (\<lambda>r. r\<lparr>is_live := True, is_ours := ours, is_private := False\<rparr>)) (\<lambda>_.
     modify (\<lambda>s. s\<lparr>portals := (portals s)(p := map_option (\<lambda>po. po\<lparr>portal_cbs := b # portal_cbs po\<rparr>)
                                              (portals s p))\<rparr>)))))"

definition pllua_cursor_setportal ::
  "'p spi_env \<Rightarrow> nat \<Rightarrow> nat option \<Rightarrow> bool \<Rightarrow> nat \<Rightarrow> ('p spi, unit) m"
where
  [mdefs]: "pllua_cursor_setportal e c portal ours b =
     bindm (get_cursor c) (\<lambda>cu.
     bindm (case curs_portal cu of None \<Rightarrow> ret () | Some old \<Rightarrow> detach_portal c cu old) (\<lambda>_.
     bindm (spi_try e
       (bindm (case curs_portal cu of
                 None \<Rightarrow> ret ()
               | Some old \<Rightarrow> whenm (is_ours cu) (SPI_cursor_close old)) (\<lambda>_.
        case portal of None \<Rightarrow> ret () | Some p \<Rightarrow> alloc_cb c p b))) (\<lambda>_.
     case portal of None \<Rightarrow> ret () | Some p \<Rightarrow> attach_portal c p ours b)))"

text \<open>Lua's collector: a finalizer's error is only a warning; the object is freed after it.\<close>

definition pllua_cursor_gc :: "'p spi_env \<Rightarrow> nat \<Rightarrow> ('p spi, unit) m" where
  [mdefs]: "pllua_cursor_gc e c =
     bindm (get_cursor c) (\<lambda>cu.
     if \<not> is_live cu \<or> curs_portal cu = None then ret ()
     else pllua_cursor_setportal e c None False 0)"

definition finalize :: "'p spi_env \<Rightarrow> nat \<Rightarrow> ('p spi, unit) m" where
  [mdefs]: "finalize e c s =
     (if c \<notin> set (finalizing s) then (Ret (), s)
      else case pllua_cursor_gc e c s of
        (PgPanic msg, s') \<Rightarrow> (PgPanic msg, s')
      | (_, s') \<Rightarrow> (Ret (), s'\<lparr>cursors := (cursors s')(c := None), finalizing := removeAll c (finalizing s')\<rparr>))"

primrec run_gc :: "'p spi_env \<Rightarrow> nat list \<Rightarrow> ('p spi, unit) m" where
  "run_gc e [] = ret ()"
| "run_gc e (c # cs) = bindm (finalize e c) (\<lambda>_. run_gc e cs)"

text \<open>Garbage leaves the weak table at once, before its finalizer runs.\<close>

definition collect :: "nat list \<Rightarrow> 'p spi \<Rightarrow> 'p spi" where
  "collect cs s =
     s\<lparr>reg := (\<lambda>p. case reg s p of None \<Rightarrow> None | Some c \<Rightarrow> if c \<in> set cs then None else Some c),
       finalizing := cs @ finalizing s\<rparr>"

text \<open>The finder: \<open>c\<close> and \<open>b\<close> are the addresses of a new cursor and its callback, \<open>gcs\<close> the garbage that
  the allocation of the cursor finalizes.\<close>

definition pllua_spi_findportal :: "'p spi_env \<Rightarrow> string \<Rightarrow> ('p spi, nat option) m" where
  [mdefs]: "pllua_spi_findportal e name = spi_try e (bindm spi_pg_call (\<lambda>_. gets (\<lambda>s. by_name s name)))"

definition find_registered :: "nat \<Rightarrow> nat \<Rightarrow> ('p spi, nat option) m" where
  [mdefs]: "find_registered p c =
     bindm (get_cursor c) (\<lambda>cu.
     if curs_portal cu \<noteq> Some p then luaL_error ''portal lookup mismatch'' else ret (Some c))"

definition pllua_spi_findcursor ::
  "'p spi_env \<Rightarrow> string \<Rightarrow> nat \<Rightarrow> nat \<Rightarrow> nat list \<Rightarrow> ('p spi, nat option) m"
where
  [mdefs]: "pllua_spi_findcursor e name c b gcs =
     bindm (pllua_spi_findportal e name) (\<lambda>portal.
     case portal of
       None \<Rightarrow> ret None
     | Some p \<Rightarrow>
         if \<not> e_encoding e name then luaL_error ''invalid byte sequence''
         else
           bindm (gets (\<lambda>s. reg s p)) (\<lambda>r.
           case r of
             Some c' \<Rightarrow> find_registered p c'
           | None \<Rightarrow>
               bindm (run_gc e gcs) (\<lambda>_.
               bindm (pllua_newcursor c) (\<lambda>_.
               bindm (upd_cursor c (\<lambda>r. r\<lparr>curs_name := Some name\<rparr>)) (\<lambda>_.
               bindm (pllua_cursor_setportal e c (Some p) False b) (\<lambda>_.
               ret (Some c)))))))"

definition pllua_spi_newcursor ::
  "'p spi_env \<Rightarrow> string option \<Rightarrow> nat \<Rightarrow> nat \<Rightarrow> nat list \<Rightarrow> ('p spi, nat) m"
where
  [mdefs]: "pllua_spi_newcursor e name c b gcs =
     bindm (case name of None \<Rightarrow> ret None | Some n \<Rightarrow> pllua_spi_findcursor e n c b gcs) (\<lambda>r.
     case r of
       Some c' \<Rightarrow> ret c'
     | None \<Rightarrow>
         bindm (pllua_newcursor c) (\<lambda>_.
         bindm (case name of None \<Rightarrow> ret () | Some n \<Rightarrow> upd_cursor c (\<lambda>r. r\<lparr>curs_name := Some n\<rparr>)) (\<lambda>_.
         ret c)))"

definition cursor_is_open :: "cursor \<Rightarrow> bool" where
  "cursor_is_open cu = (curs_portal cu \<noteq> None \<and> is_live cu)"

definition pllua_cursor_close :: "'p spi_env \<Rightarrow> nat \<Rightarrow> ('p spi, unit) m" where
  [mdefs]: "pllua_cursor_close e c =
     bindm (get_cursor c) (\<lambda>cu.
     if \<not> cursor_is_open cu then ret ()
     else bindm (upd_cursor c (\<lambda>r. r\<lparr>is_ours := True\<rparr>)) (\<lambda>_.
          pllua_cursor_setportal e c None False 0))"

definition pllua_cursor_isopen :: "nat \<Rightarrow> ('p spi, bool) m" where
  [mdefs]: "pllua_cursor_isopen c = bindm (get_cursor c) (\<lambda>cu. ret (cursor_is_open cu))"

definition pllua_cursor_own :: "nat \<Rightarrow> ('p spi, nat) m" where
  [mdefs]: "pllua_cursor_own c =
     bindm (get_cursor c) (\<lambda>cu.
     bindm (whenm (cursor_is_open cu) (upd_cursor c (\<lambda>r. r\<lparr>is_ours := True\<rparr>))) (\<lambda>_. ret c))"

definition pllua_cursor_disown :: "nat \<Rightarrow> ('p spi, nat) m" where
  [mdefs]: "pllua_cursor_disown c =
     bindm (get_cursor c) (\<lambda>cu.
     bindm (whenm (cursor_is_open cu) (upd_cursor c (\<lambda>r. r\<lparr>is_ours := False\<rparr>))) (\<lambda>_. ret c))"

definition pllua_cursor_isowned :: "nat \<Rightarrow> ('p spi, bool) m" where
  [mdefs]: "pllua_cursor_isowned c = bindm (get_cursor c) (\<lambda>cu. ret (is_ours cu))"

definition pllua_cursor_name :: "nat \<Rightarrow> ('p spi, string option) m" where
  [mdefs]: "pllua_cursor_name c =
     bindm (get_cursor c) (\<lambda>cu.
     case curs_portal cu of
       Some p \<Rightarrow>
         if is_live cu then bindm (get_portal p) (\<lambda>po. ret (Some (portal_name po))) else ret (curs_name cu)
     | None \<Rightarrow> ret (curs_name cu))"

definition pllua_cursor_meta_close :: "'p spi_env \<Rightarrow> nat \<Rightarrow> ('p spi, unit) m" where
  [mdefs]: "pllua_cursor_meta_close e c =
     bindm (get_cursor c) (\<lambda>cu.
     if \<not> cursor_is_open cu \<or> \<not> is_ours cu then ret ()
     else pllua_cursor_setportal e c None False 0)"

end
