(* ===== verification/Spi_Query.thy ===== *)
theory Spi_Query
  imports Spi
begin

text \<open>
  Statements, the arguments of queries, execution, opening of cursors, fetching and the iterator
  over rows, src/src/spi.c.  The pieces of user code that run in between (constructors of types
  that are called for arguments) are answers of the environment; they may run any other operation,
  which is why \<open>open_portal\<close> is an operation of its own.
\<close>

subsection \<open>Options\<close>

datatype opts_arg = NoOpts | OptsTable "string \<Rightarrow> lval" | BadOpts

definition opt_flag :: "bool \<Rightarrow> cursor_opt \<Rightarrow> cursor_opt set" where
  "opt_flag b f = (if b then {f} else {})"

text \<open>The C variable \<open>n\<close> is an \<open>int\<close>, so the number is cut to 32 bits before it is checked.\<close>

definition pllua_cursor_options ::
  "'p spi_env \<Rightarrow> opts_arg \<Rightarrow> int \<Rightarrow> string + cursor_opt set \<times> int"
where
  "pllua_cursor_options e nd fetch_count =
     (case nd of
        NoOpts \<Rightarrow> Inr ({}, fetch_count)
      | BadOpts \<Rightarrow> Inl ''table expected''
      | OptsTable t \<Rightarrow>
          let scroll = (if t ''scroll'' = LNil then {}
                        else if lua_toboolean (t ''scroll'') then {CURSOR_OPT_SCROLL}
                        else {CURSOR_OPT_NO_SCROLL});
              flags = scroll
                \<union> opt_flag (lua_toboolean (t ''no_scroll'')) CURSOR_OPT_NO_SCROLL
                \<union> opt_flag (lua_toboolean (t ''hold'')) CURSOR_OPT_HOLD
                \<union> opt_flag (lua_toboolean (t ''fast_start'')) CURSOR_OPT_FAST_PLAN
                \<union> opt_flag (lua_toboolean (t ''custom_plan'')) CURSOR_OPT_CUSTOM_PLAN
                \<union> opt_flag (lua_toboolean (t ''generic_plan'')) CURSOR_OPT_GENERIC_PLAN
          in case e_tointegerx e (t ''fetch_count'') of
               None \<Rightarrow> Inr (flags, fetch_count)
             | Some v \<Rightarrow>
                 let n = c_int v in
                 Inr (flags, if n \<ge> 1 \<and> n < 10000000 then n else fetch_count))"

definition pllua_spi_cursor_direction :: "string option \<Rightarrow> string + fetch_direction" where
  "pllua_spi_cursor_direction arg =
     (let str = (case arg of None \<Rightarrow> ''forward'' | Some d \<Rightarrow> d) in
      if str = ''forward'' then Inr FETCH_FORWARD
      else if str = ''backward'' then Inr FETCH_BACKWARD
      else if str = ''absolute'' then Inr FETCH_ABSOLUTE
      else if str = ''relative'' then Inr FETCH_RELATIVE
      else if str = ''prior'' then Inr FETCH_BACKWARD
      else if str = ''next'' then Inr FETCH_FORWARD
      else Inl (''unknown fetch direction '' @ str))"

definition lua_result :: "string + 'a \<Rightarrow> ('p spi, 'a) m" where
  [mdefs]: "lua_result r = (case r of Inl msg \<Rightarrow> luaL_error msg | Inr a \<Rightarrow> ret a)"

subsection \<open>Statements\<close>

text \<open>The search for the last parameter that has a type.\<close>

primrec last_param :: "int list \<Rightarrow> nat \<Rightarrow> nat" where
  "last_param ts 0 = 0"
| "last_param ts (Suc i) = (if ts ! i \<noteq> 0 then Suc i else last_param ts i)"

text \<open>The counter guards the parser hook: it is 0 outside \<open>SPI_prepare_params\<close>.\<close>

definition pllua_spi_make_statement ::
  "'p spi_env \<Rightarrow> string option \<Rightarrow> int list \<Rightarrow> cursor_opt set \<Rightarrow> ('p spi, spi_statement) m"
where
  [mdefs]: "pllua_spi_make_statement e str known opts =
     (let init = (if known \<noteq> [] then known else replicate 16 0) in
      bindm (gets prepare_recursion) (\<lambda>n.
      if n \<noteq> 0 then pg_throw (pg_elog ''pllua: recursive entry into prepare!'')
      else
        bindm (modify (\<lambda>s. s\<lparr>prepare_recursion := prepare_recursion s + 1\<rparr>)) (\<lambda>_.
        bindm (modify (\<lambda>s. s\<lparr>prepare_recursion := prepare_recursion s - 1\<rparr>)) (\<lambda>_.
        bindm (pg_result (e_prepare e str init opts)) (\<lambda>plan.
        case plan of
          None \<Rightarrow> pg_throw (pg_elog ''spi error'')
        | Some (types, cur) \<Rightarrow>
            ret \<lparr>st_plan = (case str of None \<Rightarrow> '''' | Some q \<Rightarrow> q), st_kept = False, cursor_plan = cur,
                 st_fetch_count = 0, nparams = last_param types (length types), param_types = types\<rparr>)))))"

text \<open>
  One entry of the list of argument types: a string (or a number, which Lua takes for one) names
  a type, anything else has to be a type object.
\<close>

fun lua_isstring :: "lval \<Rightarrow> bool" where
  "lua_isstring (LStr _) = True"
| "lua_isstring (LInt _) = True"
| "lua_isstring (LFlt _) = True"
| "lua_isstring _ = False"

definition spi_argtype :: "'p spi_env \<Rightarrow> lval \<Rightarrow> string + int" where
  "spi_argtype e v =
     (if lua_isstring v then
        bindR (e_parsetype e v) (\<lambda>t. case t of None \<Rightarrow> Inl ''unknown type'' | Some ty \<Rightarrow> Inr ty)
      else case e_typeinfo e v of
        None \<Rightarrow> Inl ''unexpected object type in argtypes list''
      | Some ty \<Rightarrow> Inr ty)"

text \<open>
  The argument types go into the array \<open>argtypes\<close> of \<open>cap\<close> elements; a write past its end is a
  PANIC here.  The list ends at a nil.
\<close>

fun collect_argtypes :: "'p spi_env \<Rightarrow> nat \<Rightarrow> lval list \<Rightarrow> int list \<Rightarrow> ('p spi, int list) m" where
  "collect_argtypes e cap [] acc = ret acc"
| "collect_argtypes e cap (v # vs) acc =
     (if v = LNil then ret acc
      else bindm (lua_result (spi_argtype e v)) (\<lambda>ty.
           if cap \<le> length acc then spi_panic ''write past the end of argtypes''
           else collect_argtypes e cap vs (acc @ [ty])))"

text \<open>The number of elements that \<open>pllua_spi_alloc_argspace\<close> or the local arrays have.\<close>

definition argspace :: "int \<Rightarrow> int" where
  "argspace nargs = (if nargs > 99 then nargs else 100)"

definition pllua_spi_prepare ::
  "'p spi_env \<Rightarrow> string option \<Rightarrow> lval list \<Rightarrow> opts_arg \<Rightarrow> ('p spi, spi_statement) m"
where
  [mdefs]: "pllua_spi_prepare e str argtypes optarg =
     bindm (lua_result (pllua_cursor_options e optarg 0)) (\<lambda>(opts, fetch_count).
     bindm (gets pllua_ending) (\<lambda>ending.
     if ending then luaL_error ''cannot call SPI during shutdown''
     else
       bindm (collect_argtypes e (nat (argspace 0)) argtypes []) (\<lambda>known.
       bindm (spi_try e
         (bindm spi_pg_call (\<lambda>_.
          bindm (pllua_spi_make_statement e str known opts) (\<lambda>st.
          ret (st\<lparr>st_kept := True, st_fetch_count := fetch_count\<rparr>))))) (\<lambda>st.
       if list_all (\<lambda>ty. ty = 0 \<or> e_lookup e ty) (take (nparams st) (param_types st)) then ret st
       else luaL_error ''unexpected type in paramtypes list''))))"

definition pllua_stmt_cursor_ok :: "spi_statement \<Rightarrow> bool" where
  "pllua_stmt_cursor_ok st = cursor_plan st"

definition pllua_stmt_numargs :: "spi_statement \<Rightarrow> nat" where
  "pllua_stmt_numargs st = nparams st"

text \<open>\<open>None\<close> is the nil of a parameter that is not used.\<close>

definition pllua_stmt_argtype :: "spi_statement \<Rightarrow> int \<Rightarrow> string + int option" where
  "pllua_stmt_argtype st arg =
     (let i = c_int arg in
      if i < 1 \<or> i > int (nparams st) then Inl ''parameter out of range''
      else Inr (let ty = param_types st ! nat (i - 1) in if ty = 0 then None else Some ty))"

subsection \<open>Arguments\<close>

text \<open>The types of a query's arguments where they are known: those of datums.\<close>

definition arg_type :: "spi_arg \<Rightarrow> int" where
  "arg_type a = (case a of SDatum d \<Rightarrow> sd_type d | _ \<Rightarrow> 0)"

text \<open>A value and whether it is null; \<open>d_ok\<close> is the test for an unexploded datum of the type.\<close>

definition d_ok :: "int \<Rightarrow> spi_arg \<Rightarrow> bool" where
  "d_ok ty a = (case a of SDatum d \<Rightarrow> sd_type d = ty \<and> \<not> sd_stale d \<and> \<not> sd_modified d | _ \<Rightarrow> False)"

definition spi_convert_arg :: "'p spi_env \<Rightarrow> spi_arg \<Rightarrow> int \<Rightarrow> string + nat \<times> bool" where
  "spi_convert_arg e a ty =
     (if a = SNil \<or> ty = 0 then Inr (0, True)
      else bindR (if d_ok ty a then Inr a else e_construct e ty a) (\<lambda>r.
           case r of
             SDatum d \<Rightarrow> if sd_type d = ty then Inr (sd_value d, False)
                         else Inl ''inconsistent value type in SPI parameter list''
           | _ \<Rightarrow> Inl ''inconsistent value type in SPI parameter list''))"

fun pllua_spi_convert_args :: "'p spi_env \<Rightarrow> spi_arg list \<Rightarrow> int list \<Rightarrow> string + (nat \<times> bool) list" where
  "pllua_spi_convert_args e [] ts = Inr []"
| "pllua_spi_convert_args e (a # as) (t # ts) =
     bindR (spi_convert_arg e a t) (\<lambda>v. bindR (pllua_spi_convert_args e as ts) (\<lambda>vs. Inr (v # vs)))"
| "pllua_spi_convert_args e (a # as) [] = Inl ''read past the end of argtypes''"

text \<open>The conversion as a protected call from PostgreSQL's side.\<close>

definition convert_args :: "'p spi_env \<Rightarrow> spi_arg list \<Rightarrow> spi_statement \<Rightarrow> ('p spi, (nat \<times> bool) list) m" where
  [mdefs]: "convert_args e args st =
     (case pllua_spi_convert_args e args (param_types st) of
        Inl msg \<Rightarrow> pg_throw (e_to_pg e msg)
      | Inr vs \<Rightarrow> ret vs)"

text \<open>The statement that is given, or one made of the query string, with the check of the number
  of arguments.\<close>

definition query_statement ::
  "'p spi_env \<Rightarrow> spi_statement option \<Rightarrow> string option \<Rightarrow> int list \<Rightarrow> bool \<Rightarrow> nat \<Rightarrow> ('p spi, spi_statement) m"
where
  [mdefs]: "query_statement e stmt str argtypes for_cursor nargs =
     bindm (case stmt of
              Some st \<Rightarrow> ret st
            | None \<Rightarrow>
                bindm (pllua_spi_make_statement e str argtypes {}) (\<lambda>st.
                if for_cursor \<and> \<not> cursor_plan st then pg_throw (pg_elog ''pllua: invalid query for cursor'')
                else ret st)) (\<lambda>st.
     if nparams st \<noteq> nargs
     then pg_throw (pg_elog ''pllua: wrong number of arguments to SPI query'')
     else ret st)"

subsection \<open>Results\<close>

text \<open>A table of rows: what is at each index, and the field \<open>n\<close>.\<close>

type_synonym rowtab = "(int \<Rightarrow> nat option) \<times> int"

datatype spi_result = SpiTable rowtab | SpiCount int

primrec fill_rows :: "int \<Rightarrow> nat list \<Rightarrow> (int \<Rightarrow> nat option) \<Rightarrow> int \<Rightarrow> nat option" where
  "fill_rows i [] t = t"
| "fill_rows i (r # rs) t = fill_rows (i + 1) rs (t(i := Some r))"

text \<open>\<open>targ\<close>: the table to append to and the index of its last row.\<close>

definition pllua_spi_prepare_result ::
  "nat list \<Rightarrow> ((int \<Rightarrow> nat option) \<times> int) option \<Rightarrow> rowtab \<times> int"
where
  "pllua_spi_prepare_result rows targ =
     (let (t, base) = (case targ of None \<Rightarrow> (\<lambda>_. None, 1) | Some (t, k) \<Rightarrow> (t, 1 + k)) in
      ((fill_rows base rows t, base + int (length rows) - 1), base))"

definition spi_result_of :: "nat list option \<times> int \<Rightarrow> spi_result" where
  "spi_result_of r =
     (case r of
        (None, nrows) \<Rightarrow> SpiCount nrows
      | (Some rows, nrows) \<Rightarrow> SpiTable (fst (pllua_spi_prepare_result (take (nat nrows) rows) None)))"

subsection \<open>Execution\<close>

definition LUA_MAXINTEGER :: int where "LUA_MAXINTEGER = 2 ^ 63 - 1"
definition LONG_MAX :: int where "LONG_MAX = 2 ^ 63 - 1"

definition execute_limit :: "int \<Rightarrow> string + int" where
  "execute_limit count_param =
     (if count_param = 0 then Inr (min (LUA_MAXINTEGER - 1) (LONG_MAX - 1))
      else if count_param < 0 \<or> count_param > LUA_MAXINTEGER - 1 \<or> count_param > LONG_MAX - 1
      then Inl ''requested number of rows is out of range''
      else Inr count_param)"

definition pllua_spi_execute_count ::
  "'p spi_env \<Rightarrow> spi_statement option \<Rightarrow> string option \<Rightarrow> int \<Rightarrow> spi_arg list \<Rightarrow> ('p spi, spi_result) m"
where
  [mdefs]: "pllua_spi_execute_count e p str count_param args =
     (if str = None \<and> p = None
      then luaL_error ''incorrect argument type for execute, string or statement expected''
      else
        bindm (lua_result (execute_limit count_param)) (\<lambda>count.
        bindm (gets pllua_ending) (\<lambda>ending.
        if ending then luaL_error ''cannot call SPI during shutdown''
        else if str \<noteq> None \<and> \<not> e_encoding e (the str) then luaL_error ''invalid byte sequence''
        else
          spi_try e
            (bindm spi_pg_call (\<lambda>_.
             bindm (gets cur_readonly) (\<lambda>readonly.
             bindm (query_statement e p str (map arg_type args) False (length args)) (\<lambda>st.
             bindm (convert_args e args st) (\<lambda>params.
             bindm (pg_result (e_execute e (st_plan st) params readonly count)) (\<lambda>r.
             ret (spi_result_of r))))))))))"

definition pllua_spi_execute ::
  "'p spi_env \<Rightarrow> spi_statement option \<Rightarrow> string option \<Rightarrow> spi_arg list \<Rightarrow> ('p spi, spi_result) m"
where
  [mdefs]: "pllua_spi_execute e p str args = pllua_spi_execute_count e p str 0 args"

subsection \<open>Opening\<close>

text \<open>The checks on the arguments and the cursor, before anything else runs.\<close>

definition open_checks ::
  "'p spi_env \<Rightarrow> nat \<Rightarrow> spi_statement option \<Rightarrow> string option \<Rightarrow> ('p spi, unit) m"
where
  [mdefs]: "open_checks e c p str =
     bindm (get_cursor c) (\<lambda>cu.
     bindm (gets pllua_ending) (\<lambda>ending.
     if str = None \<and> p = None
     then luaL_error ''incorrect argument type for cursor open, string or statement expected''
     else if curs_portal cu \<noteq> None then luaL_error ''cursor is already open''
     else if ending then luaL_error ''cannot call SPI during shutdown''
     else if p \<noteq> None \<and> \<not> cursor_plan (the p) then luaL_error ''invalid statement for cursor''
     else if str \<noteq> None \<and> \<not> e_encoding e (the str) then luaL_error ''invalid byte sequence''
     else ret ()))"

text \<open>The rest: the portal gets the free address \<open>q\<close> and, if the cursor has no name, the name
  \<open>gen\<close>; the callback gets the address \<open>b\<close>.\<close>

definition open_portal ::
  "'p spi_env \<Rightarrow> nat \<Rightarrow> spi_statement option \<Rightarrow> string option \<Rightarrow> string option \<Rightarrow> spi_arg list \<Rightarrow>
   string \<Rightarrow> nat \<Rightarrow> nat \<Rightarrow> ('p spi, nat) m"
where
  [mdefs]: "open_portal e c p str name args gen q b =
     bindm (spi_try e
       (bindm spi_pg_call (\<lambda>_.
        bindm (gets cur_readonly) (\<lambda>readonly.
        bindm (query_statement e p str (map arg_type args) True (length args)) (\<lambda>st.
        bindm (convert_args e args st) (\<lambda>params.
        bindm (pg_result (e_cursor e (st_plan st) params readonly)) (\<lambda>scan.
        SPI_cursor_open name gen q scan))))))) (\<lambda>_.
     bindm (pllua_cursor_setportal e c (Some q) True b) (\<lambda>_.
     ret c))"

definition pllua_spi_cursor_open ::
  "'p spi_env \<Rightarrow> nat \<Rightarrow> spi_statement option \<Rightarrow> string option \<Rightarrow> spi_arg list \<Rightarrow>
   string \<Rightarrow> nat \<Rightarrow> nat \<Rightarrow> ('p spi, nat) m"
where
  [mdefs]: "pllua_spi_cursor_open e c p str args gen q b =
     bindm (open_checks e c p str) (\<lambda>_.
     bindm (get_cursor c) (\<lambda>cu.
     open_portal e c p str (curs_name cu) args gen q b))"

definition pllua_spi_stmt_getcursor ::
  "'p spi_env \<Rightarrow> spi_statement \<Rightarrow> spi_arg list \<Rightarrow> nat \<Rightarrow> string \<Rightarrow> nat \<Rightarrow> nat \<Rightarrow> ('p spi, nat) m"
where
  [mdefs]: "pllua_spi_stmt_getcursor e st args c gen q b =
     bindm (pllua_newcursor c) (\<lambda>_. pllua_spi_cursor_open e c (Some st) None args gen q b)"

subsection \<open>Fetching\<close>

text \<open>The cursor's portal, if the cursor may be used.\<close>

definition open_portal_of :: "nat \<Rightarrow> ('p spi, nat) m" where
  [mdefs]: "open_portal_of c =
     bindm (gets pllua_ending) (\<lambda>ending.
     bindm (get_cursor c) (\<lambda>cu.
     if ending then luaL_error ''cannot call SPI during shutdown''
     else case curs_portal cu of
       None \<Rightarrow> luaL_error ''attempting to fetch from a closed cursor''
     | Some p \<Rightarrow>
         if \<not> is_live cu then luaL_error ''attempting to fetch from a closed cursor'' else ret p))"

definition scroll_portal ::
  "'p spi_env \<Rightarrow> nat \<Rightarrow> fetch_direction \<Rightarrow> int \<Rightarrow> ('p spi, nat list option \<times> int) m"
where
  [mdefs]: "scroll_portal e p dir count =
     bindm spi_pg_call (\<lambda>_.
     bindm (get_portal p) (\<lambda>po.
     case e_scroll e dir count (portal_scan po) of
       (tuptable, nrows, scan) \<Rightarrow>
         bindm (modify (\<lambda>s. s\<lparr>portals := (portals s)(p \<mapsto> po\<lparr>portal_scan := scan\<rparr>)\<rparr>)) (\<lambda>_.
         ret (tuptable, nrows))))"

definition pllua_spi_cursor_fetch ::
  "'p spi_env \<Rightarrow> nat \<Rightarrow> int \<Rightarrow> string option \<Rightarrow> ('p spi, spi_result) m"
where
  [mdefs]: "pllua_spi_cursor_fetch e c count dirarg =
     bindm (lua_result (pllua_spi_cursor_direction dirarg)) (\<lambda>dir.
     bindm (open_portal_of c) (\<lambda>p.
     bindm (spi_try e (scroll_portal e p dir count)) (\<lambda>r.
     ret (spi_result_of r))))"

definition pllua_spi_cursor_move ::
  "'p spi_env \<Rightarrow> nat \<Rightarrow> int \<Rightarrow> string option \<Rightarrow> ('p spi, int) m"
where
  [mdefs]: "pllua_spi_cursor_move e c count dirarg =
     bindm (lua_result (pllua_spi_cursor_direction dirarg)) (\<lambda>dir.
     bindm (open_portal_of c) (\<lambda>p.
     bindm (spi_try e (scroll_portal e p dir count)) (\<lambda>r.
     ret (snd r))))"

subsection \<open>The rows iterator\<close>

definition DEFAULT_FETCH_COUNT :: int where "DEFAULT_FETCH_COUNT = 50"

text \<open>The upvalues of the iterator.\<close>

record rows_iter =
  it_cursor :: "nat option"
  qpos :: int
  qlen :: int

definition fetch_count_of :: "cursor \<Rightarrow> int" where
  "fetch_count_of cu =
     (let n = (if is_private cu then curs_fetch_count cu else 1) in
      if n = 0 then DEFAULT_FETCH_COUNT else n)"

text \<open>A row from a new fetch, which fills the queue if the cursor is private.\<close>

definition rows_refill ::
  "'p spi_env \<Rightarrow> nat \<Rightarrow> int \<Rightarrow> rows_iter \<Rightarrow> ('p spi, nat option \<times> int \<times> rows_iter) m"
where
  [mdefs]: "rows_refill e c fetch_count it =
     bindm (pllua_spi_cursor_fetch e c fetch_count None) (\<lambda>r.
     case r of
       SpiCount _ \<Rightarrow> luaL_error ''attempt to index a number value''
     | SpiTable (t, n) \<Rightarrow>
         if fetch_count > 1 then
           bindm (upd_cursor c (\<lambda>cu. cu\<lparr>curs_q := t\<rparr>)) (\<lambda>_.
           ret (t 1, 1, it\<lparr>qlen := c_int n\<rparr>))
         else ret (t 1, qpos it, it))"

text \<open>The end of an iteration: at the end of the rows a private cursor is closed.\<close>

definition rows_finish ::
  "'p spi_env \<Rightarrow> nat \<Rightarrow> int \<Rightarrow> nat option \<times> int \<times> rows_iter \<Rightarrow> ('p spi, nat option \<times> rows_iter) m"
where
  [mdefs]: "rows_finish e c fetch_count x =
     (case x of (row, pos, it) \<Rightarrow>
        case row of
          None \<Rightarrow>
            bindm (get_cursor c) (\<lambda>cu.
            if is_private cu then
              bindm (pllua_cursor_close e c) (\<lambda>_. ret (None, it\<lparr>it_cursor := None\<rparr>))
            else ret (None, it))
        | Some r \<Rightarrow> ret (Some r, if fetch_count > 1 then it\<lparr>qpos := pos\<rparr> else it))"

definition pllua_spi_stmt_rows_iter ::
  "'p spi_env \<Rightarrow> rows_iter \<Rightarrow> ('p spi, nat option \<times> rows_iter) m"
where
  [mdefs]: "pllua_spi_stmt_rows_iter e it =
     (case it_cursor it of
        None \<Rightarrow> luaL_error ''bad argument (cursor expected)''
      | Some c \<Rightarrow>
          bindm (get_cursor c) (\<lambda>cu.
          if \<not> cursor_is_open cu then luaL_error ''cannot iterate a closed cursor''
          else
            let fetch_count = fetch_count_of cu in
            bindm (if fetch_count > 1 \<and> qpos it < qlen it
                   then ret (curs_q cu (qpos it + 1), qpos it + 1, it)
                   else rows_refill e c fetch_count it) (rows_finish e c fetch_count)))"

definition rows_iterator :: "nat \<Rightarrow> rows_iter" where
  "rows_iterator c = \<lparr>it_cursor = Some c, qpos = 0, qlen = 0\<rparr>"

text \<open>The iterator and the cursor, which the caller gets too.\<close>

definition pllua_spi_stmt_rows ::
  "'p spi_env \<Rightarrow> spi_statement option \<Rightarrow> string option \<Rightarrow> spi_arg list \<Rightarrow>
   nat \<Rightarrow> string \<Rightarrow> nat \<Rightarrow> nat \<Rightarrow> ('p spi, rows_iter \<times> nat) m"
where
  [mdefs]: "pllua_spi_stmt_rows e p str args c gen q b =
     bindm (pllua_newcursor c) (\<lambda>_.
     bindm (case p of None \<Rightarrow> ret () | Some st \<Rightarrow> upd_cursor c (\<lambda>r. r\<lparr>curs_fetch_count := st_fetch_count st\<rparr>)) (\<lambda>_.
     bindm (pllua_spi_cursor_open e c p str args gen q b) (\<lambda>_.
     bindm (upd_cursor c (\<lambda>r. r\<lparr>is_private := True\<rparr>)) (\<lambda>_.
     ret (rows_iterator c, c)))))"

definition pllua_cursor_rows :: "nat \<Rightarrow> ('p spi, rows_iter) m" where
  [mdefs]: "pllua_cursor_rows c = bindm (get_cursor c) (\<lambda>_. ret (rows_iterator c))"

subsection \<open>Transactions\<close>

text \<open>\<open>ps\<close> are the portals that PostgreSQL drops at the end of the transaction.\<close>

primrec drop_portals :: "nat list \<Rightarrow> ('p spi, unit) m" where
  "drop_portals [] = ret ()"
| "drop_portals (p # ps) = bindm (portal_drop p) (\<lambda>_. drop_portals ps)"

definition pllua_spi_xact :: "'p spi_env \<Rightarrow> nat list \<Rightarrow> ('p spi, unit) m" where
  [mdefs]: "pllua_spi_xact e ps =
     bindm (gets cur_atomic) (\<lambda>atomic.
     bindm (gets in_subxact) (\<lambda>sub.
     if atomic then luaL_error ''cannot commit or rollback in this context''
     else if sub then luaL_error ''cannot commit or rollback from inside a subtransaction''
     else spi_try e (bindm spi_pg_call (\<lambda>_. drop_portals ps))))"

definition pllua_spi_is_atomic :: "'p spi \<Rightarrow> bool" where
  "pllua_spi_is_atomic s = cur_atomic s"

definition pllua_spi_is_readonly :: "'p spi \<Rightarrow> bool" where
  "pllua_spi_is_readonly s = cur_readonly s"

end
