(* ===== verification/Spi_Inv.thy ===== *)
theory Spi_Inv
  imports Spi_Query
begin

text \<open>
  The invariant of cursors, callbacks, portals and the registry table (src/src/spi.c), with weakest
  preconditions of the operations that change them: a cursor that refers to a portal is live, the
  portal exists and has a callback that refers back, and no callback refers to a cursor that is
  gone.
\<close>

subsection \<open>Weakest preconditions of the primitives\<close>

lemma wpt_spi_prims [simp]:
  "wpt (get_cursor c) N E P = (\<lambda>s. case cursors s c of None \<Rightarrow> False | Some cu \<Rightarrow> N cu s)"
  "wpt (get_portal p) N' E P = (\<lambda>s. case portals s p of None \<Rightarrow> False | Some po \<Rightarrow> N' po s)"
  "wpt (get_cb_arg b) NA E P = (\<lambda>s. case cbs s b of None \<Rightarrow> False | Some (p, a) \<Rightarrow> NA a s)"
  "wpt (set_cb_arg b a) NB E P =
     (\<lambda>s. case cbs s b of None \<Rightarrow> False | Some (p, a0) \<Rightarrow> NB () (s\<lparr>cbs := (cbs s)(b \<mapsto> (p, a))\<rparr>))"
  "wpt (upd_cursor c f) NB E P =
     (\<lambda>s. NB () (s\<lparr>cursors := (cursors s)(c := map_option f (cursors s c))\<rparr>))"
  "wpt (spi_panic msg) N E P = (\<lambda>s. False)"
  by (auto simp: fun_eq_iff wpt_def mdefs split: option.splits prod.splits)

lemma wpt_whenm [simp]: "wpt (whenm b m) N E P s = (if b then wpt m N E P s else N () s)"
  by (simp add: wpt_def mdefs)

lemma wpt_spi_try [simp]:
  "wpt (spi_try e m) N E P = wpt m N E (\<lambda>err. E LUA_ERRRUN (e_obj e err))"
  by (auto simp: fun_eq_iff wpt_def spi_try_def split: prod.splits outcome.splits)

lemma wpt_opt [simp]:
  "wpt (case x of None \<Rightarrow> m | Some a \<Rightarrow> n a) N E P s =
     (case x of None \<Rightarrow> wpt m N E P s | Some a \<Rightarrow> wpt (n a) N E P s)"
  by (simp split: option.splits)

lemma wpt_ite [simp]:
  "wpt (if b then m else n) N E P s = (if b then wpt m N E P s else wpt n N E P s)"
  by simp

lemma wpt_spi_pg_call:
  assumes "\<And>fs. N () (s\<lparr>spi_faults := fs\<rparr>)" "\<And>e fs. P e (s\<lparr>spi_faults := fs\<rparr>)" "N () s"
  shows "wpt spi_pg_call N E P s"
  using assms by (auto simp: wpt_def mdefs split: option.splits list.splits)

lemma wpt_spi_cpcall:
  assumes "\<And>fs. wpt m N E P (s\<lparr>spi_lua_faults := fs\<rparr>)" "\<And>fs. N () (s\<lparr>spi_lua_faults := fs\<rparr>)" "wpt m N E P s"
  shows "wpt (spi_cpcall m) N E P s"
  using assms by (auto simp: wpt_def spi_cpcall_def split: list.splits)

subsection \<open>The invariant\<close>

definition cursor_inv :: "'p spi \<Rightarrow> nat \<Rightarrow> cursor \<Rightarrow> bool" where
  "cursor_inv s c cu \<longleftrightarrow>
     (case curs_portal cu of
        None \<Rightarrow> True
      | Some p \<Rightarrow> is_live cu \<and> (\<exists>b po. curs_cb cu = Some b \<and> cbs s b = Some (p, Some c) \<and>
                                 portals s p = Some po \<and> b \<in> set (portal_cbs po)))"

definition cb_inv :: "'p spi \<Rightarrow> bool" where
  "cb_inv s \<longleftrightarrow>
     (\<forall>b p c. cbs s b = Some (p, Some c) \<longrightarrow>
        (\<exists>cu. cursors s c = Some cu \<and> curs_portal cu = Some p \<and> curs_cb cu = Some b))"

definition portal_inv :: "'p spi \<Rightarrow> bool" where
  "portal_inv s \<longleftrightarrow> (\<forall>p po b. portals s p = Some po \<longrightarrow> b \<in> set (portal_cbs po) \<longrightarrow> (\<exists>a. cbs s b = Some (p, a)))"

definition reg_inv :: "'p spi \<Rightarrow> bool" where
  "reg_inv s \<longleftrightarrow> (\<forall>p c. reg s p = Some c \<longrightarrow> cursors s c \<noteq> None \<and> c \<notin> set (finalizing s))"

definition name_inv :: "'p spi \<Rightarrow> bool" where
  "name_inv s \<longleftrightarrow>
     (\<forall>n p. by_name s n = Some p \<longrightarrow> (\<exists>po. portals s p = Some po \<and> portal_name po = n))"

definition spi_inv :: "'p spi \<Rightarrow> bool" where
  "spi_inv s \<longleftrightarrow>
     (\<forall>c cu. cursors s c = Some cu \<longrightarrow> cursor_inv s c cu) \<and> cb_inv s \<and> portal_inv s \<and> reg_inv s \<and>
     name_inv s \<and> set (finalizing s) \<subseteq> dom (cursors s)"

lemmas spi_inv_defs = cursor_inv_def cb_inv_def portal_inv_def reg_inv_def name_inv_def

text \<open>What may only vanish: portals, callbacks and the references of cursors to portals.\<close>

definition shrinks :: "'p spi \<Rightarrow> 'p spi \<Rightarrow> bool" where
  "shrinks s s' \<longleftrightarrow>
     (\<forall>p. portals s p = None \<longrightarrow> portals s' p = None) \<and> (\<forall>b. cbs s b = None \<longrightarrow> cbs s' b = None) \<and>
     (\<forall>c. cursors s c = None \<longrightarrow> cursors s' c = None) \<and>
     (\<forall>c cu cu'. cursors s c = Some cu \<longrightarrow> cursors s' c = Some cu' \<longrightarrow>
        is_ours cu' = is_ours cu \<and> (curs_portal cu' = None \<or> curs_portal cu' = curs_portal cu)) \<and>
     set (finalizing s') \<subseteq> set (finalizing s)"

text \<open>As long as no cursor object is freed.\<close>

definition keeps_cursors :: "'p spi \<Rightarrow> 'p spi \<Rightarrow> bool" where
  "keeps_cursors s s' \<longleftrightarrow> dom (cursors s') = dom (cursors s) \<and> finalizing s' = finalizing s"

lemma shrinks_refl [simp]: "shrinks s s"
  by (simp add: shrinks_def)

lemma shrinks_trans: "shrinks s t \<Longrightarrow> shrinks t u \<Longrightarrow> shrinks s u"
proof -
  assume a: "shrinks s t" "shrinks t u"
  have "is_ours cu' = is_ours cu \<and> (curs_portal cu' = None \<or> curs_portal cu' = curs_portal cu)"
    if h: "cursors s c = Some cu" "cursors u c = Some cu'" for c cu cu'
  proof -
    obtain cu1 where "cursors t c = Some cu1"
      using a(2) h(2) unfolding shrinks_def by (metis not_Some_eq)
    then show ?thesis using a h unfolding shrinks_def by metis
  qed
  moreover have "set (finalizing u) \<subseteq> set (finalizing s)"
    using a unfolding shrinks_def by blast
  moreover have "(\<forall>p. portals s p = None \<longrightarrow> portals u p = None) \<and> (\<forall>b. cbs s b = None \<longrightarrow> cbs u b = None) \<and>
     (\<forall>c. cursors s c = None \<longrightarrow> cursors u c = None)"
    using a unfolding shrinks_def by simp
  ultimately show ?thesis unfolding shrinks_def by blast
qed

lemma keeps_cursors_refl [simp]: "keeps_cursors s s"
  by (simp add: keeps_cursors_def)

lemma keeps_cursors_trans: "keeps_cursors s t \<Longrightarrow> keeps_cursors t u \<Longrightarrow> keeps_cursors s u"
  by (simp add: keeps_cursors_def)

lemma spi_inv_ghost [simp]:
  "spi_inv (s\<lparr>spi_faults := fs\<rparr>) = spi_inv s"
  "spi_inv (s\<lparr>spi_lua_faults := ls\<rparr>) = spi_inv s"
  "spi_inv (s\<lparr>prepare_recursion := n\<rparr>) = spi_inv s"
  by (simp_all add: spi_inv_def spi_inv_defs cong: option.case_cong)

lemma shrinks_ghost [simp]:
  "shrinks s (t\<lparr>spi_faults := fs\<rparr>) = shrinks s t"
  "shrinks s (t\<lparr>spi_lua_faults := ls\<rparr>) = shrinks s t"
  "shrinks s (t\<lparr>prepare_recursion := n\<rparr>) = shrinks s t"
  "keeps_cursors s (t\<lparr>spi_faults := fs\<rparr>) = keeps_cursors s t"
  "keeps_cursors s (t\<lparr>spi_lua_faults := ls\<rparr>) = keeps_cursors s t"
  "keeps_cursors s (t\<lparr>prepare_recursion := n\<rparr>) = keeps_cursors s t"
  by (simp_all add: shrinks_def keeps_cursors_def)

subsection \<open>Steps that keep the invariant\<close>

lemma spi_inv_cursorD:
  assumes "spi_inv s" "cursors s c = Some cu" "curs_portal cu = Some p"
  obtains b po where "is_live cu" "curs_cb cu = Some b" "cbs s b = Some (p, Some c)"
    "portals s p = Some po" "b \<in> set (portal_cbs po)"
  using assms unfolding spi_inv_def cursor_inv_def by fastforce

lemma spi_inv_cbD:
  assumes "spi_inv s" "cbs s b = Some (p, Some c)"
  obtains cu where "cursors s c = Some cu" "curs_portal cu = Some p" "curs_cb cu = Some b"
  using assms unfolding spi_inv_def cb_inv_def by blast

lemma spi_inv_portalD:
  assumes "spi_inv s" "portals s p = Some po" "b \<in> set (portal_cbs po)"
  obtains a where "cbs s b = Some (p, a)"
  using assms unfolding spi_inv_def portal_inv_def by blast

lemma spi_inv_reg_none:
  assumes "spi_inv s" shows "spi_inv (s\<lparr>reg := (reg s)(q := None)\<rparr>)"
  using assms unfolding spi_inv_def spi_inv_defs by (auto cong: option.case_cong)

lemma spi_inv_detach:
  assumes inv: "spi_inv s" and cu: "cursors s c = Some cu" "curs_portal cu = Some p" "curs_cb cu = Some b"
    and cu': "curs_portal cu' = None"
  shows "spi_inv (s\<lparr>cbs := (cbs s)(b \<mapsto> (p, None)), cursors := (cursors s)(c \<mapsto> cu')\<rparr>)"
proof -
  let ?t = "s\<lparr>cbs := (cbs s)(b \<mapsto> (p, None)), cursors := (cursors s)(c \<mapsto> cu')\<rparr>"
  obtain po where b: "cbs s b = Some (p, Some c)" "portals s p = Some po"
    using spi_inv_cursorD [OF inv cu(1,2)] cu(3) by (metis option.inject)
  have "cursor_inv ?t d du" if h: "cursors ?t d = Some du" for d du
  proof (cases "d = c \<or> curs_portal du = None")
    case True
    then show ?thesis using h cu' by (auto simp: cursor_inv_def)
  next
    case False
    then obtain q where q: "curs_portal du = Some q" and d: "cursors s d = Some du" using h by auto
    obtain b' po' where "is_live du" "curs_cb du = Some b'" "cbs s b' = Some (q, Some d)"
      "portals s q = Some po'" "b' \<in> set (portal_cbs po')"
      using spi_inv_cursorD [OF inv d q] by blast
    moreover from this False b(1) have "b' \<noteq> b" by auto
    ultimately show ?thesis by (simp add: cursor_inv_def q)
  qed
  moreover have "cb_inv ?t"
  proof -
    have "\<exists>du. cursors ?t d = Some du \<and> curs_portal du = Some q \<and> curs_cb du = Some b'"
      if "cbs ?t b' = Some (q, Some d)" for b' q d
    proof -
      have b': "b' \<noteq> b" "cbs s b' = Some (q, Some d)" using that by (auto split: if_splits)
      obtain du where du: "cursors s d = Some du" "curs_portal du = Some q" "curs_cb du = Some b'"
        using spi_inv_cbD [OF inv b'(2)] by blast
      then have "d \<noteq> c" using cu b' by auto
      then show ?thesis using du by simp
    qed
    then show ?thesis unfolding cb_inv_def by blast
  qed
  moreover have "portal_inv ?t"
  proof -
    have "\<exists>a. cbs ?t b' = Some (q, a)" if h: "portals s q = Some po'" "b' \<in> set (portal_cbs po')" for q po' b'
    proof -
      obtain a where "cbs s b' = Some (q, a)" using spi_inv_portalD [OF inv h] by blast
      then show ?thesis using b(1) by (cases "b' = b") auto
    qed
    then show ?thesis by (simp add: portal_inv_def)
  qed
  moreover have "reg_inv ?t" "name_inv ?t" "set (finalizing ?t) \<subseteq> dom (cursors ?t)"
    using inv unfolding spi_inv_def reg_inv_def name_inv_def by auto
  ultimately show ?thesis unfolding spi_inv_def by blast
qed

lemma shrinks_detach:
  assumes "cursors s c = Some cu" "is_ours cu' = is_ours cu" "curs_portal cu' = None" "cbs s b \<noteq> None"
  shows "shrinks s (s\<lparr>cbs := (cbs s)(b \<mapsto> x), cursors := (cursors s)(c \<mapsto> cu')\<rparr>)"
    and "keeps_cursors s (s\<lparr>cbs := (cbs s)(b \<mapsto> x), cursors := (cursors s)(c \<mapsto> cu')\<rparr>)"
  using assms by (auto simp: shrinks_def keeps_cursors_def)

lemma shrinks_reg [simp]:
  "shrinks s (t\<lparr>reg := r\<rparr>) = shrinks s t" "keeps_cursors s (t\<lparr>reg := r\<rparr>) = keeps_cursors s t"
  by (simp_all add: shrinks_def keeps_cursors_def)

text \<open>The callback, run for the portal \<open>p\<close> whose callback at \<open>b\<close> has the argument \<open>a\<close>.\<close>

definition cb_done :: "'p spi \<Rightarrow> nat \<Rightarrow> nat \<Rightarrow> 'p spi \<Rightarrow> bool" where
  "cb_done s p b s' \<longleftrightarrow>
     spi_inv s' \<and> shrinks s s' \<and> keeps_cursors s s' \<and> portals s' = portals s \<and> by_name s' = by_name s \<and>
     cbs s' = (cbs s)(b \<mapsto> (p, None))"

lemma pllua_cursor_cb_wpt:
  assumes inv: "spi_inv s" and b: "cbs s b = Some (p, a)"
  shows "wpt (pllua_cursor_cb a) (\<lambda>_. cb_done s p b) E P s"
proof (cases a)
  case None
  have "(cbs s)(b \<mapsto> (p, None)) = cbs s" using b None by auto
  then show ?thesis using inv None by (simp add: pllua_cursor_cb_def cb_done_def)
next
  case (Some c)
  obtain cu where cu: "cursors s c = Some cu" "curs_portal cu = Some p" "curs_cb cu = Some b"
    using spi_inv_cbD [OF inv] b Some by blast
  have live: "is_live cu" using spi_inv_cursorD [OF inv cu(1,2)] by blast
  let ?cu = "cu\<lparr>is_live := False, curs_cb := None, curs_portal := None\<rparr>"
  let ?t = "s\<lparr>cbs := (cbs s)(b \<mapsto> (p, None)), cursors := (cursors s)(c \<mapsto> ?cu)\<rparr>"
  have t: "cb_done s p b ?t"
    using spi_inv_detach [OF inv cu, of ?cu] shrinks_detach [OF cu(1), of ?cu b] b by (simp add: cb_done_def)
  have r: "cb_done s p b (u\<lparr>reg := (reg u)(p := None)\<rparr>)" if "cb_done s p b u" for u
    using that spi_inv_reg_none [of u p] by (simp add: cb_done_def)
  have l: "cb_done s p b (?t\<lparr>spi_lua_faults := fs\<rparr>)" for fs
    using t by (simp add: cb_done_def)
  have "wpt (spi_cpcall (pllua_cursor_cleanup_portal p)) (\<lambda>_. cb_done s p b) E P ?t"
    by (rule wpt_spi_cpcall) (simp_all only: pllua_cursor_cleanup_portal_def wpt_modify r l t)
  then show ?thesis using cu live b by (simp add: Some pllua_cursor_cb_def)
qed

definition cbs_done :: "'p spi \<Rightarrow> nat \<Rightarrow> nat set \<Rightarrow> 'p spi \<Rightarrow> bool" where
  "cbs_done s p B s' \<longleftrightarrow>
     spi_inv s' \<and> shrinks s s' \<and> keeps_cursors s s' \<and> portals s' = portals s \<and> by_name s' = by_name s \<and>
     (\<forall>b\<in>B. cbs s' b = Some (p, None)) \<and> (\<forall>b. cbs s' b = cbs s b \<or> cbs s' b = Some (p, None))"

lemma run_callbacks_wpt:
  assumes "spi_inv s" "portals s p = Some po" "set bs \<subseteq> set (portal_cbs po)"
  shows "wpt (run_callbacks bs) (\<lambda>_. cbs_done s p (set bs)) E P s"
  using assms
proof (induction bs arbitrary: s)
  case Nil
  then show ?case by (simp add: cbs_done_def)
next
  case (Cons b bs)
  obtain a where b: "cbs s b = Some (p, a)"
    using spi_inv_portalD [OF Cons.prems(1,2)] Cons.prems(3) by (metis list.set_intros(1) subset_iff)
  have "wpt (run_callbacks bs) (\<lambda>_. cbs_done s p (set (b # bs))) E P t" if h: "cb_done s p b t" for t
  proof (rule wpt_mono)
    show "wpt (run_callbacks bs) (\<lambda>_. cbs_done t p (set bs)) E P t"
      using Cons.IH [of t] Cons.prems h by (simp add: cb_done_def)
    show "cbs_done s p (set (b # bs)) u" if h': "cbs_done t p (set bs) u" for u
    proof -
      have "\<forall>b'. cbs u b' = cbs t b' \<or> cbs u b' = Some (p, None)" using h' by (simp add: cbs_done_def)
      moreover have "cbs t = (cbs s)(b \<mapsto> (p, None))" using h by (simp add: cb_done_def)
      ultimately have c: "\<forall>b'. cbs u b' = cbs s b' \<or> cbs u b' = Some (p, None)" "cbs u b = Some (p, None)"
        by (metis fun_upd_apply)+
      then show ?thesis
        using h h' by (auto simp: cbs_done_def cb_done_def intro: shrinks_trans keeps_cursors_trans)
    qed
  qed auto
  then have "wpt (pllua_cursor_cb a) (\<lambda>_. wpt (run_callbacks bs) (\<lambda>_. cbs_done s p (set (b # bs))) E P) E P s"
    by (intro wpt_mono [OF pllua_cursor_cb_wpt [OF Cons.prems(1) b, where E = E and P = P]]) auto
  then show ?case using b by simp
qed

lemma portal_free_keeps:
  assumes d: "cbs_done s p (set (portal_cbs po)) t" and po: "portals s p = Some po"
  shows "spi_inv (portal_free p (portal_name po) t)" "shrinks s (portal_free p (portal_name po) t)" "keeps_cursors s (portal_free p (portal_name po) t)"
    "portals (portal_free p (portal_name po) t) = (portals s)(p := None)"
proof -
  have inv: "spi_inv t" and pt: "portals t = portals s" and fin: "\<forall>b\<in>set (portal_cbs po). cbs t b = Some (p, None)"
    using d by (simp_all add: cbs_done_def)
  let ?u = "portal_free p (portal_name po) t"
  have cbs_u: "cbs ?u b = Some (q, a) \<longleftrightarrow> cbs t b = Some (q, a) \<and> q \<noteq> p" for b q a
    by (auto simp: portal_free_def split: option.splits if_splits)
  have gone: "curs_portal cu \<noteq> Some p" if h: "cursors t c = Some cu" for c cu
  proof
    assume "curs_portal cu = Some p"
    then obtain b po' where "cbs t b = Some (p, Some c)" "portals t p = Some po'" "b \<in> set (portal_cbs po')"
      using spi_inv_cursorD [OF inv h] by blast
    then show False using po pt fin by auto
  qed
  have "cursor_inv ?u c cu" if h: "cursors ?u c = Some cu" for c cu
  proof (cases "curs_portal cu")
    case (Some q)
    have h': "cursors t c = Some cu" using h by (simp add: portal_free_def)
    obtain b po' where b: "is_live cu" "curs_cb cu = Some b" "cbs t b = Some (q, Some c)"
      "portals t q = Some po'" "b \<in> set (portal_cbs po')"
      using spi_inv_cursorD [OF inv h' Some] by blast
    have "q \<noteq> p" using gone [OF h'] Some by blast
    then have "cbs ?u b = Some (q, Some c)" "portals ?u q = Some po'"
      using b cbs_u by (auto simp: portal_free_def)
    then show ?thesis using b Some by (simp add: cursor_inv_def)
  qed (simp add: cursor_inv_def)
  moreover have "cb_inv ?u"
    using inv cbs_u unfolding spi_inv_def cb_inv_def by (auto simp: portal_free_def)
  moreover have "portal_inv ?u"
  proof -
    have "\<exists>a. cbs ?u b = Some (q, a)" if h: "portals ?u q = Some po'" "b \<in> set (portal_cbs po')" for q po' b
    proof -
      have "q \<noteq> p" "portals t q = Some po'" using h by (auto simp: portal_free_def split: if_splits)
      then show ?thesis using spi_inv_portalD [OF inv _ h(2)] cbs_u by metis
    qed
    then show ?thesis by (simp add: portal_inv_def)
  qed
  moreover have "reg_inv ?u" "set (finalizing ?u) \<subseteq> dom (cursors ?u)"
    using inv unfolding spi_inv_def reg_inv_def by (auto simp: portal_free_def)
  moreover have "name_inv ?u"
  proof -
    have n: "\<exists>po'. portals t q = Some po' \<and> portal_name po' = n" if "by_name t n = Some q" for n q
      using inv that unfolding spi_inv_def name_inv_def by blast
    have "\<exists>po'. portals ?u q = Some po' \<and> portal_name po' = n" if h: "by_name ?u n = Some q" for n q
    proof -
      have "n \<noteq> portal_name po" "by_name t n = Some q" using h by (auto simp: portal_free_def split: if_splits)
      then show ?thesis using n [of n q] po pt by (auto simp: portal_free_def)
    qed
    then show ?thesis by (simp add: name_inv_def)
  qed
  ultimately show "spi_inv ?u" unfolding spi_inv_def by blast
  have "shrinks t ?u" "keeps_cursors t ?u"
    by (auto simp: shrinks_def keeps_cursors_def portal_free_def)
  then show "shrinks s ?u" "keeps_cursors s ?u"
    using d unfolding cbs_done_def by (blast intro: shrinks_trans keeps_cursors_trans)+
  show "portals ?u = (portals s)(p := None)" using pt by (simp add: portal_free_def)
qed

definition freed :: "'p spi \<Rightarrow> nat \<Rightarrow> 'p spi \<Rightarrow> bool" where
  "freed s p s' \<longleftrightarrow>
     spi_inv s' \<and> shrinks s s' \<and> keeps_cursors s s' \<and> portals s' = (portals s)(p := None)"

lemma portal_drop_wpt:
  assumes inv: "spi_inv s" and p: "portals s p \<noteq> None"
  shows "wpt (portal_drop p) (\<lambda>_. freed s p) E P s"
proof -
  obtain po where po: "portals s p = Some po" using p by blast
  have "wpt (run_callbacks (portal_cbs po)) (\<lambda>_ t. freed s p (portal_free p (portal_name po) t)) E P s"
    using portal_free_keeps [OF _ po]
    by (intro wpt_mono [OF run_callbacks_wpt [OF inv po order.refl, where E = E and P = P]])
       (auto simp: freed_def)
  then show ?thesis by (simp add: portal_drop_def po)
qed

lemma freed_ghost [simp]: "freed (s\<lparr>spi_faults := fs\<rparr>) p = freed s p"
  by (simp add: fun_eq_iff freed_def shrinks_def keeps_cursors_def)

lemma SPI_cursor_close_wpt:
  assumes inv: "spi_inv s" and p: "portals s p \<noteq> None"
  shows "wpt (SPI_cursor_close p) (\<lambda>_. freed s p)
           E (\<lambda>_ t. spi_inv t \<and> shrinks s t \<and> keeps_cursors s t \<and> portals t = portals s) s"
  using portal_drop_wpt [of "s\<lparr>spi_faults := fs\<rparr>" p for fs] portal_drop_wpt [OF inv p] inv p
  unfolding SPI_cursor_close_def wpt_bindm
  by (intro wpt_spi_pg_call) simp_all

definition detached :: "'p spi \<Rightarrow> nat \<Rightarrow> 'p spi \<Rightarrow> bool" where
  "detached s c t \<longleftrightarrow>
     spi_inv t \<and> shrinks s t \<and> keeps_cursors s t \<and> (\<exists>cu. cursors t c = Some cu \<and> curs_portal cu = None)"

lemma detach_portal_wpt:
  assumes inv: "spi_inv s" and cu: "cursors s c = Some cu" "curs_portal cu = Some old"
  shows "wpt (detach_portal c cu old) (\<lambda>_ t. detached s c t \<and> portals t = portals s) E P s"
proof -
  obtain b where b: "curs_cb cu = Some b" "cbs s b = Some (old, Some c)"
    using spi_inv_cursorD [OF inv cu] by blast
  let ?cu = "cu\<lparr>curs_portal := None\<rparr>"
  let ?t = "s\<lparr>cbs := (cbs s)(b \<mapsto> (old, None)), cursors := (cursors s)(c \<mapsto> ?cu)\<rparr>"
  let ?u = "?t\<lparr>reg := (reg ?t)(old := None)\<rparr>"
  let ?v = "s\<lparr>cbs := (cbs s)(b \<mapsto> (old, None)), reg := (reg s)(old := None),
               cursors := (cursors s)(c \<mapsto> ?cu)\<rparr>"
  have "detached s c ?u"
    using spi_inv_reg_none [OF spi_inv_detach [OF inv cu b(1), of ?cu]] shrinks_detach [OF cu(1), of ?cu b] b(2)
    by (simp add: detached_def)
  moreover have "?u = ?v" by simp
  ultimately have "detached s c ?v" by (rule back_subst)
  then show ?thesis
    using cu b by (simp add: detach_portal_def)
qed

lemma attach_portal_wpt:
  assumes inv: "spi_inv s" and cu: "cursors s c = Some cu" "curs_portal cu = None" "curs_cb cu = Some b"
    and po: "portals s p = Some po" and b: "cbs s b = Some (p, None)" and c: "c \<notin> set (finalizing s)"
  shows "wpt (attach_portal c p ours b) (\<lambda>_ t. spi_inv t \<and> keeps_cursors s t) E P s"
proof -
  let ?cu = "cu\<lparr>curs_portal := Some p, is_live := True, is_ours := ours, is_private := False\<rparr>"
  let ?po = "po\<lparr>portal_cbs := b # portal_cbs po\<rparr>"
  let ?t = "s\<lparr>reg := (reg s)(p \<mapsto> c), cbs := (cbs s)(b \<mapsto> (p, Some c)),
               cursors := (cursors s)(c \<mapsto> ?cu), portals := (portals s)(p \<mapsto> ?po)\<rparr>"
  have "cursor_inv ?t d du" if h: "cursors ?t d = Some du" for d du
  proof (cases "d = c \<or> curs_portal du = None")
    case True
    then show ?thesis using h cu(3) by (auto simp: cursor_inv_def)
  next
    case False
    then obtain q where q: "curs_portal du = Some q" and d: "cursors s d = Some du" using h by auto
    obtain b' po' where b': "is_live du" "curs_cb du = Some b'" "cbs s b' = Some (q, Some d)"
      "portals s q = Some po'" "b' \<in> set (portal_cbs po')"
      using spi_inv_cursorD [OF inv d q] by blast
    moreover from this b have "b' \<noteq> b" by auto
    ultimately show ?thesis using po by (auto simp: cursor_inv_def q)
  qed
  moreover have "cb_inv ?t"
  proof -
    have "\<exists>du. cursors ?t d = Some du \<and> curs_portal du = Some q \<and> curs_cb du = Some b'"
      if h: "cbs ?t b' = Some (q, Some d)" for b' q d
    proof (cases "b' = b")
      case True
      then show ?thesis using h cu(3) by auto
    next
      case False
      then have b': "cbs s b' = Some (q, Some d)" using h by simp
      obtain du where du: "cursors s d = Some du" "curs_portal du = Some q" "curs_cb du = Some b'"
        using spi_inv_cbD [OF inv b'] by blast
      then have "d \<noteq> c" using cu by auto
      then show ?thesis using du by simp
    qed
    then show ?thesis unfolding cb_inv_def by blast
  qed
  moreover have "portal_inv ?t"
  proof -
    have "\<exists>a. cbs ?t b' = Some (q, a)" if h: "portals ?t q = Some po'" "b' \<in> set (portal_cbs po')" for q po' b'
    proof (cases "b' = b")
      case True
      have "q = p"
      proof (rule ccontr)
        assume "q \<noteq> p"
        then have "portals s q = Some po'" using h by simp
        then show False using spi_inv_portalD [OF inv _ h(2)] True b \<open>q \<noteq> p\<close> by auto
      qed
      then show ?thesis using True by simp
    next
      case False
      then obtain po'' where "portals s q = Some po''" "b' \<in> set (portal_cbs po'')"
        using h po by (cases "q = p") auto
      then obtain a where "cbs s b' = Some (q, a)" using spi_inv_portalD [OF inv] by blast
      then show ?thesis using False by simp
    qed
    then show ?thesis by (simp add: portal_inv_def)
  qed
  moreover have "reg_inv ?t" "set (finalizing ?t) \<subseteq> dom (cursors ?t)"
    using inv cu c unfolding spi_inv_def reg_inv_def by auto
  moreover have "name_inv ?t"
    using inv po unfolding spi_inv_def name_inv_def by fastforce
  ultimately have "spi_inv ?t" unfolding spi_inv_def by blast
  moreover have "keeps_cursors s ?t" using cu by (auto simp: keeps_cursors_def)
  ultimately show ?thesis using cu po b by (simp add: attach_portal_def)
qed

lemma alloc_cb_wpt:
  assumes inv: "spi_inv s" and cu: "cursors s c = Some cu" "curs_portal cu = None"
    and p: "portals s p \<noteq> None" and b: "cbs s b = None"
  shows "wpt (alloc_cb c p b)
           (\<lambda>_ t. spi_inv t \<and> keeps_cursors s t \<and> portals t = portals s \<and> cbs t b = Some (p, None) \<and>
                  (\<exists>cu'. cursors t c = Some cu' \<and> curs_portal cu' = None \<and> curs_cb cu' = Some b))
           E (\<lambda>_ t. spi_inv t \<and> keeps_cursors s t) s"
proof -
  let ?t = "\<lambda>s. s\<lparr>cbs := (cbs s)(b \<mapsto> (p, None)), cursors := (cursors s)(c \<mapsto> cu\<lparr>curs_cb := Some b\<rparr>)\<rparr>"
  have t: "spi_inv (?t s)"
    if inv: "spi_inv s" and cu: "cursors s c = Some cu" "curs_portal cu = None" and b: "cbs s b = None"
    for s :: "'p spi"
  proof -
    have "cursor_inv (?t s) d du" if h: "cursors (?t s) d = Some du" for d du
    proof (cases "curs_portal du")
      case (Some q)
      then have d: "cursors s d = Some du" using h cu by (auto split: if_splits)
      obtain b' po' where "is_live du" "curs_cb du = Some b'" "cbs s b' = Some (q, Some d)"
        "portals s q = Some po'" "b' \<in> set (portal_cbs po')"
        using spi_inv_cursorD [OF inv d Some] by blast
      moreover from this b have "b' \<noteq> b" by auto
      ultimately show ?thesis by (simp add: cursor_inv_def Some)
    qed (simp add: cursor_inv_def)
    moreover have "cb_inv (?t s)"
      using inv cu unfolding spi_inv_def cb_inv_def by (auto 4 4)
    moreover have "portal_inv (?t s)"
    proof -
      have "\<exists>a. cbs (?t s) b' = Some (q, a)" if h: "portals s q = Some po'" "b' \<in> set (portal_cbs po')" for q po' b'
      proof -
        obtain a where "cbs s b' = Some (q, a)" using spi_inv_portalD [OF inv h] by blast
        then show ?thesis using b by (cases "b' = b") auto
      qed
      then show ?thesis by (simp add: portal_inv_def)
    qed
    moreover have "reg_inv (?t s)" "set (finalizing (?t s)) \<subseteq> dom (cursors (?t s))" "name_inv (?t s)"
      using inv cu unfolding spi_inv_def reg_inv_def name_inv_def by auto
    ultimately show ?thesis unfolding spi_inv_def by blast
  qed
  obtain po where po: "portals s p = Some po" using p by blast
  show ?thesis
    unfolding alloc_cb_def
    using inv cu po b t [of s] t [of "s\<lparr>spi_faults := fs\<rparr>" for fs]
    by (simp, intro wpt_spi_pg_call) (auto simp: keeps_cursors_def)
qed

lemma wpt_conj_exn:
  "wpt m (\<lambda>_. Q) (\<lambda>_ _. Q) (\<lambda>_. Q) s \<Longrightarrow> (\<And>t. Q t \<Longrightarrow> R t) \<Longrightarrow> wpt m (\<lambda>_. R) (\<lambda>_ _. R) (\<lambda>_. R) s"
  by (erule wpt_mono) auto

text \<open>A reachable object: allocated, and not garbage.\<close>

definition usable :: "'p spi \<Rightarrow> nat \<Rightarrow> bool" where
  "usable s c \<longleftrightarrow> cursors s c \<noteq> None \<and> c \<notin> set (finalizing s)"

lemma detached_trans:
  assumes t: "detached s c t" and u: "spi_inv u" "shrinks t u" "keeps_cursors t u"
  shows "detached s c u"
proof -
  obtain cu1 where cu1: "cursors t c = Some cu1" "curs_portal cu1 = None"
    using t unfolding detached_def by blast
  then obtain cu2 where cu2: "cursors u c = Some cu2"
    using u(3) unfolding keeps_cursors_def by (metis domD domI)
  then have "curs_portal cu2 = None" using u(2) cu1 unfolding shrinks_def by metis
  then show ?thesis
    using t u cu2 unfolding detached_def by (blast intro: shrinks_trans keeps_cursors_trans)
qed

text \<open>Only the owner's portal is closed.\<close>

definition closed :: "'p spi \<Rightarrow> nat \<Rightarrow> 'p spi \<Rightarrow> bool" where
  "closed s c t \<longleftrightarrow>
     detached s c t \<and>
     (\<forall>p. portals s p \<noteq> None \<longrightarrow> portals t p = None \<longrightarrow>
        (\<exists>cu. cursors s c = Some cu \<and> is_ours cu \<and> curs_portal cu = Some p))"

lemma setportal_none_wpt:
  assumes inv: "spi_inv s" and c: "cursors s c \<noteq> None"
  shows "wpt (pllua_cursor_setportal e c None ours b) (\<lambda>_. closed s c) (\<lambda>_ _. closed s c) (\<lambda>_ _. False) s"
proof -
  obtain cu where cu: "cursors s c = Some cu" using c by blast
  show ?thesis
  proof (cases "curs_portal cu")
    case None
    then show ?thesis using inv cu by (simp add: pllua_cursor_setportal_def closed_def detached_def)
  next
    case (Some old)
    have close: "wpt (SPI_cursor_close old) (\<lambda>_. closed s c) E (\<lambda>_. closed s c) t"
      if t: "detached s c t" "portals t = portals s" and ours: "is_ours cu" for t E
    proof -
      have p: "portals t old \<noteq> None" using spi_inv_cursorD [OF inv cu Some] t(2) by auto
      have "detached s c u" if "spi_inv u" "shrinks t u" "keeps_cursors t u" for u
        using detached_trans [OF t(1) that] .
      then show ?thesis
        using t cu ours Some
        by (intro wpt_mono [OF SPI_cursor_close_wpt [OF _ p, where E = E]])
           (auto simp: detached_def freed_def closed_def split: if_splits)
    qed
    have "wpt (detach_portal c cu old)
            (\<lambda>_. wpt (whenm (is_ours cu) (SPI_cursor_close old)) (\<lambda>_. closed s c) E (\<lambda>_. closed s c)) E P s" for E P
      using close
      by (intro wpt_mono [OF detach_portal_wpt [OF inv cu Some, where E = E and P = P]]) (auto simp: closed_def)
    then show ?thesis
      using cu Some by (simp add: pllua_cursor_setportal_def)
  qed
qed

definition kept :: "'p spi \<Rightarrow> 'p spi \<Rightarrow> bool" where
  "kept s t \<longleftrightarrow> spi_inv t \<and> keeps_cursors s t"

lemma alloc_attach_wpt:
  assumes inv: "spi_inv s" and cu: "cursors s c = Some cu" "curs_portal cu = None"
    and c: "c \<notin> set (finalizing s)" and p: "portals s p \<noteq> None" and b: "cbs s b = None"
    and k: "keeps_cursors s0 s"
  shows "wpt (alloc_cb c p b) (\<lambda>_. wpt (attach_portal c p ours b) (\<lambda>_. kept s0) E P) E (\<lambda>_. kept s0) s"
proof (rule wpt_mono [OF alloc_cb_wpt [OF inv cu p b, where E = E]])
  fix t
  assume t: "spi_inv t \<and> keeps_cursors s t \<and> portals t = portals s \<and> cbs t b = Some (p, None) \<and>
               (\<exists>cu'. cursors t c = Some cu' \<and> curs_portal cu' = None \<and> curs_cb cu' = Some b)"
  then obtain cu' po where "cursors t c = Some cu'" "curs_portal cu' = None" "curs_cb cu' = Some b"
    "portals t p = Some po" using p by auto
  moreover have "c \<notin> set (finalizing t)" using t c by (simp add: keeps_cursors_def)
  ultimately show "wpt (attach_portal c p ours b) (\<lambda>_. kept s0) E P t"
    using t k by (intro wpt_mono [OF attach_portal_wpt [where E = E and P = P]])
               (auto simp: kept_def intro: keeps_cursors_trans)
qed (use k in \<open>auto simp: kept_def intro: keeps_cursors_trans\<close>)

lemma setportal_some_wpt:
  assumes inv: "spi_inv s" and c: "usable s c" and p: "portals s p \<noteq> None" and b: "cbs s b = None"
    and new: "\<And>cu. cursors s c = Some cu \<Longrightarrow> curs_portal cu \<noteq> Some p"
  shows "wpt (pllua_cursor_setportal e c (Some p) ours b) (\<lambda>_. kept s) (\<lambda>_ _. kept s) (\<lambda>_ _. False) s"
proof -
  obtain cu where cu: "cursors s c = Some cu" using c unfolding usable_def by blast
  have fin: "c \<notin> set (finalizing s)" using c by (simp add: usable_def)
  show ?thesis
  proof (cases "curs_portal cu")
    case None
    then show ?thesis
      using cu alloc_attach_wpt [OF inv cu None fin p b keeps_cursors_refl] by (simp add: pllua_cursor_setportal_def)
  next
    case (Some old)
    have alloc: "wpt (alloc_cb c p b) (\<lambda>_. wpt (attach_portal c p ours b) (\<lambda>_. kept s) E P) E (\<lambda>_. kept s) t"
      if t: "detached s c t" "portals t p \<noteq> None" for t E P
    proof -
      obtain cu1 where cu1: "cursors t c = Some cu1" "curs_portal cu1 = None"
        using t(1) unfolding detached_def by blast
      have "c \<notin> set (finalizing t)" "cbs t b = None" "spi_inv t" "keeps_cursors s t"
        using t(1) fin b by (auto simp: detached_def keeps_cursors_def shrinks_def)
      then show ?thesis using alloc_attach_wpt [OF _ cu1 _ t(2)] by blast
    qed
    have close: "wpt (SPI_cursor_close old) (\<lambda>_ u. detached s c u \<and> portals u p \<noteq> None) E (\<lambda>_. detached s c) t"
      if t: "detached s c t" "portals t = portals s" for t E
    proof -
      have q: "portals t old \<noteq> None" using spi_inv_cursorD [OF inv cu Some] t(2) by auto
      have "detached s c u" if "spi_inv u" "shrinks t u" "keeps_cursors t u" for u
        using detached_trans [OF t(1) that] .
      moreover have "old \<noteq> p" using new cu Some by auto
      ultimately show ?thesis
        using t p by (intro wpt_mono [OF SPI_cursor_close_wpt [OF _ q, where E = E]])
                   (auto simp: detached_def freed_def)
    qed
    have rest: "wpt (whenm (is_ours cu) (SPI_cursor_close old))
                  (\<lambda>_. wpt (alloc_cb c p b) (\<lambda>_. wpt (attach_portal c p ours b) (\<lambda>_. kept s) E P) E (\<lambda>_. kept s))
                  E' (\<lambda>_. kept s) t"
      if t: "detached s c t" "portals t = portals s" for t E E' P
      using alloc t p by (auto simp: kept_def detached_def intro!: wpt_mono [OF close [OF t, where E = E']])
    show ?thesis
      using cu Some rest
      by (auto simp: pllua_cursor_setportal_def intro!: wpt_mono [OF detach_portal_wpt [OF inv cu Some]])
  qed
qed

subsection \<open>The collector\<close>

lemma pllua_cursor_gc_wpt:
  assumes inv: "spi_inv s" and c: "cursors s c \<noteq> None"
  shows "wpt (pllua_cursor_gc e c) (\<lambda>_. closed s c) (\<lambda>_ _. closed s c) (\<lambda>_ _. False) s"
proof -
  obtain cu where cu: "cursors s c = Some cu" using c by blast
  have "curs_portal cu = None" if "\<not> is_live cu"
    using that spi_inv_cursorD [OF inv cu] by (metis not_Some_eq)
  then show ?thesis
    using inv cu setportal_none_wpt [OF inv c] by (auto simp: pllua_cursor_gc_def closed_def detached_def)
qed

lemma spi_inv_free_cursor:
  assumes inv: "spi_inv t" and g: "g \<in> set (finalizing t)" and cu: "cursors t g = Some cu" "curs_portal cu = None"
  shows "spi_inv (t\<lparr>cursors := (cursors t)(g := None), finalizing := removeAll g (finalizing t)\<rparr>)"
proof -
  have "cbs t b \<noteq> Some (p, Some g)" for b p using spi_inv_cbD [OF inv] cu by fastforce
  then show ?thesis
    using inv g cu unfolding spi_inv_def spi_inv_defs by (auto cong: option.case_cong)
qed

definition spares :: "'p spi \<Rightarrow> nat set \<Rightarrow> 'p spi \<Rightarrow> bool" where
  "spares s G t \<longleftrightarrow>
     (\<forall>p. portals s p \<noteq> None \<longrightarrow> portals t p = None \<longrightarrow>
        (\<exists>g\<in>G. \<exists>cu. cursors s g = Some cu \<and> is_ours cu \<and> curs_portal cu = Some p))"

lemma finalize_wpt:
  assumes inv: "spi_inv s"
  shows "wpt (finalize e g) (\<lambda>_ t. spi_inv t \<and> shrinks s t \<and> spares s {g} t) E P s"
proof (cases "g \<in> set (finalizing s)")
  case False
  then show ?thesis using inv by (auto simp: wpt_def finalize_def spares_def)
next
  case True
  then have c: "cursors s g \<noteq> None" using inv unfolding spi_inv_def by blast
  have t: "spi_inv u \<and> shrinks s u \<and> spares s {g} u"
    if cl: "closed s g t" and u: "u = t\<lparr>cursors := (cursors t)(g := None), finalizing := removeAll g (finalizing t)\<rparr>"
    for t u
  proof -
    have d: "detached s g t" using cl by (simp add: closed_def)
    then have fin: "g \<in> set (finalizing t)" using True by (simp add: detached_def keeps_cursors_def)
    obtain cu where cu: "cursors t g = Some cu" "curs_portal cu = None" "spi_inv t"
      using d by (auto simp: detached_def)
    have "spi_inv u" using spi_inv_free_cursor [OF cu(3) fin cu(1,2)] u by simp
    moreover have "shrinks t u" using u by (auto simp: shrinks_def)
    moreover have "spares s {g} u" using cl u by (auto simp: closed_def spares_def)
    ultimately show ?thesis using d by (auto simp: detached_def intro: shrinks_trans)
  qed
  show ?thesis
    using pllua_cursor_gc_wpt [OF inv c, of e] t True
    by (auto simp: wpt_def finalize_def split: prod.splits outcome.splits)
qed

lemma spares_trans:
  assumes "spares s G t" "spares t H u" "shrinks s t"
  shows "spares s (G \<union> H) u"
proof -
  have "\<exists>g\<in>G \<union> H. \<exists>cu. cursors s g = Some cu \<and> is_ours cu \<and> curs_portal cu = Some p"
    if p: "portals s p \<noteq> None" "portals u p = None" for p
  proof (cases "portals t p = None")
    case True
    then show ?thesis using assms(1) p unfolding spares_def by blast
  next
    case False
    then obtain g cu where g: "g \<in> H" "cursors t g = Some cu" "is_ours cu" "curs_portal cu = Some p"
      using assms(2) p unfolding spares_def by blast
    then obtain cu0 where "cursors s g = Some cu0"
      using assms(3) unfolding shrinks_def by (metis not_Some_eq)
    then have "is_ours cu0" "curs_portal cu0 = Some p"
      using assms(3) g unfolding shrinks_def by (metis option.distinct(1))+
    then show ?thesis using \<open>cursors s g = Some cu0\<close> g(1) by blast
  qed
  then show ?thesis unfolding spares_def by blast
qed

lemma run_gc_wpt:
  assumes "spi_inv s"
  shows "wpt (run_gc e gs) (\<lambda>_ t. spi_inv t \<and> shrinks s t \<and> spares s (set gs) t) E P s"
  using assms
proof (induction gs arbitrary: s)
  case Nil
  then show ?case by (auto simp: spares_def)
next
  case (Cons g gs)
  have "wpt (run_gc e gs) (\<lambda>_ u. spi_inv u \<and> shrinks s u \<and> spares s (set (g # gs)) u) E P t"
    if t: "spi_inv t \<and> shrinks s t \<and> spares s {g} t" for t
    using t spares_trans [of s "{g}" t "set gs"]
    by (intro wpt_mono [OF Cons.IH [of t]]) (auto intro: shrinks_trans)
  then show ?case
    by (auto intro!: wpt_mono [OF finalize_wpt [OF Cons.prems, where E = E and P = P]])
qed

subsection \<open>Operations\<close>

lemma spi_inv_newcursor:
  assumes inv: "spi_inv s" and c: "cursors s c = None" and cu: "curs_portal cu = None"
  shows "spi_inv (s\<lparr>cursors := (cursors s)(c \<mapsto> cu)\<rparr>)"
proof -
  have "cbs s b \<noteq> Some (p, Some c)" for b p using spi_inv_cbD [OF inv] c by fastforce
  then show ?thesis
    using inv c cu unfolding spi_inv_def spi_inv_defs by (auto cong: option.case_cong)
qed

text \<open>Changes to a cursor that leave its portal and callback alone.\<close>

lemma spi_inv_upd:
  assumes inv: "spi_inv s" and cu: "cursors s c = Some cu"
    and f: "curs_portal cu' = curs_portal cu" "curs_cb cu' = curs_cb cu" "is_live cu' = is_live cu"
  shows "spi_inv (s\<lparr>cursors := (cursors s)(c \<mapsto> cu')\<rparr>)"
proof -
  let ?t = "s\<lparr>cursors := (cursors s)(c \<mapsto> cu')\<rparr>"
  have all: "cursor_inv s d du" if "cursors s d = Some du" for d du
    using inv that unfolding spi_inv_def by blast
  have "cursor_inv ?t d du" if h: "cursors ?t d = Some du" for d du
    using h all [OF cu] all [of d du] f by (cases "d = c") (auto simp: cursor_inv_def cong: option.case_cong)
  moreover have "\<exists>du. cursors ?t d = Some du \<and> curs_portal du = Some p \<and> curs_cb du = Some b"
    if h: "cbs s b = Some (p, Some d)" for b p d
  proof -
    obtain du where "cursors s d = Some du" "curs_portal du = Some p" "curs_cb du = Some b"
      using spi_inv_cbD [OF inv h] by blast
    then show ?thesis using cu f by (cases "d = c") auto
  qed
  moreover have "portal_inv ?t" "reg_inv ?t" "name_inv ?t" "set (finalizing ?t) \<subseteq> dom (cursors ?t)"
    using inv unfolding spi_inv_def portal_inv_def reg_inv_def name_inv_def by auto
  ultimately show ?thesis unfolding spi_inv_def cb_inv_def by auto
qed

lemma kept_trans: "keeps_cursors s t \<Longrightarrow> kept t u \<Longrightarrow> kept s u"
  by (auto simp: kept_def intro: keeps_cursors_trans)

text \<open>The finder is safe when no garbage cursor that it finalizes owns the portal it found.\<close>

definition gc_hazard :: "'p spi \<Rightarrow> string \<Rightarrow> nat list \<Rightarrow> bool" where
  "gc_hazard s name gcs \<longleftrightarrow>
     (\<exists>p. by_name s name = Some p \<and>
        (\<exists>g\<in>set gcs. \<exists>cu. cursors s g = Some cu \<and> is_ours cu \<and> curs_portal cu = Some p))"

abbreviation keeps_inv :: "('p spi, 'a) m \<Rightarrow> 'p spi \<Rightarrow> bool" where
  "keeps_inv m s \<equiv> wpt m (\<lambda>_. spi_inv) (\<lambda>_ _. spi_inv) (\<lambda>_. spi_inv) s"

lemma findcursor_new:
  assumes inv: "spi_inv s" and p: "portals s p \<noteq> None" and c: "cursors s c = None" and b: "cbs s b = None"
    and q: "Q = (\<lambda>c' t. spi_inv t \<and> (c' = None \<longrightarrow> cursors t c = None))"
  shows "wpt (bindm (pllua_newcursor c) (\<lambda>_.
              bindm (upd_cursor c (\<lambda>r. r\<lparr>curs_name := Some name\<rparr>)) (\<lambda>_.
              bindm (pllua_cursor_setportal e c (Some p) False b) (\<lambda>_. ret (Some c)))))
           Q (\<lambda>_ _. spi_inv) (\<lambda>_. spi_inv) s"
proof -
  define cu where "cu = \<lparr>curs_portal = None, curs_cb = None, curs_fetch_count = 0, is_ours = False,
    is_private = False, is_live = False, curs_name = Some name, curs_q = (\<lambda>_. None)\<rparr>"
  let ?t = "s\<lparr>cursors := (cursors s)(c \<mapsto> cu)\<rparr>"
  have inv': "spi_inv ?t" by (rule spi_inv_newcursor [OF inv c]) (simp add: cu_def)
  have "c \<notin> set (finalizing s)" using inv c unfolding spi_inv_def by auto
  then have "wpt (pllua_cursor_setportal e c (Some p) False b) (\<lambda>_. kept ?t) (\<lambda>_ _. kept ?t) (\<lambda>_ _. False) ?t"
    using p b by (intro setportal_some_wpt [OF inv']) (auto simp: usable_def cu_def)
  then have "wpt (pllua_cursor_setportal e c (Some p) False b) (\<lambda>_. Q (Some c)) (\<lambda>_ _. spi_inv) (\<lambda>_. spi_inv) ?t"
    by (rule wpt_mono) (auto simp: kept_def q)
  then show ?thesis by (simp add: pllua_newcursor_def cu_def)
qed

lemma pllua_spi_findcursor_wpt:
  assumes inv: "spi_inv s" and c: "cursors s c = None" and b: "cbs s b = None"
    and safe: "\<not> gc_hazard s name gcs"
    and Q: "Q = (\<lambda>c' t. spi_inv t \<and> (c' = None \<longrightarrow> cursors t c = None))"
  shows "wpt (pllua_spi_findcursor e name c b gcs) Q (\<lambda>_ _. spi_inv) (\<lambda>_. spi_inv) s"
proof -
  let ?rest = "\<lambda>portal. case portal of
       None \<Rightarrow> ret None
     | Some p \<Rightarrow>
         if \<not> e_encoding e name then luaL_error ''invalid byte sequence''
         else
           bindm (gets (\<lambda>s. reg s p)) (\<lambda>r.
           case r of
             Some c' \<Rightarrow> find_registered p c'
           | None \<Rightarrow>
               bindm (run_gc e gcs) (\<lambda>_.
               bindm (pllua_newcursor c) (\<lambda>_.
               bindm (upd_cursor c (\<lambda>r. r\<lparr>curs_name := Some name\<rparr>)) (\<lambda>_.
               bindm (pllua_cursor_setportal e c (Some p) False b) (\<lambda>_.
               ret (Some c))))))"
  have rest: "wpt (?rest (by_name t name)) Q (\<lambda>_ _. spi_inv) (\<lambda>_. spi_inv) t"
    if t: "spi_inv t" "cursors t c = None" "cbs t b = None" "\<not> gc_hazard t name gcs" for t
  proof (cases "by_name t name")
    case None
    then show ?thesis using t by (simp add: Q)
  next
    case (Some p)
    have p: "portals t p \<noteq> None" using t(1) Some unfolding spi_inv_def name_inv_def by blast
    have gc: "wpt (run_gc e gcs) (\<lambda>_. wpt (bindm (pllua_newcursor c) (\<lambda>_.
               bindm (upd_cursor c (\<lambda>r. r\<lparr>curs_name := Some name\<rparr>)) (\<lambda>_.
               bindm (pllua_cursor_setportal e c (Some p) False b) (\<lambda>_.
               ret (Some c))))) Q (\<lambda>_ _. spi_inv) (\<lambda>_. spi_inv)) (\<lambda>_ _. spi_inv) (\<lambda>_. spi_inv) t"
    proof (rule wpt_mono [OF run_gc_wpt [OF t(1), where E = "\<lambda>_ _. spi_inv" and P = "\<lambda>_. spi_inv"]])
      fix u assume u: "spi_inv u \<and> shrinks t u \<and> spares t (set gcs) u"
      then have "portals u p \<noteq> None"
        using p t(4) Some unfolding spares_def gc_hazard_def by blast
      moreover have "cursors u c = None" "cbs u b = None" using u t by (simp_all add: shrinks_def)
      ultimately show "wpt (bindm (pllua_newcursor c) (\<lambda>_.
               bindm (upd_cursor c (\<lambda>r. r\<lparr>curs_name := Some name\<rparr>)) (\<lambda>_.
               bindm (pllua_cursor_setportal e c (Some p) False b) (\<lambda>_.
               ret (Some c))))) Q (\<lambda>_ _. spi_inv) (\<lambda>_. spi_inv) u"
        using u Q by (intro findcursor_new) auto
    qed auto
    have reg: "cursors t c' \<noteq> None" if "reg t p = Some c'" for c'
      using that t(1) unfolding spi_inv_def reg_inv_def by blast
    show ?thesis
      using gc reg t(1)
      by (auto simp: Some find_registered_def Q split: option.splits)
  qed
  have ghost: "gc_hazard (s\<lparr>spi_faults := fs\<rparr>) name gcs = gc_hazard s name gcs" for fs
    by (simp add: gc_hazard_def)
  have "wpt (bindm spi_pg_call (\<lambda>_. gets (\<lambda>s. by_name s name)))
          (\<lambda>po. wpt (?rest po) Q (\<lambda>_ _. spi_inv) (\<lambda>_. spi_inv)) (\<lambda>_ _. spi_inv) (\<lambda>_. spi_inv) s"
    unfolding wpt_bindm wpt_gets
    using rest [of s] rest [of "s\<lparr>spi_faults := fs\<rparr>" for fs] inv c b safe ghost
    by (intro wpt_spi_pg_call) simp_all
  then show ?thesis
    by (simp add: pllua_spi_findcursor_def pllua_spi_findportal_def)
qed

end
