(* ===== verification/Spi_Ops.thy ===== *)
theory Spi_Ops
  imports Spi_Inv
begin

text \<open>
  Every operation on cursors and statements keeps the invariant of \<open>Spi_Inv\<close> and uses no freed
  memory; the finder and the constructor need that the collector does not close the portal they
  have found.
\<close>


lemma pllua_spi_newcursor_wpt:
  assumes inv: "spi_inv s" and c: "cursors s c = None" and b: "cbs s b = None"
    and safe: "\<And>n. name = Some n \<Longrightarrow> \<not> gc_hazard s n gcs"
  shows "keeps_inv (pllua_spi_newcursor e name c b gcs) s"
proof -
  have new: "keeps_inv (bindm (pllua_newcursor c) (\<lambda>_.
         bindm (case name of None \<Rightarrow> ret () | Some n \<Rightarrow> upd_cursor c (\<lambda>r. r\<lparr>curs_name := Some n\<rparr>)) (\<lambda>_.
         ret c))) t" if "spi_inv t" "cursors t c = None" for t
    using spi_inv_newcursor [OF that] by (cases name) (simp_all add: pllua_newcursor_def)
  show ?thesis
  proof (cases name)
    case None
    then show ?thesis using new [OF inv c] by (simp add: pllua_spi_newcursor_def)
  next
    case (Some n)
    have "wpt (pllua_spi_findcursor e n c b gcs)
        (\<lambda>r. wpt (case r of Some c' \<Rightarrow> ret c' | None \<Rightarrow> bindm (pllua_newcursor c) (\<lambda>_.
         bindm (case name of None \<Rightarrow> ret () | Some n \<Rightarrow> upd_cursor c (\<lambda>r. r\<lparr>curs_name := Some n\<rparr>)) (\<lambda>_.
         ret c))) (\<lambda>_. spi_inv) (\<lambda>_ _. spi_inv) (\<lambda>_. spi_inv)) (\<lambda>_ _. spi_inv) (\<lambda>_. spi_inv) s"
    proof (rule wpt_mono [OF pllua_spi_findcursor_wpt [OF inv c b safe [OF Some] refl]])
      fix r :: "nat option" and t assume "spi_inv t \<and> (r = None \<longrightarrow> cursors t c = None)"
      then show "wpt (case r of Some c' \<Rightarrow> ret c' | None \<Rightarrow> bindm (pllua_newcursor c) (\<lambda>_.
         bindm (case name of None \<Rightarrow> ret () | Some n \<Rightarrow> upd_cursor c (\<lambda>r. r\<lparr>curs_name := Some n\<rparr>)) (\<lambda>_.
         ret c))) (\<lambda>_. spi_inv) (\<lambda>_ _. spi_inv) (\<lambda>_. spi_inv) t"
        using new [of t] by (cases r) simp_all
    qed auto
    from this [unfolded Some] show ?thesis by (simp add: pllua_spi_newcursor_def Some)
  qed
qed

lemma closed_inv: "closed s c t \<Longrightarrow> spi_inv t"
  by (simp add: closed_def detached_def)

lemma setportal_none_keeps:
  assumes "spi_inv s" "cursors s c \<noteq> None"
  shows "keeps_inv (pllua_cursor_setportal e c None ours b) s"
  by (rule wpt_mono [OF setportal_none_wpt [OF assms]]) (auto simp: closed_inv)

lemma spi_inv_flags:
  assumes "spi_inv s" "cursors s c = Some cu"
  shows "spi_inv (s\<lparr>cursors := (cursors s)(c \<mapsto> cu\<lparr>is_ours := x\<rparr>)\<rparr>)"
    "spi_inv (s\<lparr>cursors := (cursors s)(c \<mapsto> cu\<lparr>is_private := x\<rparr>)\<rparr>)"
    "spi_inv (s\<lparr>cursors := (cursors s)(c \<mapsto> cu\<lparr>curs_q := q\<rparr>)\<rparr>)"
  by (rule spi_inv_upd [OF assms]; simp)+

lemma cursor_methods_keep:
  assumes inv: "spi_inv s" and c: "cursors s c \<noteq> None"
  shows "keeps_inv (pllua_cursor_close e c) s" "keeps_inv (pllua_cursor_isopen c) s"
    "keeps_inv (pllua_cursor_own c) s" "keeps_inv (pllua_cursor_disown c) s"
    "keeps_inv (pllua_cursor_isowned c) s" "keeps_inv (pllua_cursor_name c) s"
    "keeps_inv (pllua_cursor_meta_close e c) s" "keeps_inv (pllua_cursor_rows c) s"
proof -
  obtain cu where cu: "cursors s c = Some cu" using c by blast
  note flags = spi_inv_flags [OF inv cu]
  show "keeps_inv (pllua_cursor_close e c) s"
    using inv cu setportal_none_keeps [OF flags(1) [of True], of c e False 0]
    by (simp add: pllua_cursor_close_def)
  show "keeps_inv (pllua_cursor_isopen c) s" "keeps_inv (pllua_cursor_isowned c) s"
    "keeps_inv (pllua_cursor_rows c) s"
    using inv cu by (simp_all add: pllua_cursor_isopen_def pllua_cursor_isowned_def pllua_cursor_rows_def)
  show "keeps_inv (pllua_cursor_own c) s" "keeps_inv (pllua_cursor_disown c) s"
    using inv cu flags by (simp_all add: pllua_cursor_own_def pllua_cursor_disown_def)
  show "keeps_inv (pllua_cursor_name c) s"
  proof (cases "curs_portal cu")
    case (Some p)
    then obtain po where "portals s p = Some po" using spi_inv_cursorD [OF inv cu] by blast
    then show ?thesis using inv cu Some by (simp add: pllua_cursor_name_def)
  qed (use inv cu in \<open>simp add: pllua_cursor_name_def\<close>)
  show "keeps_inv (pllua_cursor_meta_close e c) s"
    using inv cu setportal_none_keeps [OF inv c, of e False 0] by (simp add: pllua_cursor_meta_close_def)
qed

text \<open>What parsing changes does not matter here.\<close>

lemma wpt_pg_result [simp]:
  "wpt (pg_result r) N E P s = (case r of Inl err \<Rightarrow> P err s | Inr a \<Rightarrow> N a s)"
  by (simp add: pg_result_def split: sum.splits)

lemma wpt_lua_result [simp]:
  "wpt (lua_result r) N E P s = (case r of Inl msg \<Rightarrow> E LUA_ERRRUN (LStr msg) s | Inr a \<Rightarrow> N a s)"
  by (simp add: lua_result_def split: sum.splits)

lemma wpt_convert_args [simp]:
  "wpt (convert_args e args st) N E P s =
     (case pllua_spi_convert_args e args (param_types st) of Inl msg \<Rightarrow> P (e_to_pg e msg) s | Inr vs \<Rightarrow> N vs s)"
  by (simp add: convert_args_def split: sum.splits)

lemma make_statement_wpt:
  assumes "\<And>st n. N st (s\<lparr>prepare_recursion := n\<rparr>)" "\<And>st. N st s" "\<And>err n. P err (s\<lparr>prepare_recursion := n\<rparr>)" "\<And>err. P err s"
  shows "wpt (pllua_spi_make_statement e str ts opts) N E P s"
proof (cases "e_prepare e str (if ts \<noteq> [] then ts else replicate 16 0) opts")
  case (Inl err)
  then show ?thesis using assms by (simp add: pllua_spi_make_statement_def)
next
  case (Inr r)
  then show ?thesis using assms by (cases r) (auto simp: pllua_spi_make_statement_def)
qed

lemma query_statement_wpt:
  assumes "\<And>st n. N st (s\<lparr>prepare_recursion := n\<rparr>)" "\<And>st. N st s"
    and "\<And>err n. P err (s\<lparr>prepare_recursion := n\<rparr>)" "\<And>err. P err s"
  shows "wpt (query_statement e p str ts cur nargs) N E P s"
  unfolding query_statement_def wpt_bindm
  using assms by (cases p) (auto intro!: make_statement_wpt)

lemma spi_inv_open:
  assumes inv: "spi_inv s" and q: "portals s q = None" and n: "by_name s n = None"
    and po: "portal_cbs po = []" "portal_name po = n"
  shows "spi_inv (s\<lparr>portals := (portals s)(q \<mapsto> po), by_name := (by_name s)(n \<mapsto> q)\<rparr>)"
proof -
  let ?t = "s\<lparr>portals := (portals s)(q \<mapsto> po), by_name := (by_name s)(n \<mapsto> q)\<rparr>"
  have "cursor_inv ?t d du" if h: "cursors s d = Some du" for d du
  proof (cases "curs_portal du")
    case (Some p)
    then obtain b po' where "is_live du" "curs_cb du = Some b" "cbs s b = Some (p, Some d)"
      "portals s p = Some po'" "b \<in> set (portal_cbs po')"
      using spi_inv_cursorD [OF inv h] by blast
    moreover from this q have "p \<noteq> q" by auto
    ultimately show ?thesis using Some by (simp add: cursor_inv_def)
  qed (simp add: cursor_inv_def)
  moreover have "cb_inv ?t" "portal_inv ?t" "reg_inv ?t" "set (finalizing ?t) \<subseteq> dom (cursors ?t)"
    using inv po unfolding spi_inv_def cb_inv_def portal_inv_def reg_inv_def by auto
  moreover have "name_inv ?t"
  proof -
    have "\<exists>po'. portals s p = Some po' \<and> portal_name po' = m" if "by_name s m = Some p" for m p
      using inv that unfolding spi_inv_def name_inv_def by blast
    then show ?thesis using po q by (fastforce simp: name_inv_def)
  qed
  ultimately show ?thesis unfolding spi_inv_def by auto
qed

lemma open_portal_keeps:
  assumes inv: "spi_inv s" and c: "usable s c" and q: "portals s q = None" and b: "cbs s b = None"
  shows "keeps_inv (open_portal e c p str name args gen q b) s"
proof -
  let ?S = "\<lambda>t. spi_inv t \<and> usable t c \<and> portals t q = None \<and> cbs t b = None"
  have new: "cursors t c = Some cu \<Longrightarrow> curs_portal cu \<noteq> Some q" if "?S t" for t cu
    using that spi_inv_cursorD [of t c cu q] by auto
  have set: "keeps_inv (pllua_cursor_setportal e c (Some q) True b) u"
    if u: "spi_inv u" "usable u c" "portals u q \<noteq> None" "cbs u b = None"
      "\<And>cu. cursors u c = Some cu \<Longrightarrow> curs_portal cu \<noteq> Some q" for u
    by (rule wpt_mono [OF setportal_some_wpt [OF u]]) (auto simp: kept_def)
  have opened: "wpt (SPI_cursor_open name gen q scan)
      (\<lambda>_. keeps_inv (pllua_cursor_setportal e c (Some q) True b)) (\<lambda>_ _. spi_inv) (\<lambda>_. spi_inv) t"
    if t: "?S t" for t scan
  proof -
    define n where "n = (case name of None \<Rightarrow> gen | Some n \<Rightarrow> n)"
    show ?thesis
    proof (cases "by_name t n")
      case None
      let ?po = "\<lparr>portal_name = n, portal_cbs = [], portal_scan = scan\<rparr>"
      let ?u = "t\<lparr>portals := (portals t)(q \<mapsto> ?po), by_name := (by_name t)(n \<mapsto> q)\<rparr>"
      have "spi_inv ?u" using t None by (intro spi_inv_open) auto
      then have "keeps_inv (pllua_cursor_setportal e c (Some q) True b) ?u"
        using t new [OF t] by (intro set) (auto simp: usable_def)
      then show ?thesis
        using None by (simp add: wpt_def SPI_cursor_open_def Let_def flip: n_def)
    next
      case (Some x)
      then show ?thesis using t by (simp add: wpt_def SPI_cursor_open_def Let_def flip: n_def)
    qed
  qed
  let ?K = "\<lambda>_ :: unit. keeps_inv (pllua_cursor_setportal e c (Some q) True b)"
  have body: "wpt (query_statement e p str ts True k)
      (\<lambda>st. wpt (convert_args e args st) (\<lambda>params. wpt (pg_result (e_cursor e (st_plan st) params ro))
        (\<lambda>scan. wpt (SPI_cursor_open name gen q scan) ?K (\<lambda>_ _. spi_inv) (\<lambda>_. spi_inv))
        (\<lambda>_ _. spi_inv) (\<lambda>_. spi_inv)) (\<lambda>_ _. spi_inv) (\<lambda>_. spi_inv)) (\<lambda>_ _. spi_inv) (\<lambda>_. spi_inv) t"
    if t: "?S t" for t ts k ro
    using t opened [of t] opened [of "t\<lparr>prepare_recursion := n\<rparr>" for n]
    by (intro query_statement_wpt) (auto simp: usable_def split: sum.splits)
  have "wpt spi_pg_call (\<lambda>_. wpt (gets cur_readonly) (\<lambda>ro. wpt (query_statement e p str (map arg_type args) True (length args))
      (\<lambda>st. wpt (convert_args e args st) (\<lambda>params. wpt (pg_result (e_cursor e (st_plan st) params ro))
        (\<lambda>scan. wpt (SPI_cursor_open name gen q scan) ?K (\<lambda>_ _. spi_inv) (\<lambda>_. spi_inv))
        (\<lambda>_ _. spi_inv) (\<lambda>_. spi_inv)) (\<lambda>_ _. spi_inv) (\<lambda>_. spi_inv)) (\<lambda>_ _. spi_inv) (\<lambda>_. spi_inv))
      (\<lambda>_ _. spi_inv) (\<lambda>_. spi_inv)) (\<lambda>_ _. spi_inv) (\<lambda>_. spi_inv) s"
    using inv c q b body [of s] body [of "s\<lparr>spi_faults := fs\<rparr>" for fs]
    by (intro wpt_spi_pg_call) (simp_all add: usable_def)
  then show ?thesis by (simp add: open_portal_def del: wpt_convert_args wpt_pg_result wpt_gets)
qed

lemma pllua_spi_cursor_open_keeps:
  assumes inv: "spi_inv s" and c: "usable s c" and q: "portals s q = None" and b: "cbs s b = None"
  shows "keeps_inv (pllua_spi_cursor_open e c p str args gen q b) s"
  using assms open_portal_keeps [OF assms]
  by (auto simp: pllua_spi_cursor_open_def open_checks_def usable_def)

lemma stmt_getcursor_keeps:
  assumes inv: "spi_inv s" and c: "cursors s c = None" and q: "portals s q = None" and b: "cbs s b = None"
  shows "keeps_inv (pllua_spi_stmt_getcursor e st args c gen q b) s"
proof -
  have "c \<notin> set (finalizing s)" using inv c unfolding spi_inv_def by auto
  then show ?thesis
    using q b spi_inv_newcursor [OF inv c]
    by (simp add: pllua_spi_stmt_getcursor_def pllua_newcursor_def)
       (rule pllua_spi_cursor_open_keeps; simp add: usable_def)
qed

lemma spi_inv_scan:
  assumes "spi_inv s" "portals s p = Some po"
  shows "spi_inv (s\<lparr>portals := (portals s)(p \<mapsto> po\<lparr>portal_scan := x\<rparr>)\<rparr>)"
proof -
  let ?t = "s\<lparr>portals := (portals s)(p \<mapsto> po\<lparr>portal_scan := x\<rparr>)\<rparr>"
  have "cursor_inv ?t d du" if h: "cursors s d = Some du" for d du
  proof (cases "curs_portal du")
    case (Some q)
    then obtain b po' where "is_live du" "curs_cb du = Some b" "cbs s b = Some (q, Some d)"
      "portals s q = Some po'" "b \<in> set (portal_cbs po')"
      using spi_inv_cursorD [OF assms(1) h] by blast
    then show ?thesis using Some assms(2) by (auto simp: cursor_inv_def)
  qed (simp add: cursor_inv_def)
  moreover have "cb_inv ?t" "portal_inv ?t" "reg_inv ?t" "set (finalizing ?t) \<subseteq> dom (cursors ?t)"
    using assms unfolding spi_inv_def cb_inv_def portal_inv_def reg_inv_def by auto
  moreover have "name_inv ?t"
  proof -
    have "\<exists>po'. portals s q = Some po' \<and> portal_name po' = m" if "by_name s m = Some q" for m q
      using assms(1) that unfolding spi_inv_def name_inv_def by blast
    then show ?thesis using assms(2) by (fastforce simp: name_inv_def)
  qed
  ultimately show ?thesis unfolding spi_inv_def by auto
qed

text \<open>Fetching changes the position of a portal and nothing else.\<close>

definition same_cursors :: "'p spi \<Rightarrow> 'p spi \<Rightarrow> bool" where
  "same_cursors s t \<longleftrightarrow> spi_inv t \<and> cursors t = cursors s \<and> finalizing t = finalizing s"

lemma scroll_portal_wpt:
  assumes "spi_inv s" "portals s p \<noteq> None"
  shows "wpt (scroll_portal e p dir n) (\<lambda>_. same_cursors s) E (\<lambda>_. same_cursors s) s"
proof -
  obtain po where po: "portals s p = Some po" using assms by blast
  note scan = spi_inv_scan [OF assms(1) po] spi_inv_scan [of "s\<lparr>spi_faults := fs\<rparr>" p po for fs]
  show ?thesis
    unfolding scroll_portal_def wpt_bindm
    using assms po scan
    by (intro wpt_spi_pg_call) (auto simp: same_cursors_def split: prod.splits)
qed

lemma cursor_fetch_wpt:
  assumes inv: "spi_inv s" and c: "cursors s c \<noteq> None"
  shows "wpt (pllua_spi_cursor_fetch e c n d) (\<lambda>_. same_cursors s) (\<lambda>_ _. same_cursors s) (\<lambda>_ _. False) s"
    and "wpt (pllua_spi_cursor_move e c n d) (\<lambda>_. same_cursors s) (\<lambda>_ _. same_cursors s) (\<lambda>_ _. False) s"
proof -
  obtain cu where cu: "cursors s c = Some cu" using c by blast
  have p: "portals s p \<noteq> None" if "curs_portal cu = Some p" for p
    using spi_inv_cursorD [OF inv cu that] by blast
  have self: "same_cursors s s" using inv by (simp add: same_cursors_def)
  show "wpt (pllua_spi_cursor_fetch e c n d) (\<lambda>_. same_cursors s) (\<lambda>_ _. same_cursors s) (\<lambda>_ _. False) s"
    "wpt (pllua_spi_cursor_move e c n d) (\<lambda>_. same_cursors s) (\<lambda>_ _. same_cursors s) (\<lambda>_ _. False) s"
    using cu self scroll_portal_wpt [OF inv p]
    by (auto simp: pllua_spi_cursor_fetch_def pllua_spi_cursor_move_def open_portal_of_def split: sum.splits option.splits)
qed

lemma rows_iter_keeps:
  assumes inv: "spi_inv s" and c: "\<And>c. it_cursor it = Some c \<Longrightarrow> cursors s c \<noteq> None"
  shows "keeps_inv (pllua_spi_stmt_rows_iter e it) s"
proof (cases "it_cursor it")
  case None
  then show ?thesis using inv by (simp add: pllua_spi_stmt_rows_iter_def)
next
  case (Some c)
  obtain cu where cu: "cursors s c = Some cu" using c [OF Some] by blast
  have fin: "keeps_inv (rows_finish e c fc x) t" if "spi_inv t" "cursors t c \<noteq> None" for t fc x
    using that cursor_methods_keep(1) [OF that, of e] by (cases x) (auto simp: rows_finish_def split: option.splits)
  have q: "spi_inv (t\<lparr>cursors := (cursors t)(c := map_option (\<lambda>cu. cu\<lparr>curs_q := tb\<rparr>) (cursors t c))\<rparr>)"
    if "same_cursors s t" for t tb
    using that cu spi_inv_flags(3) [of t c cu tb] by (simp add: same_cursors_def)
  have refill: "wpt (rows_refill e c fc it) (\<lambda>x. keeps_inv (rows_finish e c fc x)) (\<lambda>_ _. spi_inv) (\<lambda>_. spi_inv) s" for fc
    unfolding rows_refill_def wpt_bindm
    by (rule wpt_mono [OF cursor_fetch_wpt(1) [OF inv c [OF Some]]])
       (use cu q fin in \<open>auto simp: same_cursors_def split: spi_result.splits\<close>)
  show ?thesis
    using inv cu fin [OF inv] refill
    by (simp add: pllua_spi_stmt_rows_iter_def Some Let_def)
qed

lemma stmt_rows_keeps:
  assumes inv: "spi_inv s" and c: "cursors s c = None" and q: "portals s q = None" and b: "cbs s b = None"
  shows "keeps_inv (pllua_spi_stmt_rows e p str args c gen q b) s"
proof -
  define new where "new n = \<lparr>curs_portal = None, curs_cb = None, curs_fetch_count = n, is_ours = False,
    is_private = False, is_live = False, curs_name = None, curs_q = (\<lambda>_. None)\<rparr>" for n
  have fin: "c \<notin> set (finalizing s)" using inv c unfolding spi_inv_def by auto
  have priv: "spi_inv (t\<lparr>cursors := (cursors t)(c := map_option (is_private_update (\<lambda>_. True)) (cursors t c))\<rparr>)"
    if "spi_inv t" for t :: "'a spi"
  proof (cases "cursors t c")
    case None
    then have "(cursors t)(c := None) = cursors t" by auto
    then show ?thesis using that None by simp
  next
    case (Some cu)
    then show ?thesis using spi_inv_flags(2) [OF that Some, of True] by simp
  qed
  have "wpt (pllua_spi_cursor_open e c p str args gen q b)
          (\<lambda>_ t. spi_inv (t\<lparr>cursors := (cursors t)(c := map_option (is_private_update (\<lambda>_. True)) (cursors t c))\<rparr>))
          (\<lambda>_ _. spi_inv) (\<lambda>_. spi_inv) (s\<lparr>cursors := (cursors s)(c \<mapsto> new n)\<rparr>)" for n
    by (rule wpt_mono [OF pllua_spi_cursor_open_keeps])
       (use spi_inv_newcursor [OF inv c, of "new n"] fin q b priv in \<open>auto simp: usable_def new_def\<close>)
  then show ?thesis
    by (cases p) (simp_all add: pllua_spi_stmt_rows_def pllua_newcursor_def new_def)
qed

lemma execute_keeps:
  assumes inv: "spi_inv s"
  shows "keeps_inv (pllua_spi_execute_count e p str n args) s"
proof -
  have "wpt (query_statement e p str ts False k)
      (\<lambda>st. wpt (convert_args e args st) (\<lambda>params. wpt (pg_result (e_execute e (st_plan st) params ro l))
        (\<lambda>_. spi_inv) (\<lambda>_ _. spi_inv) (\<lambda>_. spi_inv)) (\<lambda>_ _. spi_inv) (\<lambda>_. spi_inv)) (\<lambda>_ _. spi_inv) (\<lambda>_. spi_inv) t"
    if "spi_inv t" for t :: "'a spi" and ts k ro l
    using that by (intro query_statement_wpt) (auto split: sum.splits)
  then have body: "wpt spi_pg_call (\<lambda>_. wpt (gets cur_readonly) (\<lambda>ro. wpt (query_statement e p str (map arg_type args) False (length args))
      (\<lambda>st. wpt (convert_args e args st) (\<lambda>params. wpt (pg_result (e_execute e (st_plan st) params ro l))
        (\<lambda>_. spi_inv) (\<lambda>_ _. spi_inv) (\<lambda>_. spi_inv)) (\<lambda>_ _. spi_inv) (\<lambda>_. spi_inv)) (\<lambda>_ _. spi_inv) (\<lambda>_. spi_inv))
      (\<lambda>_ _. spi_inv) (\<lambda>_. spi_inv)) (\<lambda>_ _. spi_inv) (\<lambda>_. spi_inv) s" for l
    using inv by (intro wpt_spi_pg_call) (simp_all del: wpt_convert_args wpt_pg_result)
  show ?thesis
    using inv body
    by (auto simp: pllua_spi_execute_count_def split: sum.splits
             simp del: wpt_convert_args wpt_pg_result wpt_gets
             simp: wpt_gets [of pllua_ending] wpt_lua_result)
qed

lemma collect_argtypes_wpt:
  assumes "length acc + length vs \<le> cap" "\<And>ts. N ts s" "\<And>msg. E LUA_ERRRUN (LStr msg) s"
  shows "wpt (collect_argtypes e cap vs acc) N E P s"
  using assms by (induction e cap vs acc rule: collect_argtypes.induct) (auto split: sum.splits)

lemma prepare_keeps:
  assumes inv: "spi_inv s" and few: "length vs \<le> 100"
  shows "keeps_inv (pllua_spi_prepare e str vs opts) s"
proof -
  have "wpt (pllua_spi_make_statement e str ts fl) (\<lambda>_. spi_inv) (\<lambda>_ _. spi_inv) (\<lambda>_. spi_inv) t"
    if "spi_inv t" for t :: "'a spi" and ts fl
    using that by (intro make_statement_wpt) auto
  then have "wpt spi_pg_call (\<lambda>_. wpt (pllua_spi_make_statement e str ts fl) (\<lambda>_. spi_inv) (\<lambda>_ _. spi_inv) (\<lambda>_. spi_inv))
      (\<lambda>_ _. spi_inv) (\<lambda>_. spi_inv) s" for ts fl
    using inv by (intro wpt_spi_pg_call) simp_all
  then show ?thesis
    using inv few
    by (auto simp: pllua_spi_prepare_def argspace_def split: sum.splits prod.splits intro!: collect_argtypes_wpt)
qed

lemma drop_portals_keeps:
  assumes "spi_inv s" "distinct ps" "\<forall>p\<in>set ps. portals s p \<noteq> None"
  shows "keeps_inv (drop_portals ps) s"
  using assms
proof (induction ps arbitrary: s)
  case Nil
  then show ?case by simp
next
  case (Cons p ps)
  have "wpt (portal_drop p) (\<lambda>_. freed s p) (\<lambda>_ _. spi_inv) (\<lambda>_. spi_inv) s"
    by (rule portal_drop_wpt [OF Cons.prems(1)]) (use Cons.prems(3) in auto)
  then have "wpt (portal_drop p) (\<lambda>_. keeps_inv (drop_portals ps)) (\<lambda>_ _. spi_inv) (\<lambda>_. spi_inv) s"
    by (rule wpt_mono) (use Cons.prems in \<open>auto simp: freed_def intro!: Cons.IH\<close>)
  then show ?case by simp
qed

lemma xact_keeps:
  assumes "spi_inv s" "distinct ps" "\<forall>p\<in>set ps. portals s p \<noteq> None"
  shows "keeps_inv (pllua_spi_xact e ps) s"
proof -
  have "wpt spi_pg_call (\<lambda>_. keeps_inv (drop_portals ps)) (\<lambda>_ _. spi_inv) (\<lambda>_. spi_inv) s"
    using assms by (intro wpt_spi_pg_call) (auto intro!: drop_portals_keeps)
  then show ?thesis using assms by (simp add: pllua_spi_xact_def)
qed

lemma spi_inv_collect:
  assumes inv: "spi_inv s" and cs: "\<forall>c\<in>set cs. usable s c"
  shows "spi_inv (collect cs s)"
proof -
  have "set (finalizing (collect cs s)) \<subseteq> dom (cursors (collect cs s))"
    using inv cs unfolding spi_inv_def collect_def usable_def by auto
  moreover have "reg_inv (collect cs s)"
    using inv unfolding spi_inv_def reg_inv_def collect_def by (auto split: option.splits if_splits)
  ultimately show ?thesis
    using inv unfolding spi_inv_def cursor_inv_def cb_inv_def portal_inv_def name_inv_def collect_def
    by (auto cong: option.case_cong)
qed

end
