(* ===== verification/Spi_Props.thy ===== *)
theory Spi_Props
  imports Spi_Ops
begin

text \<open>
  The operations of src/src/spi.c as steps of one machine, together with what Lua's collector and
  PostgreSQL do to it, and the property that cursors, portals and callbacks never refer to freed
  memory.
\<close>

subsection \<open>The operations as steps\<close>

text \<open>
  What user code, the collector (\<open>OpCollect\<close>, \<open>OpFinalize\<close>) and PostgreSQL (\<open>OpPgOpen\<close>, \<open>OpPgDrop\<close>)
  can do.  \<open>OpOpenPortal\<close> is the rest of an opening whose checks ran in an earlier state.
  \<open>OpWorld\<close> changes what the model takes from outside.
\<close>

datatype 'p spi_op =
    OpFind string nat nat "nat list"
  | OpNew "string option" nat nat "nat list"
  | OpOpen nat "spi_statement option" "string option" "spi_arg list" string nat nat
  | OpOpenPortal nat "spi_statement option" "string option" "string option" "spi_arg list" string nat nat
  | OpGetCursor spi_statement "spi_arg list" nat string nat nat
  | OpFetch nat int "string option"
  | OpMove nat int "string option"
  | OpOwn nat | OpDisown nat | OpIsOwned nat | OpClose nat | OpIsOpen nat | OpName nat | OpMetaClose nat
  | OpRows "spi_statement option" "string option" "spi_arg list" nat string nat nat
  | OpCursorRows nat
  | OpIterate rows_iter
  | OpExecute "spi_statement option" "string option" int "spi_arg list"
  | OpPrepare "string option" "lval list" opts_arg
  | OpXact "nat list"
  | OpCollect "nat list"
  | OpFinalize nat
  | OpPgOpen string nat 'p
  | OpPgDrop nat
  | OpWorld bool bool bool bool "errdata option list" "bool list"

definition void :: "('s, 'a) m \<Rightarrow> ('s, unit) m" where
  "void m = bindm m (\<lambda>_. ret ())"

primrec run_op :: "'p spi_env \<Rightarrow> 'p spi_op \<Rightarrow> ('p spi, unit) m" where
  "run_op e (OpFind n c b gcs) = void (pllua_spi_findcursor e n c b gcs)"
| "run_op e (OpNew n c b gcs) = void (pllua_spi_newcursor e n c b gcs)"
| "run_op e (OpOpen c p str args gen q b) = void (pllua_spi_cursor_open e c p str args gen q b)"
| "run_op e (OpOpenPortal c p str n args gen q b) = void (open_portal e c p str n args gen q b)"
| "run_op e (OpGetCursor st args c gen q b) = void (pllua_spi_stmt_getcursor e st args c gen q b)"
| "run_op e (OpFetch c n d) = void (pllua_spi_cursor_fetch e c n d)"
| "run_op e (OpMove c n d) = void (pllua_spi_cursor_move e c n d)"
| "run_op e (OpOwn c) = void (pllua_cursor_own c)"
| "run_op e (OpDisown c) = void (pllua_cursor_disown c)"
| "run_op e (OpIsOwned c) = void (pllua_cursor_isowned c)"
| "run_op e (OpClose c) = pllua_cursor_close e c"
| "run_op e (OpIsOpen c) = void (pllua_cursor_isopen c)"
| "run_op e (OpName c) = void (pllua_cursor_name c)"
| "run_op e (OpMetaClose c) = pllua_cursor_meta_close e c"
| "run_op e (OpRows p str args c gen q b) = void (pllua_spi_stmt_rows e p str args c gen q b)"
| "run_op e (OpCursorRows c) = void (pllua_cursor_rows c)"
| "run_op e (OpIterate it) = void (pllua_spi_stmt_rows_iter e it)"
| "run_op e (OpExecute p str n args) = void (pllua_spi_execute_count e p str n args)"
| "run_op e (OpPrepare str vs opts) = void (pllua_spi_prepare e str vs opts)"
| "run_op e (OpXact ps) = pllua_spi_xact e ps"
| "run_op e (OpCollect cs) = modify (collect cs)"
| "run_op e (OpFinalize c) = finalize e c"
| "run_op e (OpPgOpen n q scan) = SPI_cursor_open (Some n) n q scan"
| "run_op e (OpPgDrop p) = portal_drop p"
| "run_op e (OpWorld en ro ato sx fs ls) =
     modify (\<lambda>s. s\<lparr>pllua_ending := en, cur_readonly := ro, cur_atomic := ato, in_subxact := sx,
                   spi_faults := fs, spi_lua_faults := ls\<rparr>)"

text \<open>
  The allocators give free addresses, user code uses objects it can reach, PostgreSQL drops
  portals that exist; lists of argument types have at most 100 entries here (see below).
\<close>

fun op_ok :: "'p spi \<Rightarrow> 'p spi_op \<Rightarrow> bool" where
  "op_ok s (OpFind n c b gcs) = (cursors s c = None \<and> cbs s b = None)"
| "op_ok s (OpNew n c b gcs) = (cursors s c = None \<and> cbs s b = None)"
| "op_ok s (OpOpen c p str args gen q b) = (usable s c \<and> portals s q = None \<and> cbs s b = None)"
| "op_ok s (OpOpenPortal c p str n args gen q b) = (usable s c \<and> portals s q = None \<and> cbs s b = None)"
| "op_ok s (OpGetCursor st args c gen q b) = (cursors s c = None \<and> portals s q = None \<and> cbs s b = None)"
| "op_ok s (OpRows p str args c gen q b) = (cursors s c = None \<and> portals s q = None \<and> cbs s b = None)"
| "op_ok s (OpFetch c n d) = usable s c"
| "op_ok s (OpMove c n d) = usable s c"
| "op_ok s (OpOwn c) = usable s c"
| "op_ok s (OpDisown c) = usable s c"
| "op_ok s (OpIsOwned c) = usable s c"
| "op_ok s (OpClose c) = usable s c"
| "op_ok s (OpIsOpen c) = usable s c"
| "op_ok s (OpName c) = usable s c"
| "op_ok s (OpMetaClose c) = usable s c"
| "op_ok s (OpCursorRows c) = usable s c"
| "op_ok s (OpIterate it) = (case it_cursor it of None \<Rightarrow> True | Some c \<Rightarrow> usable s c)"
| "op_ok s (OpPrepare str vs opts) = (length vs \<le> 100)"
| "op_ok s (OpXact ps) = (distinct ps \<and> list_all (\<lambda>p. portals s p \<noteq> None) ps)"
| "op_ok s (OpCollect cs) = list_all (usable s) cs"
| "op_ok s (OpPgOpen n q scan) = (portals s q = None)"
| "op_ok s (OpPgDrop p) = (portals s p \<noteq> None)"
| "op_ok s _ = True"

text \<open>
  The finder has looked up a portal when it allocates the object for it, and the allocation
  finalizes garbage, one piece of which owns this portal.
\<close>

fun op_hazard :: "'p spi \<Rightarrow> 'p spi_op \<Rightarrow> bool" where
  "op_hazard s (OpFind n c b gcs) = gc_hazard s n gcs"
| "op_hazard s (OpNew (Some n) c b gcs) = gc_hazard s n gcs"
| "op_hazard s _ = False"

definition spi_start :: "'p spi \<Rightarrow> bool" where
  "spi_start s \<longleftrightarrow>
     portals s = (\<lambda>_. None) \<and> by_name s = (\<lambda>_. None) \<and> cbs s = (\<lambda>_. None) \<and> cursors s = (\<lambda>_. None) \<and>
     reg s = (\<lambda>_. None) \<and> finalizing s = [] \<and> prepare_recursion s = 0"

inductive spi_reach :: "'p spi_env \<Rightarrow> 'p spi \<Rightarrow> bool" for e where
  start: "spi_start s \<Longrightarrow> spi_reach e s"
| step: "spi_reach e s \<Longrightarrow> op_ok s op \<Longrightarrow> \<not> op_hazard s op \<Longrightarrow> spi_reach e (snd (run_op e op s))"

lemma void_keeps: "keeps_inv m s \<Longrightarrow> keeps_inv (void m) s"
  by (simp add: void_def)

lemma usable_exists: "usable s c \<Longrightarrow> cursors s c \<noteq> None"
  by (simp add: usable_def)

lemma pg_open_keeps:
  assumes "spi_inv s" "portals s q = None"
  shows "keeps_inv (SPI_cursor_open (Some n) gen q scan) s"
proof (cases "by_name s n")
  case None
  then show ?thesis
    using spi_inv_open [OF assms None] by (simp add: wpt_def SPI_cursor_open_def)
qed (use assms in \<open>simp add: wpt_def SPI_cursor_open_def\<close>)

lemma spi_inv_world:
  assumes "spi_inv s"
  shows "spi_inv (s\<lparr>pllua_ending := en, cur_readonly := ro, cur_atomic := ato, in_subxact := sx,
                    spi_faults := fs, spi_lua_faults := ls\<rparr>)"
  using assms by (simp add: spi_inv_def spi_inv_defs cong: option.case_cong)

lemma run_op_keeps:
  assumes inv: "spi_inv s" and ok: "op_ok s op" and safe: "\<not> op_hazard s op"
  shows "keeps_inv (run_op e op) s"
proof -
  note methods = cursor_methods_keep [OF inv usable_exists]
  show ?thesis
  proof (cases op)
    case (OpFind n c b gcs)
    have "keeps_inv (pllua_spi_findcursor e n c b gcs) s"
      by (rule wpt_mono [OF pllua_spi_findcursor_wpt [OF inv _ _ _ refl]]) (use ok safe OpFind in auto)
    then show ?thesis using OpFind by (simp add: void_keeps)
  next
    case (OpNew n c b gcs)
    have "keeps_inv (pllua_spi_newcursor e n c b gcs) s"
      by (rule pllua_spi_newcursor_wpt [OF inv]) (use ok safe OpNew in auto)
    then show ?thesis using OpNew by (simp add: void_keeps)
  next
    case (OpFetch c n d)
    have "keeps_inv (pllua_spi_cursor_fetch e c n d) s"
      by (rule wpt_mono [OF cursor_fetch_wpt(1) [OF inv]]) (use ok OpFetch in \<open>auto simp: usable_def same_cursors_def\<close>)
    then show ?thesis using OpFetch by (simp add: void_keeps)
  next
    case (OpMove c n d)
    have "keeps_inv (pllua_spi_cursor_move e c n d) s"
      by (rule wpt_mono [OF cursor_fetch_wpt(2) [OF inv]]) (use ok OpMove in \<open>auto simp: usable_def same_cursors_def\<close>)
    then show ?thesis using OpMove by (simp add: void_keeps)
  next
    case (OpIterate it)
    have "keeps_inv (pllua_spi_stmt_rows_iter e it) s"
      by (rule rows_iter_keeps [OF inv]) (use ok OpIterate in \<open>auto simp: usable_def\<close>)
    then show ?thesis using OpIterate by (simp add: void_keeps)
  next
    case (OpXact ps)
    then show ?thesis using xact_keeps [OF inv] ok by (simp add: list_all_iff)
  next
    case (OpCollect cs)
    then show ?thesis using spi_inv_collect [OF inv] ok by (simp add: list_all_iff)
  next
    case (OpFinalize c)
    have "keeps_inv (finalize e c) s"
      by (rule wpt_mono [OF finalize_wpt [OF inv, where E = "\<lambda>_ _. spi_inv" and P = "\<lambda>_. spi_inv"]]) auto
    then show ?thesis using OpFinalize by simp
  next
    case (OpPgOpen n q scan)
    then show ?thesis using pg_open_keeps [OF inv] ok by simp
  next
    case (OpPgDrop p)
    have "keeps_inv (portal_drop p) s"
      by (rule wpt_mono [OF portal_drop_wpt [OF inv, where E = "\<lambda>_ _. spi_inv" and P = "\<lambda>_. spi_inv"]])
         (use ok OpPgDrop in \<open>auto simp: freed_def\<close>)
    then show ?thesis using OpPgDrop by simp
  next
    case (OpWorld en ro ato sx fs ls)
    then show ?thesis using spi_inv_world [OF inv] by simp
  next
    case (OpOpen c p str args gen q b)
    then show ?thesis using pllua_spi_cursor_open_keeps [OF inv] ok by (simp add: void_keeps)
  next
    case (OpOpenPortal c p str n args gen q b)
    then show ?thesis using open_portal_keeps [OF inv] ok by (simp add: void_keeps)
  next
    case (OpGetCursor st args c gen q b)
    then show ?thesis using stmt_getcursor_keeps [OF inv] ok by (simp add: void_keeps)
  next
    case (OpRows p str args c gen q b)
    then show ?thesis using stmt_rows_keeps [OF inv] ok by (simp add: void_keeps)
  next
    case (OpExecute p str n args)
    then show ?thesis using execute_keeps [OF inv] ok by (simp add: void_keeps)
  next
    case (OpPrepare str vs opts)
    then show ?thesis using prepare_keeps [OF inv] ok by (simp add: void_keeps)
  next
    case (OpClose c)
    then show ?thesis using methods(1) [of c] ok by (simp add: void_keeps)
  next
    case (OpIsOpen c)
    then show ?thesis using methods(2) [of c] ok by (simp add: void_keeps)
  next
    case (OpOwn c)
    then show ?thesis using methods(3) [of c] ok by (simp add: void_keeps)
  next
    case (OpDisown c)
    then show ?thesis using methods(4) [of c] ok by (simp add: void_keeps)
  next
    case (OpIsOwned c)
    then show ?thesis using methods(5) [of c] ok by (simp add: void_keeps)
  next
    case (OpName c)
    then show ?thesis using methods(6) [of c] ok by (simp add: void_keeps)
  next
    case (OpMetaClose c)
    then show ?thesis using methods(7) [of c] ok by (simp add: void_keeps)
  next
    case (OpCursorRows c)
    then show ?thesis using methods(8) [of c] ok by (simp add: void_keeps)
  qed
qed

lemma spi_start_inv: "spi_start s \<Longrightarrow> spi_inv s"
  by (simp add: spi_start_def spi_inv_def spi_inv_defs)

lemma wpt_snd: "wpt m (\<lambda>_. Q) (\<lambda>_ _. Q) (\<lambda>_. Q) s \<Longrightarrow> Q (snd (m s)) \<and> (\<forall>msg. fst (m s) \<noteq> PgPanic msg)"
  by (auto simp: wpt_def split: prod.splits outcome.splits)

lemma spi_reach_inv: "spi_reach e s \<Longrightarrow> spi_inv s"
proof (induction rule: spi_reach.induct)
  case (step s op)
  from wpt_snd [OF run_op_keeps [OF step.IH step.hyps(2,3)]] show ?case by (rule conjunct1)
qed (rule spi_start_inv)

text \<open>C23. In every state that operations, the collector and PostgreSQL can bring about, a cursor that
  refers to a portal is live and the portal exists, and a callback refers only to a cursor that
  exists and refers to the callback's portal.  No operation then uses freed memory, except that
  \<open>findcursor\<close> (and \<open>newcursor\<close> with a name) does if the allocation of the new object finalizes a
  cursor that owns the portal it has just found.\<close>

theorem cursors_never_dangle:
  assumes "spi_reach e s"
  shows "(\<forall>c cu p. cursors s c = Some cu \<longrightarrow> curs_portal cu = Some p \<longrightarrow> is_live cu \<and> portals s p \<noteq> None) \<and>
         (\<forall>b p c. cbs s b = Some (p, Some c) \<longrightarrow>
            (\<exists>cu. cursors s c = Some cu \<and> curs_portal cu = Some p \<and> curs_cb cu = Some b)) \<and>
         (\<forall>op msg. op_ok s op \<longrightarrow> fst (run_op e op s) = PgPanic msg \<longrightarrow> op_hazard s op)"
proof (intro conjI allI impI)
  note inv = spi_reach_inv [OF assms]
  show "is_live cu" "portals s p \<noteq> None" if "cursors s c = Some cu" "curs_portal cu = Some p" for c cu p
    using spi_inv_cursorD [OF inv that] by blast+
  show "\<exists>cu. cursors s c = Some cu \<and> curs_portal cu = Some p \<and> curs_cb cu = Some b"
    if "cbs s b = Some (p, Some c)" for b p c
    using spi_inv_cbD [OF inv that] by blast
  show "op_hazard s op" if "op_ok s op" "fst (run_op e op s) = PgPanic msg" for op msg
  proof (rule ccontr)
    assume "\<not> op_hazard s op"
    from wpt_snd [OF run_op_keeps [OF inv that(1) this, of e]] show False using that(2) by simp
  qed
qed

subsection \<open>Concrete runs\<close>

text \<open>A PostgreSQL whose every query has no parameters and the rows 10, 20 and 30.\<close>

definition spi_env0 :: "nat list spi_env" where
  "spi_env0 =
     \<lparr>e_prepare = (\<lambda>_ _ _. Inr (Some ([], True))), e_execute = (\<lambda>_ _ _ _. Inr (Some [10, 20, 30], 3)),
      e_cursor = (\<lambda>_ _ _. Inr [10, 20, 30]),
      e_scroll = (\<lambda>d n p. (Some (take (nat n) p), int (length (take (nat n) p)), drop (nat n) p)),
      e_construct = (\<lambda>_ a. Inr a), e_encoding = (\<lambda>_. True), e_obj = (\<lambda>_. LNil), e_to_pg = pg_elog,
      e_parsetype = (\<lambda>_. Inr (Some 25)), e_typeinfo = (\<lambda>_. None), e_lookup = (\<lambda>_. True), e_tointegerx = (\<lambda>_. None)\<rparr>"

definition spi0 :: "nat list spi" where
  "spi0 =
     \<lparr>portals = (\<lambda>_. None), by_name = (\<lambda>_. None), cbs = (\<lambda>_. None), cursors = (\<lambda>_. None), reg = (\<lambda>_. None),
      finalizing = [], prepare_recursion = 0, pllua_ending = False, cur_readonly = False, cur_atomic = True,
      in_subxact = False, spi_faults = [], spi_lua_faults = []\<rparr>"

lemmas spi_run =
  void_def bindm_def thenm_def ret_def gets_def modify_def get_cursor_def upd_cursor_def get_portal_def get_cb_arg_def
  set_cb_arg_def spi_pg_call_def spi_try_def pg_result_def lua_result_def luaL_error_def lua_error_def pg_throw_def
  whenm_def Let_def spi_env0_def spi0_def

lemmas open_run =
  pllua_spi_newcursor_def pllua_spi_findcursor_def pllua_spi_findportal_def pllua_newcursor_def
  pllua_spi_cursor_open_def open_checks_def open_portal_def query_statement_def pllua_spi_make_statement_def
  convert_args_def SPI_cursor_open_def pllua_cursor_setportal_def alloc_cb_def attach_portal_def collect_def

lemma spi_reach0: "spi_reach spi_env0 spi0"
  by (rule spi_reach.start) (simp add: spi_start_def spi0_def)

text \<open>An object for the name \<open>x\<close>, opened, and then garbage.\<close>

definition spi_garbage :: "nat list spi" where
  "spi_garbage =
     snd (run_op spi_env0 (OpCollect [1])
       (snd (run_op spi_env0 (OpOpen 1 None (Some ''select'') [] ''gen'' 7 3)
         (snd (run_op spi_env0 (OpNew (Some ''x'') 1 0 []) spi0)))))"

lemma spi_garbage_eq:
  "spi_garbage = spi0
     \<lparr>portals := [7 \<mapsto> \<lparr>portal_name = ''x'', portal_cbs = [3], portal_scan = [10, 20, 30]\<rparr>],
      by_name := [''x'' \<mapsto> 7], cbs := [3 \<mapsto> (7, Some 1)],
      cursors := [1 \<mapsto> \<lparr>curs_portal = Some 7, curs_cb = Some 3, curs_fetch_count = 0, is_ours = True,
        is_private = False, is_live = True, curs_name = Some ''x'', curs_q = (\<lambda>_. None)\<rparr>],
      reg := (\<lambda>_. None), finalizing := [1]\<rparr>"
  by (simp add: spi_garbage_def open_run spi_run) (auto simp: fun_eq_iff)

lemma spi_reach_garbage: "spi_reach spi_env0 spi_garbage"
proof -
  let ?s1 = "snd (run_op spi_env0 (OpNew (Some ''x'') 1 0 []) spi0)"
  let ?s2 = "snd (run_op spi_env0 (OpOpen 1 None (Some ''select'') [] ''gen'' 7 3) ?s1)"
  have 1: "spi_reach spi_env0 ?s1"
    by (rule spi_reach.step [OF spi_reach0]) (simp_all add: spi0_def gc_hazard_def)
  have 2: "spi_reach spi_env0 ?s2"
    by (rule spi_reach.step [OF 1]) (simp_all add: usable_def open_run spi_run)
  show ?thesis
    unfolding spi_garbage_def
    by (rule spi_reach.step [OF 2]) (simp_all add: usable_def open_run spi_run)
qed

theorem cursors_never_dangle_witness:
  "spi_reach spi_env0 spi_garbage \<and>
   op_ok spi_garbage (OpFind ''x'' 2 9 [1]) \<and>
   fst (run_op spi_env0 (OpFind ''x'' 2 9 [1]) spi_garbage) = PgPanic ''use of a freed portal'' \<and>
   op_hazard spi_garbage (OpFind ''x'' 2 9 [1]) \<and>
   (\<exists>cu. cursors spi_garbage 1 = Some cu \<and> curs_portal cu = Some 7 \<and> is_live cu \<and> portals spi_garbage 7 \<noteq> None)"
proof -
  have ok: "op_ok spi_garbage (OpFind ''x'' 2 9 [1])"
    by (simp add: spi_garbage_eq spi0_def)
  have panic: "fst (run_op spi_env0 (OpFind ''x'' 2 9 [1]) spi_garbage) = PgPanic ''use of a freed portal''"
    by (simp add: spi_garbage_eq open_run spi_run finalize_def pllua_cursor_gc_def detach_portal_def SPI_cursor_close_def
      portal_drop_def portal_free_def pllua_cursor_cb_def)
  have cu: "\<exists>cu. cursors spi_garbage 1 = Some cu \<and> curs_portal cu = Some 7"
    by (simp add: spi_garbage_eq)
  show ?thesis
    using cursors_never_dangle [OF spi_reach_garbage] spi_reach_garbage ok panic cu by blast
qed

end
