(* ===== verification/Spi_Rows.thy ===== *)
theory Spi_Rows
  imports Spi_Props
begin

text \<open>
  The iterator over the rows of a query (src/src/spi.c): it refines reading the portal row by row,
  \<open>iter_rows\<close> being the simulation relation.  Then the bounds of the argument arrays.
\<close>

subsection \<open>The rows iterator\<close>

text \<open>What is relied on of \<open>SPI_scroll_cursor_fetch\<close>: forward by \<open>n\<close>, it gives the next \<open>n\<close> rows.\<close>

definition forward_scan :: "'p spi_env \<Rightarrow> ('p \<Rightarrow> nat list) \<Rightarrow> bool" where
  "forward_scan e rest \<longleftrightarrow>
     (\<forall>n p. 1 \<le> n \<longrightarrow>
        (\<exists>p'. e_scroll e FETCH_FORWARD n p =
                (Some (take (nat n) (rest p)), int (length (take (nat n) (rest p))), p') \<and>
              rest p' = drop (nat n) (rest p)))"

text \<open>A generic \<open>for\<close> loop over an iterator, of at most \<open>k\<close> calls; it collects the rows.\<close>

primrec for_rows :: "'p spi_env \<Rightarrow> nat \<Rightarrow> rows_iter \<Rightarrow> ('p spi, nat list option \<times> rows_iter) m" where
  "for_rows e 0 it = ret (None, it)"
| "for_rows e (Suc k) it =
     bindm (pllua_spi_stmt_rows_iter e it) (\<lambda>(row, it').
     case row of
       None \<Rightarrow> ret (Some [], it')
     | Some r \<Rightarrow> bindm (for_rows e k it') (\<lambda>(rs, it''). ret (map_option ((#) r) rs, it'')))"

text \<open>The iterator stands for the rows that its queue and its portal still hold.\<close>

definition queued :: "rows_iter \<Rightarrow> cursor \<Rightarrow> nat list \<Rightarrow> bool" where
  "queued it cu qs \<longleftrightarrow>
     (if fetch_count_of cu > 1
      then 0 \<le> qpos it \<and> qlen it = qpos it + int (length qs) \<and>
           (\<forall>i < length qs. curs_q cu (qpos it + 1 + int i) = Some (qs ! i))
      else qs = [])"

definition iter_rows :: "('p \<Rightarrow> nat list) \<Rightarrow> 'p spi \<Rightarrow> rows_iter \<Rightarrow> nat \<Rightarrow> nat \<Rightarrow> bool \<Rightarrow> nat list \<Rightarrow> bool" where
  "iter_rows rest s it c p priv rs \<longleftrightarrow>
     spi_inv s \<and> spi_faults s = [] \<and> \<not> pllua_ending s \<and> it_cursor it = Some c \<and>
     (\<exists>cu po qs. cursors s c = Some cu \<and> curs_portal cu = Some p \<and> is_live cu \<and> is_private cu = priv \<and>
        portals s p = Some po \<and> 1 \<le> fetch_count_of cu \<and> fetch_count_of cu < 2 ^ 31 \<and>
        queued it cu qs \<and> rs = qs @ rest (portal_scan po))"

lemma fill_rows_at:
  "fill_rows b rs t i = (if b \<le> i \<and> i < b + int (length rs) then Some (rs ! nat (i - b)) else t i)"
  by (induction rs arbitrary: b t) (auto simp: nth_Cons' nat_diff_distrib' split: if_splits intro!: arg_cong [where f = "(!) _"])

lemma spi_result_of_fetch:
  "spi_result_of (Some (take (nat n) xs), int (length (take (nat n) xs))) =
     SpiTable (fill_rows 1 (take (nat n) xs) (\<lambda>_. None), int (length (take (nat n) xs)))"
  by (simp add: spi_result_of_def pllua_spi_prepare_result_def min_def)

lemma fetch_forward:
  assumes f: "forward_scan e rest" and n: "1 \<le> n"
    and s: "spi_faults s = []" "\<not> pllua_ending s" "cursors s c = Some cu" "curs_portal cu = Some p" "is_live cu"
      "portals s p = Some po"
  obtains scan where "rest scan = drop (nat n) (rest (portal_scan po))"
    "pllua_spi_cursor_fetch e c n None s =
       (Ret (SpiTable (fill_rows 1 (take (nat n) (rest (portal_scan po))) (\<lambda>_. None),
                       int (length (take (nat n) (rest (portal_scan po)))))),
        s\<lparr>portals := (portals s)(p \<mapsto> po\<lparr>portal_scan := scan\<rparr>)\<rparr>)"
proof -
  let ?xs = "rest (portal_scan po)"
  obtain scan where scan: "rest scan = drop (nat n) ?xs"
    "e_scroll e FETCH_FORWARD n (portal_scan po) = (Some (take (nat n) ?xs), int (length (take (nat n) ?xs)), scan)"
    using f n unfolding forward_scan_def by blast
  have dir: "pllua_spi_cursor_direction None = Inr FETCH_FORWARD"
    by (simp add: pllua_spi_cursor_direction_def)
  have "pllua_spi_cursor_fetch e c n None s =
       (Ret (spi_result_of (Some (take (nat n) ?xs), int (length (take (nat n) ?xs)))),
        s\<lparr>portals := (portals s)(p \<mapsto> po\<lparr>portal_scan := scan\<rparr>)\<rparr>)"
    using s scan by (simp add: pllua_spi_cursor_fetch_def dir lua_result_def open_portal_of_def scroll_portal_def
      bindm_def gets_def get_cursor_def spi_try_def spi_pg_call_def get_portal_def modify_def ret_def)
  then show ?thesis using that scan(1) unfolding spi_result_of_fetch by blast
qed

lemma fetch_count_of_q [simp]: "fetch_count_of (cu\<lparr>curs_q := q\<rparr>) = fetch_count_of cu"
  by (simp add: fetch_count_of_def)

lemma queued_step:
  assumes q: "queued it cu (r # qs)" and fc: "fetch_count_of cu > 1"
  shows "qpos it < qlen it" "curs_q cu (qpos it + 1) = Some r"
    and "queued (it\<lparr>qpos := qpos it + 1\<rparr>) cu qs"
proof -
  have all: "qlen it = qpos it + 1 + int (length qs)" "0 \<le> qpos it"
    "\<And>i. i < Suc (length qs) \<Longrightarrow> curs_q cu (qpos it + 1 + int i) = Some ((r # qs) ! i)"
    using q fc by (auto simp: queued_def)
  show "qpos it < qlen it" "curs_q cu (qpos it + 1) = Some r"
    using all(1,2) all(3) [of 0] by simp_all
  have "curs_q cu (qpos it + 2 + int i) = Some (qs ! i)" if "i < length qs" for i
    using all(3) [of "Suc i"] that by (simp add: ac_simps)
  then show "queued (it\<lparr>qpos := qpos it + 1\<rparr>) cu qs"
    using all fc by (simp add: queued_def add.assoc)
qed

lemma queued_nil: "queued it cu [] \<Longrightarrow> \<not> (fetch_count_of cu > 1 \<and> qpos it < qlen it)"
  by (simp add: queued_def split: if_splits)

lemma queued_cases:
  assumes "queued it cu qs" obtains "qs = []" | r qs' where "qs = r # qs'" "fetch_count_of cu > 1"
  using assms by (cases qs) (auto simp: queued_def split: if_splits)

text \<open>The refill, when the queue is empty: the first row of the fetch, the rest in the queue.\<close>

lemma rows_refill_eq:
  assumes f: "forward_scan e rest" and fc: "fc = fetch_count_of cu" "1 \<le> fc" "fc < 2 ^ 31"
    and s: "spi_faults s = []" "\<not> pllua_ending s" "cursors s c = Some cu" "curs_portal cu = Some p" "is_live cu"
      "portals s p = Some po"
    and xs: "xs = rest (portal_scan po)"
  obtains scan cu' it' where
    "rest scan = drop (nat fc) xs" "it_cursor it' = it_cursor it"
    "\<exists>q. cu' = cu\<lparr>curs_q := q\<rparr>" "fetch_count_of cu' = fc"
    "rows_refill e c fc it s =
       (Ret (case xs of [] \<Rightarrow> None | r # _ \<Rightarrow> Some r, if fc > 1 then 1 else qpos it, it'),
        s\<lparr>portals := (portals s)(p \<mapsto> po\<lparr>portal_scan := scan\<rparr>), cursors := (cursors s)(c \<mapsto> cu')\<rparr>)"
    "xs \<noteq> [] \<Longrightarrow> queued (if fc > 1 then it'\<lparr>qpos := 1\<rparr> else it') cu' (take (nat fc - 1) (tl xs))"
proof -
  obtain scan where scan: "rest scan = drop (nat fc) xs"
    "pllua_spi_cursor_fetch e c fc None s =
       (Ret (SpiTable (fill_rows 1 (take (nat fc) xs) (\<lambda>_. None), int (length (take (nat fc) xs)))),
        s\<lparr>portals := (portals s)(p \<mapsto> po\<lparr>portal_scan := scan\<rparr>)\<rparr>)"
    using fetch_forward [OF f fc(2) s] unfolding xs by metis
  let ?t = "fill_rows 1 (take (nat fc) xs) (\<lambda>_. None)" and ?n = "int (length (take (nat fc) xs))"
  let ?cu = "if fc > 1 then cu\<lparr>curs_q := ?t\<rparr> else cu"
  let ?it = "if fc > 1 then it\<lparr>qlen := c_int ?n\<rparr> else it"
  have n: "c_int ?n = ?n" using fc by (intro c_int_id) auto
  have t1: "?t 1 = (case xs of [] \<Rightarrow> None | r # _ \<Rightarrow> Some r)"
    using fc(2) by (cases xs) (simp_all add: fill_rows_at nth_Cons')
  have upd: "(cursors s)(c \<mapsto> cu) = cursors s" using s(3) by auto
  have eq: "rows_refill e c fc it s =
       (Ret (case xs of [] \<Rightarrow> None | r # _ \<Rightarrow> Some r, if fc > 1 then 1 else qpos it, ?it),
        s\<lparr>portals := (portals s)(p \<mapsto> po\<lparr>portal_scan := scan\<rparr>), cursors := (cursors s)(c \<mapsto> ?cu)\<rparr>)"
    using s scan(2) t1 upd
    by (simp add: rows_refill_def bindm_def upd_cursor_def modify_def ret_def)
  have "queued (if fc > 1 then ?it\<lparr>qpos := 1\<rparr> else ?it) ?cu (take (nat fc - 1) (tl xs))" if "xs \<noteq> []"
  proof (cases "fc > 1")
    case True
    obtain x ys where x: "xs = x # ys" using \<open>xs \<noteq> []\<close> by (cases xs) auto
    have "fill_rows 1 (take (nat fc) xs) (\<lambda>_. None) (2 + int i) = Some (take (nat fc - 1) ys ! i)"
      if "i < length (take (nat fc - 1) ys)" for i
      using that True by (auto simp: fill_rows_at x nth_Cons' nat_add_distrib min_def split: if_splits)
    moreover have "int (min (Suc (length ys)) (nat fc)) = 1 + int (min (length ys) (nat fc - 1))"
      using True by linarith
    ultimately show ?thesis using True n x fc(1) by (simp add: queued_def)
  next
    case False
    then show ?thesis using fc by (simp add: queued_def)
  qed
  moreover have "fetch_count_of ?cu = fc" using fc by simp
  moreover have "\<exists>q. ?cu = cu\<lparr>curs_q := q\<rparr>" by (cases "fc > 1") (auto intro: exI [of _ "curs_q cu"])
  ultimately show ?thesis using that [OF scan(1) _ _ _ eq] by simp
qed

lemma keeps_inv_Ret: "keeps_inv m s \<Longrightarrow> m s = (Ret a, t) \<Longrightarrow> spi_inv t"
  by (simp add: wpt_def)

lemma iter_rows_step:
  assumes f: "forward_scan e rest" and it: "iter_rows rest s it c p priv (r # rs)"
  shows "\<exists>it' t. pllua_spi_stmt_rows_iter e it s = (Ret (Some r, it'), t) \<and> iter_rows rest t it' c p priv rs"
proof -
  obtain cu po qs where st: "spi_inv s" "spi_faults s = []" "\<not> pllua_ending s" "it_cursor it = Some c"
    "cursors s c = Some cu" "curs_portal cu = Some p" "is_live cu" "is_private cu = priv" "portals s p = Some po"
    "1 \<le> fetch_count_of cu" "fetch_count_of cu < 2 ^ 31" "queued it cu qs" "r # rs = qs @ rest (portal_scan po)"
    using it unfolding iter_rows_def by blast
  let ?fc = "fetch_count_of cu"
  have keeps: "spi_inv t" if "pllua_spi_stmt_rows_iter e it s = (Ret x, t)" for x t
    using keeps_inv_Ret [OF rows_iter_keeps [OF st(1)] that] st(4,5) by simp
  show ?thesis
  using st(12) proof (cases rule: queued_cases)
    case (2 q qs')
    then have q: "q = r" "rs = qs' @ rest (portal_scan po)" using st(13) by simp_all
    have step: "pllua_spi_stmt_rows_iter e it s = (Ret (Some r, it\<lparr>qpos := qpos it + 1\<rparr>), s)"
      using st 2 q queued_step [OF st(12) [unfolded 2(1)] 2(2)]
      by (simp add: pllua_spi_stmt_rows_iter_def rows_finish_def cursor_is_open_def get_cursor_def Let_def bindm_def ret_def)
    then show ?thesis
      using st q queued_step(3) [OF st(12) [unfolded 2(1)] 2(2)]
      by (auto simp: iter_rows_def)
  next
    case 1
    then have xs: "rest (portal_scan po) = r # rs" using st(13) by simp
    obtain scan cu' it' where refill: "rest scan = drop (nat ?fc) (r # rs)" "it_cursor it' = it_cursor it"
      "\<exists>q. cu' = cu\<lparr>curs_q := q\<rparr>" "fetch_count_of cu' = ?fc"
      "rows_refill e c ?fc it s =
         (Ret (Some r, if ?fc > 1 then 1 else qpos it, it'),
          s\<lparr>portals := (portals s)(p \<mapsto> po\<lparr>portal_scan := scan\<rparr>), cursors := (cursors s)(c \<mapsto> cu')\<rparr>)"
      "queued (if ?fc > 1 then it'\<lparr>qpos := 1\<rparr> else it') cu' (take (nat ?fc - 1) rs)"
      by (rule rows_refill_eq [OF f refl st(10,11,2,3,5,6,7,9) xs [symmetric]]) auto
    let ?t = "s\<lparr>portals := (portals s)(p \<mapsto> po\<lparr>portal_scan := scan\<rparr>), cursors := (cursors s)(c \<mapsto> cu')\<rparr>"
    let ?it = "if ?fc > 1 then it'\<lparr>qpos := 1\<rparr> else it'"
    have step: "pllua_spi_stmt_rows_iter e it s = (Ret (Some r, ?it), ?t)"
      using st refill(5) queued_nil [OF st(12) [unfolded 1]]
      by (auto simp: pllua_spi_stmt_rows_iter_def rows_finish_def cursor_is_open_def get_cursor_def Let_def bindm_def ret_def)
    have "rs = take (nat ?fc - 1) rs @ rest scan"
      using refill(1) st(10) by (simp add: drop_Cons')
    then have "iter_rows rest ?t ?it c p priv rs"
      using st refill keeps [OF step] unfolding iter_rows_def by auto
    then show ?thesis using step by blast
  qed
qed

lemma wpt_pg_call_ok: "spi_faults s = [] \<Longrightarrow> N () s \<Longrightarrow> wpt spi_pg_call N E P s"
  by (simp add: wpt_def spi_pg_call_def)

text \<open>Closing when PostgreSQL does not fail.\<close>

lemma close_ok:
  assumes inv: "spi_inv s" and ok: "spi_faults s = []"
    and cu: "cursors s c = Some cu" "curs_portal cu = Some p" "is_live cu"
  shows "wpt (pllua_cursor_close e c)
           (\<lambda>_ t. portals t p = None \<and> (\<exists>cu'. cursors t c = Some cu' \<and> curs_portal cu' = None))
           (\<lambda>_ _ _. False) (\<lambda>_ _. False) s"
proof -
  let ?cu = "cu\<lparr>is_ours := True\<rparr>" and ?s = "s\<lparr>cursors := (cursors s)(c \<mapsto> cu\<lparr>is_ours := True\<rparr>)\<rparr>"
  let ?Q = "\<lambda>_ :: unit. \<lambda>t. portals t p = None \<and> (\<exists>cu'. cursors t c = Some cu' \<and> curs_portal cu' = None)"
  have inv': "spi_inv ?s" by (rule spi_inv_flags(1) [OF inv cu(1)])
  have c: "cursors ?s c = Some ?cu" "curs_portal ?cu = Some p" using cu by simp_all
  have p: "portals ?s p \<noteq> None" using spi_inv_cursorD [OF inv' c] by blast
  obtain b where "curs_cb cu = Some b" "cbs s b = Some (p, Some c)"
    using spi_inv_cursorD [OF inv cu(1,2)] by blast
  then have faults: "wpt (detach_portal c ?cu p) (\<lambda>_ t. spi_faults t = []) (\<lambda>_ _ _. False) (\<lambda>_ _. False) ?s"
    using ok by (simp add: detach_portal_def)
  have drop: "wpt (SPI_cursor_close p) ?Q (\<lambda>_ _ _. False) (\<lambda>_ _. False) t"
    if t: "detached ?s c t" "portals t = portals ?s" "spi_faults t = []" for t
  proof -
    have "wpt (portal_drop p) (\<lambda>_. freed t p) (\<lambda>_ _ _. False) (\<lambda>_ _. False) t"
      using t p by (intro portal_drop_wpt) (auto simp: detached_def)
    then have "wpt (portal_drop p) ?Q (\<lambda>_ _ _. False) (\<lambda>_ _. False) t"
    proof (rule wpt_mono)
      fix u assume "freed t p u"
      then show "?Q () u"
        using detached_trans [OF t(1), of u] by (auto simp: freed_def detached_def)
    qed auto
    then show ?thesis
      unfolding SPI_cursor_close_def wpt_bindm by (rule wpt_pg_call_ok [OF t(3)])
  qed
  have "wpt (detach_portal c ?cu p) (\<lambda>_. wpt (SPI_cursor_close p) ?Q (\<lambda>_ _ _. False) (\<lambda>_ _. False))
          (\<lambda>_ _ _. False) (\<lambda>_ _. False) ?s"
    using drop
    by (auto intro!: wpt_mono [OF wpt_conj [OF detach_portal_wpt [OF inv' c] faults]])
  then show ?thesis
    using cu by (simp add: pllua_cursor_close_def cursor_is_open_def pllua_cursor_setportal_def whenm_def)
qed

lemma iter_rows_end:
  assumes f: "forward_scan e rest" and it: "iter_rows rest s it c p priv []"
  shows "\<exists>it' t. pllua_spi_stmt_rows_iter e it s = (Ret (None, it'), t) \<and>
           (if priv then it_cursor it' = None \<and> portals t p = None \<and>
                         (\<exists>cu. cursors t c = Some cu \<and> curs_portal cu = None)
            else portals t p \<noteq> None \<and> it_cursor it' = Some c)"
proof -
  obtain cu po where st: "spi_inv s" "spi_faults s = []" "\<not> pllua_ending s" "it_cursor it = Some c"
    "cursors s c = Some cu" "curs_portal cu = Some p" "is_live cu" "is_private cu = priv" "portals s p = Some po"
    "1 \<le> fetch_count_of cu" "fetch_count_of cu < 2 ^ 31" "queued it cu []" "rest (portal_scan po) = []"
    using it unfolding iter_rows_def by auto
  let ?fc = "fetch_count_of cu"
  obtain scan cu' it' where refill: "it_cursor it' = it_cursor it" "\<exists>q. cu' = cu\<lparr>curs_q := q\<rparr>"
    "rows_refill e c ?fc it s =
       (Ret (None, if ?fc > 1 then 1 else qpos it, it'),
        s\<lparr>portals := (portals s)(p \<mapsto> po\<lparr>portal_scan := scan\<rparr>), cursors := (cursors s)(c \<mapsto> cu')\<rparr>)"
    by (rule rows_refill_eq [OF f refl st(10,11,2,3,5,6,7,9) st(13) [symmetric]]) auto
  let ?t = "s\<lparr>portals := (portals s)(p \<mapsto> po\<lparr>portal_scan := scan\<rparr>), cursors := (cursors s)(c \<mapsto> cu')\<rparr>"
  have cu': "curs_portal cu' = Some p" "is_live cu'" "is_private cu' = priv" using refill(2) st by auto
  have inv: "spi_inv ?t"
  proof -
    obtain q where "cu' = cu\<lparr>curs_q := q\<rparr>" using refill(2) by blast
    moreover note spi_inv_flags(3) [OF spi_inv_scan [OF st(1,9), of scan], of c cu q]
    ultimately show ?thesis using st(5) by simp
  qed
  have fin: "pllua_spi_stmt_rows_iter e it s = rows_finish e c ?fc (None, if ?fc > 1 then 1 else qpos it, it') ?t"
    using st refill(3) queued_nil [OF st(12)]
    by (auto simp: pllua_spi_stmt_rows_iter_def cursor_is_open_def get_cursor_def Let_def bindm_def ret_def)
  show ?thesis
  proof (cases priv)
    case True
    have "wpt (pllua_cursor_close e c)
           (\<lambda>_ t. portals t p = None \<and> (\<exists>cu'. cursors t c = Some cu' \<and> curs_portal cu' = None))
           (\<lambda>_ _ _. False) (\<lambda>_ _. False) ?t"
      using inv st cu' by (intro close_ok [where cu = cu']) auto
    then obtain u where "pllua_cursor_close e c ?t = (Ret (), u)" "portals u p = None"
      "\<exists>cu'. cursors u c = Some cu' \<and> curs_portal cu' = None"
      by (auto simp: wpt_def split: prod.splits outcome.splits)
    then show ?thesis
      unfolding fin using True cu' by (auto simp: rows_finish_def get_cursor_def bindm_def ret_def)
  next
    case False
    then show ?thesis
      unfolding fin using cu' refill(1) st(4) by (auto simp: rows_finish_def get_cursor_def bindm_def ret_def)
  qed
qed

lemma for_rows_delivers:
  assumes f: "forward_scan e rest" and it: "iter_rows rest s it c p priv rs" and k: "length rs < k"
  shows "\<exists>it' t. for_rows e k it s = (Ret (Some rs, it'), t) \<and>
           (if priv then it_cursor it' = None \<and> portals t p = None \<and>
                         (\<exists>cu. cursors t c = Some cu \<and> curs_portal cu = None)
            else portals t p \<noteq> None \<and> it_cursor it' = Some c)"
  using it k
proof (induction rs arbitrary: k s it)
  case Nil
  then obtain k' where k: "k = Suc k'" by (cases k) auto
  obtain it' t where fin: "pllua_spi_stmt_rows_iter e it s = (Ret (None, it'), t)"
    "if priv then it_cursor it' = None \<and> portals t p = None \<and> (\<exists>cu. cursors t c = Some cu \<and> curs_portal cu = None)
     else portals t p \<noteq> None \<and> it_cursor it' = Some c"
    using iter_rows_end [OF f Nil(1)] by blast
  have "for_rows e k it s = (Ret (Some [], it'), t)"
    using k fin(1) by (simp add: bindm_def ret_def)
  then show ?case using fin(2) by blast
next
  case (Cons r rs)
  then obtain k' where k: "k = Suc k'" "length rs < k'" by (cases k) auto
  obtain it' t where step: "pllua_spi_stmt_rows_iter e it s = (Ret (Some r, it'), t)"
    "iter_rows rest t it' c p priv rs"
    using iter_rows_step [OF f Cons.prems(1)] by blast
  from Cons.IH [OF step(2) k(2)] obtain it'' u where rest: "for_rows e k' it' t = (Ret (Some rs, it''), u)"
    "if priv then it_cursor it'' = None \<and> portals u p = None \<and> (\<exists>cu. cursors u c = Some cu \<and> curs_portal cu = None)
     else portals u p \<noteq> None \<and> it_cursor it'' = Some c" by blast
  have "for_rows e k it s = (Ret (Some (r # rs), it''), u)"
    using k(1) step(1) rest(1) by (simp add: bindm_def ret_def)
  then show ?case using rest(2) by blast
qed

text \<open>What a successful opening of a closed cursor leaves.\<close>

definition opened :: "nat \<Rightarrow> nat \<Rightarrow> int \<Rightarrow> 'p spi \<Rightarrow> bool" where
  "opened c q n t \<longleftrightarrow>
     spi_faults t = [] \<and>
     (\<exists>po cu. portals t q = Some po \<and> cursors t c = Some cu \<and> curs_portal cu = Some q \<and> is_live cu \<and>
        curs_fetch_count cu = n)"

lemma setportal_opens:
  assumes "cursors t c = Some cu" "curs_portal cu = None" "portals t q = Some po" "spi_faults t = []"
    "curs_fetch_count cu = n"
  shows "wpt (pllua_cursor_setportal e c (Some q) ours b)
           (\<lambda>_ u. opened c q n u \<and> pllua_ending u = pllua_ending t) (\<lambda>_ _ _. False) (\<lambda>_ _. False) t"
  using assms
  by (simp add: pllua_cursor_setportal_def alloc_cb_def attach_portal_def opened_def wpt_pg_call_ok)

lemma open_portal_opens:
  assumes cu: "cursors s c = Some cu" "curs_portal cu = None" "curs_fetch_count cu = n" and ok: "spi_faults s = []"
  shows "wpt (open_portal e c p str name args gen q b)
           (\<lambda>_ t. opened c q n t \<and> pllua_ending t = pllua_ending s) (\<lambda>_ _ _. True) (\<lambda>_ _. True) s"
proof -
  let ?K = "\<lambda>_ :: unit. wpt (pllua_cursor_setportal e c (Some q) True b)
             (\<lambda>_ t. opened c q n t \<and> pllua_ending t = pllua_ending s) (\<lambda>_ _ _. True) (\<lambda>_ _. True)"
  have opened: "wpt (SPI_cursor_open name gen q scan) ?K (\<lambda>_ _ _. True) (\<lambda>_ _. True) t"
    if t: "cursors t c = Some cu" "spi_faults t = []" "pllua_ending t = pllua_ending s" for t scan
  proof -
    define m where "m = (case name of None \<Rightarrow> gen | Some m \<Rightarrow> m)"
    let ?u = "t\<lparr>portals := (portals t)(q \<mapsto> \<lparr>portal_name = m, portal_cbs = [], portal_scan = scan\<rparr>),
                 by_name := (by_name t)(m \<mapsto> q)\<rparr>"
    have "?K () ?u"
      using cu t by (intro wpt_mono [OF setportal_opens [where cu = cu]]) auto
    then show ?thesis
      by (cases "by_name t m") (simp_all add: wpt_def SPI_cursor_open_def Let_def flip: m_def)
  qed
  have "wpt (query_statement e p str ts True k)
      (\<lambda>st. wpt (convert_args e args st) (\<lambda>params. wpt (pg_result (e_cursor e (st_plan st) params ro))
        (\<lambda>scan. wpt (SPI_cursor_open name gen q scan) ?K (\<lambda>_ _ _. True) (\<lambda>_ _. True))
        (\<lambda>_ _ _. True) (\<lambda>_ _. True)) (\<lambda>_ _ _. True) (\<lambda>_ _. True)) (\<lambda>_ _ _. True) (\<lambda>_ _. True) s" for ts k ro
    using ok cu opened by (intro query_statement_wpt) (auto split: sum.splits)
  then have "wpt spi_pg_call (\<lambda>_. wpt (gets cur_readonly) (\<lambda>ro. wpt (query_statement e p str (map arg_type args) True (length args))
      (\<lambda>st. wpt (convert_args e args st) (\<lambda>params. wpt (pg_result (e_cursor e (st_plan st) params ro))
        (\<lambda>scan. wpt (SPI_cursor_open name gen q scan) ?K (\<lambda>_ _ _. True) (\<lambda>_ _. True))
        (\<lambda>_ _ _. True) (\<lambda>_ _. True)) (\<lambda>_ _ _. True) (\<lambda>_ _. True)) (\<lambda>_ _ _. True) (\<lambda>_ _. True))
      (\<lambda>_ _ _. True) (\<lambda>_ _. True)) (\<lambda>_ _ _. True) (\<lambda>_ _. True) s"
    using ok by (intro wpt_pg_call_ok) simp_all
  then show ?thesis by (simp add: open_portal_def del: wpt_convert_args wpt_pg_result)
qed

lemma stmt_rows_opens:
  fixes s :: "'p spi"
  assumes inv: "spi_inv s" and c: "cursors s c = None" and q: "portals s q = None" and b: "cbs s b = None"
    and ok: "spi_faults s = []" and fc: "\<And>st. p = Some st \<Longrightarrow> 0 \<le> st_fetch_count st \<and> st_fetch_count st < 2 ^ 31"
  shows "wpt (pllua_spi_stmt_rows e p str args c gen q b)
           (\<lambda>(it, c') t. it = rows_iterator c \<and> c' = c \<and> (\<exists>po. portals t q = Some po \<and>
                          iter_rows rest t it c q True (rest (portal_scan po))))
           (\<lambda>_ _ _. True) (\<lambda>_ _. True) s"
proof -
  define n where "n = (case p of None \<Rightarrow> 0 | Some st \<Rightarrow> st_fetch_count st)"
  define new where "new = \<lparr>curs_portal = None, curs_cb = None, curs_fetch_count = n, is_ours = False,
    is_private = False, is_live = False, curs_name = None, curs_q = (\<lambda>_. None)\<rparr>"
  let ?s = "s\<lparr>cursors := (cursors s)(c \<mapsto> new)\<rparr>"
  let ?priv = "\<lambda>t :: 'p spi. t\<lparr>cursors := (cursors t)(c := map_option (is_private_update (\<lambda>_. True)) (cursors t c))\<rparr>"
  let ?N = "\<lambda>t :: 'p spi. \<exists>po. portals t q = Some po \<and> iter_rows rest t (rows_iterator c) c q True (rest (portal_scan po))"
  have inv': "spi_inv ?s" by (rule spi_inv_newcursor [OF inv c]) (simp add: new_def)
  have us: "usable ?s c" using inv c by (auto simp: usable_def spi_inv_def)
  have "wpt (open_portal e c p str (curs_name new) args gen q b)
          (\<lambda>_ t. opened c q n t \<and> pllua_ending t = pllua_ending ?s) (\<lambda>_ _ _. True) (\<lambda>_ _. True) ?s"
    by (rule open_portal_opens [where cu = new]) (simp_all add: new_def ok)
  then have "wpt (pllua_spi_cursor_open e c p str args gen q b)
          (\<lambda>_ t. opened c q n t \<and> \<not> pllua_ending t) (\<lambda>_ _ _. True) (\<lambda>_ _. True) ?s"
    by (auto simp: pllua_spi_cursor_open_def open_checks_def elim!: wpt_mono)
  then have "wpt (pllua_spi_cursor_open e c p str args gen q b)
          (\<lambda>_ t. (opened c q n t \<and> \<not> pllua_ending t) \<and> spi_inv t) (\<lambda>_ _ _. True) (\<lambda>_ _. True) ?s"
    by (rule wpt_mono [OF wpt_conj [OF _ pllua_spi_cursor_open_keeps [OF inv' us]]]) (use q b in auto)
  then have "wpt (pllua_spi_cursor_open e c p str args gen q b) (\<lambda>_ t. ?N (?priv t)) (\<lambda>_ _ _. True) (\<lambda>_ _. True) ?s"
  proof (rule wpt_mono)
    fix t :: "'p spi"
    assume t: "(opened c q n t \<and> \<not> pllua_ending t) \<and> spi_inv t"
    then obtain po cu where po: "portals t q = Some po" and cu: "cursors t c = Some cu" "curs_portal cu = Some q"
      "is_live cu" "curs_fetch_count cu = n" by (auto simp: opened_def)
    have "spi_inv (?priv t)" using spi_inv_flags(2) [of t c cu True] t cu(1) by simp
    moreover have "0 \<le> n" "n < 2 ^ 31" using fc by (auto simp: n_def split: option.splits)
    ultimately have "iter_rows rest (?priv t) (rows_iterator c) c q True (rest (portal_scan po))"
      using t po cu unfolding iter_rows_def
      by (auto simp: opened_def rows_iterator_def queued_def fetch_count_of_def DEFAULT_FETCH_COUNT_def Let_def)
    then show "?N (?priv t)" using po by simp
  qed auto
  then show ?thesis
    by (cases p) (simp_all add: pllua_spi_stmt_rows_def pllua_newcursor_def new_def n_def)
qed

text \<open>C24. The iterator of \<open>rows\<close> delivers the rows of its query: whatever the number of rows per fetch,
  a loop over it collects the rows that the new portal holds, in order and each once, and then
  ends; the portal is closed then and the iterator is of no more use.\<close>

theorem rows_iterator_delivers:
  assumes "spi_reach e s" "forward_scan e rest" "spi_faults s = []"
    and "op_ok s (OpRows p str args c gen q b)"
    and "\<And>st. p = Some st \<Longrightarrow> 0 \<le> st_fetch_count st \<and> st_fetch_count st < 2 ^ 31"
    and "pllua_spi_stmt_rows e p str args c gen q b s = (Ret (it, c'), t)"
  shows "\<exists>po. portals t q = Some po \<and>
           (\<forall>k > length (rest (portal_scan po)).
              \<exists>it' u. for_rows e k it t = (Ret (Some (rest (portal_scan po)), it'), u) \<and>
                      portals u q = None \<and> it_cursor it' = None)"
proof -
  have "wpt (pllua_spi_stmt_rows e p str args c gen q b)
           (\<lambda>(it, c') t. it = rows_iterator c \<and> c' = c \<and> (\<exists>po. portals t q = Some po \<and>
                          iter_rows rest t it c q True (rest (portal_scan po))))
           (\<lambda>_ _ _. True) (\<lambda>_ _. True) s"
    using assms(3-5) by (intro stmt_rows_opens [OF spi_reach_inv [OF assms(1)]]) simp_all
  then obtain po where "portals t q = Some po" "iter_rows rest t it c q True (rest (portal_scan po))"
    using assms(6) by (auto simp: wpt_def)
  with for_rows_delivers [OF assms(2) this(2)] show ?thesis by (simp, meson)
qed

theorem rows_iterator_delivers_witness:
  "\<exists>it c t it' u. pllua_spi_stmt_rows spi_env0 None (Some ''select'') [] 1 ''gen'' 7 3 spi0 = (Ret (it, c), t) \<and>
     for_rows spi_env0 4 it t = (Ret (Some [10, 20, 30], it'), u) \<and> portals u 7 = None"
proof -
  obtain it c t where run: "pllua_spi_stmt_rows spi_env0 None (Some ''select'') [] 1 ''gen'' 7 3 spi0 = (Ret (it, c), t)"
    and t: "portals t 7 = Some \<lparr>portal_name = ''gen'', portal_cbs = [3], portal_scan = [10, 20, 30]\<rparr>"
    by (simp add: pllua_spi_stmt_rows_def open_run spi_run)
  have f: "forward_scan spi_env0 id" by (simp add: forward_scan_def spi_env0_def)
  have "\<exists>po. portals t 7 = Some po \<and>
           (\<forall>k > length (id (portal_scan po)).
              \<exists>it' u. for_rows spi_env0 k it t = (Ret (Some (id (portal_scan po)), it'), u) \<and>
                      portals u 7 = None \<and> it_cursor it' = None)"
    by (rule rows_iterator_delivers [OF spi_reach0 f _ _ _ run]) (simp_all add: spi0_def)
  then obtain po where po: "portals t 7 = Some po"
    and all: "\<forall>k > length (id (portal_scan po)).
              \<exists>it' u. for_rows spi_env0 k it t = (Ret (Some (id (portal_scan po)), it'), u) \<and>
                      portals u 7 = None \<and> it_cursor it' = None" by blast
  have scan: "portal_scan po = [10, 20, 30]" using po t by auto
  then have "length (id (portal_scan po)) < 4" by simp
  with all scan obtain it' u where "for_rows spi_env0 4 it t = (Ret (Some [10, 20, 30], it'), u)" "portals u 7 = None"
    by (metis id_apply)
  then show ?thesis using run by blast
qed

subsection \<open>Bounds\<close>





end
