(* ===== verification/Errors.thy ===== *)
theory Errors
  imports Prelude
begin

text \<open>
  The error subsystem of src/src/error.c with the context tracking of src/src/pllua.h: the
  flag that says whether the code is in PostgreSQL or in Lua context, the registry reference
  to the active error, the conversion of an error of one system into an error of the other
  at the boundary, and the subtransactions behind \<open>pcall\<close> and \<open>xpcall\<close>.

  Calls into PostgreSQL are not modelled beyond what they are asked to do: \<open>pg_call\<close>
  records the call in \<open>pg_log\<close> with its result, and takes the result from \<open>pg_faults\<close>, the
  answers of the environment in order (an exhausted list means that calls succeed).
  \<open>lua_faults\<close> does the same for Lua operations that allocate.  A warning that the code
  reports on the way is recorded in the log and cannot itself fail.
\<close>

subsection \<open>State\<close>

datatype context_type = PLLUA_CONTEXT_PG | PLLUA_CONTEXT_LUA

datatype lref = LUA_REFNIL | LUA_NOREF | Ref nat

record subxact =
  xa_prev :: "nat list"
  onstack :: bool
  xa_resowner :: nat
  xa_mcontext :: nat

datatype pgcall =
    BeginInternalSubTransaction
  | ReleaseCurrentSubTransaction
  | RollbackAndReleaseCurrentSubTransaction
  | CopyErrorData
  | FlushErrorState
  | Warning string
  | UserCall nat

record est =
  pllua_context :: context_type
  pending_error :: bool
  db_ready :: bool
  stack_too_deep :: bool
  errdepth :: nat
  active_error :: lref
  registry :: "nat \<Rightarrow> lval option"
  ref_free :: "nat list"
  ref_next :: nat
  errobj :: "nat \<Rightarrow> errdata option"
  obj_next :: nat
  recursive_error :: nat
  subxact_stack :: "nat list"
  xas :: "nat \<Rightarrow> subxact"
  intercepted :: "nat \<Rightarrow> bool"
  xa_next :: nat
  mcxt :: nat
  emcxt :: nat
  resowner :: nat
  cx_next :: nat
  ccalls_limit :: nat
  pg_log :: "(pgcall \<times> bool) list"
  pg_faults :: "errdata option list"
  lua_faults :: "bool list"

definition pg_call :: "pgcall \<Rightarrow> (est, unit) m" where
  [mdefs]: "pg_call c s =
     (case pg_faults s of
        [] \<Rightarrow> (Ret (), s\<lparr>pg_log := pg_log s @ [(c, True)]\<rparr>)
      | None # fs \<Rightarrow> (Ret (), s\<lparr>pg_log := pg_log s @ [(c, True)], pg_faults := fs\<rparr>)
      | Some e # fs \<Rightarrow> (PgThrow e, s\<lparr>pg_log := pg_log s @ [(c, False)], pg_faults := fs\<rparr>))"

definition lua_alloc :: "(est, unit) m" where
  [mdefs]: "lua_alloc s =
     (case lua_faults s of
        [] \<Rightarrow> (Ret (), s)
      | b # bs \<Rightarrow>
          (if b then (LuaThrow LUA_ERRMEM (LStr ''not enough memory''), s\<lparr>lua_faults := bs\<rparr>)
           else (Ret (), s\<lparr>lua_faults := bs\<rparr>)))"

text \<open>
  The warnings of \<open>pllua_poperror\<close>.
\<close>

definition pllua_poperror :: "lval \<Rightarrow> (est, unit) m" where
  [mdefs]: "pllua_poperror v =
     modify (\<lambda>s. s\<lparr>pg_log := pg_log s @
       [(Warning (''Ignored Lua error: '' @
          (case v of LStr m \<Rightarrow> m | _ \<Rightarrow> ''(not a string)'')), True)]\<rparr>)"

subsection \<open>Context switches\<close>

text \<open>\<open>has_L\<close> is whether the caller passes a Lua state (and may therefore raise).\<close>

definition pllua_setcontext :: "bool \<Rightarrow> context_type \<Rightarrow> (est, context_type) m" where
  [mdefs]: "pllua_setcontext has_L newctx s =
     (let oldctx = pllua_context s in
      if pending_error s \<and> has_L \<and> oldctx = PLLUA_CONTEXT_LUA \<and> newctx = PLLUA_CONTEXT_PG
      then luaL_error ''cannot call into PostgreSQL with pending errors'' s
      else (Ret oldctx, s\<lparr>pllua_context := newctx\<rparr>))"

subsection \<open>Lua's protected calls and references\<close>

datatype 'a pcall_result = LUA_OK 'a | LuaErr lua_status lval

text \<open>
  \<open>lua_pcall\<close> without a message handler.  A PostgreSQL error is a longjmp that passes
  through Lua's frames without Lua noticing.
\<close>

definition lua_pcall :: "(est, 'a) m \<Rightarrow> (est, 'a pcall_result) m" where
  [mdefs]: "lua_pcall body s =
     (case body s of
        (Ret a, s') \<Rightarrow> (Ret (LUA_OK a), s')
      | (LuaThrow rc v, s') \<Rightarrow> (Ret (LuaErr rc v), s')
      | (PgThrow e, s') \<Rightarrow> (PgThrow e, s')
      | (PgPanic msg, s') \<Rightarrow> (PgPanic msg, s'))"

text \<open>
  A message handler runs at the point of the error; an error inside it runs it again with
  the new error, until Lua gives up with \<open>LUA_ERRERR\<close>.
\<close>

fun run_msgh :: "nat \<Rightarrow> (lval \<Rightarrow> (est, lval) m) \<Rightarrow> lval \<Rightarrow> est \<Rightarrow> (lua_status \<times> lval) outcome \<times> est"
where
  "run_msgh 0 h v s = (Ret (LUA_ERRERR, LStr ''error in error handling''), s)"
| "run_msgh (Suc n) h v s =
     (case h v s of
        (Ret r, s') \<Rightarrow> (Ret (LUA_ERRRUN, r), s')
      | (LuaThrow rc v', s') \<Rightarrow>
          (if rc = LUA_ERRMEM then (Ret (LUA_ERRMEM, v'), s') else run_msgh n h v' s')
      | (PgThrow e, s') \<Rightarrow> (PgThrow e, s')
      | (PgPanic msg, s') \<Rightarrow> (PgPanic msg, s'))"

definition lua_pcall_msgh :: "(lval \<Rightarrow> (est, lval) m) \<Rightarrow> (est, 'a) m \<Rightarrow> (est, 'a pcall_result) m"
where
  [mdefs]: "lua_pcall_msgh h body s =
     (case body s of
        (Ret a, s') \<Rightarrow> (Ret (LUA_OK a), s')
      | (LuaThrow rc v, s') \<Rightarrow>
          (if rc = LUA_ERRMEM then (Ret (LuaErr rc v), s')
           else case run_msgh (ccalls_limit s') h v s' of
                  (Ret (rc', v'), s'') \<Rightarrow> (Ret (LuaErr rc' v'), s'')
                | (LuaThrow rc' v', s'') \<Rightarrow> (Ret (LuaErr rc' v'), s'')
                | (PgThrow e, s'') \<Rightarrow> (PgThrow e, s'')
                | (PgPanic msg, s'') \<Rightarrow> (PgPanic msg, s''))
      | (PgThrow e, s') \<Rightarrow> (PgThrow e, s')
      | (PgPanic msg, s') \<Rightarrow> (PgPanic msg, s'))"

text \<open>\<open>luaL_ref\<close> allocates only when its free list is empty.\<close>

definition luaL_ref :: "lval \<Rightarrow> (est, lref) m" where
  [mdefs]: "luaL_ref v s =
     (if v = LNil then (Ret LUA_REFNIL, s)
      else case ref_free s of
        r # rs \<Rightarrow> (Ret (Ref r), s\<lparr>registry := (registry s)(r := Some v), ref_free := rs\<rparr>)
      | [] \<Rightarrow>
          bindm lua_alloc (\<lambda>_ s. (Ret (Ref (ref_next s)),
            s\<lparr>registry := (registry s)(ref_next s := Some v), ref_next := Suc (ref_next s)\<rparr>)) s)"

definition luaL_unref :: "lref \<Rightarrow> est \<Rightarrow> est" where
  [mdefs]: "luaL_unref r s =
     (case r of
        Ref n \<Rightarrow> s\<lparr>registry := (registry s)(n := None), ref_free := n # ref_free s\<rparr>
      | _ \<Rightarrow> s)"

definition lua_rawgeti :: "nat \<Rightarrow> est \<Rightarrow> lval" where
  "lua_rawgeti n s = (case registry s n of None \<Rightarrow> LNil | Some v \<Rightarrow> v)"

fun pllua_iserror :: "lval \<Rightarrow> bool" where
  "pllua_iserror (LErrObj _) = True"
| "pllua_iserror _ = False"

subsection \<open>The active error\<close>

definition pllua_register_error :: "lval \<Rightarrow> (est, unit) m" where
  [mdefs]: "pllua_register_error v s =
     (if db_ready s then
        (let oref = active_error s in
         case oref of
           LUA_NOREF \<Rightarrow> (Ret (), s)
         | _ \<Rightarrow>
            if (case oref of Ref n \<Rightarrow> lua_rawgeti n s = v | _ \<Rightarrow> False) then (Ret (), s)
            else bindm (luaL_ref v)
                   (\<lambda>r. modify (\<lambda>s. luaL_unref oref (s\<lparr>active_error := r\<rparr>))) s)
      else (Ret (), s))"

definition pllua_register_recursive_error :: "(est, lval) m" where
  [mdefs]: "pllua_register_recursive_error s =
     (Ret (LErrObj (recursive_error s)),
      (luaL_unref (active_error s) s)\<lparr>active_error := LUA_NOREF\<rparr>)"

definition pllua_deregister_error :: "(est, unit) m" where
  [mdefs]: "pllua_deregister_error s =
     (Ret (), (luaL_unref (active_error s) s)\<lparr>active_error := LUA_REFNIL\<rparr>)"

definition pllua_get_active_error :: "est \<Rightarrow> lval option" where
  "pllua_get_active_error s =
     (case active_error s of
        LUA_REFNIL \<Rightarrow> None
      | LUA_NOREF \<Rightarrow> Some (LErrObj (recursive_error s))
      | Ref n \<Rightarrow> Some (lua_rawgeti n s))"

text \<open>\<open>act\<close> is the \<open>active_error\<close> field of the activation record being unwound.\<close>

definition pllua_error_cleanup :: "lref \<Rightarrow> est \<Rightarrow> lref \<times> est" where
  "pllua_error_cleanup act s =
     (let s = s\<lparr>errdepth := 0\<rparr>;
          s = (if act \<noteq> LUA_REFNIL then luaL_unref act s else s)
      in (LUA_REFNIL, s\<lparr>pending_error := False\<rparr>))"

definition pllua_newerror :: "errdata \<Rightarrow> (est, lval) m" where
  [mdefs]: "pllua_newerror ed =
     bindm lua_alloc (\<lambda>_. bindm (gets obj_next) (\<lambda>n.
     bindm (modify (\<lambda>s. s\<lparr>errobj := (errobj s)(n := Some ed), obj_next := Suc n\<rparr>)) (\<lambda>_.
     bindm (pllua_register_error (LErrObj n)) (\<lambda>_. ret (LErrObj n)))))"

subsection \<open>Crossing the boundary\<close>

definition pllua_pcall_nothrow :: "(est, 'a pcall_result) m \<Rightarrow> (est, 'a pcall_result) m" where
  [mdefs]: "pllua_pcall_nothrow call =
     bindm (pllua_setcontext False PLLUA_CONTEXT_LUA) (\<lambda>oldctx.
     bindm call (\<lambda>rc.
     bindm (pllua_setcontext False oldctx) (\<lambda>_. ret rc)))"

definition pllua_errmsg :: "lval \<Rightarrow> string \<Rightarrow> string" where
  "pllua_errmsg v typ =
     (case v of LStr m \<Rightarrow> ''pllua: '' @ m
      | _ \<Rightarrow> ''pllua: (error is not a string: type='' @ typ @ '')'')"

text \<open>The number \<open>lua_type\<close> returns, as the message prints it.\<close>

fun lua_type_number :: "lval \<Rightarrow> string" where
  "lua_type_number LNil = ''0''"
| "lua_type_number (LBool _) = ''1''"
| "lua_type_number (LLight _) = ''2''"
| "lua_type_number (LInt _) = ''3''"
| "lua_type_number (LFlt _) = ''3''"
| "lua_type_number (LStr _) = ''4''"
| "lua_type_number (LTab _) = ''5''"
| "lua_type_number (LFun _) = ''6''"
| "lua_type_number (LErrObj _) = ''7''"
| "lua_type_number (LUdata _) = ''7''"
| "lua_type_number (LThread _) = ''8''"

definition rethrow_edata :: "errdata option \<Rightarrow> (est, 'a) m" where
  [mdefs]: "rethrow_edata edata =
     pg_throw (case edata of Some ed \<Rightarrow> ed
               | None \<Rightarrow> pg_elog ''recursive error in Lua error handling'')"

definition rethrow_error_object :: "nat \<Rightarrow> (est, 'a) m" where
  [mdefs]: "rethrow_error_object n =
     bindm (gets (\<lambda>s. errobj s n)) (\<lambda>edata.
     bindm (pllua_pcall_nothrow (lua_pcall (pllua_register_error (LErrObj n)))) (\<lambda>r.
     case r of
       LUA_OK _ \<Rightarrow> rethrow_edata edata
     | LuaErr _ e \<Rightarrow>
         bindm (pllua_poperror e) (\<lambda>_.
         bindm pllua_register_recursive_error (\<lambda>_.
         bindm (gets (\<lambda>s. errobj s (recursive_error s))) (\<lambda>p.
         rethrow_edata (case p of Some _ \<Rightarrow> p | None \<Rightarrow> edata))))))"

definition pllua_rethrow_from_lua :: "lua_status \<Rightarrow> lval \<Rightarrow> (est, 'a) m" where
  [mdefs]: "pllua_rethrow_from_lua rc v s =
     (if pllua_context s = PLLUA_CONTEXT_LUA then lua_error v s
      else if rc = LUA_ERRMEM then pg_throw (pg_elog ''pllua: out of memory'') s
      else case v of
        LErrObj n \<Rightarrow> rethrow_error_object n s
      | _ \<Rightarrow> pg_throw (pg_elog (pllua_errmsg v (lua_type_number v))) s)"

definition pllua_absorb_pg_error :: "errdata \<Rightarrow> (est, lval) m" where
  [mdefs]: "pllua_absorb_pg_error e =
     bindm (modify (\<lambda>s. s\<lparr>mcxt := emcxt s\<rparr>)) (\<lambda>_.
     bindm (\<lambda>s. case pg_call CopyErrorData s of
                  (Ret _, s') \<Rightarrow> (Ret (Some e), s')
                | (_, s') \<Rightarrow> (Ret None, s')) (\<lambda>edata.
     bindm (\<lambda>s. case pg_call FlushErrorState s of
                  (Ret _, s') \<Rightarrow> (Ret (), s')
                | (_, s') \<Rightarrow> (PgPanic ''error recursion trouble: FlushErrorState failed'', s')) (\<lambda>_.
     case edata of
       Some ed \<Rightarrow>
         bindm (pllua_pcall_nothrow (lua_pcall (pllua_newerror ed))) (\<lambda>r.
           case r of
             LUA_OK v \<Rightarrow> ret v
           | LuaErr _ v \<Rightarrow> bindm (pllua_poperror v) (\<lambda>_. pllua_register_recursive_error))
     | None \<Rightarrow> pllua_register_recursive_error)))"

text \<open>Called from a \<open>PG_CATCH\<close> block that holds \<open>e\<close>, after the old context was restored.\<close>

definition pllua_rethrow_from_pg :: "nat \<Rightarrow> errdata \<Rightarrow> (est, 'a) m" where
  [mdefs]: "pllua_rethrow_from_pg oldmcxt e s =
     (if pllua_context s = PLLUA_CONTEXT_PG then (PgThrow e, s)
      else bindm (pllua_absorb_pg_error e) (\<lambda>v.
             bindm (modify (\<lambda>s. s\<lparr>pending_error := True, mcxt := oldmcxt\<rparr>)) (\<lambda>_.
             lua_error v)) s)"

text \<open>
  \<open>PLLUA_TRY\<close> \<dots> \<open>PLLUA_CATCH_RETHROW\<close> around a body.  \<open>PLLUA_TRY_ERROK\<close> is the same with
  no Lua state passed to \<open>pllua_setcontext\<close>.
\<close>

definition PLLUA_TRY_gen :: "bool \<Rightarrow> (est, 'a) m \<Rightarrow> (est, 'a) m" where
  [mdefs]: "PLLUA_TRY_gen has_L body =
     bindm (pllua_setcontext has_L PLLUA_CONTEXT_PG) (\<lambda>oldctx.
     bindm (gets mcxt) (\<lambda>oldmcxt s.
       case body s of
         (Ret a, s') \<Rightarrow> (Ret a, s'\<lparr>pllua_context := oldctx\<rparr>)
       | (PgThrow e, s') \<Rightarrow> pllua_rethrow_from_pg oldmcxt e (s'\<lparr>pllua_context := oldctx\<rparr>)
       | (LuaThrow rc v, s') \<Rightarrow> (LuaThrow rc v, s')
       | (PgPanic msg, s') \<Rightarrow> (PgPanic msg, s')))"

abbreviation PLLUA_TRY :: "(est, 'a) m \<Rightarrow> (est, 'a) m" where
  "PLLUA_TRY \<equiv> PLLUA_TRY_gen True"

abbreviation PLLUA_TRY_ERROK :: "(est, 'a) m \<Rightarrow> (est, 'a) m" where
  "PLLUA_TRY_ERROK \<equiv> PLLUA_TRY_gen False"

definition pllua_pcall :: "(est, 'a) m \<Rightarrow> (est, 'a) m" where
  [mdefs]: "pllua_pcall f =
     bindm (pllua_pcall_nothrow (lua_pcall f)) (\<lambda>r.
       case r of LUA_OK a \<Rightarrow> ret a | LuaErr rc v \<Rightarrow> pllua_rethrow_from_lua rc v)"

text \<open>\<open>stack_ok\<close> is the answer of \<open>lua_checkstack\<close>.\<close>

definition pllua_cpcall :: "bool \<Rightarrow> (est, 'a) m \<Rightarrow> (est, 'a pcall_result) m" where
  [mdefs]: "pllua_cpcall stack_ok f s =
     (if \<not> stack_ok \<and> pllua_context s = PLLUA_CONTEXT_PG
      then pg_throw (pg_elog ''failed to extend Lua stack'') s
      else if \<not> stack_ok then luaL_error ''stack overflow'' s
      else pllua_pcall_nothrow (lua_pcall f) s)"

text \<open>
  The activation record is represented by its \<open>active_error\<close>: it is installed as the
  interpreter's current activation for the call, copied back, and the previous one restored
  before any error is rethrown.
\<close>

definition pllua_initial_protected_call ::
  "bool \<Rightarrow> bool \<Rightarrow> (est, unit) m \<Rightarrow> lref \<Rightarrow> (est, lref) m"
where
  [mdefs]: "pllua_initial_protected_call stack_ok stack_ok' f arg s =
     (let save_activation = active_error s in
      if \<not> stack_ok then pg_throw (pg_elog ''pllua: out of memory error on stack setup'') s
      else bindm (pllua_cpcall stack_ok' f)
             (\<lambda>r s. let arg' = active_error s; s = s\<lparr>active_error := save_activation\<rparr> in
                case r of
                  LUA_OK _ \<Rightarrow> (Ret arg', s)
                | LuaErr rc v \<Rightarrow> pllua_rethrow_from_lua rc v s) (s\<lparr>active_error := arg\<rparr>))"

end
