(* ===== verification/Subxact.thy ===== *)
theory Subxact
  imports Errors
begin

text \<open>
  The user-visible \<open>pcall\<close>, \<open>xpcall\<close>, \<open>lpcall\<close>, \<open>subtransaction\<close> and \<open>coroutine.resume\<close> of
  src/src/error.c, and programs built from them.  A protected function is a computation that
  returns its results, and an error handler a function from the error value; \<open>None\<close> stands
  for an argument that is missing or of the wrong type.
\<close>

subsection \<open>Aborting the innermost subtransaction\<close>

definition pllua_subxact_abort :: "(est, unit) m" where
  [mdefs]: "pllua_subxact_abort =
     PLLUA_TRY (
       bindm (gets (\<lambda>s. hd (subxact_stack s))) (\<lambda>xa.
       bindm (gets (\<lambda>s. xas s xa)) (\<lambda>x.
       bindm (modify (\<lambda>s. s\<lparr>xas := (xas s)(xa := x\<lparr>onstack := False\<rparr>),
                           subxact_stack := xa_prev x\<rparr>)) (\<lambda>_.
       bindm (pg_call RollbackAndReleaseCurrentSubTransaction) (\<lambda>_.
       modify (\<lambda>s. s\<lparr>mcxt := xa_mcontext x, resowner := xa_resowner x,
                     pending_error := False\<rparr>))))))"

text \<open>
  The wrapper that \<open>xpcall\<close> installs around the user's error function \<open>f\<close>; \<open>c\<close> identifies
  the closure, whose second upvalue is \<open>intercepted\<close>.
\<close>

definition pllua_intercept_error ::
  "nat \<Rightarrow> (lval \<Rightarrow> (est, lval) m) \<Rightarrow> lval \<Rightarrow> (est, lval) m"
where
  [mdefs]: "pllua_intercept_error c f e =
     bindm (\<lambda>s. if \<not> intercepted s c
                then bindm (modify (\<lambda>s. s\<lparr>intercepted := (intercepted s)(c := True)\<rparr>)) (\<lambda>_.
                     bindm pllua_subxact_abort (\<lambda>_. pllua_deregister_error)) s
                else (Ret (), s)) (\<lambda>_.
     bindm (pllua_pcall_nothrow (lua_pcall_msgh f (f e))) (\<lambda>r.
     case r of LUA_OK v \<Rightarrow> ret v | LuaErr _ v \<Rightarrow> ret v))"

subsection \<open>pcall and xpcall\<close>

text \<open>
  The body of the \<open>PG_TRY\<close> block: \<open>Inl (rc, v)\<close> with \<open>rethrow\<close> says that the call failed,
  \<open>Inr\<close> are the results.
\<close>

definition pcall_guts_try ::
  "nat \<Rightarrow> nat \<Rightarrow> (est, lval list pcall_result) m \<Rightarrow> (est, lval list pcall_result \<times> bool) m"
where
  [mdefs]: "pcall_guts_try xa oldcontext call =
     bindm (modify (\<lambda>s. s\<lparr>xas := (xas s)(xa :=
         \<lparr>xa_prev = subxact_stack s, onstack = False,
          xa_resowner = resowner s, xa_mcontext = oldcontext\<rparr>)\<rparr>)) (\<lambda>_.
     bindm (pg_call BeginInternalSubTransaction) (\<lambda>_.
     bindm (modify (\<lambda>s. s\<lparr>mcxt := cx_next s, resowner := cx_next s, cx_next := Suc (cx_next s)\<rparr>)) (\<lambda>_.
     bindm (modify (\<lambda>s. s\<lparr>xas := (xas s)(xa := (xas s xa)\<lparr>onstack := True\<rparr>),
                         subxact_stack := xa # subxact_stack s\<rparr>)) (\<lambda>_.
     bindm (pllua_pcall_nothrow call) (\<lambda>rc.
     case rc of
       LUA_OK _ \<Rightarrow>
         bindm (pg_call ReleaseCurrentSubTransaction) (\<lambda>_.
         bindm (modify (\<lambda>s. s\<lparr>mcxt := oldcontext, resowner := xa_resowner (xas s xa),
                             subxact_stack := xa_prev (xas s xa)\<rparr>)) (\<lambda>_.
         ret (rc, False)))
     | LuaErr _ _ \<Rightarrow>
         (\<lambda>s. if onstack (xas s xa)
              then bindm pllua_subxact_abort (\<lambda>_. ret (rc, False)) s
              else (Ret (rc, True), s)))))))"

definition pcall_guts_catch :: "nat \<Rightarrow> nat \<Rightarrow> errdata \<Rightarrow> (est, 'a) m" where
  [mdefs]: "pcall_guts_catch xa oldcontext e =
     bindm (pllua_setcontext False PLLUA_CONTEXT_LUA) (\<lambda>_.
     bindm (pllua_absorb_pg_error e) (\<lambda>v.
     bindm (\<lambda>s. if onstack (xas s xa) then pllua_subxact_abort s else (Ret (), s)) (\<lambda>_.
     bindm (modify (\<lambda>s. s\<lparr>mcxt := oldcontext\<rparr>)) (\<lambda>_.
     lua_error v))))"

definition pcall_guts_finish :: "lval list pcall_result \<Rightarrow> bool \<Rightarrow> (est, lval list) m" where
  [mdefs]: "pcall_guts_finish rc rethrow =
     bindm (pllua_setcontext False PLLUA_CONTEXT_LUA) (\<lambda>_.
     case rc of
       LUA_OK vs \<Rightarrow> ret (LBool True # vs)
     | LuaErr _ v \<Rightarrow>
         bindm (\<lambda>s. if rethrow
                    then (case pllua_get_active_error s of
                            Some a \<Rightarrow> lua_error a s
                          | None \<Rightarrow> (Ret (), s))
                    else pllua_deregister_error s) (\<lambda>_.
         ret [LBool False, v]))"

text \<open>
  \<open>errf\<close> is \<open>None\<close> for \<open>pcall\<close> and \<open>Some\<close> of the second argument for \<open>xpcall\<close>.
\<close>

definition pllua_t_pcall_guts ::
  "(est, lval list) m option \<Rightarrow> (lval \<Rightarrow> (est, lval) m) option option \<Rightarrow> (est, lval list) m"
where
  "pllua_t_pcall_guts func errf s =
     (if stack_too_deep s then luaL_error ''stack depth exceeded'' s
      else case func of
        None \<Rightarrow> luaL_error ''bad argument #1 (value expected)'' s
      | Some body \<Rightarrow>
         (if errf = Some None then luaL_error ''bad argument #2 (function expected)'' s
          else
           (let xa = xa_next s;
                s = s\<lparr>xa_next := Suc xa, intercepted := (intercepted s)(xa := False)\<rparr>;
                call = (case errf of
                          Some (Some f) \<Rightarrow> lua_pcall_msgh (pllua_intercept_error xa f) body
                        | _ \<Rightarrow> lua_pcall body)
            in
            bindm (gets mcxt) (\<lambda>oldcontext.
            bindm (pllua_setcontext True PLLUA_CONTEXT_PG) (\<lambda>_ s.
              case pcall_guts_try xa oldcontext call s of
                (Ret (rc, rethrow), s') \<Rightarrow> pcall_guts_finish rc rethrow s'
              | (PgThrow e, s') \<Rightarrow> pcall_guts_catch xa oldcontext e s'
              | (LuaThrow rc v, s') \<Rightarrow> (LuaThrow rc v, s')
              | (PgPanic msg, s') \<Rightarrow> (PgPanic msg, s'))) s)))"

subsection \<open>lpcall\<close>

definition finishpcall :: "lval list pcall_result \<Rightarrow> (est, lval list) m" where
  [mdefs]: "finishpcall r =
     (case r of
        LUA_OK vs \<Rightarrow> ret (LBool True # vs)
      | LuaErr rc v \<Rightarrow>
          bindm (whenm (pllua_iserror v) (pllua_rethrow_from_lua rc v)) (\<lambda>_ s.
            (case pllua_get_active_error s of
               Some a \<Rightarrow> pllua_rethrow_from_lua LUA_ERRERR a s
             | None \<Rightarrow> (Ret [LBool False, v], s))))"

definition pllua_t_lpcall :: "(est, lval list) m option \<Rightarrow> (est, lval list) m" where
  "pllua_t_lpcall func s =
     (if stack_too_deep s then luaL_error ''stack depth exceeded'' s
      else case func of
        None \<Rightarrow> luaL_error ''bad argument #1 (value expected)'' s
      | Some body \<Rightarrow> bindm (lua_pcall body) finishpcall s)"

definition pllua_t_lxpcall ::
  "(est, lval list) m option \<Rightarrow> (lval \<Rightarrow> (est, lval) m) option \<Rightarrow> (est, lval list) m"
where
  "pllua_t_lxpcall func errf s =
     (if stack_too_deep s then luaL_error ''stack depth exceeded'' s
      else case errf of
        None \<Rightarrow> luaL_error ''bad argument #2 (function expected)'' s
      | Some f \<Rightarrow>
         (case func of
            None \<Rightarrow> luaL_error ''attempt to call a nil value'' s
          | Some body \<Rightarrow> bindm (lua_pcall_msgh f body) finishpcall s))"

definition pllua_t_pcall :: "(est, lval list) m option \<Rightarrow> (est, lval list) m" where
  "pllua_t_pcall func s =
     (if db_ready s then pllua_t_pcall_guts func None s else pllua_t_lpcall func s)"

definition pllua_t_xpcall ::
  "(est, lval list) m option \<Rightarrow> (lval \<Rightarrow> (est, lval) m) option \<Rightarrow> (est, lval list) m"
where
  "pllua_t_xpcall func errf s =
     (if db_ready s then pllua_t_pcall_guts func (Some errf) s else pllua_t_lxpcall func errf s)"

text \<open>
  \<open>has_interp\<close> is whether \<open>pllua_getinterpreter\<close> returns an interpreter.
\<close>

definition pllua_subtransaction :: "bool \<Rightarrow> (est, lval list) m option \<Rightarrow> (est, lval list) m" where
  "pllua_subtransaction has_interp func =
     (if \<not> has_interp then luaL_error ''cannot create subtransaction inside on_init string''
      else pllua_t_pcall_guts func None)"

subsection \<open>coroutine.resume\<close>

datatype co_state = CoSuspended | CoDead

datatype co_result = CoReturned "lval list" | CoYielded "lval list" | CoFailed lua_status lval

text \<open>
  The coroutine is its state and the computation up to its next yield, end or error; the two
  flags are the answers of \<open>lua_checkstack\<close>.
\<close>

definition pllua_t_coresume ::
  "(co_state \<times> (est, co_result) m) option \<Rightarrow> bool \<Rightarrow> bool \<Rightarrow> (est, lval list) m"
where
  "pllua_t_coresume co args_fit results_fit =
     (case co of
        None \<Rightarrow> luaL_error ''bad argument #1 (thread expected)''
      | Some (st, run) \<Rightarrow>
         if \<not> args_fit then ret [LBool False, LStr ''too many arguments to resume'']
         else if st = CoDead then ret [LBool False, LStr ''cannot resume dead coroutine'']
         else bindm run (\<lambda>r.
           let returned = (\<lambda>vs. if \<not> results_fit
                                then ret [LBool False, LStr ''too many results to resume'']
                                else ret (LBool True # vs))
           in case r of
                CoReturned vs \<Rightarrow> returned vs
              | CoYielded vs \<Rightarrow> returned vs
              | CoFailed rc v \<Rightarrow>
                  if pllua_iserror v then pllua_rethrow_from_lua rc v
                  else ret [LBool False, v]))"

subsection \<open>Programs\<close>

text \<open>
  What user code can do, as far as this component sees it: call into PostgreSQL (\<open>LSpi\<close>, any
  of the many entry points, all of which go through \<open>PLLUA_TRY\<close>), allocate, raise a value or
  the value it was given, and nest the protected calls in any way.
\<close>

datatype lprog =
    LSkip
  | LSpi nat
  | LAlloc
  | LError lval
  | LErrorArg
  | LSeq lprog lprog
  | LPcall lprog
  | LXpcall lprog lprog
  | LLpcall lprog
  | LSubtransaction lprog

definition handler_result :: "lval list \<Rightarrow> lval" where
  "handler_result vs = (case vs of [] \<Rightarrow> LNil | v # _ \<Rightarrow> v)"

primrec run_prog :: "lprog \<Rightarrow> lval \<Rightarrow> (est, lval list) m" where
  "run_prog LSkip a = ret [a]"
| "run_prog (LSpi n) a = bindm (PLLUA_TRY (pg_call (UserCall n))) (\<lambda>_. ret [])"
| "run_prog LAlloc a = bindm lua_alloc (\<lambda>_. ret [])"
| "run_prog (LError v) a = lua_error v"
| "run_prog LErrorArg a = lua_error a"
| "run_prog (LSeq p q) a = bindm (run_prog p a) (\<lambda>_. run_prog q a)"
| "run_prog (LPcall p) a = pllua_t_pcall (Some (run_prog p a))"
| "run_prog (LXpcall p h) a =
     pllua_t_xpcall (Some (run_prog p a))
       (Some (\<lambda>e. bindm (run_prog h e) (\<lambda>vs. ret (handler_result vs))))"
| "run_prog (LLpcall p) a = pllua_t_lpcall (Some (run_prog p a))"
| "run_prog (LSubtransaction p) a = pllua_subtransaction True (Some (run_prog p a))"

end
