(* ===== verification/Subxact_Inv.thy ===== *)
theory Subxact_Inv
  imports Subxact
begin

text \<open>
  The discipline of the error subsystem, for every program: a protected call leaves the
  chain of subtransactions, PostgreSQL's nesting depth and the context as it found them, and
  no PostgreSQL error ever escapes through Lua frames.  The proofs are by weakest
  preconditions, operation by operation, and one induction over programs.
\<close>

subsection \<open>The part of the state the discipline is about\<close>

fun nesting :: "pgcall \<times> bool \<Rightarrow> int" where
  "nesting (BeginInternalSubTransaction, True) = 1"
| "nesting (ReleaseCurrentSubTransaction, True) = - 1"
| "nesting (RollbackAndReleaseCurrentSubTransaction, _) = - 1"
| "nesting _ = 0"

text \<open>Open subtransactions after the recorded calls; an attempted rollback closes one.\<close>

definition xdepth :: "(pgcall \<times> bool) list \<Rightarrow> int" where
  "xdepth calls = sum_list (map nesting calls)"

lemma xdepth_simps [simp]:
  "xdepth [] = 0"
  "xdepth (xs @ ys) = xdepth xs + xdepth ys"
  "xdepth [x] = nesting x"
  by (simp_all add: xdepth_def)

definition core ::
  "est \<Rightarrow> context_type \<times> nat list \<times> (nat \<Rightarrow> subxact) \<times> (nat \<Rightarrow> bool) \<times> nat \<times> int \<times> bool \<times> bool"
where
  "core s = (pllua_context s, subxact_stack s, xas s, intercepted s, xa_next s,
     xdepth (pg_log s), db_ready s, pending_error s)"

abbreviation same_core :: "est \<Rightarrow> est \<Rightarrow> bool" where
  "same_core s s' \<equiv> core s' = core s"

definition keeps :: "est \<Rightarrow> est \<Rightarrow> bool" where
  "keeps s s' \<longleftrightarrow>
     pllua_context s' = pllua_context s \<and>
     subxact_stack s' = subxact_stack s \<and> xdepth (pg_log s') = xdepth (pg_log s) \<and>
     db_ready s' = db_ready s \<and> xa_next s \<le> xa_next s' \<and>
     (\<forall>i < xa_next s. xas s' i = xas s i \<and> intercepted s' i = intercepted s i)"

lemma same_core_keeps: "same_core s s' \<Longrightarrow> keeps s s'"
  by (simp add: core_def keeps_def)

lemma keeps_refl [simp, intro]: "keeps s s"
  by (simp add: keeps_def)

lemma keeps_trans: "keeps s s' \<Longrightarrow> keeps s' s'' \<Longrightarrow> keeps s s''"
  by (auto simp: keeps_def)

subsection \<open>Bookkeeping operations\<close>

lemma luaL_unref_core [simp]: "core (luaL_unref r s) = core s"
  by (simp add: luaL_unref_def core_def split: lref.splits)

lemma core_updates [simp]:
  "core (s\<lparr>active_error := x1\<rparr>) = core s"
  "core (s\<lparr>mcxt := x2\<rparr>) = core s"
  "core (s\<lparr>resowner := x3\<rparr>) = core s"
  "core (s\<lparr>errobj := x4\<rparr>) = core s"
  "core (s\<lparr>obj_next := x5\<rparr>) = core s"
  "core (s\<lparr>lua_faults := x6\<rparr>) = core s"
  "core (s\<lparr>registry := x7\<rparr>) = core s"
  "core (s\<lparr>ref_free := x8\<rparr>) = core s"
  "core (s\<lparr>ref_next := x9\<rparr>) = core s"
  "core (s\<lparr>cx_next := x10\<rparr>) = core s"
  by (simp_all add: core_def)

definition bookkeeping :: "(est, 'a) m \<Rightarrow> bool" where
  "bookkeeping m \<longleftrightarrow>
     (\<forall>s. wp m (\<lambda>_. same_core s) (\<lambda>_ _. same_core s) (\<lambda>_ _. False) s)"

lemma bookkeepingD:
  "bookkeeping m \<Longrightarrow> wp m (\<lambda>_. same_core s) (\<lambda>_ _. same_core s) (\<lambda>_ _. False) s"
  by (simp add: bookkeeping_def)

lemma bookkeeping_bindm:
  assumes "bookkeeping m" "\<And>a. bookkeeping (f a)"
  shows "bookkeeping (bindm m f)"
  unfolding bookkeeping_def
proof (intro allI, simp)
  fix s
  show "wp m (\<lambda>a. wp (f a) (\<lambda>_. same_core s) (\<lambda>_ _. same_core s) (\<lambda>_ _. False))
          (\<lambda>_ _. same_core s) (\<lambda>_ _. False) s"
    by (rule wp_mono [OF bookkeepingD [OF assms(1)]])
      (auto intro: wp_mono [OF bookkeepingD [OF assms(2)]])
qed

lemma bookkeeping_basic [intro]:
  "bookkeeping (ret a)"
  "bookkeeping (lua_error v)"
  "bookkeeping (gets f)"
  by (simp_all add: bookkeeping_def)

lemma bookkeeping_modify [intro]: "(\<And>s. core (f s) = core s) \<Longrightarrow> bookkeeping (modify f)"
  by (simp add: bookkeeping_def)

lemma bookkeeping_retfun [intro]:
  "(\<And>s. core (f s) = core s) \<Longrightarrow> bookkeeping (\<lambda>s. (Ret (a s), f s))"
  by (simp add: bookkeeping_def)

lemma bookkeeping_lua_alloc [intro]: "bookkeeping lua_alloc"
  by (auto simp: bookkeeping_def wp_def lua_alloc_def split: list.splits)

lemma wp_cong_at: "m s = m' s \<Longrightarrow> wp m N E P s = wp m' N E P s"
  by (simp add: wp_def)

lemma bookkeeping_at:
  assumes "\<And>s. \<exists>m'. bookkeeping m' \<and> m s = m' s"
  shows "bookkeeping m"
  unfolding bookkeeping_def
proof
  fix s
  obtain m' where "bookkeeping m'" "m s = m' s"
    using assms by blast
  then show "wp m (\<lambda>_. same_core s) (\<lambda>_ _. same_core s) (\<lambda>_ _. False) s"
    using bookkeepingD [of m' s] by (simp add: wp_cong_at [of m s m'])
qed

lemma bookkeeping_luaL_ref [intro]: "bookkeeping (luaL_ref v)"
proof (rule bookkeeping_at)
  fix s
  have fresh: "bookkeeping (bindm lua_alloc (\<lambda>_ s. (Ret (Ref (ref_next s)),
          s\<lparr>registry := (registry s)(ref_next s := Some v), ref_next := Suc (ref_next s)\<rparr>)))"
    by (rule bookkeeping_bindm) auto
  have reuse: "bookkeeping (\<lambda>s. (Ret (Ref r),
          s\<lparr>registry := (registry s)(r := Some v), ref_free := rs\<rparr>))" for r rs
    by (simp add: bookkeeping_def)
  show "\<exists>m'. bookkeeping m' \<and> luaL_ref v s = m' s"
  proof (cases "v = LNil")
    case True
    then show ?thesis
      by (intro exI [of _ "ret LUA_REFNIL"]) (auto simp: luaL_ref_def ret_def)
  next
    case False
    show ?thesis
    proof (cases "ref_free s")
      case Nil
      with False have "luaL_ref v s = bindm lua_alloc (\<lambda>_ s. (Ret (Ref (ref_next s)),
          s\<lparr>registry := (registry s)(ref_next s := Some v), ref_next := Suc (ref_next s)\<rparr>)) s"
        by (simp add: luaL_ref_def)
      with fresh show ?thesis by blast
    next
      case (Cons r rs)
      with False have "luaL_ref v s = (\<lambda>s. (Ret (Ref r),
          s\<lparr>registry := (registry s)(r := Some v), ref_free := rs\<rparr>)) s"
        by (simp add: luaL_ref_def)
      with reuse show ?thesis by blast
    qed
  qed
qed

lemma bookkeeping_pllua_register_error [intro]: "bookkeeping (pllua_register_error v)"
proof (rule bookkeeping_at)
  fix s
  have "bookkeeping (bindm (luaL_ref v)
          (\<lambda>r. modify (\<lambda>s. luaL_unref oref (s\<lparr>active_error := r\<rparr>))))" for oref
    by (rule bookkeeping_bindm) auto
  moreover have "bookkeeping (ret ())"
    by (rule bookkeeping_basic)
  moreover have "pllua_register_error v s = ret () s \<or>
      (\<exists>oref. pllua_register_error v s = bindm (luaL_ref v)
          (\<lambda>r. modify (\<lambda>s. luaL_unref oref (s\<lparr>active_error := r\<rparr>))) s)"
    unfolding pllua_register_error_def ret_def Let_def by (auto split: lref.splits)
  ultimately show "\<exists>m'. bookkeeping m' \<and> pllua_register_error v s = m' s"
    by blast
qed

lemma bookkeeping_pllua_newerror [intro]: "bookkeeping (pllua_newerror ed)"
  unfolding pllua_newerror_def
  by (intro bookkeeping_bindm) auto

lemma bookkeeping_recursive [intro]: "bookkeeping pllua_register_recursive_error"
  by (simp add: bookkeeping_def wp_def pllua_register_recursive_error_def)

lemma bookkeeping_deregister [intro]: "bookkeeping pllua_deregister_error"
  by (simp add: bookkeeping_def wp_def pllua_deregister_error_def)

lemma bookkeeping_poperror [intro]: "bookkeeping (pllua_poperror v)"
  by (simp add: bookkeeping_def wp_def pllua_poperror_def modify_def core_def)

text \<open>A protected call to a bookkeeping operation always returns, in the caller's context.\<close>

lemma core_context_cong:
  "core (s'\<lparr>pllua_context := c\<rparr>) = core (s\<lparr>pllua_context := c\<rparr>) \<longleftrightarrow>
   snd (core s') = snd (core s)"
  by (simp add: core_def)

lemma bookkeeping_protected [intro]:
  assumes "bookkeeping m"
  shows "bookkeeping (pllua_pcall_nothrow (lua_pcall m))"
  unfolding bookkeeping_def
proof
  fix s :: est
  let ?s = "s\<lparr>pllua_context := PLLUA_CONTEXT_LUA\<rparr>"
  have "wp m (\<lambda>_. same_core ?s) (\<lambda>_ _. same_core ?s) (\<lambda>_ _. False) ?s"
    by (rule bookkeepingD [OF assms])
  then show "wp (pllua_pcall_nothrow (lua_pcall m)) (\<lambda>_. same_core s) (\<lambda>_ _. same_core s)
     (\<lambda>_ _. False) s"
    by (auto simp: wp_def mdefs core_def split: prod.splits outcome.splits)
qed

lemma protected_returns:
  assumes "bookkeeping m"
  shows "wp (pllua_pcall_nothrow (lua_pcall m)) (\<lambda>_. same_core s) (\<lambda>_ _ _. False) (\<lambda>_ _. False) (s :: est)"
proof -
  let ?s = "s\<lparr>pllua_context := PLLUA_CONTEXT_LUA\<rparr>"
  have "wp m (\<lambda>_. same_core ?s) (\<lambda>_ _. same_core ?s) (\<lambda>_ _. False) ?s"
    by (rule bookkeepingD [OF assms])
  then show ?thesis
    by (auto simp: wp_def mdefs core_def split: prod.splits outcome.splits)
qed

lemma wp_pg_call:
  "wp (pg_call c)
     (\<lambda>_ s'. \<exists>fs. s' = s\<lparr>pg_log := pg_log s @ [(c, True)], pg_faults := fs\<rparr>)
     (\<lambda>_ _ _. False)
     (\<lambda>_ s'. \<exists>fs. s' = s\<lparr>pg_log := pg_log s @ [(c, False)], pg_faults := fs\<rparr>) s"
proof (cases "pg_faults s")
  case Nil
  have "\<exists>fs. s\<lparr>pg_log := l\<rparr> = s\<lparr>pg_log := l, pg_faults := fs\<rparr>" for l
    by (rule exI [of _ "pg_faults s"]) (cases s, simp)
  with Nil show ?thesis by (simp add: wp_def pg_call_def)
next
  case (Cons a fs)
  then show ?thesis by (cases a) (auto simp: wp_def pg_call_def)
qed

definition always_returns :: "(est, 'a) m \<Rightarrow> bool" where
  "always_returns m \<longleftrightarrow> (\<forall>s. wp m (\<lambda>_. same_core s) (\<lambda>_ _ _. False) (\<lambda>_ _. False) s)"

lemma always_returnsD:
  "always_returns m \<Longrightarrow> wp m (\<lambda>_. same_core s) (\<lambda>_ _ _. False) (\<lambda>_ _. False) s"
  by (simp add: always_returns_def)

lemma always_returns_bindm:
  assumes "always_returns m" "\<And>a. always_returns (f a)"
  shows "always_returns (bindm m f)"
  unfolding always_returns_def
proof (intro allI, simp)
  fix s
  show "wp m (\<lambda>a. wp (f a) (\<lambda>_. same_core s) (\<lambda>_ _ _. False) (\<lambda>_ _. False))
          (\<lambda>_ _ _. False) (\<lambda>_ _. False) s"
    by (rule wp_mono [OF always_returnsD [OF assms(1)]])
      (auto intro: wp_mono [OF always_returnsD [OF assms(2)]])
qed

lemma always_returns_intros [intro]:
  "always_returns (ret a)"
  "always_returns pllua_register_recursive_error"
  "always_returns (pllua_poperror v)"
  "bookkeeping m \<Longrightarrow> always_returns (pllua_pcall_nothrow (lua_pcall m))"
proof -
  show "always_returns (ret a)"
    by (simp add: always_returns_def)
  show "always_returns pllua_register_recursive_error"
    by (simp add: always_returns_def wp_def pllua_register_recursive_error_def)
  show "always_returns (pllua_poperror v)"
    by (simp add: always_returns_def pllua_poperror_def) (simp add: core_def)
  show "always_returns (pllua_pcall_nothrow (lua_pcall m))" if "bookkeeping m"
    unfolding always_returns_def using protected_returns [OF that] by blast
qed

lemma always_returns_copy: "always_returns (\<lambda>s. case pg_call CopyErrorData s of
     (Ret _, s') \<Rightarrow> (Ret (Some e), s') | (_, s') \<Rightarrow> (Ret None, s'))"
  by (auto simp: always_returns_def wp_def pg_call_def core_def split: list.splits option.splits)

lemma always_returns_flush: "always_returns (\<lambda>s. case pg_call FlushErrorState s of
     (Ret _, s') \<Rightarrow> (Ret (), s') | (_, s') \<Rightarrow> (PgPanic msg, s'))"
  by (auto simp: always_returns_def wp_def pg_call_def core_def split: list.splits option.splits)

lemma always_returns_emcxt: "always_returns (modify (\<lambda>s. s\<lparr>mcxt := emcxt s\<rparr>))"
  by (simp add: always_returns_def)

lemma always_returns_absorb: "always_returns (pllua_absorb_pg_error e)"
  unfolding pllua_absorb_pg_error_def
  by (intro always_returns_bindm always_returns_copy always_returns_flush always_returns_emcxt)
    (auto intro!: always_returns_bindm split: option.splits pcall_result.splits)

lemmas wp_absorb = always_returnsD [OF always_returns_absorb]

text \<open>Absorbing an error leaves it registered as the active one.\<close>

definition armed :: "est \<Rightarrow> bool" where
  "armed s \<longleftrightarrow> db_ready s \<and> active_error s \<noteq> LUA_REFNIL"

lemma register_error_arms:
  assumes "db_ready s" "v \<noteq> LNil"
  shows "wp (pllua_register_error v) (\<lambda>_. armed) (\<lambda>_ _ _. True) (\<lambda>_ _. True) s"
  using assms
  by (auto simp: wp_def mdefs armed_def Let_def split: lref.splits list.splits)

lemma newerror_arms:
  assumes "db_ready s"
  shows "wp (pllua_newerror ed) (\<lambda>_. armed) (\<lambda>_ _ _. True) (\<lambda>_ _. True) s"
  unfolding pllua_newerror_def
  by (simp, rule wp_mono [OF bookkeepingD [OF bookkeeping_lua_alloc]])
    (use assms in \<open>auto intro!: register_error_arms simp: core_def\<close>)

lemma protected_newerror_arms:
  assumes "db_ready s"
  shows "wp (pllua_pcall_nothrow (lua_pcall (pllua_newerror ed)))
     (\<lambda>r s'. db_ready s' \<and> (case r of LUA_OK _ \<Rightarrow> armed s' | LuaErr _ _ \<Rightarrow> True))
     (\<lambda>_ _ _. True) (\<lambda>_ _. True) s"
proof -
  have "wp (pllua_newerror ed) (\<lambda>_. armed) (\<lambda>_ _ _. True) (\<lambda>_ _. True)
      (s\<lparr>pllua_context := PLLUA_CONTEXT_LUA\<rparr>)"
    by (rule newerror_arms) (use assms in simp)
  moreover have "wp (pllua_pcall_nothrow (lua_pcall (pllua_newerror ed)))
      (\<lambda>_. same_core s) (\<lambda>_ _ _. False) (\<lambda>_ _. False) s"
    by (rule protected_returns) auto
  ultimately show ?thesis
    using assms
    by (auto simp: wp_def pllua_pcall_nothrow_def lua_pcall_def bindm_def pllua_setcontext_def
        ret_def Let_def armed_def core_def split: prod.splits outcome.splits)
qed

definition arms :: "(est, 'a) m \<Rightarrow> bool" where
  "arms m \<longleftrightarrow> (\<forall>s. db_ready s \<longrightarrow> wp m (\<lambda>_. armed) (\<lambda>_ _ _. True) (\<lambda>_ _. True) s)"

lemma arms_bindm:
  assumes "always_returns m" "\<And>a. arms (f a)"
  shows "arms (bindm m f)"
  unfolding arms_def
proof (intro allI impI, simp)
  fix s :: est assume "db_ready s"
  show "wp m (\<lambda>a. wp (f a) (\<lambda>_. armed) (\<lambda>_ _ _. True) (\<lambda>_ _. True)) (\<lambda>_ _ _. True) (\<lambda>_ _. True) s"
    by (rule wp_mono [OF always_returnsD [OF assms(1)]])
      (use assms(2) \<open>db_ready s\<close> in \<open>auto simp: arms_def core_def\<close>)
qed

lemma arms_recursive: "arms pllua_register_recursive_error"
  by (auto simp: arms_def wp_def pllua_register_recursive_error_def armed_def luaL_unref_def
      split: lref.splits)

lemma arms_absorb: "arms (pllua_absorb_pg_error e)"
proof -
  have store: "arms (bindm (pllua_pcall_nothrow (lua_pcall (pllua_newerror ed))) (\<lambda>r.
           case r of LUA_OK v \<Rightarrow> ret v
           | LuaErr _ v \<Rightarrow> bindm (pllua_poperror v) (\<lambda>_. pllua_register_recursive_error)))" for ed
    unfolding arms_def
  proof (intro allI impI, simp, rule wp_mono [OF protected_newerror_arms])
    fix s :: est assume "db_ready s" then show "db_ready s" .
  next
    fix s s' :: est and r :: "lval pcall_result" assume "db_ready s"
      and r: "db_ready s' \<and> (case r of LUA_OK _ \<Rightarrow> armed s' | LuaErr _ _ \<Rightarrow> True)"
    have "arms (bindm (pllua_poperror v) (\<lambda>_. pllua_register_recursive_error))" for v
      by (rule arms_bindm [OF _ arms_recursive]) auto
    then show "wp (case r of LUA_OK v \<Rightarrow> ret v
           | LuaErr _ v \<Rightarrow> bindm (pllua_poperror v) (\<lambda>_. pllua_register_recursive_error))
          (\<lambda>_. armed) (\<lambda>_ _ _. True) (\<lambda>_ _. True) s'"
      using r by (cases r) (auto simp: arms_def)
  qed auto
  show ?thesis
    unfolding pllua_absorb_pg_error_def
    by (intro arms_bindm always_returns_copy always_returns_flush always_returns_emcxt)
      (auto intro: store arms_recursive split: option.splits)
qed

lemma wp_absorb_armed:
  fixes s :: est
  shows "wp (pllua_absorb_pg_error e) (\<lambda>_ s'. same_core s s' \<and> (db_ready s \<longrightarrow> armed s'))
     (\<lambda>_ _ _. False) (\<lambda>_ _. False) s"
  using wp_absorb [of e s] arms_absorb [of e]
  by (cases "db_ready s") (auto simp: arms_def wp_def split: prod.splits outcome.splits)

subsection \<open>Crossing the boundary\<close>

lemma wp_rethrow_from_pg:
  assumes "pllua_context s = PLLUA_CONTEXT_PG \<Longrightarrow> P e s"
    and "\<And>v s'. pllua_context s = PLLUA_CONTEXT_LUA \<Longrightarrow> same_core (s\<lparr>pending_error := True\<rparr>) s' \<Longrightarrow>
       (db_ready s \<longrightarrow> armed s') \<Longrightarrow> E LUA_ERRRUN v s'"
  shows "wp (pllua_rethrow_from_pg oldm e) N E P s"
proof (cases "pllua_context s")
  case PLLUA_CONTEXT_PG
  with assms(1) show ?thesis by (simp add: wp_def pllua_rethrow_from_pg_def)
next
  case PLLUA_CONTEXT_LUA
  have "wp (bindm (pllua_absorb_pg_error e) (\<lambda>v.
          bindm (modify (\<lambda>s. s\<lparr>pending_error := True, mcxt := oldm\<rparr>)) (\<lambda>_. lua_error v))) N E P s"
    by (simp, rule wp_mono [OF wp_absorb_armed])
      (auto intro!: assms(2) simp: PLLUA_CONTEXT_LUA core_def armed_def)
  with PLLUA_CONTEXT_LUA show ?thesis
    by (simp add: wp_def pllua_rethrow_from_pg_def del: wp_bindm)
qed

lemma rethrow_from_lua_in_lua [simp]:
  "pllua_context s = PLLUA_CONTEXT_LUA \<Longrightarrow>
   pllua_rethrow_from_lua rc v s = (LuaThrow LUA_ERRRUN v, s)"
  by (simp add: pllua_rethrow_from_lua_def lua_error_def)

text \<open>In PostgreSQL context a Lua error always becomes a PostgreSQL error.\<close>

definition pg_only :: "(est, 'a) m \<Rightarrow> bool" where
  "pg_only m \<longleftrightarrow> (\<forall>s. wp m (\<lambda>_ _. False) (\<lambda>_ _ _. False) (\<lambda>_. same_core s) s)"

lemma pg_only_bindm:
  assumes "always_returns m" "\<And>a. pg_only (f a)"
  shows "pg_only (bindm m f)"
  unfolding pg_only_def
proof (intro allI, simp)
  fix s
  show "wp m (\<lambda>a. wp (f a) (\<lambda>_ _. False) (\<lambda>_ _ _. False) (\<lambda>_. same_core s))
          (\<lambda>_ _ _. False) (\<lambda>_. same_core s) s"
  proof (rule wp_mono [OF always_returnsD [OF assms(1)]])
    fix a s' assume "same_core s s'"
    moreover have "wp (f a) (\<lambda>_ _. False) (\<lambda>_ _ _. False) (\<lambda>_. same_core s') s'"
      using assms(2) by (simp add: pg_only_def)
    ultimately show "wp (f a) (\<lambda>_ _. False) (\<lambda>_ _ _. False) (\<lambda>_. same_core s) s'"
      by simp
  qed auto
qed

lemma pg_only_intros [intro]:
  "pg_only (pg_throw e)"
  "pg_only (rethrow_edata ed)"
  by (simp_all add: pg_only_def rethrow_edata_def)

lemma always_returns_gets [intro]: "always_returns (gets f)"
  by (simp add: always_returns_def)

lemma wp_rethrow_from_lua_in_pg:
  assumes "pllua_context s = PLLUA_CONTEXT_PG"
  shows "wp (pllua_rethrow_from_lua rc v :: (est, 'a) m) (\<lambda>_ _. False) (\<lambda>_ _ _. False) (\<lambda>_. same_core s) s"
proof -
  have obj: "pg_only (rethrow_error_object n)" for n
    unfolding rethrow_error_object_def
    by (intro pg_only_bindm) (auto intro!: pg_only_bindm split: pcall_result.splits)
  have "pllua_rethrow_from_lua rc v s = pg_throw ed s \<or>
      pllua_rethrow_from_lua rc v s = rethrow_error_object n s"
    if "ed = (if rc = LUA_ERRMEM then pg_elog ''pllua: out of memory''
              else pg_elog (pllua_errmsg v (lua_type_number v)))"
      and "n = (case v of LErrObj n \<Rightarrow> n | _ \<Rightarrow> 0)" for ed n
    unfolding pllua_rethrow_from_lua_def using assms that by (cases v) auto
  then obtain m :: "(est, 'a) m" where "pg_only m" "pllua_rethrow_from_lua rc v s = m s"
    using obj pg_only_intros(1) by metis
  then show ?thesis
    by (auto simp: pg_only_def wp_def)
qed

text \<open>
  \<open>PLLUA_TRY\<close> reduces to its body, run in PostgreSQL context.
\<close>

lemma wp_PLLUA_TRY:
  assumes "pllua_context s = PLLUA_CONTEXT_LUA \<Longrightarrow> pending_error s \<Longrightarrow> has_L \<Longrightarrow>
      E LUA_ERRRUN (LStr ''cannot call into PostgreSQL with pending errors'') s"
    and "wp body (\<lambda>a s'. N a (s'\<lparr>pllua_context := pllua_context s\<rparr>)) (\<lambda>_ _ _. False)
       (\<lambda>e s'. (pllua_context s = PLLUA_CONTEXT_PG \<longrightarrow> P e (s'\<lparr>pllua_context := PLLUA_CONTEXT_PG\<rparr>)) \<and>
          (pllua_context s = PLLUA_CONTEXT_LUA \<longrightarrow>
            (\<forall>v s''. same_core (s'\<lparr>pllua_context := PLLUA_CONTEXT_LUA, pending_error := True\<rparr>) s'' \<longrightarrow>
               (db_ready s' \<longrightarrow> armed s'') \<longrightarrow> E LUA_ERRRUN v s'')))
       (s\<lparr>pllua_context := PLLUA_CONTEXT_PG\<rparr>)"
  shows "wp (PLLUA_TRY_gen has_L body) N E P s"
proof (cases "pending_error s \<and> has_L \<and> pllua_context s = PLLUA_CONTEXT_LUA")
  case True
  then show ?thesis
    using assms(1) by (simp add: wp_def mdefs)
next
  case False
  let ?s = "s\<lparr>pllua_context := PLLUA_CONTEXT_PG\<rparr>"
  obtain r s' where r: "body ?s = (r, s')" by fastforce
  show ?thesis
  proof (cases r)
    case (PgThrow e)
    have "wp (pllua_rethrow_from_pg (mcxt s) e) N E P (s'\<lparr>pllua_context := pllua_context s\<rparr>)"
      by (rule wp_rethrow_from_pg) (use assms(2) r PgThrow in \<open>auto simp: wp_def\<close>)
    moreover have "PLLUA_TRY_gen has_L body s =
        pllua_rethrow_from_pg (mcxt s) e (s'\<lparr>pllua_context := pllua_context s\<rparr>)"
      using False r PgThrow
      by (auto simp: PLLUA_TRY_gen_def pllua_setcontext_def bindm_def gets_def Let_def)
    ultimately show ?thesis by (simp add: wp_def)
  qed (use assms(2) r False in \<open>auto simp: wp_def PLLUA_TRY_gen_def pllua_setcontext_def bindm_def gets_def Let_def\<close>)
qed

subsection \<open>Safe computations\<close>

text \<open>
  The pending flag is only up while some error is registered.  A computation that returns
  normally does not leave the flag up behind it.
\<close>

definition live :: "est \<Rightarrow> bool" where
  "live s \<longleftrightarrow> pllua_context s = PLLUA_CONTEXT_LUA \<and> db_ready s \<and>
     (pending_error s \<longrightarrow> active_error s \<noteq> LUA_REFNIL)"

definition keeps_ok :: "est \<Rightarrow> est \<Rightarrow> bool" where
  "keeps_ok s s' \<longleftrightarrow> keeps s s' \<and> live s' \<and> (pending_error s' \<longrightarrow> pending_error s)"

definition keeps_err :: "est \<Rightarrow> est \<Rightarrow> bool" where
  "keeps_err s s' \<longleftrightarrow> keeps s s' \<and> live s'"

lemma keeps_ok_trans: "keeps_ok s s' \<Longrightarrow> keeps_ok s' s'' \<Longrightarrow> keeps_ok s s''"
  by (auto simp: keeps_ok_def intro: keeps_trans)

lemma keeps_ok_err_trans: "keeps_ok s s' \<Longrightarrow> keeps_err s' s'' \<Longrightarrow> keeps_err s s''"
  by (auto simp: keeps_ok_def keeps_err_def intro: keeps_trans)

lemma keeps_err_trans: "keeps_err s s' \<Longrightarrow> keeps_err s' s'' \<Longrightarrow> keeps_err s s''"
  by (auto simp: keeps_err_def intro: keeps_trans)

lemma keeps_ok_imp_err: "keeps_ok s s' \<Longrightarrow> keeps_err s s'"
  by (simp add: keeps_ok_def keeps_err_def)

lemma keeps_refl_ok [simp]: "live s \<Longrightarrow> keeps_ok s s"  "live s \<Longrightarrow> keeps_err s s"
  by (simp_all add: keeps_ok_def keeps_err_def)

definition safe :: "(est, 'a) m \<Rightarrow> bool" where
  "safe m \<longleftrightarrow>
     (\<forall>s. live s \<longrightarrow> wp m (\<lambda>_. keeps_ok s) (\<lambda>_ _. keeps_err s) (\<lambda>_ _. False) s)"

lemma safeD:
  "safe m \<Longrightarrow> live s \<Longrightarrow> wp m (\<lambda>_. keeps_ok s) (\<lambda>_ _. keeps_err s) (\<lambda>_ _. False) s"
  by (simp add: safe_def)

lemma safe_basic [intro]:
  "safe (ret a)"
  "safe (lua_error v)"
  "safe (luaL_error msg)"
  by (simp_all add: safe_def)

lemma safe_lua_alloc [intro]: "safe lua_alloc"
  by (auto simp: safe_def wp_def lua_alloc_def keeps_ok_def keeps_err_def keeps_def live_def
      split: list.splits)

lemma safe_bindm:
  assumes "safe m" "\<And>a. safe (f a)"
  shows "safe (bindm m f)"
  unfolding safe_def
proof (intro allI impI, simp)
  fix s :: est assume l: "live s"
  show "wp m (\<lambda>a. wp (f a) (\<lambda>_. keeps_ok s) (\<lambda>_ _. keeps_err s) (\<lambda>_ _. False))
          (\<lambda>_ _. keeps_err s) (\<lambda>_ _. False) s"
  proof (rule wp_mono [OF safeD [OF assms(1) l]])
    fix a s' assume k: "keeps_ok s s'"
    then have "live s'" by (simp add: keeps_ok_def)
    from safeD [OF assms(2) this]
    show "wp (f a) (\<lambda>_. keeps_ok s) (\<lambda>_ _. keeps_err s) (\<lambda>_ _. False) s'"
      by (rule wp_mono) (use k in \<open>auto intro: keeps_ok_trans keeps_ok_err_trans\<close>)
  qed auto
qed

lemma safe_user_call: "safe (PLLUA_TRY_gen b (pg_call (UserCall n)))"
  unfolding safe_def
proof (intro allI impI)
  fix s :: est assume l: "live s"
  show "wp (PLLUA_TRY_gen b (pg_call (UserCall n))) (\<lambda>_. keeps_ok s) (\<lambda>_ _. keeps_err s) (\<lambda>_ _. False) s"
  proof (rule wp_PLLUA_TRY)
    show "wp (pg_call (UserCall n))
     (\<lambda>a s'. keeps_ok s (s'\<lparr>pllua_context := pllua_context s\<rparr>)) (\<lambda>_ _ _. False)
     (\<lambda>e s'. (pllua_context s = PLLUA_CONTEXT_PG \<longrightarrow> False) \<and>
        (pllua_context s = PLLUA_CONTEXT_LUA \<longrightarrow>
           (\<forall>v s''. same_core (s'\<lparr>pllua_context := PLLUA_CONTEXT_LUA, pending_error := True\<rparr>) s'' \<longrightarrow>
              (db_ready s' \<longrightarrow> armed s'') \<longrightarrow> keeps_err s s'')))
     (s\<lparr>pllua_context := PLLUA_CONTEXT_PG\<rparr>)"
      by (rule wp_mono [OF wp_pg_call])
        (use l in \<open>auto simp: keeps_ok_def keeps_err_def keeps_def core_def live_def armed_def\<close>)
  qed (use l in simp)
qed

subsection \<open>Protected calls to safe computations\<close>

lemma run_msgh_invariant:
  assumes step: "\<And>v s. J s \<Longrightarrow> wp (h v) (\<lambda>_. J) (\<lambda>_ _. J) (\<lambda>_ _. False) s"
    and "J s"
  shows "wp (run_msgh n h v) (\<lambda>_. J) (\<lambda>_ _ _. False) (\<lambda>_ _. False) s"
  using \<open>J s\<close>
proof (induction n arbitrary: v s)
  case 0
  then show ?case by (simp add: wp_def)
next
  case (Suc n)
  obtain r s' where r: "h v s = (r, s')" by fastforce
  show ?case
  proof (cases r)
    case (LuaThrow rc v')
    then have "J s'" using step [OF Suc.prems, of v] r by (simp add: wp_def)
    from Suc.IH [OF this, of v'] show ?thesis
      using r LuaThrow \<open>J s'\<close> by (simp add: wp_def)
  qed (use step [OF Suc.prems, of v] r in \<open>auto simp: wp_def\<close>)
qed

lemma pcall_msgh_invariant:
  assumes "wp body (\<lambda>_. Q) (\<lambda>_ _. J) (\<lambda>_ _. False) s"
    and "\<And>v s. J s \<Longrightarrow> wp (h v) (\<lambda>_. J) (\<lambda>_ _. J) (\<lambda>_ _. False) s"
  shows "wp (lua_pcall_msgh h body)
     (\<lambda>r s'. case r of LUA_OK _ \<Rightarrow> Q s' | LuaErr _ _ \<Rightarrow> J s') (\<lambda>_ _ _. False) (\<lambda>_ _. False) s"
proof -
  have h: "wp (run_msgh n h v) (\<lambda>_. J) (\<lambda>_ _ _. False) (\<lambda>_ _. False) t" if "J t" for n v t
    by (rule run_msgh_invariant [OF assms(2) that])
  show ?thesis
  proof (cases "body s")
    case (Pair r s')
    show ?thesis
    proof (cases r)
      case (LuaThrow rc v)
      have "J s'" using assms(1) Pair LuaThrow by (simp add: wp_def)
      from h [OF this, of "ccalls_limit s'" v] show ?thesis
        using Pair LuaThrow \<open>J s'\<close>
        by (auto simp: wp_def lua_pcall_msgh_def split: prod.splits outcome.splits)
    qed (use assms(1) Pair in \<open>auto simp: wp_def lua_pcall_msgh_def\<close>)
  qed
qed

lemma pcall_invariant:
  assumes "wp body (\<lambda>_. Q) (\<lambda>_ _. J) (\<lambda>_ _. False) s"
  shows "wp (lua_pcall body)
     (\<lambda>r s'. case r of LUA_OK _ \<Rightarrow> Q s' | LuaErr _ _ \<Rightarrow> J s') (\<lambda>_ _ _. False) (\<lambda>_ _. False) s"
  using assms by (auto simp: wp_def lua_pcall_def split: prod.splits outcome.splits)

lemma safe_stable:
  assumes "\<And>v. safe (h v)" "keeps_err s0 s"
  shows "wp (h v) (\<lambda>_. keeps_err s0) (\<lambda>_ _. keeps_err s0) (\<lambda>_ _. False) s"
proof -
  from assms(2) have "live s" by (simp add: keeps_err_def)
  from safeD [OF assms(1) this] show ?thesis
    by (rule wp_mono) (use assms(2) in \<open>auto intro: keeps_err_trans keeps_ok_imp_err\<close>)
qed

lemma wp_pcall_msgh_safe:
  assumes "safe body" "\<And>v. safe (h v)" "live s"
  shows "wp (lua_pcall_msgh h body)
    (\<lambda>r s'. case r of LUA_OK _ \<Rightarrow> keeps_ok s s' | LuaErr _ _ \<Rightarrow> keeps_err s s')
    (\<lambda>_ _ _. False) (\<lambda>_ _. False) s"
  by (rule pcall_msgh_invariant [OF safeD [OF assms(1,3)] safe_stable [OF assms(2)]])

lemma wp_pcall_safe:
  assumes "safe body" "live s"
  shows "wp (lua_pcall body)
    (\<lambda>r s'. case r of LUA_OK _ \<Rightarrow> keeps_ok s s' | LuaErr _ _ \<Rightarrow> keeps_err s s')
    (\<lambda>_ _ _. False) (\<lambda>_ _. False) s"
  by (rule pcall_invariant [OF safeD [OF assms]])

text \<open>The same under \<open>pllua_pcall_nothrow\<close>, called in either context.\<close>

lemma wp_nothrow:
  assumes "wp call (\<lambda>r s'. N r (s'\<lparr>pllua_context := pllua_context s\<rparr>)) (\<lambda>_ _ _. False) (\<lambda>_ _. False)
     (s\<lparr>pllua_context := PLLUA_CONTEXT_LUA\<rparr>)"
  shows "wp (pllua_pcall_nothrow call) N E P s"
  using assms
  by (auto simp: wp_def mdefs Let_def split: prod.splits outcome.splits)

subsection \<open>Aborting\<close>

text \<open>\<open>s'\<close> is \<open>s\<close> after the innermost subtransaction \<open>xa\<close> has been popped.\<close>

definition popped :: "nat \<Rightarrow> est \<Rightarrow> est \<Rightarrow> bool" where
  "popped xa s s' \<longleftrightarrow>
     pllua_context s' = pllua_context s \<and>
     subxact_stack s' = xa_prev (xas s xa) \<and>
     xas s' = (xas s)(xa := (xas s xa)\<lparr>onstack := False\<rparr>) \<and>
     intercepted s' = intercepted s \<and> xa_next s' = xa_next s \<and> db_ready s' = db_ready s \<and>
     xdepth (pg_log s') = xdepth (pg_log s) - 1"

lemma wp_subxact_abort:
  assumes "subxact_stack s = xa # st"
  shows "wp pllua_subxact_abort
     (\<lambda>_ s'. popped xa s s' \<and> \<not> pending_error s' \<and> active_error s' = active_error s)
     (\<lambda>_ _ s'. pllua_context s = PLLUA_CONTEXT_LUA \<and>
        (s' = s \<and> pending_error s \<or> popped xa s s' \<and> (db_ready s \<longrightarrow> armed s')))
     (\<lambda>_ s'. pllua_context s = PLLUA_CONTEXT_PG \<and> popped xa s s') s"
  unfolding pllua_subxact_abort_def
proof (rule wp_PLLUA_TRY, goal_cases)
  case 1
  then show ?case by simp
next
  case 2
  from assms show ?case
    by (simp, intro wp_mono [OF wp_pg_call]) (auto simp: popped_def core_def armed_def)
qed

subsection \<open>The body of a protected call in its subtransaction\<close>

text \<open>
  \<open>s0\<close> is the state in which the call was made and \<open>xa\<close> its subtransaction: either it is
  still the innermost one, or the error handler has already aborted it.
\<close>

definition lower_same :: "nat \<Rightarrow> est \<Rightarrow> est \<Rightarrow> bool" where
  "lower_same xa s0 s \<longleftrightarrow> Suc xa \<le> xa_next s \<and> db_ready s \<and>
     (\<forall>i < xa. xas s i = xas s0 i \<and> intercepted s i = intercepted s0 i) \<and>
     xa_prev (xas s xa) = subxact_stack s0"

definition still_open :: "nat \<Rightarrow> est \<Rightarrow> est \<Rightarrow> bool" where
  "still_open xa s0 s \<longleftrightarrow> onstack (xas s xa) \<and> subxact_stack s = xa # subxact_stack s0 \<and>
     xdepth (pg_log s) = xdepth (pg_log s0) + 1"

definition closed :: "nat \<Rightarrow> est \<Rightarrow> est \<Rightarrow> bool" where
  "closed xa s0 s \<longleftrightarrow> \<not> onstack (xas s xa) \<and> subxact_stack s = subxact_stack s0 \<and>
     xdepth (pg_log s) = xdepth (pg_log s0)"

definition in_flight :: "nat \<Rightarrow> est \<Rightarrow> est \<Rightarrow> bool" where
  "in_flight xa s0 s \<longleftrightarrow> live s \<and> lower_same xa s0 s \<and>
     (still_open xa s0 s \<or> closed xa s0 s \<and> intercepted s xa)"

lemma in_flight_keeps: "in_flight xa s0 s \<Longrightarrow> keeps s s' \<Longrightarrow> live s' \<Longrightarrow> in_flight xa s0 s'"
  by (auto simp: in_flight_def lower_same_def still_open_def closed_def keeps_def)

lemma popped_closes:
  assumes "lower_same xa s0 s" "still_open xa s0 s" "popped xa s s'"
  shows "lower_same xa s0 s'" "closed xa s0 s'"
  using assms by (auto simp: lower_same_def still_open_def closed_def popped_def)

lemma handler_in_flight:
  assumes "\<And>v. safe (f v)" "in_flight xa s0 s"
  shows "wp (pllua_pcall_nothrow (lua_pcall_msgh f (f e))) (\<lambda>_. in_flight xa s0) E P s"
proof (rule wp_nothrow)
  have l: "live s" using assms(2) by (simp add: in_flight_def)
  then have s: "s\<lparr>pllua_context := PLLUA_CONTEXT_LUA\<rparr> = s"
    by (cases s) (simp add: live_def)
  show "wp (lua_pcall_msgh f (f e)) (\<lambda>r s'. in_flight xa s0 (s'\<lparr>pllua_context := pllua_context s\<rparr>))
     (\<lambda>_ _ _. False) (\<lambda>_ _. False) (s\<lparr>pllua_context := PLLUA_CONTEXT_LUA\<rparr>)"
    unfolding s
  proof (rule wp_mono [OF wp_pcall_msgh_safe [OF assms(1) assms(1) l]])
    fix r :: "lval pcall_result" and s'
    assume "case r of LUA_OK _ \<Rightarrow> keeps_ok s s' | LuaErr _ _ \<Rightarrow> keeps_err s s'"
    then have k: "keeps s s'" "live s'"
      by (auto simp: keeps_ok_def keeps_err_def split: pcall_result.splits)
    then have "s'\<lparr>pllua_context := pllua_context s\<rparr> = s'"
      using l by (cases s') (simp add: live_def)
    with in_flight_keeps [OF assms(2) k]
    show "in_flight xa s0 (s'\<lparr>pllua_context := pllua_context s\<rparr>)" by simp
  qed auto
qed

lemma intercept_in_flight:
  assumes f: "\<And>v. safe (f v)" and s: "in_flight xa s0 s"
  shows "wp (pllua_intercept_error xa f e) (\<lambda>_. in_flight xa s0) (\<lambda>_ _. in_flight xa s0)
     (\<lambda>_ _. False) s"
proof -
  let ?call = "bindm (pllua_pcall_nothrow (lua_pcall_msgh f (f e)))
      (\<lambda>r. case r of LUA_OK v \<Rightarrow> ret v | LuaErr _ v \<Rightarrow> ret v)"
  have call: "wp ?call (\<lambda>_. in_flight xa s0) (\<lambda>_ _. in_flight xa s0) (\<lambda>_ _. False) t"
    if "in_flight xa s0 t" for t
    by (simp, rule wp_mono [OF handler_in_flight [OF f that]])
      (auto split: pcall_result.splits)
  show ?thesis
  proof (cases "intercepted s xa")
    case True
    then have "pllua_intercept_error xa f e s = ?call s"
      by (simp add: pllua_intercept_error_def bindm_def)
    with call [OF s] show ?thesis by (simp only: wp_def)
  next
    case False
    let ?s = "s\<lparr>intercepted := (intercepted s)(xa := True)\<rparr>"
    from s False have s': "lower_same xa s0 ?s" "still_open xa s0 ?s" "live ?s"
      by (auto simp: in_flight_def lower_same_def still_open_def closed_def live_def)
    have abort: "wp (bindm pllua_subxact_abort (\<lambda>_. pllua_deregister_error))
        (\<lambda>_. in_flight xa s0) (\<lambda>_ _. in_flight xa s0) (\<lambda>_ _. False) ?s"
    proof (simp, rule wp_mono [OF wp_subxact_abort])
      show "subxact_stack ?s = xa # subxact_stack s0"
        using s'(2) by (simp add: still_open_def)
    next
      fix s'' assume p: "popped xa ?s s'' \<and> \<not> pending_error s'' \<and> active_error s'' = active_error ?s"
      note c = popped_closes [OF s'(1,2), of s'']
      from p s'(3) have "pllua_context s'' = PLLUA_CONTEXT_LUA" "intercepted s'' xa"
        by (auto simp: popped_def live_def)
      with p c show "wp pllua_deregister_error (\<lambda>_. in_flight xa s0) (\<lambda>_ _. in_flight xa s0)
          (\<lambda>_ _. False) s''"
        by (auto simp: wp_def pllua_deregister_error_def in_flight_def live_def lower_same_def
            closed_def luaL_unref_def split: lref.splits)
    next
      fix s'' assume "pllua_context ?s = PLLUA_CONTEXT_LUA \<and>
        (s'' = ?s \<and> pending_error ?s \<or> popped xa ?s s'' \<and> (db_ready ?s \<longrightarrow> armed s''))"
      then show "in_flight xa s0 s''"
        using s' popped_closes [OF s'(1,2), of s'']
        by (auto simp: in_flight_def live_def armed_def popped_def)
    next
      fix s'' assume "pllua_context ?s = PLLUA_CONTEXT_PG \<and> popped xa ?s s''"
      with s'(3) show False by (simp add: live_def)
    qed
    have "pllua_intercept_error xa f e s =
        bindm (bindm pllua_subxact_abort (\<lambda>_. pllua_deregister_error)) (\<lambda>_. ?call) ?s"
      using False by (simp add: pllua_intercept_error_def bindm_def modify_def)
    moreover have "wp (bindm (bindm pllua_subxact_abort (\<lambda>_. pllua_deregister_error)) (\<lambda>_. ?call))
        (\<lambda>_. in_flight xa s0) (\<lambda>_ _. in_flight xa s0) (\<lambda>_ _. False) ?s"
      unfolding wp_bindm [of "bindm pllua_subxact_abort (\<lambda>_. pllua_deregister_error)"]
      by (rule wp_mono [OF abort]) (use call in auto)
    ultimately show ?thesis by (simp only: wp_def)
  qed
qed

definition safe_handler :: "(lval \<Rightarrow> (est, lval) m) option option \<Rightarrow> bool" where
  "safe_handler errf \<longleftrightarrow> (\<forall>f v. errf = Some (Some f) \<longrightarrow> safe (f v))"

lemma wp_guts_call:
  assumes "safe body" "safe_handler errf"
    and "in_flight xa s0 s" "onstack (xas s xa)" "\<not> pending_error s"
  shows "wp (case errf of
               Some (Some f) \<Rightarrow> lua_pcall_msgh (pllua_intercept_error xa f) body
             | _ \<Rightarrow> lua_pcall body)
     (\<lambda>r s'. in_flight xa s0 s' \<and>
        (case r of LUA_OK _ \<Rightarrow> onstack (xas s' xa) \<and> \<not> pending_error s' | LuaErr _ _ \<Rightarrow> True))
     (\<lambda>_ _ _. False) (\<lambda>_ _. False) s"
proof -
  let ?Q = "\<lambda>s'. in_flight xa s0 s' \<and> onstack (xas s' xa) \<and> \<not> pending_error s'"
  have "live s" using assms(3) by (simp add: in_flight_def)
  have body: "wp body (\<lambda>_. ?Q) (\<lambda>_ _. in_flight xa s0) (\<lambda>_ _. False) s"
  proof (rule wp_mono [OF safeD [OF assms(1) \<open>live s\<close>]])
    fix s' assume k: "keeps_ok s s'"
    have "xa < xa_next s" using assms(3) by (simp add: in_flight_def lower_same_def)
    with k assms(4,5) in_flight_keeps [OF assms(3), of s'] show "?Q s'"
      by (auto simp: keeps_ok_def keeps_def)
  next
    fix s' assume "keeps_err s s'"
    then show "in_flight xa s0 s'"
      using in_flight_keeps [OF assms(3), of s'] by (simp add: keeps_err_def)
  qed
  show ?thesis
  proof (cases "\<exists>f. errf = Some (Some f)")
    case True
    then obtain f where f: "errf = Some (Some f)" by blast
    with assms(2) have "safe (f v)" for v by (simp add: safe_handler_def)
    have "wp (lua_pcall_msgh (pllua_intercept_error xa f) body)
      (\<lambda>r s'. case r of LUA_OK _ \<Rightarrow> ?Q s' | LuaErr _ _ \<Rightarrow> in_flight xa s0 s')
      (\<lambda>_ _ _. False) (\<lambda>_ _. False) s"
      by (rule pcall_msgh_invariant [OF body intercept_in_flight [OF \<open>\<And>v. safe (f v)\<close>]])
    then show ?thesis
      unfolding f by (auto elim!: wp_mono split: pcall_result.splits)
  next
    case False
    have "wp (lua_pcall body)
      (\<lambda>r s'. case r of LUA_OK _ \<Rightarrow> ?Q s' | LuaErr _ _ \<Rightarrow> in_flight xa s0 s')
      (\<lambda>_ _ _. False) (\<lambda>_ _. False) s"
      by (rule pcall_invariant [OF body])
    with False show ?thesis
      by (auto elim!: wp_mono split: pcall_result.splits option.splits)
  qed
qed

subsection \<open>pcall and xpcall\<close>

text \<open>After the \<open>PG_TRY\<close> block, in PostgreSQL context.\<close>

definition try_done :: "nat \<Rightarrow> est \<Rightarrow> lval list pcall_result \<times> bool \<Rightarrow> est \<Rightarrow> bool" where
  "try_done xa s0 r s \<longleftrightarrow> lower_same xa s0 s \<and>
     subxact_stack s = subxact_stack s0 \<and> xdepth (pg_log s) = xdepth (pg_log s0) \<and>
     (pending_error s \<longrightarrow> active_error s \<noteq> LUA_REFNIL) \<and>
     (case r of (LUA_OK _, _) \<Rightarrow> \<not> pending_error s
      | (LuaErr _ _, rethrow) \<Rightarrow> \<not> rethrow \<longrightarrow> \<not> pending_error s)"

definition try_failed :: "nat \<Rightarrow> est \<Rightarrow> est \<Rightarrow> bool" where
  "try_failed xa s0 s \<longleftrightarrow> lower_same xa s0 s \<and>
     (still_open xa s0 s \<and> \<not> pending_error s \<or> closed xa s0 s)"

lemma wp_pcall_guts_try:
  assumes body: "safe body" "safe_handler errf"
    and s0: "pllua_context s0 = PLLUA_CONTEXT_PG" "db_ready s0" "\<not> pending_error s0"
      "xa_next s0 = Suc xa"
    and call: "call = (case errf of
               Some (Some f) \<Rightarrow> lua_pcall_msgh (pllua_intercept_error xa f) body
             | _ \<Rightarrow> lua_pcall body)"
  shows "wp (pcall_guts_try xa oldc call) (try_done xa s0) (\<lambda>_ _ _. False) (\<lambda>_. try_failed xa s0) s0"
proof -
  let ?after = "\<lambda>rc. case rc of
       LUA_OK _ \<Rightarrow>
         bindm (pg_call ReleaseCurrentSubTransaction) (\<lambda>_.
         bindm (modify (\<lambda>s. s\<lparr>mcxt := oldc, resowner := xa_resowner (xas s xa),
                             subxact_stack := xa_prev (xas s xa)\<rparr>)) (\<lambda>_.
         ret (rc, False)))
     | LuaErr _ _ \<Rightarrow>
         (\<lambda>s. if onstack (xas s xa)
              then bindm pllua_subxact_abort (\<lambda>_. ret (rc, False)) s
              else (Ret (rc, True), s))"
  have after: "wp (?after rc) (try_done xa s0) (\<lambda>_ _ _. False) (\<lambda>_. try_failed xa s0)
      (s\<lparr>pllua_context := PLLUA_CONTEXT_PG\<rparr>)"
    if s: "in_flight xa s0 s" "case rc of LUA_OK _ \<Rightarrow> onstack (xas s xa) \<and> \<not> pending_error s
                 | LuaErr _ _ \<Rightarrow> True" for rc s
  proof (cases rc)
    case (LUA_OK vs)
    with s have "still_open xa s0 s" "lower_same xa s0 s" "live s" "\<not> pending_error s"
      by (auto simp: in_flight_def closed_def)
    then show ?thesis
      by (simp add: LUA_OK, intro wp_mono [OF wp_pg_call])
        (auto simp: try_done_def try_failed_def lower_same_def still_open_def live_def)
  next
    case (LuaErr rc' v)
    let ?s = "s\<lparr>pllua_context := PLLUA_CONTEXT_PG\<rparr>"
    show ?thesis
    proof (cases "onstack (xas s xa)")
      case True
      with s have o: "still_open xa s0 ?s" "lower_same xa s0 ?s"
        by (auto simp: in_flight_def closed_def still_open_def lower_same_def)
      have "wp (bindm pllua_subxact_abort (\<lambda>_. ret (rc, False))) (try_done xa s0)
          (\<lambda>_ _ _. False) (\<lambda>_. try_failed xa s0) ?s"
      proof (simp, rule wp_mono [OF wp_subxact_abort])
        show "subxact_stack ?s = xa # subxact_stack s0"
          using o(1) by (simp add: still_open_def)
      next
        fix s' assume "popped xa ?s s' \<and> \<not> pending_error s' \<and> active_error s' = active_error ?s"
        then show "try_done xa s0 (rc, False) s'"
          using popped_closes [OF o(2,1), of s'] by (auto simp: try_done_def LuaErr closed_def)
      next
        fix s' assume "pllua_context ?s = PLLUA_CONTEXT_PG \<and> popped xa ?s s'"
        then show "try_failed xa s0 s'"
          using popped_closes [OF o(2,1), of s'] by (auto simp: try_failed_def)
      qed auto
      with True show ?thesis by (simp add: LuaErr)
    next
      case False
      with s have "closed xa s0 s" "lower_same xa s0 s" "live s"
        by (auto simp: in_flight_def still_open_def)
      with False show ?thesis
        by (simp add: LuaErr try_done_def closed_def lower_same_def live_def)
    qed
  qed
  have run: "wp (pllua_pcall_nothrow call)
      (\<lambda>rc. wp (?after rc) (try_done xa s0) (\<lambda>_ _ _. False) (\<lambda>_. try_failed xa s0))
      (\<lambda>_ _ _. False) (\<lambda>_. try_failed xa s0) s"
    if s: "in_flight xa s0 (s\<lparr>pllua_context := PLLUA_CONTEXT_LUA\<rparr>)" "onstack (xas s xa)"
      "\<not> pending_error s" "pllua_context s = PLLUA_CONTEXT_PG" for s
  proof (rule wp_nothrow, unfold call, rule wp_mono [OF wp_guts_call [OF body s(1)]])
    fix r :: "lval list pcall_result" and s' :: est
    assume "in_flight xa s0 s' \<and>
        (case r of LUA_OK _ \<Rightarrow> onstack (xas s' xa) \<and> \<not> pending_error s' | LuaErr _ _ \<Rightarrow> True)"
    then show "wp (?after r) (try_done xa s0) (\<lambda>_ _ _. False) (\<lambda>_. try_failed xa s0)
        (s'\<lparr>pllua_context := pllua_context s\<rparr>)"
      using after [of s' r] s(4) by simp
  qed (use s in auto)
  show ?thesis
    unfolding pcall_guts_try_def
    by (simp, intro wp_mono [OF wp_pg_call])
      (use s0 in \<open>auto intro!: run simp: in_flight_def lower_same_def still_open_def live_def
         try_failed_def closed_def\<close>)
qed

lemma wp_pcall_guts_finish:
  assumes "try_done xa s0 (rc, rethrow) s"
  shows "wp (pcall_guts_finish rc rethrow)
     (\<lambda>_ s'. lower_same xa s0 s' \<and> subxact_stack s' = subxact_stack s0 \<and>
        xdepth (pg_log s') = xdepth (pg_log s0) \<and> live s' \<and> \<not> pending_error s')
     (\<lambda>_ _ s'. lower_same xa s0 s' \<and> subxact_stack s' = subxact_stack s0 \<and>
        xdepth (pg_log s') = xdepth (pg_log s0) \<and> live s')
     (\<lambda>_ _. False) s"
proof (cases rc)
  case (LUA_OK vs)
  with assms show ?thesis
    by (simp add: pcall_guts_finish_def) (simp add: wp_def pllua_setcontext_def Let_def
        try_done_def lower_same_def live_def)
next
  case (LuaErr rc' v)
  with assms show ?thesis
    by (auto simp: wp_def mdefs pllua_setcontext_def Let_def try_done_def lower_same_def live_def
        pllua_get_active_error_def luaL_unref_def split: lref.splits)
qed

lemma mcxt_irrelevant [simp]:
  "lower_same xa s0 (s\<lparr>mcxt := m\<rparr>) = lower_same xa s0 s"
  "closed xa s0 (s\<lparr>mcxt := m\<rparr>) = closed xa s0 s"
  "live (s\<lparr>mcxt := m\<rparr>) = live s"
  by (simp_all add: lower_same_def closed_def live_def)

lemma popped_live:
  assumes "live s" "popped xa s s'" "\<not> pending_error s' \<or> active_error s' \<noteq> LUA_REFNIL"
  shows "live s'"
  using assms by (simp add: live_def popped_def)

lemma try_failed_same_core:
  assumes "try_failed xa s0 s" "same_core (s\<lparr>pllua_context := PLLUA_CONTEXT_LUA\<rparr>) s'" "armed s'"
  shows "lower_same xa s0 s'" "live s'" "onstack (xas s' xa) = onstack (xas s xa)"
    "still_open xa s0 s' = still_open xa s0 s" "closed xa s0 s' = closed xa s0 s"
    "pending_error s' = pending_error s"
proof -
  from assms(2) have eq: "pllua_context s' = PLLUA_CONTEXT_LUA" "subxact_stack s' = subxact_stack s"
    "xas s' = xas s" "intercepted s' = intercepted s" "xa_next s' = xa_next s"
    "xdepth (pg_log s') = xdepth (pg_log s)" "db_ready s' = db_ready s"
    "pending_error s' = pending_error s"
    by (simp_all add: core_def)
  from assms(1) have "lower_same xa s0 s" by (simp add: try_failed_def)
  with eq show "lower_same xa s0 s'" by (simp add: lower_same_def)
  from eq assms(3) show "live s'" by (simp add: live_def armed_def)
qed (use assms(2) in \<open>simp_all add: core_def still_open_def closed_def\<close>)

lemma wp_pcall_guts_catch:
  assumes "try_failed xa s0 s"
  shows "wp (pcall_guts_catch xa oldc e :: (est, 'a) m) (\<lambda>_ _. False)
     (\<lambda>_ _ s'. lower_same xa s0 s' \<and> subxact_stack s' = subxact_stack s0 \<and>
        xdepth (pg_log s') = xdepth (pg_log s0) \<and> live s')
     (\<lambda>_ _. False) s"
proof -
  let ?post = "\<lambda>s'. lower_same xa s0 s' \<and> closed xa s0 s' \<and> live s'"
  let ?s = "s\<lparr>pllua_context := PLLUA_CONTEXT_LUA\<rparr>"
  have set: "pllua_setcontext False PLLUA_CONTEXT_LUA s = (Ret (pllua_context s), ?s)"
    by (simp add: pllua_setcontext_def Let_def)
  let ?m = "bindm (pllua_absorb_pg_error e) (\<lambda>v.
     bindm (\<lambda>s. if onstack (xas s xa) then pllua_subxact_abort s else (Ret (), s)) (\<lambda>_.
     bindm (modify (\<lambda>s. s\<lparr>mcxt := oldc\<rparr>)) (\<lambda>_. lua_error v))) :: (est, 'a) m"
  have "wp ?m (\<lambda>_ _. False) (\<lambda>_ _. ?post) (\<lambda>_ _. False) ?s"
  proof (subst wp_bindm, rule wp_mono [OF wp_absorb_armed])
    fix v s'
    assume a: "same_core ?s s' \<and> (db_ready ?s \<longrightarrow> armed s')"
    moreover have "db_ready ?s" using assms by (simp add: try_failed_def lower_same_def)
    ultimately have "same_core ?s s'" "armed s'" by blast+
    note c = try_failed_same_core [OF assms this]
    have abort: "wp pllua_subxact_abort (\<lambda>_. ?post) (\<lambda>_ _. ?post) (\<lambda>_ _. False) s'"
      if on: "onstack (xas s' xa)"
    proof -
      from on c assms have o: "still_open xa s0 s'" "\<not> pending_error s'"
        by (auto simp: try_failed_def closed_def)
      show ?thesis
      proof (rule wp_mono [OF wp_subxact_abort])
        show "subxact_stack s' = xa # subxact_stack s0"
          using o by (simp add: still_open_def)
      next
        fix s'' assume p: "popped xa s' s'' \<and> \<not> pending_error s'' \<and> active_error s'' = active_error s'"
        with c(2) have "live s''" by (blast intro: popped_live)
        with popped_closes [OF c(1) o(1), of s''] p show "?post s''" by simp
      next
        fix s'' assume "pllua_context s' = PLLUA_CONTEXT_LUA \<and>
          (s'' = s' \<and> pending_error s' \<or> popped xa s' s'' \<and> (db_ready s' \<longrightarrow> armed s''))"
        with o(2) c(2) have p: "popped xa s' s''" "armed s''" by (auto simp: live_def)
        then have "live s''" using popped_live [OF c(2)] by (simp add: armed_def)
        with popped_closes [OF c(1) o(1) p(1)] show "?post s''" by simp
      qed (use c(2) in \<open>auto simp: live_def\<close>)
    qed
    have no_abort: "?post s'" if "\<not> onstack (xas s' xa)"
      using that c assms by (simp add: try_failed_def still_open_def)
    show "wp (bindm (\<lambda>s. if onstack (xas s xa) then pllua_subxact_abort s else (Ret (), s)) (\<lambda>_.
       bindm (modify (\<lambda>s. s\<lparr>mcxt := oldc\<rparr>)) (\<lambda>_. lua_error v)))
       (\<lambda>_ _. False) (\<lambda>_ _. ?post) (\<lambda>_ _. False) s'"
      using abort no_abort by simp
  qed auto
  moreover have "(pcall_guts_catch xa oldc e :: (est, 'a) m) s = ?m ?s"
    unfolding pcall_guts_catch_def by (simp add: bindm_def set)
  ultimately have "wp (pcall_guts_catch xa oldc e :: (est, 'a) m) (\<lambda>_ _. False) (\<lambda>_ _. ?post) (\<lambda>_ _. False) s"
    by (simp only: wp_def)
  then show ?thesis
    by (rule wp_mono) (auto simp: closed_def)
qed

lemma closed_keeps:
  assumes "live s" "lower_same (xa_next s) s0 s'" "subxact_stack s' = subxact_stack s0"
    "xdepth (pg_log s') = xdepth (pg_log s0)" "live s'"
    and "subxact_stack s0 = subxact_stack s" "xdepth (pg_log s0) = xdepth (pg_log s)"
    "xas s0 = xas s" "\<And>i. i < xa_next s \<Longrightarrow> intercepted s0 i = intercepted s i"
  shows "keeps_err s s'"
  using assms by (auto simp: keeps_err_def keeps_def lower_same_def live_def)

lemma safe_pcall_guts:
  assumes body: "\<And>b. func = Some b \<Longrightarrow> safe b" and h: "safe_handler errf"
  shows "safe (pllua_t_pcall_guts func errf)"
  unfolding safe_def
proof (intro allI impI)
  fix s :: est assume l: "live s"
  show "wp (pllua_t_pcall_guts func errf) (\<lambda>_. keeps_ok s) (\<lambda>_ _. keeps_err s) (\<lambda>_ _. False) s"
  proof (cases "stack_too_deep s \<or> func = None \<or> errf = Some None \<or> pending_error s")
    case True
    have "pllua_t_pcall_guts func errf s = (LuaThrow LUA_ERRRUN v, s') \<and> keeps_err s s'"
      if "pllua_t_pcall_guts func errf s = (LuaThrow LUA_ERRRUN v, s')" for v s'
      using that l True
      by (auto simp: pllua_t_pcall_guts_def mdefs Let_def keeps_err_def keeps_def live_def
          split: option.splits if_splits)
    moreover have "\<exists>v s'. pllua_t_pcall_guts func errf s = (LuaThrow LUA_ERRRUN v, s')"
      using l True
      by (auto simp: pllua_t_pcall_guts_def mdefs Let_def live_def split: option.splits)
    ultimately show ?thesis by (auto simp: wp_def)
  next
    case False
    then obtain b where b: "func = Some b" by auto
    let ?xa = "xa_next s"
    let ?s = "s\<lparr>xa_next := Suc ?xa, intercepted := (intercepted s)(?xa := False)\<rparr>"
    let ?s0 = "?s\<lparr>pllua_context := PLLUA_CONTEXT_PG\<rparr>"
    let ?call = "case errf of
               Some (Some f) \<Rightarrow> lua_pcall_msgh (pllua_intercept_error ?xa f) b
             | _ \<Rightarrow> lua_pcall b"
    have tried: "wp (pcall_guts_try ?xa (mcxt s) ?call) (try_done ?xa ?s0) (\<lambda>_ _ _. False)
        (\<lambda>_. try_failed ?xa ?s0) ?s0"
      by (rule wp_pcall_guts_try [OF body [OF b] h])
        (use l False in \<open>auto simp: live_def\<close>)
    have eq: "pllua_t_pcall_guts func errf s =
      (case pcall_guts_try ?xa (mcxt s) ?call ?s0 of
                (Ret (rc, rethrow), s') \<Rightarrow> pcall_guts_finish rc rethrow s'
              | (PgThrow e, s') \<Rightarrow> pcall_guts_catch ?xa (mcxt s) e s'
              | (LuaThrow rc v, s') \<Rightarrow> (LuaThrow rc v, s')
              | (PgPanic msg, s') \<Rightarrow> (PgPanic msg, s'))"
      using False l
      by (simp add: pllua_t_pcall_guts_def b Let_def bindm_def gets_def pllua_setcontext_def
          live_def split: prod.splits outcome.splits)
    have out: "keeps_err s s'"
      if "lower_same ?xa ?s0 s'" "subxact_stack s' = subxact_stack ?s0"
        "xdepth (pg_log s') = xdepth (pg_log ?s0)" "live s'" for s'
      by (rule closed_keeps [OF l that]) auto
    obtain r s' where r: "pcall_guts_try ?xa (mcxt s) ?call ?s0 = (r, s')" by fastforce
    show ?thesis
    proof (cases r)
      case (Ret p)
      obtain rc rethrow where p: "p = (rc, rethrow)" by fastforce
      with tried r Ret have "try_done ?xa ?s0 (rc, rethrow) s'" by (simp add: wp_def)
      note f = wp_pcall_guts_finish [OF this]
      have "wp (pcall_guts_finish rc rethrow) (\<lambda>_. keeps_ok s) (\<lambda>_ _. keeps_err s) (\<lambda>_ _. False) s'"
        by (rule wp_mono [OF f]) (use out in \<open>auto simp: keeps_ok_def keeps_err_def\<close>)
      then show ?thesis by (simp add: wp_def eq r Ret p)
    next
      case (PgThrow e)
      with tried r have "try_failed ?xa ?s0 s'" by (simp add: wp_def)
      note f = wp_pcall_guts_catch [OF this]
      have "wp (pcall_guts_catch ?xa (mcxt s) e) (\<lambda>_. keeps_ok s) (\<lambda>_ _. keeps_err s) (\<lambda>_ _. False) s'"
        by (rule wp_mono [OF f]) (use out in auto)
      then show ?thesis by (simp add: wp_def eq r PgThrow)
    qed (use tried r in \<open>auto simp: wp_def eq\<close>)
  qed
qed

lemma live_pending: "live s \<Longrightarrow> active_error s = LUA_REFNIL \<Longrightarrow> \<not> pending_error s"
  by (simp add: live_def)

lemma safe_lpcall:
  assumes "\<And>b. func = Some b \<Longrightarrow> safe b"
  shows "safe (pllua_t_lpcall func)"
  unfolding safe_def
proof (intro allI impI)
  fix s :: est assume l: "live s"
  show "wp (pllua_t_lpcall func) (\<lambda>_. keeps_ok s) (\<lambda>_ _. keeps_err s) (\<lambda>_ _. False) s"
  proof (cases "stack_too_deep s \<or> func = None")
    case True
    with l show ?thesis
      by (auto simp: wp_def pllua_t_lpcall_def mdefs split: option.splits)
  next
    case False
    then obtain b where b: "func = Some b" by auto
    have fin: "wp (finishpcall r) (\<lambda>_. keeps_ok s) (\<lambda>_ _. keeps_err s) (\<lambda>_ _. False) s'"
      if "case r of LUA_OK _ \<Rightarrow> keeps_ok s s' | LuaErr _ _ \<Rightarrow> keeps_err s s'" for r s'
    proof (cases r)
      case (LUA_OK vs)
      with that show ?thesis by (simp add: finishpcall_def)
    next
      case (LuaErr rc v)
      with that have k: "keeps_err s s'" by simp
      then have "live s'" "pllua_context s' = PLLUA_CONTEXT_LUA"
        by (auto simp: keeps_err_def live_def)
      with k live_pending [OF \<open>live s'\<close>] show ?thesis
        by (auto simp: LuaErr finishpcall_def wp_def whenm_def thenm_def bindm_def ret_def
            pllua_get_active_error_def keeps_ok_def keeps_err_def split: lref.splits)
    qed
    have "wp (bindm (lua_pcall b) finishpcall) (\<lambda>_. keeps_ok s) (\<lambda>_ _. keeps_err s) (\<lambda>_ _. False) s"
      by (simp, rule wp_mono [OF wp_pcall_safe [OF assms [OF b] l]]) (use fin in auto)
    with False b show ?thesis by (simp add: wp_def pllua_t_lpcall_def del: wp_bindm)
  qed
qed

lemma safe_if:
  assumes "safe m" "\<And>s. live s \<Longrightarrow> m' s = m s"
  shows "safe m'"
  using assms by (auto simp: safe_def wp_def)

lemma safe_run_prog: "safe (run_prog p a)"
proof (induction p arbitrary: a)
  case (LSpi n)
  show ?case
    by (simp, rule safe_bindm [OF safe_user_call]) auto
next
  case LAlloc
  show ?case by (simp, rule safe_bindm) auto
next
  case (LSeq p q)
  then show ?case by (auto intro: safe_bindm)
next
  case (LPcall p)
  have "safe (pllua_t_pcall_guts (Some (run_prog p a)) None)"
    by (rule safe_pcall_guts) (use LPcall in \<open>auto simp: safe_handler_def\<close>)
  then show ?case
    by (rule safe_if) (auto simp: pllua_t_pcall_def live_def)
next
  case (LXpcall p h)
  have "safe (pllua_t_pcall_guts (Some (run_prog p a))
     (Some (Some (\<lambda>e. bindm (run_prog h e) (\<lambda>vs. ret (handler_result vs))))))"
    by (rule safe_pcall_guts)
      (use LXpcall in \<open>auto simp: safe_handler_def intro!: safe_bindm\<close>)
  then show ?case
    by (rule safe_if) (auto simp: pllua_t_xpcall_def live_def)
next
  case (LLpcall p)
  then show ?case by (auto intro: safe_lpcall)
next
  case (LSubtransaction p)
  show ?case
    unfolding run_prog.simps pllua_subtransaction_def if_False not_True_eq_False
    by (rule safe_pcall_guts) (use LSubtransaction in \<open>auto simp: safe_handler_def\<close>)
qed auto

end
