(* ===== verification/Subxact_Props.thy ===== *)
theory Subxact_Props
  imports Subxact_Inv
begin

text \<open>
  The properties of the error subsystem and its protected calls, with runs from a freshly
  started interpreter \<open>est0\<close>.
\<close>

text \<open>A freshly started interpreter, for the concrete runs.\<close>

definition est0 :: est where
  "est0 = \<lparr>pllua_context = PLLUA_CONTEXT_LUA, pending_error = False, db_ready = True,
     stack_too_deep = False, errdepth = 0, active_error = LUA_REFNIL,
     registry = Map.empty, ref_free = [2, 1], ref_next = 3, errobj = Map.empty, obj_next = 1,
     recursive_error = 0, subxact_stack = [],
     xas = (\<lambda>_. \<lparr>xa_prev = [], onstack = False, xa_resowner = 0, xa_mcontext = 0\<rparr>),
     intercepted = (\<lambda>_. False), xa_next = 0, mcxt = 0, emcxt = 1, resowner = 0, cx_next = 2,
     ccalls_limit = 200, pg_log = [], pg_faults = [], lua_faults = []\<rparr>"

lemma est0_fields [simp]:
  "pllua_context est0 = PLLUA_CONTEXT_LUA" "db_ready est0" "\<not> pending_error est0"
  "subxact_stack est0 = []" "pg_log est0 = []"
  by (simp_all add: est0_def)

text \<open>C1. Whatever protected calls a program nests, and whichever of its calls into
  PostgreSQL and allocations fail, it ends in Lua context with the chain of subtransactions
  and PostgreSQL's nesting depth as they were; a normal return leaves no error pending, and
  no PostgreSQL error escapes through Lua's frames.\<close>

theorem programs_are_balanced:
  assumes "pllua_context s = PLLUA_CONTEXT_LUA" "db_ready s" "\<not> pending_error s"
  shows "case run_prog p a s of
           (Ret _, s') \<Rightarrow> subxact_stack s' = subxact_stack s \<and>
              xdepth (pg_log s') = xdepth (pg_log s) \<and>
              pllua_context s' = PLLUA_CONTEXT_LUA \<and> \<not> pending_error s'
         | (LuaThrow _ _, s') \<Rightarrow> subxact_stack s' = subxact_stack s \<and>
              xdepth (pg_log s') = xdepth (pg_log s) \<and>
              pllua_context s' = PLLUA_CONTEXT_LUA
         | (PgThrow _, _) \<Rightarrow> False
         | (PgPanic _, _) \<Rightarrow> True"
proof -
  have "live s" using assms by (simp add: live_def)
  from safeD [OF safe_run_prog this, of p a] assms(3) show ?thesis
    by (auto simp: wp_def keeps_ok_def keeps_err_def keeps_def live_def
        split: prod.splits outcome.splits)
qed

theorem programs_are_balanced_witness:
  "case run_prog (LXpcall (LSeq (LSpi 1) (LPcall (LError (LStr ''x'')))) LErrorArg) LNil est0 of
     (Ret _, s') \<Rightarrow> subxact_stack s' = [] \<and> xdepth (pg_log s') = 0 \<and>
        pllua_context s' = PLLUA_CONTEXT_LUA \<and> \<not> pending_error s'
   | (LuaThrow _ _, s') \<Rightarrow> subxact_stack s' = [] \<and> xdepth (pg_log s') = 0 \<and>
        pllua_context s' = PLLUA_CONTEXT_LUA
   | (PgThrow _, _) \<Rightarrow> False
   | (PgPanic _, _) \<Rightarrow> True"
  using programs_are_balanced [of est0 "LXpcall (LSeq (LSpi 1) (LPcall (LError (LStr ''x'')))) LErrorArg" LNil,
      unfolded est0_fields xdepth_simps]
  by simp

text \<open>C2. When a call into PostgreSQL fails inside \<open>pcall\<close>, the caller gets \<open>false\<close> and an
  error object that holds the error; exactly one subtransaction was begun and rolled back,
  the memory context and resource owner are the caller's, and no error is left registered or
  pending.\<close>

theorem pcall_catches_pg_error:
  assumes "pllua_context s = PLLUA_CONTEXT_LUA" "db_ready s" "\<not> pending_error s"
    "\<not> stack_too_deep s" "active_error s = LUA_REFNIL"
    "pg_faults s = [None, Some e]" "lua_faults s = []"
  shows "\<exists>s'. run_prog (LPcall (LSpi n)) a s = (Ret [LBool False, LErrObj (obj_next s)], s') \<and>
     errobj s' (obj_next s) = Some e \<and> active_error s' = LUA_REFNIL \<and> \<not> pending_error s' \<and>
     mcxt s' = mcxt s \<and> resowner s' = resowner s \<and>
     pg_log s' = pg_log s @ [(BeginInternalSubTransaction, True), (UserCall n, False),
       (CopyErrorData, True), (FlushErrorState, True),
       (RollbackAndReleaseCurrentSubTransaction, True)]"
  using assms
  by (cases "ref_free s")
    (simp_all add: pllua_t_pcall_def pllua_t_pcall_guts_def mdefs Let_def)

theorem pcall_catches_pg_error_witness:
  "\<exists>s'. run_prog (LPcall (LSpi 7)) LNil (est0\<lparr>pg_faults := [None, Some (pg_elog ''boom'')]\<rparr>) =
     (Ret [LBool False, LErrObj 1], s') \<and> errobj s' 1 = Some (pg_elog ''boom'')"
proof -
  let ?s = "est0\<lparr>pg_faults := [None, Some (pg_elog ''boom'')]\<rparr>"
  have "pllua_context ?s = PLLUA_CONTEXT_LUA" "db_ready ?s" "\<not> pending_error ?s"
    "\<not> stack_too_deep ?s" "active_error ?s = LUA_REFNIL"
    "pg_faults ?s = [None, Some (pg_elog ''boom'')]" "lua_faults ?s = []"
    by (simp_all add: est0_def)
  from pcall_catches_pg_error [OF this, of 7 LNil] show ?thesis
    by (auto simp: est0_def)
qed

text \<open>C3. When a call into PostgreSQL fails inside \<open>xpcall\<close>, the handler is not given the
  error: the abort that should precede it is refused because the error is pending, the
  handler sees the text of that refusal instead (here it returns what it is given), and the
  rollback happens only after the handler has run.\<close>

theorem xpcall_handler_misses_pg_error:
  assumes "pllua_context s = PLLUA_CONTEXT_LUA" "db_ready s" "\<not> pending_error s"
    "\<not> stack_too_deep s" "active_error s = LUA_REFNIL" "ccalls_limit s = Suc (Suc k)"
    "pg_faults s = [None, Some e]" "lua_faults s = []"
  shows "\<exists>s'. run_prog (LXpcall (LSpi n) LSkip) a s =
     (Ret [LBool False, LStr ''cannot call into PostgreSQL with pending errors''], s') \<and>
     pg_log s' = pg_log s @ [(BeginInternalSubTransaction, True), (UserCall n, False),
       (CopyErrorData, True), (FlushErrorState, True),
       (RollbackAndReleaseCurrentSubTransaction, True)]"
  using assms
  by (cases "ref_free s")
    (simp_all add: pllua_t_xpcall_def pllua_t_pcall_guts_def mdefs Let_def handler_result_def)

theorem xpcall_handler_misses_pg_error_witness:
  "fst (run_prog (LXpcall (LSpi 7) LSkip) LNil (est0\<lparr>pg_faults := [None, Some (pg_elog ''boom'')]\<rparr>)) =
     Ret [LBool False, LStr ''cannot call into PostgreSQL with pending errors'']"
proof -
  let ?s = "est0\<lparr>pg_faults := [None, Some (pg_elog ''boom'')]\<rparr>"
  have "pllua_context ?s = PLLUA_CONTEXT_LUA" "db_ready ?s" "\<not> pending_error ?s"
    "\<not> stack_too_deep ?s" "active_error ?s = LUA_REFNIL" "ccalls_limit ?s = Suc (Suc 198)"
    "pg_faults ?s = [None, Some (pg_elog ''boom'')]" "lua_faults ?s = []"
    by (simp_all add: est0_def)
  from xpcall_handler_misses_pg_error [OF this, of 7 LNil] show ?thesis
    by auto
qed

text \<open>\<open>lpcall\<close> hands a Lua error to its caller, but an error object, or any error raised
  while a PostgreSQL error is registered, is rethrown as that PostgreSQL error.\<close>

theorem lpcall_rethrows_pg_error:
  assumes "pllua_context s = PLLUA_CONTEXT_LUA" "\<not> stack_too_deep s"
    "body s = (LuaThrow rc v, s')" "pllua_context s' = PLLUA_CONTEXT_LUA"
  shows "pllua_t_lpcall (Some body) s =
     (if pllua_iserror v then (LuaThrow LUA_ERRRUN v, s')
      else case pllua_get_active_error s' of
             Some e \<Rightarrow> (LuaThrow LUA_ERRRUN e, s')
           | None \<Rightarrow> (Ret [LBool False, v], s'))"
  using assms
  by (auto simp: pllua_t_lpcall_def finishpcall_def bindm_def lua_pcall_def whenm_def ret_def
      split: option.splits)

theorem lpcall_rethrows_pg_error_witness:
  "pllua_t_lpcall (Some (lua_error (LErrObj 4))) est0 = (LuaThrow LUA_ERRRUN (LErrObj 4), est0) \<and>
   pllua_t_lpcall (Some (lua_error (LStr ''x''))) est0 = (Ret [LBool False, LStr ''x''], est0)"
  using lpcall_rethrows_pg_error [of est0 "lua_error (LErrObj 4)" LUA_ERRRUN "LErrObj 4" est0]
    lpcall_rethrows_pg_error [of est0 "lua_error (LStr ''x'')" LUA_ERRRUN "LStr ''x''" est0]
  by (simp add: est0_def lua_error_def pllua_get_active_error_def)

lemma nothrow_keeps_context:
  "pllua_pcall_nothrow (lua_pcall f) s = (r, s') \<Longrightarrow>
     (case r of Ret _ \<Rightarrow> pllua_context s' = pllua_context s | LuaThrow _ _ \<Rightarrow> False | _ \<Rightarrow> True)"
  by (auto simp: mdefs Let_def split: prod.splits outcome.splits)

lemma rethrow_in_pg_throws_pg:
  assumes "pllua_context s = PLLUA_CONTEXT_PG"
  shows "(\<exists>e s'. (pllua_rethrow_from_lua rc v :: (est, 'a) m) s = (PgThrow e, s')) \<or>
     (\<exists>msg s'. (pllua_rethrow_from_lua rc v :: (est, 'a) m) s = (PgPanic msg, s'))"
  using wp_rethrow_from_lua_in_pg [OF assms, of rc v, where 'a = 'a]
  by (auto simp: wp_def split: prod.splits outcome.splits)

text \<open>C4. In PostgreSQL context \<open>pllua_pcall\<close> never leaves by a Lua error, whatever the
  called function does.\<close>

theorem pcall_never_leaks_lua_error:
  fixes f :: "(est, 'a) m"
  assumes "pllua_context s = PLLUA_CONTEXT_PG"
  shows "\<nexists>rc v s'. pllua_pcall f s = (LuaThrow rc v, s')"
proof -
  obtain r s1 where r: "pllua_pcall_nothrow (lua_pcall f) s = (r, s1)" by fastforce
  note k = nothrow_keeps_context [OF r]
  show ?thesis
  proof (cases r)
    case (Ret p)
    with k assms have "pllua_context s1 = PLLUA_CONTEXT_PG" by simp
    note thrown = rethrow_in_pg_throws_pg [OF this, where 'a = 'a]
    show ?thesis
    proof (cases p)
      case (LuaErr rc v)
      from thrown [of rc v] show ?thesis
        by (auto simp: pllua_pcall_def bindm_def r Ret LuaErr)
    qed (simp add: pllua_pcall_def bindm_def r Ret ret_def)
  qed (use k in \<open>auto simp: pllua_pcall_def bindm_def r\<close>)
qed

theorem pcall_never_leaks_lua_error_witness:
  "\<nexists>rc v s'. pllua_pcall (lua_error (LStr ''x'') :: (est, unit) m)
     (est0\<lparr>pllua_context := PLLUA_CONTEXT_PG\<rparr>) = (LuaThrow rc v, s')"
  by (rule pcall_never_leaks_lua_error) simp

text \<open>C4. In Lua context a \<open>PLLUA_TRY\<close> block never leaves by a PostgreSQL error, whatever
  its body does.\<close>

theorem try_never_leaks_pg_error:
  assumes "pllua_context s = PLLUA_CONTEXT_LUA"
  shows "\<nexists>e s'. PLLUA_TRY f s = (PgThrow e, s')"
proof -
  have "wp (PLLUA_TRY_gen True f) (\<lambda>_ _. True) (\<lambda>_ _ _. True) (\<lambda>_ _. False) s"
    if "\<nexists>rc v s'. f (s\<lparr>pllua_context := PLLUA_CONTEXT_PG\<rparr>) = (LuaThrow rc v, s')"
    by (rule wp_PLLUA_TRY) (use that assms in \<open>auto simp: wp_def split: prod.splits outcome.splits\<close>)
  then show ?thesis
    using assms
    by (auto simp: wp_def PLLUA_TRY_gen_def bindm_def gets_def pllua_setcontext_def luaL_error_def
        lua_error_def Let_def split: prod.splits outcome.splits if_splits)
qed

theorem try_never_leaks_pg_error_witness:
  "\<nexists>e s'. PLLUA_TRY (pg_throw (pg_elog ''x'') :: (est, unit) m) est0 = (PgThrow e, s')"
  by (rule try_never_leaks_pg_error) (simp add: est0_def)

text \<open>The top-level entry into Lua never leaves by a Lua error, and a normal return
  restores the activation of the call it interrupted and PostgreSQL context.\<close>

theorem initial_call_boundary:
  assumes "pllua_context s = PLLUA_CONTEXT_PG"
    and "pllua_initial_protected_call True ok f arg s = (out, s')"
  shows "(\<forall>rc v. out \<noteq> LuaThrow rc v) \<and>
     (\<forall>act. out = Ret act \<longrightarrow> active_error s' = active_error s \<and>
        pllua_context s' = PLLUA_CONTEXT_PG)"
proof -
  let ?s = "s\<lparr>active_error := arg\<rparr>"
  obtain r s1 where r: "pllua_pcall_nothrow (lua_pcall f) ?s = (r, s1)" by fastforce
  note k = nothrow_keeps_context [OF r]
  show ?thesis
  proof (cases "ok \<and> (\<exists>rc v. r = Ret (LuaErr rc v))")
    case True
    then obtain rc v where rv: "r = Ret (LuaErr rc v)" by blast
    with k assms(1) have "pllua_context (s1\<lparr>active_error := active_error s\<rparr>) = PLLUA_CONTEXT_PG"
      by simp
    from rethrow_in_pg_throws_pg [OF this, of rc v, where 'a = lref] assms(2) True rv show ?thesis
      by (auto simp: pllua_initial_protected_call_def pllua_cpcall_def bindm_def r Let_def)
  next
    case False
    with k assms show ?thesis
      by (auto simp: pllua_initial_protected_call_def pllua_cpcall_def bindm_def r Let_def
          pg_throw_def split: outcome.splits pcall_result.splits if_splits)
  qed
qed

theorem initial_call_boundary_witness:
  "fst (pllua_initial_protected_call True True (lua_error (LStr ''x'')) LUA_REFNIL
     (est0\<lparr>pllua_context := PLLUA_CONTEXT_PG\<rparr>)) \<noteq> LuaThrow LUA_ERRRUN (LStr ''x'')"
  using initial_call_boundary [of "est0\<lparr>pllua_context := PLLUA_CONTEXT_PG\<rparr>" True
      "lua_error (LStr ''x'')" LUA_REFNIL, OF _ surjective_pairing]
  by simp

end
