(* ===== verification/Sqlstate.thy ===== *)
theory Sqlstate
  imports Prelude
begin

text \<open>
  SQLSTATE codes and the accessors of error objects, from src/src/error.c.  The macros that
  pack five characters into an integer belong to PostgreSQL and are parameters: \<open>unsix\<close> for
  \<open>PGUNSIXBIT\<close>, \<open>mk\<close> for \<open>MAKE_SQLSTATE\<close> and \<open>cat\<close> for \<open>ERRCODE_TO_CATEGORY\<close>.
\<close>

subsection \<open>Packing and unpacking\<close>

definition sqlstate_alphabet :: string where
  "sqlstate_alphabet = ''ABCDEFGHIJKLMNOPQRSTUVWXYZ0123456789''"

definition strspn :: "string \<Rightarrow> string \<Rightarrow> nat" where
  "strspn str accept = length (takeWhile (\<lambda>c. c \<in> set accept) str)"

type_synonym mk_sqlstate = "char \<Rightarrow> char \<Rightarrow> char \<Rightarrow> char \<Rightarrow> char \<Rightarrow> int"

text \<open>
  The \<open>n\<close> remaining iterations of the loop; the shift of the signed \<open>lua_Integer\<close> is
  arithmetic.
\<close>

primrec decode_loop :: "(int \<Rightarrow> char) \<Rightarrow> nat \<Rightarrow> int \<Rightarrow> string \<times> int" where
  "decode_loop unsix 0 code = ([], code)"
| "decode_loop unsix (Suc n) code =
     (let (buf, rest) = decode_loop unsix n (code div 64) in (unsix code # buf, rest))"

definition pllua_decode_sqlstate :: "(int \<Rightarrow> char) \<Rightarrow> int \<Rightarrow> bool \<times> string" where
  "pllua_decode_sqlstate unsix code =
     (let (buf, rest) = decode_loop unsix 5 code
      in (rest = 0 \<and> strspn buf sqlstate_alphabet = 5, buf))"

definition is_sqlstate :: "string \<Rightarrow> bool" where
  "is_sqlstate str \<longleftrightarrow> length str = 5 \<and> strspn str sqlstate_alphabet = 5"

fun make_sqlstate :: "mk_sqlstate \<Rightarrow> string \<Rightarrow> int" where
  "make_sqlstate mk [a, b, c, d, e] = mk a b c d e"
| "make_sqlstate mk _ = 0"

text \<open>
  What the code relies on: the macro packs characters of the alphabet six bits at a time,
  the first one lowest, and the other macro reads the lowest six bits back.
\<close>

definition sixbit_macros :: "(int \<Rightarrow> char) \<Rightarrow> mk_sqlstate \<Rightarrow> bool" where
  "sixbit_macros unsix mk \<longleftrightarrow>
     (\<forall>a b c d e. {a, b, c, d, e} \<subseteq> set sqlstate_alphabet \<longrightarrow>
        (let v = mk a b c d e in
         unsix v = a \<and> unsix (v div 64) = b \<and> unsix (v div 64 ^ 2) = c \<and>
         unsix (v div 64 ^ 3) = d \<and> unsix (v div 64 ^ 4) = e \<and> v div 64 ^ 5 = 0))"

subsection \<open>The table of error codes\<close>

text \<open>
  \<open>loaded\<close> is the first upvalue of the closure behind \<open>__index\<close>; \<open>raw\<close> is the table.
\<close>

record errcodes_table =
  loaded :: bool
  raw :: "lval \<Rightarrow> lval"

fun pllua_get_errcodes :: "(string \<times> int) list \<Rightarrow> (lval \<Rightarrow> lval) \<Rightarrow> (lval \<Rightarrow> lval)" where
  "pllua_get_errcodes [] t = t"
| "pllua_get_errcodes ((str, val) # ecodes) t =
     pllua_get_errcodes ecodes (t(LInt val := LStr str, LStr str := LInt val))"

text \<open>
  \<open>lua_tointegerx\<close>: a float converts when it is integral and fits; a string converts when it
  spells a number, which \<open>str2int\<close> decides.
\<close>

fun lua_tointegerx :: "(string \<Rightarrow> int option) \<Rightarrow> lval \<Rightarrow> int option" where
  "lua_tointegerx str2int (LInt i) = Some i"
| "lua_tointegerx str2int (LFlt (Fin q)) =
     (if of_int \<lfloor>q\<rfloor> = q \<and> - (2 ^ 63) \<le> \<lfloor>q\<rfloor> \<and> \<lfloor>q\<rfloor> < 2 ^ 63 then Some \<lfloor>q\<rfloor> else None)"
| "lua_tointegerx str2int (LStr s) = str2int s"
| "lua_tointegerx str2int _ = None"

text \<open>The result \<open>None\<close> stands for returning no value.\<close>

definition pllua_errcodes_fallback :: "(int \<Rightarrow> char) \<Rightarrow> mk_sqlstate \<Rightarrow> lval \<Rightarrow> lval option" where
  "pllua_errcodes_fallback unsix mk key =
     (case key of
        LStr str \<Rightarrow> if is_sqlstate str then Some (LInt (make_sqlstate mk str)) else None
      | LInt _ \<Rightarrow>
          (case lua_tointegerx (\<lambda>_. None) key of
             None \<Rightarrow> None
           | Some code \<Rightarrow>
               (case pllua_decode_sqlstate unsix code of
                  (ok, buf) \<Rightarrow> if ok then Some (LStr buf) else None))
      | LFlt _ \<Rightarrow>
          (case lua_tointegerx (\<lambda>_. None) key of
             None \<Rightarrow> None
           | Some code \<Rightarrow>
               (case pllua_decode_sqlstate unsix code of
                  (ok, buf) \<Rightarrow> if ok then Some (LStr buf) else None))
      | _ \<Rightarrow> None)"

definition pllua_errcodes_index ::
  "(string \<times> int) list \<Rightarrow> (int \<Rightarrow> char) \<Rightarrow> mk_sqlstate \<Rightarrow> lval \<Rightarrow> errcodes_table \<Rightarrow>
   lval option \<times> errcodes_table"
where
  "pllua_errcodes_index ecodes unsix mk key t =
     (if loaded t then (pllua_errcodes_fallback unsix mk key, t)
      else
        let t' = t\<lparr>loaded := True, raw := pllua_get_errcodes ecodes (raw t)\<rparr>
        in (if raw t' key \<noteq> LNil then (Some (raw t' key), t')
            else (pllua_errcodes_fallback unsix mk key, t')))"

text \<open>Indexing the table from Lua or with \<open>lua_getfield\<close>: the metamethod runs on a miss.\<close>

definition errcodes_get ::
  "(string \<times> int) list \<Rightarrow> (int \<Rightarrow> char) \<Rightarrow> mk_sqlstate \<Rightarrow> lval \<Rightarrow> errcodes_table \<Rightarrow>
   lval \<times> errcodes_table"
where
  "errcodes_get ecodes unsix mk key t =
     (if raw t key \<noteq> LNil then (raw t key, t)
      else case pllua_errcodes_index ecodes unsix mk key t of
             (r, t') \<Rightarrow> ((case r of None \<Rightarrow> LNil | Some v \<Rightarrow> v), t'))"

definition pllua_push_errcode ::
  "(string \<times> int) list \<Rightarrow> (int \<Rightarrow> char) \<Rightarrow> mk_sqlstate \<Rightarrow> int \<Rightarrow> errcodes_table \<Rightarrow>
   lval \<times> errcodes_table"
where
  "pllua_push_errcode ecodes unsix mk code t =
     (case errcodes_get ecodes unsix mk (LInt code) t of
        (v, t') \<Rightarrow>
          if v = LNil then (LStr (snd (pllua_decode_sqlstate unsix code)), t') else (v, t'))"

definition pllua_push_sqlstate :: "(int \<Rightarrow> char) \<Rightarrow> int \<Rightarrow> lval" where
  "pllua_push_sqlstate unsix code = LStr (snd (pllua_decode_sqlstate unsix code))"

fun pllua_push_severity :: "elevel \<Rightarrow> bool \<Rightarrow> lval" where
  "pllua_push_severity LOG u = LStr (if u then ''LOG'' else ''log'')"
| "pllua_push_severity LOG_SERVER_ONLY u = LStr (if u then ''LOG'' else ''log'')"
| "pllua_push_severity INFO u = LStr (if u then ''INFO'' else ''info'')"
| "pllua_push_severity NOTICE u = LStr (if u then ''NOTICE'' else ''notice'')"
| "pllua_push_severity WARNING u = LStr (if u then ''WARNING'' else ''warning'')"
| "pllua_push_severity ERROR u = LStr (if u then ''ERROR'' else ''error'')"
| "pllua_push_severity FATAL u = LStr (if u then ''FATAL'' else ''fatal'')"
| "pllua_push_severity PANIC u = LStr (if u then ''PANIC'' else ''panic'')"
| "pllua_push_severity _ u = LStr (if u then ''DEBUG'' else ''debug'')"

subsection \<open>Error objects\<close>

definition PUSHSTR :: "string option \<Rightarrow> lval" where
  "PUSHSTR s = (case s of None \<Rightarrow> LNil | Some v \<Rightarrow> LStr v)"

text \<open>The fields that need no table, in the order of the source's switch.\<close>

definition errobject_field :: "(int \<Rightarrow> char) \<Rightarrow> errdata \<Rightarrow> string \<Rightarrow> lval" where
  "errobject_field unsix e key =
     (if key = ''context'' then PUSHSTR (err_context e)
      else if key = ''column'' then PUSHSTR (column_name e)
      else if key = ''constraint'' then PUSHSTR (constraint_name e)
      else if key = ''datatype'' then PUSHSTR (datatype_name e)
      else if key = ''detail'' then PUSHSTR (detail e)
      else if key = ''hint'' then PUSHSTR (hint e)
      else if key = ''internal_position'' then LInt (internalpos e)
      else if key = ''internal_query'' then PUSHSTR (internalquery e)
      else if key = ''message'' then PUSHSTR (message e)
      else if key = ''message_id'' then PUSHSTR (message_id e)
      else if key = ''pg_source_file'' then PUSHSTR (filename e)
      else if key = ''pg_source_function'' then PUSHSTR (funcname e)
      else if key = ''pg_source_line'' then LInt (lineno e)
      else if key = ''position'' then LInt (cursorpos e)
      else if key = ''schema'' then PUSHSTR (schema_name e)
      else if key = ''severity'' then pllua_push_severity (elevel e) False
      else if key = ''sqlstate'' then pllua_push_sqlstate unsix (sqlerrcode e)
      else if key = ''table'' then PUSHSTR (table_name e)
      else LNil)"

definition pllua_errobject_index ::
  "(string \<times> int) list \<Rightarrow> (int \<Rightarrow> char) \<Rightarrow> mk_sqlstate \<Rightarrow> (int \<Rightarrow> int) \<Rightarrow> errdata \<Rightarrow> string \<Rightarrow>
   errcodes_table \<Rightarrow> lval \<times> errcodes_table"
where
  "pllua_errobject_index ecodes unsix mk cat e key t =
     (if key = ''category'' then pllua_push_errcode ecodes unsix mk (cat (sqlerrcode e)) t
      else if key = ''errcode'' then pllua_push_errcode ecodes unsix mk (sqlerrcode e) t
      else (errobject_field unsix e key, t))"

definition pllua_errobject_tostring :: "(int \<Rightarrow> char) \<Rightarrow> errdata \<Rightarrow> string" where
  "pllua_errobject_tostring unsix e =
     (case pllua_push_severity (elevel e) True of LStr s \<Rightarrow> s | _ \<Rightarrow> '''') @ '': '' @
     snd (pllua_decode_sqlstate unsix (sqlerrcode e)) @ '' '' @
     (case message e of None \<Rightarrow> ''(no message)'' | Some m \<Rightarrow> m)"

text \<open>
  \<open>errcode(e)\<close>, \<open>category(e)\<close> and \<open>type(e)\<close> of the module: \<open>obj\<close> is the error data behind the
  argument, if it is an error object that still has one.
\<close>

definition pllua_errobject_errcode ::
  "(string \<times> int) list \<Rightarrow> (int \<Rightarrow> char) \<Rightarrow> mk_sqlstate \<Rightarrow> errdata option \<Rightarrow> errcodes_table \<Rightarrow>
   lval option \<times> errcodes_table"
where
  "pllua_errobject_errcode ecodes unsix mk obj t =
     (case obj of
        None \<Rightarrow> (None, t)
      | Some e \<Rightarrow>
          (case pllua_push_errcode ecodes unsix mk (sqlerrcode e) t of (v, t') \<Rightarrow> (Some v, t')))"

definition pllua_errobject_category ::
  "(string \<times> int) list \<Rightarrow> (int \<Rightarrow> char) \<Rightarrow> mk_sqlstate \<Rightarrow> (int \<Rightarrow> int) \<Rightarrow> errdata option \<Rightarrow>
   errcodes_table \<Rightarrow> lval option \<times> errcodes_table"
where
  "pllua_errobject_category ecodes unsix mk cat obj t =
     (case obj of
        None \<Rightarrow> (None, t)
      | Some e \<Rightarrow>
          (case pllua_push_errcode ecodes unsix mk (cat (sqlerrcode e)) t of
             (v, t') \<Rightarrow> (Some v, t')))"

fun pllua_errobject_type :: "lval \<Rightarrow> lval" where
  "pllua_errobject_type (LErrObj _) = LStr ''error''"
| "pllua_errobject_type _ = LNil"

subsection \<open>Packing and unpacking are inverse\<close>

lemma strspn_5: "length str = 5 \<Longrightarrow> strspn str acc = 5 \<longleftrightarrow> set str \<subseteq> set acc"
  unfolding strspn_def
  by (metis takeWhile_eq_all_conv length_takeWhile_le subset_code(1) takeWhile_eq_take take_all_iff
      nle_le)

lemma is_sqlstate_cases:
  assumes "is_sqlstate str"
  obtains a b c d e where "str = [a, b, c, d, e]" "{a, b, c, d, e} \<subseteq> set sqlstate_alphabet"
proof -
  from assms have l: "length str = 5" by (simp add: is_sqlstate_def)
  then obtain a b c d e where str: "str = [a, b, c, d, e]"
    by (auto simp: numeral_eq_Suc length_Suc_conv)
  moreover have "set str \<subseteq> set sqlstate_alphabet"
    using assms strspn_5 [OF l] by (simp add: is_sqlstate_def)
  ultimately show ?thesis using that by simp
qed

lemma decode_loop_5:
  "decode_loop unsix 5 v =
     ([unsix v, unsix (v div 64), unsix (v div 64 ^ 2), unsix (v div 64 ^ 3), unsix (v div 64 ^ 4)],
      v div 64 ^ 5)"
  by (simp add: numeral_eq_Suc zdiv_zmult2_eq [symmetric])

lemma decode_make:
  assumes "sixbit_macros unsix mk" "is_sqlstate str"
  shows "pllua_decode_sqlstate unsix (make_sqlstate mk str) = (True, str)"
proof -
  from assms(2) obtain a b c d e
    where str: "str = [a, b, c, d, e]" "{a, b, c, d, e} \<subseteq> set sqlstate_alphabet"
    by (rule is_sqlstate_cases)
  with assms show ?thesis
    by (simp add: sixbit_macros_def pllua_decode_sqlstate_def decode_loop_5 Let_def is_sqlstate_def)
qed

subsection \<open>Loading the table\<close>

lemma get_errcodes_other:
  "\<forall>(s, v) \<in> set ecodes. k \<noteq> LInt v \<and> k \<noteq> LStr s \<Longrightarrow> pllua_get_errcodes ecodes t k = t k"
  by (induction ecodes t rule: pllua_get_errcodes.induct) auto

lemma get_errcodes_name:
  assumes "(str, val) \<in> set ecodes" "distinct (map fst ecodes)"
  shows "pllua_get_errcodes ecodes t (LStr str) = LInt val"
  using assms
proof (induction ecodes arbitrary: t)
  case (Cons p ecodes)
  obtain s v where p: "p = (s, v)" by fastforce
  show ?case
  proof (cases "(str, val) = (s, v)")
    case True
    with Cons.prems p have "\<forall>(s', v') \<in> set ecodes. LStr str \<noteq> LInt v' \<and> LStr str \<noteq> LStr s'"
      by force
    from get_errcodes_other [OF this] True p show ?thesis by simp
  next
    case False
    with Cons.prems p have "(str, val) \<in> set ecodes" by auto
    with Cons.IH Cons.prems p show ?thesis by simp
  qed
qed simp

lemma get_errcodes_code:
  assumes "(str, val) \<in> set ecodes" "distinct (map snd ecodes)"
  shows "pllua_get_errcodes ecodes t (LInt val) = LStr str"
  using assms
proof (induction ecodes arbitrary: t)
  case (Cons p ecodes)
  obtain s v where p: "p = (s, v)" by fastforce
  show ?case
  proof (cases "(str, val) = (s, v)")
    case True
    with Cons.prems p have "\<forall>(s', v') \<in> set ecodes. LInt val \<noteq> LInt v' \<and> LInt val \<noteq> LStr s'"
      by force
    from get_errcodes_other [OF this] True p show ?thesis by simp
  next
    case False
    with Cons.prems p have "(str, val) \<in> set ecodes" by auto
    with Cons.IH Cons.prems p show ?thesis by simp
  qed
qed simp

text \<open>A table that is either still empty or has been filled from the list.\<close>

definition errcodes_wf :: "(string \<times> int) list \<Rightarrow> errcodes_table \<Rightarrow> bool" where
  "errcodes_wf ecodes t \<longleftrightarrow>
     raw t = (if loaded t then pllua_get_errcodes ecodes (\<lambda>_. LNil) else (\<lambda>_. LNil))"

lemma errcodes_get_wf:
  assumes "errcodes_wf ecodes t" "errcodes_get ecodes unsix mk key t = (v, t')"
  shows "errcodes_wf ecodes t'"
  using assms
  by (auto simp: errcodes_wf_def errcodes_get_def pllua_errcodes_index_def Let_def
      split: if_splits option.splits)

lemma errcodes_get_known:
  assumes "errcodes_wf ecodes t" "pllua_get_errcodes ecodes (\<lambda>_. LNil) key \<noteq> LNil"
  shows "fst (errcodes_get ecodes unsix mk key t) = pllua_get_errcodes ecodes (\<lambda>_. LNil) key"
  using assms
  by (auto simp: errcodes_wf_def errcodes_get_def pllua_errcodes_index_def Let_def
      split: if_splits option.splits)

lemma errcodes_get_unknown:
  assumes "errcodes_wf ecodes t" "pllua_get_errcodes ecodes (\<lambda>_. LNil) key = LNil"
  shows "fst (errcodes_get ecodes unsix mk key t) =
     (case pllua_errcodes_fallback unsix mk key of None \<Rightarrow> LNil | Some v \<Rightarrow> v)"
  using assms
  by (auto simp: errcodes_wf_def errcodes_get_def pllua_errcodes_index_def Let_def
      split: if_splits option.splits)

end
