(* ===== verification/Elog.thy ===== *)
theory Elog
  imports Sqlstate
begin

text \<open>
  Reporting from Lua, src/src/elog.c: the argument forms of \<open>error\<close>, \<open>notice\<close>, \dots and
  \<open>elog\<close>, the error data they report, \<open>print\<close>, and the walk over the Lua stack that finds the
  line of an error.  \<open>tostr\<close> is \<open>luaL_tolstring\<close>, which may call metamethods, and \<open>getf\<close> is
  \<open>lua_getfield\<close> on the argument table; both are parameters.
\<close>

subsection \<open>elog\<close>

record elog_call =
  el_level :: elevel
  el_code :: int
  el_message :: string
  el_detail :: "string option"
  el_hint :: "string option"
  el_column :: "string option"
  el_constraint :: "string option"
  el_datatype :: "string option"
  el_table :: "string option"
  el_schema :: "string option"

text \<open>
  \<open>lookup\<close> is indexing the table of error codes; \<open>int code\<close> truncates what it holds.
\<close>

definition pllua_get_sqlstate :: "mk_sqlstate \<Rightarrow> (string \<Rightarrow> lval) \<Rightarrow> string \<Rightarrow> int" where
  "pllua_get_sqlstate mk lookup str =
     (if length str = 5 \<and> strspn str sqlstate_alphabet = 5 then make_sqlstate mk str
      else case lookup str of
             LInt i \<Rightarrow> c_int i
           | _ \<Rightarrow> 0)"

definition opt_field :: "(lval \<Rightarrow> string) \<Rightarrow> lval \<Rightarrow> string option" where
  "opt_field tostr v = (if v = LNil then None else Some (tostr v))"

text \<open>The table of level names.\<close>

definition elevels :: "(string \<times> elevel) list" where
  "elevels = [(''debug'', DEBUG1), (''log'', LOG), (''info'', INFO), (''notice'', NOTICE),
     (''warning'', WARNING), (''error'', ERROR)]"

fun is_table :: "lval \<Rightarrow> bool" where
  "is_table (LTab _) = True"
| "is_table _ = False"

text \<open>
  The two argument forms, with the level already taken off: a single table, or one to four
  values.
\<close>

definition elog_from_table ::
  "mk_sqlstate \<Rightarrow> (string \<Rightarrow> lval) \<Rightarrow> (lval \<Rightarrow> string) \<Rightarrow> (lval \<Rightarrow> string \<Rightarrow> lval) \<Rightarrow>
   elevel \<Rightarrow> lval \<Rightarrow> int \<times> string option \<times> elog_call"
where
  "elog_from_table mk lookup tostr getf level tab =
     (let code = (if getf tab ''sqlstate'' \<noteq> LNil
                  then pllua_get_sqlstate mk lookup (tostr (getf tab ''sqlstate'')) else 0)
      in (code, opt_field tostr (getf tab ''message''),
          \<lparr>el_level = level, el_code = code, el_message = '''',
           el_detail = opt_field tostr (getf tab ''detail''),
           el_hint = opt_field tostr (getf tab ''hint''),
           el_column = opt_field tostr (getf tab ''column''),
           el_constraint = opt_field tostr (getf tab ''constraint''),
           el_datatype = opt_field tostr (getf tab ''datatype''),
           el_table = opt_field tostr (getf tab ''table''),
           el_schema = opt_field tostr (getf tab ''schema'')\<rparr>))"

definition elog_positional ::
  "mk_sqlstate \<Rightarrow> (string \<Rightarrow> lval) \<Rightarrow> (lval \<Rightarrow> string) \<Rightarrow> elevel \<Rightarrow> lval list \<Rightarrow>
   exn + (int \<times> string option \<times> elog_call)"
where
  "elog_positional mk lookup tostr level args =
     (let none = \<lparr>el_level = level, el_code = 0, el_message = '''', el_detail = None,
                  el_hint = None, el_column = None, el_constraint = None, el_datatype = None,
                  el_table = None, el_schema = None\<rparr>
      in case args of
        [msg] \<Rightarrow> Inr (0, Some (tostr msg), none)
      | [st, msg] \<Rightarrow>
          Inr (pllua_get_sqlstate mk lookup (tostr st), Some (tostr msg), none)
      | [st, msg, det] \<Rightarrow>
          Inr (pllua_get_sqlstate mk lookup (tostr st), Some (tostr msg),
               none\<lparr>el_detail := Some (tostr det)\<rparr>)
      | [st, msg, det, hnt] \<Rightarrow>
          Inr (pllua_get_sqlstate mk lookup (tostr st), Some (tostr msg),
               none\<lparr>el_detail := Some (tostr det), el_hint := Some (tostr hnt)\<rparr>)
      | _ \<Rightarrow> Inl (LuaExn ''wrong number of parameters to elog''))"

text \<open>Categories 00, 01 and 02 are not errors.\<close>

definition success_category :: "mk_sqlstate \<Rightarrow> int \<Rightarrow> bool" where
  "success_category mk c \<longleftrightarrow>
     c = mk (CHR ''0'') (CHR ''0'') (CHR ''0'') (CHR ''0'') (CHR ''0'') \<or>
     c = mk (CHR ''0'') (CHR ''1'') (CHR ''0'') (CHR ''0'') (CHR ''0'') \<or>
     c = mk (CHR ''0'') (CHR ''2'') (CHR ''0'') (CHR ''0'') (CHR ''0'')"

definition consistent_code :: "mk_sqlstate \<Rightarrow> (int \<Rightarrow> int) \<Rightarrow> elevel \<Rightarrow> int \<Rightarrow> int" where
  "consistent_code mk cat level code =
     (if success_category mk (cat code)
      then (if ERROR \<le> level then 0 else code)
      else (if level < ERROR then 0 else code))"

text \<open>
  \<open>upvalue\<close> is the level a named function is closed over, \<open>None\<close> for \<open>elog\<close>, which takes it
  from its first argument.
\<close>

definition pllua_p_elog ::
  "mk_sqlstate \<Rightarrow> (int \<Rightarrow> int) \<Rightarrow> (string \<Rightarrow> lval) \<Rightarrow> (lval \<Rightarrow> string) \<Rightarrow>
   (lval \<Rightarrow> string \<Rightarrow> lval) \<Rightarrow> elevel option \<Rightarrow> lval list \<Rightarrow> exn + elog_call"
where
  "pllua_p_elog mk cat lookup tostr getf upvalue args0 =
     bindR (case upvalue of
              Some l \<Rightarrow> Inr (l, args0)
            | None \<Rightarrow>
                (case args0 of
                   [] \<Rightarrow> Inl (LuaExn ''unknown elevel for elog()'')
                 | a # as \<Rightarrow>
                     (case map_of elevels (tostr a) of
                        None \<Rightarrow> Inl (LuaExn ''unknown elevel for elog()'')
                      | Some l \<Rightarrow> Inr (l, as)))) (\<lambda>(level, args).
     bindR (if length args = 1 \<and> is_table (hd args)
            then Inr (elog_from_table mk lookup tostr getf level (hd args))
            else elog_positional mk lookup tostr level args) (\<lambda>(code, msg, c).
     Inr (c\<lparr>el_message := (case msg of None \<Rightarrow> ''(no message given)'' | Some m \<Rightarrow> m),
            el_code := consistent_code mk cat level code\<rparr>)))"

text \<open>
  What \<open>ereport\<close> is given.  \<open>default_code\<close> is the code PostgreSQL assigns to a level when
  none is set.
\<close>

definition pllua_elog :: "(elevel \<Rightarrow> int) \<Rightarrow> elog_call \<Rightarrow> errdata" where
  "pllua_elog default_code c =
     blank_errdata\<lparr>elevel := el_level c,
       sqlerrcode := (if el_code c \<noteq> 0 then el_code c else default_code (el_level c)),
       message := Some (el_message c), detail := el_detail c, hint := el_hint c,
       column_name := el_column c, constraint_name := el_constraint c,
       datatype_name := el_datatype c, table_name := el_table c, schema_name := el_schema c\<rparr>"

subsection \<open>print\<close>

text \<open>
  The severity is an integer in the registry, read with \<open>lua_tointeger\<close>; \<open>levels\<close> gives
  the numbers of PostgreSQL's levels.
\<close>

definition print_severity :: "(elevel \<Rightarrow> int) \<Rightarrow> lval \<Rightarrow> int" where
  "print_severity levels v =
     (case v of
        LInt i \<Rightarrow> (let l = c_int i in
                   if l > levels WARNING \<or> l < levels DEBUG5 then levels LOG else l)
      | LFlt (Fin q) \<Rightarrow>
          (let l = (case lua_tointegerx (\<lambda>_. None) v of None \<Rightarrow> 0 | Some i \<Rightarrow> c_int i) in
           if l > levels WARNING \<or> l < levels DEBUG5 then levels LOG else l)
      | LFlt _ \<Rightarrow> (if 0 > levels WARNING \<or> 0 < levels DEBUG5 then levels LOG else 0)
      | _ \<Rightarrow> levels LOG)"

fun print_join :: "(lval \<Rightarrow> string) \<Rightarrow> nat \<Rightarrow> lval list \<Rightarrow> string" where
  "print_join tostr i [] = []"
| "print_join tostr i (v # vs) =
     (if i > 1 then [CHR 0x09] else []) @ tostr v @ print_join tostr (Suc i) vs"

definition pllua_p_print :: "(elevel \<Rightarrow> int) \<Rightarrow> (lval \<Rightarrow> string) \<Rightarrow> lval \<Rightarrow> lval list \<Rightarrow> int \<times> string" where
  "pllua_p_print levels tostr severity args = (print_severity levels severity, print_join tostr 1 args)"

subsection \<open>Finding the line of an error\<close>

text \<open>
  A frame of the Lua stack, as \<open>lua_getinfo\<close> describes it; the barriers are the functions
  that \<open>pllua_initial_protected_call\<close> enters Lua by.
\<close>

record frame =
  barrier :: bool
  currentline :: int
  short_src :: string

text \<open>Level 0 is the running function; \<open>lua_getstack\<close> fails past the bottom.\<close>

fun where_scan :: "frame list \<Rightarrow> frame option" where
  "where_scan [] = None"
| "where_scan (f # fs) =
     (if barrier f then None
      else if currentline f > 0 then Some f
      else where_scan fs)"

definition pllua_where :: "frame list \<Rightarrow> nat \<Rightarrow> (int \<Rightarrow> string) \<Rightarrow> string" where
  "pllua_where stack level dec =
     (case where_scan (drop level stack) of
        None \<Rightarrow> ''''
      | Some f \<Rightarrow> short_src f @ '':'' @ dec (currentline f) @ '': '')"

text \<open>
  The state of the traversal: the level, whether a frame with a line was found, and the line
  and source in \<open>interp->ar\<close>.  The result is those and the new \<open>errdepth\<close>.
\<close>

fun callback_scan ::
  "bool \<Rightarrow> nat \<Rightarrow> frame list \<Rightarrow> nat \<Rightarrow> bool \<Rightarrow> int \<times> string \<Rightarrow> (int \<times> string) \<times> nat"
where
  "callback_scan update depth [] level found ar =
     ((if found then ar else (0, snd ar)), (if update then 0 else depth))"
| "callback_scan update depth (f # fs) level found ar =
     (let ar' = (if found then ar else (currentline f, short_src f)) in
      if barrier f then
        (ar', (if \<not> update then depth else if fs = [] then 0 else Suc level))
      else callback_scan update depth fs (Suc level) (found \<or> currentline f > 0) ar')"

definition pllua_error_callback_location ::
  "frame list \<Rightarrow> bool \<Rightarrow> nat \<Rightarrow> int \<times> string \<Rightarrow> (int \<times> string) \<times> nat"
where
  "pllua_error_callback_location stack update depth ar0 =
     (let level = (if update then depth else 1)
      in callback_scan update depth (drop level stack) level False ar0)"

text \<open>
  The context line the error callback adds: nothing for a call from Lua context; a running
  set-returning function has its own thread and does not move \<open>errdepth\<close>.
\<close>

datatype callback_activation = NoActivation | InSetup | InCall

datatype callback_context = NoContext | DuringSetup | AtLine string int

definition pllua_error_callback ::
  "callback_activation \<Rightarrow> bool \<Rightarrow> frame list option \<Rightarrow> frame list \<Rightarrow> nat \<Rightarrow> int \<times> string \<Rightarrow>
   callback_context \<times> nat"
where
  "pllua_error_callback act in_pg srf_stack main_stack depth ar0 =
     (case act of
        NoActivation \<Rightarrow> (NoContext, depth)
      | InSetup \<Rightarrow> (DuringSetup, depth)
      | InCall \<Rightarrow>
          if \<not> in_pg then (NoContext, depth)
          else case (case srf_stack of
                   Some st \<Rightarrow> pllua_error_callback_location st False depth ar0
                 | None \<Rightarrow> pllua_error_callback_location main_stack True depth ar0) of
             ((line, src), depth') \<Rightarrow>
               ((if line > 0 then AtLine src line else NoContext), depth'))"

subsection \<open>Lemmas\<close>

lemma callback_scan_no_update: "snd (callback_scan False depth fs level found ar) = depth"
  by (induction fs arbitrary: level found ar) (auto simp: Let_def)

lemma callback_scan_depth:
  "snd (callback_scan True depth fs level found ar) =
     (if \<forall>f \<in> set fs. \<not> barrier f then 0
      else let n = length (takeWhile (\<lambda>f. \<not> barrier f) fs) in
           if Suc n = length fs then 0 else level + Suc n)"
proof (induction fs arbitrary: level found ar)
  case (Cons f fs)
  show ?case
    by (cases "barrier f") (auto simp: Let_def Cons.IH)
qed simp

lemma callback_scan_found:
  "fst (callback_scan update depth fs level True ar) = ar"
  by (induction fs arbitrary: level ar) (auto simp: Let_def)

text \<open>The frames of the topmost activation, from \<open>level\<close> on.\<close>

definition own_frames :: "frame list \<Rightarrow> frame list" where
  "own_frames fs = takeWhile (\<lambda>f. \<not> barrier f) fs"

lemma callback_scan_line:
  assumes "f \<in> set (own_frames fs)" "currentline f > 0"
  shows "\<exists>g. find (\<lambda>g. currentline g > 0) (own_frames fs) = Some g \<and>
     fst (callback_scan update depth fs level False ar) = (currentline g, short_src g)"
  using assms
proof (induction fs arbitrary: level ar)
  case (Cons h fs)
  show ?case
  proof (cases "currentline h > 0")
    case True
    with Cons.prems show ?thesis
      by (auto simp: own_frames_def Let_def callback_scan_found split: if_splits)
  next
    case False
    with Cons show ?thesis
      by (auto simp: own_frames_def Let_def split: if_splits)
  qed
qed (simp add: own_frames_def)

end
