(* ===== verification/Elog_Props.thy ===== *)
theory Elog_Props
  imports Elog
begin

text \<open>
  Properties of error codes and of reporting.  The concrete macros at the start are instances
  for the examples: they pack a character's offset from the digit 0, six bits each, as
  PostgreSQL's headers do.
\<close>


definition sixbit :: "char \<Rightarrow> int" where
  "sixbit c = (of_char c - 48) mod 64"

definition sample_unsix :: "int \<Rightarrow> char" where
  "sample_unsix v = char_of (v mod 64 + 48)"

definition sample_mk :: mk_sqlstate where
  "sample_mk a b c d e =
     sixbit a + 64 * (sixbit b + 64 * (sixbit c + 64 * (sixbit d + 64 * sixbit e)))"

definition sample_cat :: "int \<Rightarrow> int" where
  "sample_cat v = v mod 4096"

lemma sixbit_bounds: "0 \<le> sixbit c" "sixbit c < 64"
  by (simp_all add: sixbit_def)

lemma sixbit_div [simp]: "(sixbit c + 64 * r) div 64 = r"
  using sixbit_bounds [of c] by linarith

lemma sample_unsix_sixbit [simp]:
  assumes "c \<in> set sqlstate_alphabet"
  shows "sample_unsix (sixbit c + 64 * r) = c" "sample_unsix (sixbit c) = c"
proof -
  have "(sixbit c + 64 * r) mod 64 = sixbit c" for r
    using sixbit_bounds [of c] by simp
  moreover have "char_of (sixbit c + 48) = c"
    using assms by (auto simp: sixbit_def sqlstate_alphabet_def char_of_def)
  ultimately show "sample_unsix (sixbit c + 64 * r) = c" "sample_unsix (sixbit c) = c"
    using sixbit_bounds [of c] by (simp_all add: sample_unsix_def)
qed

lemma sixbit_div_0 [simp]: "sixbit c div 64 = 0"
  using sixbit_bounds [of c] by simp

lemma sample_sixbit_macros: "sixbit_macros sample_unsix sample_mk"
proof -
  have p: "(v :: int) div 64 ^ 5 = v div 64 div 64 div 64 div 64 div 64"
      "v div 64 ^ 4 = v div 64 div 64 div 64 div 64"
      "v div 64 ^ 3 = v div 64 div 64 div 64" "v div 64 ^ 2 = v div 64 div 64" for v
    by (simp_all add: zdiv_zmult2_eq [symmetric])
  show ?thesis
    unfolding sixbit_macros_def Let_def p sample_mk_def
    by (simp del: distrib_left_numeral)
qed

text \<open>An SQLSTATE that the code table does not list survives the round trip through it:
  indexing \<open>pllua.error\<close>'s table by the five characters gives the packed integer, in whatever
  state the lazily loaded table is, and indexing the table that leaves by that integer gives the
  five characters back.\<close>
theorem sqlstate_roundtrip:
  assumes "sixbit_macros unsix mk" "is_sqlstate st" "errcodes_wf ecodes t"
    and "st \<notin> fst ` set ecodes" "make_sqlstate mk st \<notin> snd ` set ecodes"
  shows "case errcodes_get ecodes unsix mk (LStr st) t of
     (v, t') \<Rightarrow> v = LInt (make_sqlstate mk st) \<and>
       fst (errcodes_get ecodes unsix mk v t') = LStr st"
proof -
  obtain v t' where g: "errcodes_get ecodes unsix mk (LStr st) t = (v, t')" by fastforce
  have n: "pllua_get_errcodes ecodes (\<lambda>_. LNil) (LStr st) = LNil"
      "pllua_get_errcodes ecodes (\<lambda>_. LNil) (LInt (make_sqlstate mk st)) = LNil"
    using assms(4,5) by (subst get_errcodes_other; force)+
  from errcodes_get_unknown [OF assms(3) n(1), of unsix mk] g assms(2)
  have v: "v = LInt (make_sqlstate mk st)"
    by (simp add: pllua_errcodes_fallback_def)
  from errcodes_get_unknown [OF errcodes_get_wf [OF assms(3) g] n(2), of unsix mk] decode_make [OF assms(1,2)]
  show ?thesis
    by (simp add: g v pllua_errcodes_fallback_def)
qed

theorem sqlstate_roundtrip_witness:
  "case errcodes_get [(''division_by_zero'', 33816706)] sample_unsix sample_mk (LStr ''P0001'')
          \<lparr>loaded = False, raw = \<lambda>_. LNil\<rparr> of
     (v, t') \<Rightarrow> v = LInt (make_sqlstate sample_mk ''P0001'') \<and>
       fst (errcodes_get [(''division_by_zero'', 33816706)] sample_unsix sample_mk v t') =
         LStr ''P0001''"
  by (rule sqlstate_roundtrip)
    (simp_all add: sample_sixbit_macros errcodes_wf_def is_sqlstate_def strspn_def
      sqlstate_alphabet_def sample_mk_def sixbit_def)

text \<open>The lazily loaded table agrees with the list it is loaded from, whichever entry is asked
  for first: a listed name gives its code, a listed code gives its name, an error object's
  \<open>errcode\<close> field is the name of its SQLSTATE, and the table is left well-formed.\<close>
theorem errcodes_names_and_codes:
  assumes "errcodes_wf ecodes t" "(name, code) \<in> set ecodes"
    and "distinct (map fst ecodes)" "distinct (map snd ecodes)"
  shows "fst (errcodes_get ecodes unsix mk (LStr name) t) = LInt code \<and>
     fst (errcodes_get ecodes unsix mk (LInt code) t) = LStr name \<and>
     (sqlerrcode e = code \<longrightarrow>
        (case pllua_errobject_index ecodes unsix mk cat e ''errcode'' t of
           (v, t') \<Rightarrow> v = LStr name \<and> errcodes_wf ecodes t'))"
proof -
  have n: "pllua_get_errcodes ecodes (\<lambda>_. LNil) (LStr name) = LInt code"
      "pllua_get_errcodes ecodes (\<lambda>_. LNil) (LInt code) = LStr name"
    using get_errcodes_name [OF assms(2,3)] get_errcodes_code [OF assms(2,4)] by simp_all
  have k: "fst (errcodes_get ecodes unsix mk (LStr name) t) = LInt code"
      "fst (errcodes_get ecodes unsix mk (LInt code) t) = LStr name"
    using errcodes_get_known [OF assms(1)] n by simp_all
  obtain v t' where g: "errcodes_get ecodes unsix mk (LInt code) t = (v, t')" by fastforce
  from k g errcodes_get_wf [OF assms(1) g] show ?thesis
    by (simp add: pllua_errobject_index_def pllua_push_errcode_def)
qed

theorem errcodes_names_and_codes_witness:
  "let ecodes = [(''division_by_zero'', 33816706), (''raise_exception'', 16777248)];
       t = \<lparr>loaded = False, raw = \<lambda>_. LNil\<rparr>;
       e = blank_errdata\<lparr>sqlerrcode := 16777248\<rparr>
   in fst (errcodes_get ecodes sample_unsix sample_mk (LStr ''raise_exception'') t) = LInt 16777248 \<and>
      fst (errcodes_get ecodes sample_unsix sample_mk (LInt 16777248) t) = LStr ''raise_exception'' \<and>
      fst (pllua_errobject_index ecodes sample_unsix sample_mk sample_cat e ''errcode'' t) =
        LStr ''raise_exception''"
  using errcodes_names_and_codes [where ecodes = "[(''division_by_zero'', 33816706), (''raise_exception'', 16777248)]"
      and t = "\<lparr>loaded = False, raw = \<lambda>_. LNil\<rparr>" and name = "''raise_exception''" and code = 16777248
      and e = "blank_errdata\<lparr>sqlerrcode := 16777248\<rparr>" and unsix = sample_unsix and mk = sample_mk
      and cat = sample_cat]
  by (auto simp: errcodes_wf_def split: prod.splits)

text \<open>The level and the code that \<open>elog\<close> reports are never at odds: a code that is set is an
  error code exactly when the level is an error level.\<close>
theorem elog_code_matches_level:
  assumes "pllua_p_elog mk cat lookup tostr getf upvalue args = Inr c" "el_code c \<noteq> 0"
  shows "ERROR \<le> el_level c \<longleftrightarrow> \<not> success_category mk (cat (el_code c))"
proof -
  from assms(1) obtain level code msg c0 args' where
    c: "c = c0\<lparr>el_message := (case msg of None \<Rightarrow> ''(no message given)'' | Some m \<Rightarrow> m),
            el_code := consistent_code mk cat level code\<rparr>"
    and r: "(if length args' = 1 \<and> is_table (hd args')
            then Inr (elog_from_table mk lookup tostr getf level (hd args'))
            else elog_positional mk lookup tostr level args') = Inr (code, msg, c0)"
    by (auto simp: pllua_p_elog_def bindR_eq_Inr)
  from r have "el_level c0 = level"
    by (auto simp: elog_from_table_def elog_positional_def Let_def split: if_splits list.splits)
  with c assms(2) show ?thesis
    by (auto simp: consistent_code_def split: if_splits)
qed

theorem elog_code_matches_level_witness:
  "let lookup = (\<lambda>_. LNil); tostr = (\<lambda>v. case v of LStr s \<Rightarrow> s | _ \<Rightarrow> '''') in
   \<exists>c. pllua_p_elog sample_mk sample_cat lookup tostr (\<lambda>_ _. LNil) (Some ERROR)
          [LStr ''P0001'', LStr ''boom''] = Inr c \<and> el_code c \<noteq> 0 \<and>
       (ERROR \<le> el_level c \<longleftrightarrow> \<not> success_category sample_mk (sample_cat (el_code c)))"
proof -
  let ?tostr = "\<lambda>v. case v of LStr s \<Rightarrow> s | _ \<Rightarrow> ''''"
  obtain c where r: "pllua_p_elog sample_mk sample_cat (\<lambda>_. LNil) ?tostr (\<lambda>_ _. LNil) (Some ERROR)
          [LStr ''P0001'', LStr ''boom''] = Inr c" "el_code c \<noteq> 0"
    by (simp add: pllua_p_elog_def elog_positional_def Let_def pllua_get_sqlstate_def strspn_def
        sqlstate_alphabet_def consistent_code_def success_category_def sample_cat_def sample_mk_def
        sixbit_def)
  with elog_code_matches_level [OF r] show ?thesis
    unfolding Let_def by blast
qed


text \<open>The error context callback of a plain activation reports the line of the first of the
  activation's own frames that has one, and never looks past the activation's entry barrier; the
  depth it leaves is the level after that barrier, or 0 at the bottom of the stack.\<close>
theorem traversal_covers_one_activation:
  assumes "f \<in> set (own_frames (drop depth stack))" "currentline f > 0"
  shows "\<exists>g depth'. find (\<lambda>g. currentline g > 0) (own_frames (drop depth stack)) = Some g \<and>
     pllua_error_callback InCall True None stack depth ini =
       (AtLine (short_src g) (currentline g), depth') \<and>
     (depth' = 0 \<or> depth' = depth + Suc (length (own_frames (drop depth stack))) \<and>
        depth' < length stack \<and> barrier (stack ! (depth' - 1)))"
proof -
  let ?fs = "drop depth stack"
  obtain ar d where s: "callback_scan True depth ?fs depth False ini = (ar, d)" by fastforce
  from callback_scan_line [OF assms, of True depth depth ini] s obtain g where
    g: "find (\<lambda>g. currentline g > 0) (own_frames ?fs) = Some g"
       "ar = (currentline g, short_src g)"
    by auto
  from g(1) have "currentline g > 0" by (auto simp: find_Some_iff)
  moreover have "d = 0 \<or> d = depth + Suc (length (own_frames ?fs)) \<and> d < length stack \<and>
      barrier (stack ! (d - 1))"
  proof (cases "d = 0")
    case False
    let ?n = "length (own_frames ?fs)"
    from False callback_scan_depth [of depth ?fs depth False ini] s
    have d: "d = depth + Suc ?n" "\<exists>f \<in> set ?fs. barrier f" "Suc ?n \<noteq> length ?fs"
      by (auto simp: own_frames_def Let_def split: if_splits)
    from d(2) have n: "?n < length ?fs"
      unfolding own_frames_def
      by (metis length_takeWhile_le le_neq_implies_less takeWhile_eq_take take_all_iff nle_le
          takeWhile_eq_all_conv)
    with nth_length_takeWhile [of "\<lambda>f. \<not> barrier f" ?fs] have "barrier (?fs ! ?n)"
      by (simp add: own_frames_def)
    with n d show ?thesis by (simp add: own_frames_def)
  qed simp
  ultimately show ?thesis
    using g s by (simp add: pllua_error_callback_def pllua_error_callback_location_def)
qed

theorem traversal_covers_one_activation_witness:
  "\<exists>g depth'. find (\<lambda>g. currentline g > 0) [\<lparr>barrier = False, currentline = -1, short_src = ''[C]''\<rparr>,
         \<lparr>barrier = False, currentline = 7, short_src = ''f''\<rparr>] = Some g \<and>
     pllua_error_callback InCall True None
       [\<lparr>barrier = False, currentline = -1, short_src = ''[C]''\<rparr>,
        \<lparr>barrier = False, currentline = 7, short_src = ''f''\<rparr>,
        \<lparr>barrier = True, currentline = -1, short_src = ''[C]''\<rparr>,
        \<lparr>barrier = False, currentline = 3, short_src = ''g''\<rparr>] 0 (0, '''') =
       (AtLine (short_src g) (currentline g), depth') \<and> (depth' = 0 \<or> depth' = 3)"
  using traversal_covers_one_activation [where depth = 0 and ini = "(0, '''')"
      and f = "\<lparr>barrier = False, currentline = 7, short_src = ''f''\<rparr>"
      and stack = "[\<lparr>barrier = False, currentline = -1, short_src = ''[C]''\<rparr>,
        \<lparr>barrier = False, currentline = 7, short_src = ''f''\<rparr>,
        \<lparr>barrier = True, currentline = -1, short_src = ''[C]''\<rparr>,
        \<lparr>barrier = False, currentline = 3, short_src = ''g''\<rparr>]"]
  by (auto simp: own_frames_def eval_nat_numeral)

end
