(* ===== verification/Compile.thy ===== *)
theory Compile
  imports Prelude
begin

text \<open>
  Compilation and validation of functions, the stateless part of src/src/compile.c: the
  catalog row of a function, what is loaded from it, the Lua source text that is built, and
  the checks of the validator.  Catalog lookups are the fields of a \<open>catalog\<close> record;
  \<open>get_func_arg_info\<close> is the three argument fields of the row.  Strings are C strings without
  their terminator.
\<close>

subsection \<open>Catalog\<close>

type_synonym oid = nat

abbreviation (input) RECORDOID :: oid where "RECORDOID \<equiv> 2249"
abbreviation (input) CSTRINGOID :: oid where "CSTRINGOID \<equiv> 2275"
abbreviation (input) ANYOID :: oid where "ANYOID \<equiv> 2276"
abbreviation (input) ANYARRAYOID :: oid where "ANYARRAYOID \<equiv> 2277"
abbreviation (input) VOIDOID :: oid where "VOIDOID \<equiv> 2278"
abbreviation (input) TRIGGEROID :: oid where "TRIGGEROID \<equiv> 2279"
abbreviation (input) ANYELEMENTOID :: oid where "ANYELEMENTOID \<equiv> 2283"
abbreviation (input) RECORDARRAYOID :: oid where "RECORDARRAYOID \<equiv> 2287"
abbreviation (input) ANYNONARRAYOID :: oid where "ANYNONARRAYOID \<equiv> 2776"
abbreviation (input) ANYENUMOID :: oid where "ANYENUMOID \<equiv> 3500"
abbreviation (input) ANYRANGEOID :: oid where "ANYRANGEOID \<equiv> 3831"
abbreviation (input) EVENT_TRIGGEROID :: oid where "EVENT_TRIGGEROID \<equiv> 3838"

record pg_proc =
  proname :: string
  prolang :: oid
  provariadic :: oid
  proretset :: bool
  provolatile :: char
  prorettype :: oid
  proargtypes :: "oid list"
  prosrc :: "string option"
  proallargtypes :: "oid list"
  proargmodes :: "string option"
  proargnames :: "string option list option"
  xmin :: nat
  tid :: nat

record catalog =
  lanpltrusted :: "oid \<Rightarrow> bool option"
  type_is_rowtype :: "oid \<Rightarrow> bool"
  IsPolymorphicType :: "oid \<Rightarrow> bool"
  typtype :: "oid \<Rightarrow> char"

subsection \<open>Loading a row\<close>

record function_info =
  fn_oid :: oid
  fn_xmin :: nat
  fn_tid :: nat
  fi_rettype :: oid
  returns_row :: bool
  fi_retset :: bool
  fi_readonly :: bool
  is_trigger :: bool
  is_event_trigger :: bool
  fi_nargs :: nat
  variadic :: bool
  variadic_any :: bool
  fi_polymorphic :: bool
  polymorphic_ret :: bool
  fi_argtypes :: "oid list"
  language_oid :: oid
  trusted :: bool
  fi_name :: string

record compile_info =
  ci_prosrc :: string
  ci_nargs :: nat
  nallargs :: nat
  ci_variadic :: oid
  allargtypes :: "oid list"
  argmodes :: "string option"
  argnames :: "string option list option"
  validate_only :: bool

definition pllua_validate_proctup :: "catalog \<Rightarrow> oid \<Rightarrow> pg_proc \<Rightarrow> bool \<Rightarrow> exn + unit" where
  "pllua_validate_proctup cat oid procTup trustd =
     (case lanpltrusted cat (prolang procTup) of
        None \<Rightarrow> Inl (PgExn ''cache lookup failed for language'')
      | Some lt \<Rightarrow>
          if (trustd \<and> \<not> lt) \<or> (\<not> trustd \<and> lt)
          then Inl (PgExn ''trusted state mismatch for function'')
          else Inr ())"

definition pllua_load_from_proctup ::
  "catalog \<Rightarrow> oid \<Rightarrow> pg_proc \<Rightarrow> bool \<Rightarrow> exn + (function_info \<times> compile_info)"
where
  "pllua_load_from_proctup cat oid procTup trustd =
     bindR (pllua_validate_proctup cat oid procTup trustd) (\<lambda>_.
     case prosrc procTup of
       None \<Rightarrow> Inl (PgExn ''null prosrc'')
     | Some psrc \<Rightarrow> Inr
        (\<lparr>fn_oid = oid, fn_xmin = xmin procTup, fn_tid = tid procTup,
          fi_rettype = prorettype procTup,
          returns_row = type_is_rowtype cat (prorettype procTup),
          fi_retset = proretset procTup,
          fi_readonly = (provolatile procTup \<noteq> CHR ''v''),
          is_trigger = (prorettype procTup = TRIGGEROID),
          is_event_trigger = (prorettype procTup = EVENT_TRIGGEROID),
          fi_nargs = length (proargtypes procTup),
          variadic = (provariadic procTup \<noteq> 0),
          variadic_any = (provariadic procTup = ANYOID),
          fi_polymorphic = list_ex (\<lambda>t. IsPolymorphicType cat t \<or> t = ANYOID)
                             (proargtypes procTup),
          polymorphic_ret = IsPolymorphicType cat (prorettype procTup),
          fi_argtypes = proargtypes procTup,
          language_oid = prolang procTup,
          trusted = trustd,
          fi_name = proname procTup\<rparr>,
         \<lparr>ci_prosrc = psrc, ci_nargs = length (proargtypes procTup),
          nallargs = length (proallargtypes procTup),
          ci_variadic = provariadic procTup,
          allargtypes = proallargtypes procTup,
          argmodes = proargmodes procTup,
          argnames = proargnames procTup,
          validate_only = False\<rparr>))"

text \<open>Whether cached function data is an up to date compile of the row.\<close>

definition pllua_function_valid :: "function_info option \<Rightarrow> pg_proc \<Rightarrow> bool" where
  "pllua_function_valid info procTup =
     (case info of
        None \<Rightarrow> False
      | Some f \<Rightarrow> fn_xmin f = xmin procTup \<and> fn_tid f = tid procTup)"

subsection \<open>The source text\<close>

text \<open>
  The loop over the arguments from one of them on, \<open>n\<close> names already written; it stops at
  the first unnamed one.
\<close>

fun arglist_loop :: "(char \<times> string option) list \<Rightarrow> nat \<Rightarrow> string \<times> nat" where
  "arglist_loop [] n = ([], n)"
| "arglist_loop ((mode, name) # as) n =
     (if mode \<noteq> CHR ''o'' then
        case name of
          Some (c # cs) \<Rightarrow>
            (case arglist_loop as (Suc n) of
               (rest, n') \<Rightarrow> ((if n > 0 then '','' else '''') @ (c # cs) @ rest, n'))
        | _ \<Rightarrow> ([], n)
      else arglist_loop as n)"

text \<open>\<open>argmodes\<close> is null when all are IN, which is then not \<open>'o'\<close>.\<close>

definition all_args :: "compile_info \<Rightarrow> string option list \<Rightarrow> (char \<times> string option) list" where
  "all_args ci names =
     zip (case argmodes ci of Some ms \<Rightarrow> ms | None \<Rightarrow> replicate (nallargs ci) (CHR ''i'')) names"

definition pllua_arglist :: "function_info \<Rightarrow> compile_info \<Rightarrow> string" where
  "pllua_arglist fi ci =
     (if is_trigger fi then ''trigger,old,new,...''
      else if is_event_trigger fi then ''trigger''
      else if ci_nargs ci > 0 then
        (case (case argnames ci of
                 Some (Some nm # names) \<Rightarrow> arglist_loop (all_args ci (Some nm # names)) 0
               | _ \<Rightarrow> ([], 0)) of
           (txt, n) \<Rightarrow>
             txt @ (if n < ci_nargs ci then (if n > 0 then '','' else '''') @ ''...'' else ''''))
      else '''')"

definition pllua_source :: "function_info \<Rightarrow> compile_info \<Rightarrow> string" where
  "pllua_source fi ci =
     ''local self = (...) local function '' @ fi_name fi @ ''('' @ pllua_arglist fi ci @ '') '' @
     ci_prosrc ci @ '' end return '' @ fi_name fi"

subsection \<open>The validator\<close>

definition pllua_acceptable_pseudotype :: "oid \<Rightarrow> bool \<Rightarrow> char \<Rightarrow> bool" where
  "pllua_acceptable_pseudotype typeid is_result argmode =
     (case (if is_result then (False, True)
            else if argmode = CHR ''v'' \<or> argmode = CHR ''i'' then (True, False)
            else if argmode = CHR ''b'' then (True, True)
            else if argmode = CHR ''t'' \<or> argmode = CHR ''o'' then (False, True)
            else (True, False)) of
        (is_input, is_output) \<Rightarrow>
          if typeid \<in> {TRIGGEROID, EVENT_TRIGGEROID, VOIDOID} then \<not> is_input
          else if typeid = ANYOID then \<not> is_output
          else if typeid \<in> {RECORDOID, RECORDARRAYOID, CSTRINGOID} then True
          else typeid \<in> {ANYARRAYOID, ANYNONARRAYOID, ANYELEMENTOID, ANYENUMOID, ANYRANGEOID})"

definition ident_char :: "char \<Rightarrow> bool" where
  "ident_char ch \<longleftrightarrow>
     (let c = of_char ch :: nat in
      c \<ge> of_char (CHR ''A'') \<and> c \<le> of_char (CHR ''Z'') \<or>
      c \<ge> of_char (CHR ''a'') \<and> c \<le> of_char (CHR ''z'') \<or>
      c \<ge> of_char (CHR ''0'') \<and> c \<le> of_char (CHR ''9'') \<or> ch = CHR ''_'')"

definition digit_char :: "char \<Rightarrow> bool" where
  "digit_char ch \<longleftrightarrow>
     (let c = of_char ch :: nat in c \<ge> of_char (CHR ''0'') \<and> c \<le> of_char (CHR ''9''))"

text \<open>The switch on the first character.\<close>

definition not_reserved :: "string \<Rightarrow> bool" where
  "not_reserved name =
     (let c = hd name in
      if c = CHR ''a'' then name \<noteq> ''and''
      else if c = CHR ''b'' then name \<noteq> ''break''
      else if c = CHR ''d'' then name \<noteq> ''do''
      else if c = CHR ''e'' then name \<noteq> ''else'' \<and> name \<noteq> ''elseif'' \<and> name \<noteq> ''end''
      else if c = CHR ''f'' then name \<noteq> ''false'' \<and> name \<noteq> ''for'' \<and> name \<noteq> ''function''
      else if c = CHR ''g'' then name \<noteq> ''goto''
      else if c = CHR ''i'' then name \<noteq> ''if'' \<and> name \<noteq> ''in''
      else if c = CHR ''l'' then name \<noteq> ''local''
      else if c = CHR ''n'' then name \<noteq> ''nil'' \<and> name \<noteq> ''not''
      else if c = CHR ''o'' then name \<noteq> ''or''
      else if c = CHR ''r'' then name \<noteq> ''repeat'' \<and> name \<noteq> ''return''
      else if c = CHR ''t'' then name \<noteq> ''then'' \<and> name \<noteq> ''true''
      else if c = CHR ''u'' then name \<noteq> ''until''
      else if c = CHR ''w'' then name \<noteq> ''while''
      else True)"

fun pllua_acceptable_name :: "string option \<Rightarrow> bool" where
  "pllua_acceptable_name None = False"
| "pllua_acceptable_name (Some []) = False"
| "pllua_acceptable_name (Some (c # cs)) =
     (\<not> digit_char c \<and> list_all ident_char (c # cs) \<and> not_reserved (c # cs))"

text \<open>
  One iteration of the validator's loop; the state carried along is whether an unnamed input
  was seen.  \<open>argname\<close> is the empty string when there are no names at all.
\<close>

definition validate_arg :: "catalog \<Rightarrow> oid \<times> char \<times> string \<Rightarrow> bool \<Rightarrow> exn + bool" where
  "validate_arg cat arg nameless =
     (case arg of (argtype, argmode, argname) \<Rightarrow>
        if typtype cat argtype = CHR ''p'' \<and>
           \<not> pllua_acceptable_pseudotype argtype False argmode
        then Inl (PgExn ''PL/Lua functions cannot accept type'')
        else
          bindR (if argmode = CHR ''i'' \<or> argmode = CHR ''b'' then
                   (if argname \<noteq> '''' then
                      (if nameless
                       then Inl (PgExn ''PL/Lua function arguments with names must not follow arguments without names'')
                       else Inr nameless)
                    else Inr True)
                 else if argmode = CHR ''v'' then
                   (if argtype = ANYOID \<and> argname \<noteq> ''''
                    then Inl (PgExn ''PL/Lua function arguments of type VARIADIC \"any\" must not have names'')
                    else Inr nameless)
                 else Inr nameless) (\<lambda>nameless'.
          if argname \<noteq> '''' \<and> \<not> pllua_acceptable_name (Some argname)
          then Inl (PgExn ''PL/Lua argument name is not a valid Lua identifier'')
          else Inr nameless'))"

fun validate_args :: "catalog \<Rightarrow> (oid \<times> char \<times> string) list \<Rightarrow> bool \<Rightarrow> exn + bool" where
  "validate_args cat [] nameless = Inr nameless"
| "validate_args cat (a # as) nameless =
     bindR (validate_arg cat a nameless) (validate_args cat as)"

definition validated_args :: "compile_info \<Rightarrow> (oid \<times> char \<times> string) list" where
  "validated_args ci =
     zip (allargtypes ci)
       (zip (case argmodes ci of Some ms \<Rightarrow> ms | None \<Rightarrow> replicate (nallargs ci) (CHR ''i''))
          (case argnames ci of
             Some nms \<Rightarrow> map (case_option '''' id) nms
           | None \<Rightarrow> replicate (nallargs ci) ''''))"

text \<open>
  \<open>load\<close> is \<open>luaL_loadbufferx\<close>: the message of a syntax error, if there is one.  The body is
  only loaded, never run.
\<close>

definition pllua_validate_function ::
  "catalog \<Rightarrow> (string \<Rightarrow> string option) \<Rightarrow> bool \<Rightarrow> (oid \<Rightarrow> pg_proc option) \<Rightarrow> oid \<Rightarrow> bool \<Rightarrow> exn + unit"
where
  "pllua_validate_function cat load check_function_bodies procs oid trustd =
     (case procs oid of
        None \<Rightarrow> Inl (PgExn ''cache lookup failed for function'')
      | Some procTup \<Rightarrow>
          bindR (pllua_load_from_proctup cat oid procTup trustd) (\<lambda>(fi, ci).
          if \<not> pllua_acceptable_name (Some (fi_name fi))
          then Inl (PgExn ''PL/Lua function name is not a valid Lua identifier'')
          else if typtype cat (fi_rettype fi) = CHR ''p'' \<and>
                  \<not> pllua_acceptable_pseudotype (fi_rettype fi) True (CHR '' '')
          then Inl (PgExn ''PL/Lua functions cannot return this type'')
          else bindR (validate_args cat (validated_args ci) False) (\<lambda>_.
          if check_function_bodies then
            (case load (pllua_source fi ci) of
               Some msg \<Rightarrow> Inl (PgExn (''pllua: '' @ msg))
             | None \<Rightarrow> Inr ())
          else Inr ())))"

end
