(* ===== verification/Funcache.thy ===== *)
theory Funcache
  imports Compile
begin

text \<open>
  The cache of compiled functions: function objects, activations and the two registry tables
  of src/src/objects.c, and the loop of \<open>pllua_validate_and_push\<close> in src/src/compile.c that
  makes an activation current before a call.

  Pointers are addresses into heaps, so that use of freed memory shows: reading through one
  that is not allocated is \<open>PgPanic\<close>.  The Lua stack is the list of the function objects the
  C code holds on it while user code runs.  \<open>user\<close> is the run of a compiled chunk, which is
  user code; it is defined below from programs that call back into the cache.
\<close>

subsection \<open>State\<close>

datatype tupdesc = Refcounted nat | Unshared nat

datatype argtypes_ptr = NoArgtypes | SharedWith nat | OwnCopy "oid list"

datatype typefuncclass = TYPEFUNC_SCALAR | TYPEFUNC_COMPOSITE | TYPEFUNC_RECORD | TYPEFUNC_OTHER

record funcobj =
  fo_info :: "nat option"
  fo_member :: "lval option"

record activation =
  func_info :: "nat option"
  func_member :: "nat option"
  thread :: "nat option"
  resolved :: bool
  polymorphic :: bool
  variadic_call :: bool
  retset :: bool
  readonly :: bool
  rettype :: oid
  tupdesc :: "tupdesc option"
  typefuncclass :: typefuncclass
  retdomain :: bool
  nargs :: nat
  argtypes :: argtypes_ptr
  dead :: bool

record cst =
  procs :: "oid \<Rightarrow> pg_proc option"
  infos :: "nat \<Rightarrow> function_info option"
  fobjs :: "nat \<Rightarrow> funcobj option"
  funcs :: "oid \<Rightarrow> nat option"
  acts :: "nat \<Rightarrow> activation option"
  activations :: "nat list"
  lstack :: "nat list"
  next_addr :: nat

text \<open>What a call site tells about types: the answers of PostgreSQL's funcapi.\<close>

record callsite =
  get_call_result_type :: "typefuncclass \<times> oid \<times> tupdesc option"
  get_fn_expr_variadic :: bool
  resolve_polymorphic_argtypes :: "oid list \<Rightarrow> oid list option"
  value_per_call :: bool

definition pg_panic :: "string \<Rightarrow> (cst, 'a) m" where
  [mdefs]: "pg_panic msg s = (PgPanic msg, s)"

definition deref_info :: "nat option \<Rightarrow> (cst, function_info option) m" where
  [mdefs]: "deref_info p s =
     (case p of
        None \<Rightarrow> (Ret None, s)
      | Some i \<Rightarrow>
          (case infos s i of
             None \<Rightarrow> (PgPanic ''use of a freed function_info'', s)
           | Some fi \<Rightarrow> (Ret (Some fi), s)))"

definition get_act :: "nat \<Rightarrow> (cst, activation) m" where
  [mdefs]: "get_act a s =
     (case acts s a of
        None \<Rightarrow> (PgPanic ''use of a freed activation'', s)
      | Some r \<Rightarrow> (Ret r, s))"

definition upd_act :: "nat \<Rightarrow> (activation \<Rightarrow> activation) \<Rightarrow> (cst, unit) m" where
  [mdefs]: "upd_act a f = modify (\<lambda>s. s\<lparr>acts := (acts s)(a := map_option f (acts s a))\<rparr>)"

subsection \<open>Objects\<close>

text \<open>The address returned by an allocation.\<close>

definition fresh_addr :: "(cst, nat) m" where
  [mdefs]: "fresh_addr s = (Ret (next_addr s), s\<lparr>next_addr := Suc (next_addr s)\<rparr>)"

definition pllua_newactivation :: "(cst, nat) m" where
  [mdefs]: "pllua_newactivation =
     bindm fresh_addr (\<lambda>a.
     bindm (modify (\<lambda>s. s\<lparr>acts := (acts s)(a \<mapsto>
         \<lparr>func_info = None, func_member = None, thread = None, resolved = False,
          polymorphic = False, variadic_call = False, retset = False, readonly = False,
          rettype = 0, tupdesc = None, typefuncclass = TYPEFUNC_SCALAR, retdomain = False,
          nargs = 0, argtypes = NoArgtypes, dead = False\<rparr>),
         activations := a # activations s\<rparr>)) (\<lambda>_.
     ret a))"

definition pllua_freeactivation :: "nat \<Rightarrow> cst \<Rightarrow> cst" where
  "pllua_freeactivation a s =
     s\<lparr>acts := (acts s)(a := map_option
           (\<lambda>r. r\<lparr>dead := True, argtypes := NoArgtypes, tupdesc := None\<rparr>) (acts s a)),
       activations := filter (\<lambda>x. x \<noteq> a) (activations s)\<rparr>"

definition pllua_setactivation :: "nat \<Rightarrow> nat \<Rightarrow> (cst, unit) m" where
  [mdefs]: "pllua_setactivation a f =
     bindm (gets (\<lambda>s. fobjs s f)) (\<lambda>obj.
     case obj of
       None \<Rightarrow> pg_panic ''use of a freed function object''
     | Some fo \<Rightarrow>
         if fo_info fo = None then luaL_error ''bad argument (function object expected)''
         else bindm (gets activations) (\<lambda>as.
           if a \<notin> set as then ret ()
           else upd_act a (\<lambda>r. r\<lparr>func_info := fo_info fo, resolved := False,
                               func_member := Some f\<rparr>)))"

text \<open>\<open>None\<close> is nil, which unregisters the function.\<close>

definition pllua_intern_function :: "nat option \<Rightarrow> oid \<Rightarrow> (cst, bool) m" where
  [mdefs]: "pllua_intern_function obj oid =
     (case obj of
        None \<Rightarrow> bindm (modify (\<lambda>s. s\<lparr>funcs := (funcs s)(oid := None)\<rparr>)) (\<lambda>_. ret True)
      | Some f \<Rightarrow>
          bindm (gets (\<lambda>s. (fobjs s f, funcs s oid))) (\<lambda>(fobj, cur).
          if map_option fo_info fobj = None \<or> map_option fo_info fobj = Some None
          then luaL_error ''bad argument (function object expected)''
          else if cur \<noteq> None then ret False
          else bindm (modify (\<lambda>s. s\<lparr>funcs := (funcs s)(oid := Some f)\<rparr>)) (\<lambda>_. ret True)))"

text \<open>
  A garbage collection: function objects that nothing refers to are finalized, and
  \<open>pllua_funcobject_gc\<close> deletes the memory of their function data.
\<close>

definition reachable_fobjs :: "cst \<Rightarrow> nat set" where
  "reachable_fobjs s =
     ran (funcs s) \<union> set (lstack s) \<union>
     {f. \<exists>a \<in> set (activations s). \<exists>r. acts s a = Some r \<and> func_member r = Some f}"

definition pllua_funcobject_gc :: "nat \<Rightarrow> cst \<Rightarrow> cst" where
  "pllua_funcobject_gc f s =
     (case fobjs s f of
        None \<Rightarrow> s
      | Some fo \<Rightarrow>
          (case fo_info fo of
             None \<Rightarrow> s\<lparr>fobjs := (fobjs s)(f := None)\<rparr>
           | Some i \<Rightarrow> s\<lparr>fobjs := (fobjs s)(f := None), infos := (infos s)(i := None)\<rparr>))"

text \<open>\<open>which\<close> are the objects this cycle happens to collect.\<close>

definition lua_gc :: "nat list \<Rightarrow> (cst, unit) m" where
  [mdefs]: "lua_gc which =
     modify (\<lambda>s. fold pllua_funcobject_gc (filter (\<lambda>f. f \<notin> reachable_fobjs s) which) s)"

subsection \<open>Resolving an activation\<close>

definition pllua_resolve_activation ::
  "catalog \<Rightarrow> callsite \<Rightarrow> nat \<Rightarrow> nat \<Rightarrow> function_info \<Rightarrow> (cst, unit) m"
where
  [mdefs]: "pllua_resolve_activation cat cs a i fi =
     bindm (get_act a) (\<lambda>r.
     if resolved r then ret ()
     else
       bindm (if polymorphic_ret fi \<or> returns_row fi then
                (case get_call_result_type cs of (cls, rt, td) \<Rightarrow>
                   upd_act a (\<lambda>r. r\<lparr>typefuncclass := cls, rettype := rt,
                     tupdesc := (case td of
                        Some (Refcounted n) \<Rightarrow> Some (Unshared n)
                      | _ \<Rightarrow> td)\<rparr>))
              else upd_act a (\<lambda>r. r\<lparr>rettype := fi_rettype fi,
                     typefuncclass := TYPEFUNC_SCALAR\<rparr>)) (\<lambda>_.
       bindm (upd_act a (\<lambda>r. r\<lparr>retdomain := (typtype cat (rettype r) = CHR ''d''),
                polymorphic := fi_polymorphic fi,
                variadic_call := get_fn_expr_variadic cs, nargs := fi_nargs fi,
                retset := fi_retset fi, readonly := fi_readonly fi\<rparr>)) (\<lambda>_.
       bindm (if fi_polymorphic fi then
                (case resolve_polymorphic_argtypes cs (fi_argtypes fi) of
                   None \<Rightarrow>
                     bindm (upd_act a (\<lambda>r. r\<lparr>argtypes := OwnCopy (fi_argtypes fi)\<rparr>)) (\<lambda>_.
                     pg_throw (pg_elog ''failed to resolve polymorphic argtypes''))
                 | Some ts \<Rightarrow> upd_act a (\<lambda>r. r\<lparr>argtypes := OwnCopy ts\<rparr>))
              else upd_act a (\<lambda>r. r\<lparr>argtypes := SharedWith i\<rparr>)) (\<lambda>_.
       upd_act a (\<lambda>r. r\<lparr>resolved := True\<rparr>)))))"

subsection \<open>Compiling\<close>

text \<open>How a chunk can end: its value, an error string, or an error object.\<close>

datatype chunk_result = Value lval | StringError string | PgError errdata

fun chunk_error :: "chunk_result \<Rightarrow> errdata" where
  "chunk_error (Value v) = blank_errdata"
| "chunk_error (StringError m) = pg_elog (''pllua: '' @ m)"
| "chunk_error (PgError e) = e"

text \<open>
  \<open>pllua_compile\<close>, called through \<open>pllua_pcall_nothrow\<close>: the new function object is on the
  stack while the chunk runs.  \<open>load\<close> is \<open>luaL_loadbufferx\<close>.  The result is the object, or
  the error (when the object is garbage).
\<close>

type_synonym user_code = "pg_proc \<Rightarrow> (cst, chunk_result) m"

definition pllua_compile ::
  "(string \<Rightarrow> string option) \<Rightarrow> user_code \<Rightarrow> pg_proc \<Rightarrow> function_info \<Rightarrow> compile_info \<Rightarrow>
   (cst, errdata + nat) m"
where
  [mdefs]: "pllua_compile load user procTup fi ci =
     bindm fresh_addr (\<lambda>f.
     bindm (modify (\<lambda>s. s\<lparr>fobjs := (fobjs s)(f \<mapsto> \<lparr>fo_info = None, fo_member = None\<rparr>),
                          lstack := f # lstack s\<rparr>)) (\<lambda>_.
     case load (pllua_source fi ci) of
       Some msg \<Rightarrow>
         bindm (modify (\<lambda>s. s\<lparr>lstack := tl (lstack s)\<rparr>)) (\<lambda>_.
         ret (Inl (chunk_error (StringError msg))))
     | None \<Rightarrow>
         bindm (user procTup) (\<lambda>r.
         case r of
           Value v \<Rightarrow>
             bindm (modify (\<lambda>s. s\<lparr>fobjs := (fobjs s)(f := map_option (\<lambda>fo. fo\<lparr>fo_member := Some v\<rparr>)
                       (fobjs s f))\<rparr>)) (\<lambda>_. ret (Inr f))
         | err \<Rightarrow>
             bindm (modify (\<lambda>s. s\<lparr>lstack := tl (lstack s)\<rparr>)) (\<lambda>_.
             ret (Inl (chunk_error err))))))"

text \<open>After the call of \<open>pllua_compile\<close>: bail out, or fill in the object and register it.\<close>

definition finish_compile :: "oid \<Rightarrow> nat \<Rightarrow> nat \<Rightarrow> errdata + nat \<Rightarrow> (cst, bool) m" where
  [mdefs]: "finish_compile oid a i rc =
     (case rc of
        Inl err \<Rightarrow>
          bindm (upd_act a (\<lambda>r. r\<lparr>resolved := False\<rparr>)) (\<lambda>_.
          bindm (modify (\<lambda>s. s\<lparr>infos := (infos s)(i := None)\<rparr>)) (\<lambda>_.
          pg_throw err))
      | Inr f \<Rightarrow>
          bindm (modify (\<lambda>s. s\<lparr>fobjs := (fobjs s)(f := map_option (\<lambda>fo. fo\<lparr>fo_info := Some i\<rparr>)
                    (fobjs s f))\<rparr>)) (\<lambda>_.
          bindm (pllua_intern_function (Some f) oid) (\<lambda>_.
          bindm (modify (\<lambda>s. s\<lparr>lstack := tl (lstack s)\<rparr>)) (\<lambda>_.
          ret False))))"

text \<open>The part of the loop that compiles the function from scratch.\<close>

definition recompile ::
  "catalog \<Rightarrow> (string \<Rightarrow> string option) \<Rightarrow> user_code \<Rightarrow> callsite \<Rightarrow> bool \<Rightarrow> oid \<Rightarrow> nat \<Rightarrow>
   pg_proc \<Rightarrow> (cst, bool) m"
where
  [mdefs]: "recompile cat load user cs trustd oid a procTup =
     bindm (upd_act a (\<lambda>r. r\<lparr>resolved := False, func_info := None\<rparr>)) (\<lambda>_.
     case pllua_load_from_proctup cat oid procTup trustd of
       Inl (PgExn m) \<Rightarrow> pg_throw (pg_elog m)
     | Inl (LuaExn m) \<Rightarrow> luaL_error m
     | Inr (fi, ci) \<Rightarrow>
         bindm fresh_addr (\<lambda>i.
         bindm (modify (\<lambda>s. s\<lparr>infos := (infos s)(i \<mapsto> fi)\<rparr>)) (\<lambda>_.
         bindm (pllua_resolve_activation cat cs a i fi) (\<lambda>_.
         bindm (pllua_compile load user procTup fi ci) (finish_compile oid a i)))))"

text \<open>One iteration; \<open>True\<close> leaves the loop.\<close>

definition validate_step ::
  "catalog \<Rightarrow> (string \<Rightarrow> string option) \<Rightarrow> user_code \<Rightarrow> callsite \<Rightarrow> bool \<Rightarrow> oid \<Rightarrow> nat \<Rightarrow>
   (cst, bool) m"
where
  [mdefs]: "validate_step cat load user cs trustd oid a =
     bindm (gets (\<lambda>s. procs s oid)) (\<lambda>row.
     case row of
       None \<Rightarrow> pg_throw (pg_elog ''cache lookup failed for function'')
     | Some procTup \<Rightarrow>
         bindm (get_act a) (\<lambda>r.
         bindm (deref_info (func_info r)) (\<lambda>fi.
         if pllua_function_valid fi procTup then ret True
         else
           bindm (gets (\<lambda>s. funcs s oid)) (\<lambda>cached.
           case cached of
             None \<Rightarrow> recompile cat load user cs trustd oid a procTup
           | Some f \<Rightarrow>
               bindm (gets (\<lambda>s. fobjs s f)) (\<lambda>obj.
               bindm (deref_info (case obj of None \<Rightarrow> None | Some fo \<Rightarrow> fo_info fo)) (\<lambda>ffi.
               if pllua_function_valid ffi procTup then
                 bindm (pllua_setactivation a f) (\<lambda>_. ret True)
               else
                 bindm (pllua_intern_function None oid) (\<lambda>_.
                 recompile cat load user cs trustd oid a procTup)))))))"

primrec validate_loop ::
  "nat \<Rightarrow> catalog \<Rightarrow> (string \<Rightarrow> string option) \<Rightarrow> user_code \<Rightarrow> callsite \<Rightarrow> bool \<Rightarrow> oid \<Rightarrow> nat \<Rightarrow>
   (cst, bool) m"
where
  "validate_loop 0 cat load user cs trustd oid a = ret False"
| "validate_loop (Suc n) cat load user cs trustd oid a =
     bindm (validate_step cat load user cs trustd oid a) (\<lambda>break.
       if break then ret True else validate_loop n cat load user cs trustd oid a)"

text \<open>Post-compile per-call validation.\<close>

definition post_compile :: "catalog \<Rightarrow> callsite \<Rightarrow> nat \<Rightarrow> (cst, nat option) m" where
  [mdefs]: "post_compile cat cs a =
     bindm (get_act a) (\<lambda>r.
     bindm (deref_info (func_info r)) (\<lambda>fi.
     case (fi, func_info r) of
       (Some fi, Some i) \<Rightarrow>
         if fi_retset fi \<and> \<not> value_per_call cs
         then pg_throw (pg_elog ''set-valued function called in context that cannot accept a set'')
         else bindm (pllua_resolve_activation cat cs a i fi) (\<lambda>_. ret (Some a))
     | _ \<Rightarrow> pg_panic ''null function_info''))"

text \<open>
  \<open>fn_extra\<close> is the activation the call site already has, if any.  The result is \<open>None\<close> when
  the \<open>n\<close> iterations were not enough.
\<close>

definition pllua_validate_and_push ::
  "nat \<Rightarrow> catalog \<Rightarrow> (string \<Rightarrow> string option) \<Rightarrow> user_code \<Rightarrow> callsite \<Rightarrow> bool \<Rightarrow> oid \<Rightarrow>
   nat option \<Rightarrow> (cst, nat option) m"
where
  [mdefs]: "pllua_validate_and_push n cat load user cs trustd oid fn_extra =
     bindm (case fn_extra of
              None \<Rightarrow> pllua_newactivation
            | Some a \<Rightarrow>
                bindm (gets activations) (\<lambda>as.
                if a \<notin> set as then pg_throw (pg_elog ''failed to find an activation'')
                else ret a)) (\<lambda>a.
     bindm (validate_loop n cat load user cs trustd oid a) (\<lambda>done.
     if \<not> done then ret None else post_compile cat cs a))"

subsection \<open>User code\<close>

text \<open>
  What the top level of a chunk can do to the cache: replace or drop functions, let the
  collector run, and run queries that call functions (each from a call site of its own, whose
  activation dies with the query).
\<close>

datatype uprog =
    Finish chunk_result
  | Replace oid "pg_proc option" uprog
  | Collect "nat list" uprog
  | CallFunction callsite bool oid uprog

text \<open>
  The end of a query, by success or failure: the memory contexts of the call sites made since
  \<open>base\<close> are reset, which frees their activations, and the Lua stack is cut back.
\<close>

definition end_query :: "nat \<Rightarrow> nat list \<Rightarrow> (cst, unit) m" where
  [mdefs]: "end_query base st =
     modify (\<lambda>s. (fold pllua_freeactivation (filter (\<lambda>a. base \<le> a) (activations s)) s)\<lparr>lstack := st\<rparr>)"

text \<open>
  A call whose loop has not ended after the bound on iterations is cut off with an error.
\<close>

primrec run_uprog ::
  "(callsite \<Rightarrow> bool \<Rightarrow> oid \<Rightarrow> nat option \<Rightarrow> (cst, nat option) m) \<Rightarrow> uprog \<Rightarrow> (cst, chunk_result) m"
where
  "run_uprog call (Finish r) = ret r"
| "run_uprog call (Replace oid p k) =
     bindm (modify (\<lambda>s. s\<lparr>procs := (procs s)(oid := p)\<rparr>)) (\<lambda>_. run_uprog call k)"
| "run_uprog call (Collect which k) = bindm (lua_gc which) (\<lambda>_. run_uprog call k)"
| "run_uprog call (CallFunction cs trustd oid k) =
     bindm (gets (\<lambda>s. (next_addr s, lstack s))) (\<lambda>(base, st) s.
     case call cs trustd oid None s of
       (Ret (Some a), s') \<Rightarrow> bindm (end_query base st) (\<lambda>_. run_uprog call k) s'
     | (Ret None, s') \<Rightarrow> bindm (end_query base st) (\<lambda>_. ret (StringError ''interrupted'')) s'
     | (PgThrow e, s') \<Rightarrow> bindm (end_query base st) (\<lambda>_. ret (PgError e)) s'
     | (LuaThrow rc v, s') \<Rightarrow>
         bindm (end_query base st) (\<lambda>_.
           ret (StringError (case v of LStr m \<Rightarrow> m | _ \<Rightarrow> ''''))) s'
     | (PgPanic m, s') \<Rightarrow> (PgPanic m, s'))"

text \<open>\<open>d\<close> bounds the depth of recursion, as the stack depth check does.\<close>

primrec user_at ::
  "nat \<Rightarrow> nat \<Rightarrow> catalog \<Rightarrow> (string \<Rightarrow> string option) \<Rightarrow> (pg_proc \<Rightarrow> uprog) \<Rightarrow> user_code"
where
  "user_at 0 n cat load chunk = (\<lambda>_. ret (StringError ''stack depth exceeded''))"
| "user_at (Suc d) n cat load chunk =
     (\<lambda>p. run_uprog
        (\<lambda>cs trustd oid. pllua_validate_and_push n cat load (user_at d n cat load chunk) cs trustd oid)
        (chunk p))"

end
