(* ===== verification/Funcache_Inv.thy ===== *)
theory Funcache_Inv
  imports Funcache
begin

text \<open>
  The invariant of the function cache and its proof: every step of the loop keeps it, over any
  user code that keeps it (the locale \<open>user_code\<close>), and the programs of user code do, by
  induction on the depth of recursion (the interpretation \<open>ua\<close>).
\<close>


subsection \<open>The invariant\<close>

definition act_ok :: "(nat \<Rightarrow> funcobj option) \<Rightarrow> activation \<Rightarrow> bool" where
  "act_ok objs r \<longleftrightarrow>
     (\<forall>i. func_info r = Some i \<longrightarrow>
        (\<exists>f fo. func_member r = Some f \<and> objs f = Some fo \<and> fo_info fo = Some i) \<and>
        (\<forall>j. resolved r \<and> argtypes r = SharedWith j \<longrightarrow> j = i)) \<and>
     (\<forall>f. func_member r = Some f \<longrightarrow> objs f \<noteq> None)"

definition unowned :: "cst \<Rightarrow> nat \<Rightarrow> bool" where
  "unowned s i \<longleftrightarrow> (\<forall>f fo. fobjs s f = Some fo \<longrightarrow> fo_info fo \<noteq> Some i)"

definition inv_acts :: "cst \<Rightarrow> bool" where
  "inv_acts s \<longleftrightarrow> (\<forall>a \<in> set (activations s). \<exists>r. acts s a = Some r \<and> act_ok (fobjs s) r)"

definition inv_infos :: "cst \<Rightarrow> bool" where
  "inv_infos s \<longleftrightarrow>
     (\<forall>f fo i. fobjs s f = Some fo \<longrightarrow> fo_info fo = Some i \<longrightarrow> infos s i \<noteq> None)"

definition inv_inj :: "cst \<Rightarrow> bool" where
  "inv_inj s \<longleftrightarrow>
     (\<forall>f fo f' fo' i. fobjs s f = Some fo \<longrightarrow> fobjs s f' = Some fo' \<longrightarrow>
        fo_info fo = Some i \<longrightarrow> fo_info fo' = Some i \<longrightarrow> f = f')"

definition inv_funcs :: "cst \<Rightarrow> bool" where
  "inv_funcs s \<longleftrightarrow>
     (\<forall>oid f. funcs s oid = Some f \<longrightarrow>
        (\<exists>fo i fi. fobjs s f = Some fo \<and> fo_info fo = Some i \<and> infos s i = Some fi \<and>
           fn_oid fi = oid))"

definition inv_stack :: "cst \<Rightarrow> bool" where
  "inv_stack s \<longleftrightarrow> (\<forall>f \<in> set (lstack s). fobjs s f \<noteq> None)"

definition inv_fresh :: "cst \<Rightarrow> bool" where
  "inv_fresh s \<longleftrightarrow> (\<forall>n \<ge> next_addr s. fobjs s n = None \<and> infos s n = None \<and> acts s n = None)"

definition cinv :: "cst \<Rightarrow> bool" where
  "cinv s \<longleftrightarrow> inv_acts s \<and> inv_infos s \<and> inv_inj s \<and> inv_funcs s \<and> inv_stack s \<and> inv_fresh s"

lemmas inv_defs = inv_acts_def inv_infos_def inv_inj_def inv_funcs_def inv_stack_def inv_fresh_def

text \<open>
  What user code leaves alone: the stack and the objects on it, function data that no object
  owns yet, and the activations it did not make; \<open>own\<close> are those that may change.
\<close>

definition frame :: "nat set \<Rightarrow> cst \<Rightarrow> cst \<Rightarrow> bool" where
  "frame own s s' \<longleftrightarrow>
     lstack s' = lstack s \<and> next_addr s \<le> next_addr s' \<and>
     (\<forall>f \<in> set (lstack s). fobjs s' f = fobjs s f) \<and>
     (\<forall>i. infos s i \<noteq> None \<longrightarrow> unowned s i \<longrightarrow> infos s' i = infos s i \<and> unowned s' i) \<and>
     set (activations s) \<subseteq> set (activations s') \<and>
     (\<forall>a \<in> set (activations s) - own. acts s' a = acts s a)"

lemma frame_refl [simp]: "frame own s s"
  by (simp add: frame_def)

lemma frame_trans: "frame own s s' \<Longrightarrow> frame own s' s'' \<Longrightarrow> frame own s s''"
  by (auto simp: frame_def subset_iff)

lemma frame_mono: "frame own s s' \<Longrightarrow> own \<subseteq> own' \<Longrightarrow> frame own' s s'"
  by (auto simp: frame_def)

subsection \<open>Single steps\<close>

lemma wpt_get_act [simp]:
  "wpt (get_act a) N E P s = (case acts s a of None \<Rightarrow> False | Some r \<Rightarrow> N r s)"
  by (simp add: wpt_def get_act_def split: option.splits)

lemma wpt_deref_info [simp]:
  "wpt (deref_info p) N E P s =
     (case p of None \<Rightarrow> N None s
      | Some i \<Rightarrow> (case infos s i of None \<Rightarrow> False | Some fi \<Rightarrow> N (Some fi) s))"
  by (simp add: wpt_def deref_info_def split: option.splits)

lemma wpt_fresh_addr [simp]:
  "wpt fresh_addr N E P s = N (next_addr s) (s\<lparr>next_addr := Suc (next_addr s)\<rparr>)"
  by (simp add: wpt_def fresh_addr_def)

lemma wpt_pg_panic [simp]: "\<not> wpt (pg_panic msg) N E P s"
  by (simp add: wpt_def pg_panic_def)

lemma wpt_upd_act [simp]:
  "wpt (upd_act a f) N E P s = N () (s\<lparr>acts := (acts s)(a := map_option f (acts s a))\<rparr>)"
  by (simp add: upd_act_def)

lemma cinv_upd_act:
  assumes "cinv s" "\<And>r. acts s a = Some r \<Longrightarrow> act_ok (fobjs s) r \<Longrightarrow> act_ok (fobjs s) (f r)"
  shows "cinv (s\<lparr>acts := (acts s)(a := map_option f (acts s a))\<rparr>)"
  using assms unfolding cinv_def inv_defs by (auto split: if_splits)

lemma frame_upd_act:
  "a \<in> own \<Longrightarrow> frame own s (s\<lparr>acts := (acts s)(a := map_option f (acts s a))\<rparr>)"
  by (auto simp: frame_def unowned_def)

lemma cinv_act:
  assumes "cinv s" "a \<in> set (activations s)"
  obtains r where "acts s a = Some r" "act_ok (fobjs s) r"
  using assms by (auto simp: cinv_def inv_acts_def)

lemma cinv_live:
  assumes "cinv s" "a \<in> set (activations s)" "acts s a = Some r" "func_info r = Some i"
  shows "infos s i \<noteq> None"
  using assms unfolding cinv_def inv_acts_def inv_infos_def act_ok_def by fastforce

lemma cinv_fresh: "cinv s \<Longrightarrow> cinv (s\<lparr>next_addr := Suc (next_addr s)\<rparr>)"
  by (simp add: cinv_def inv_defs)

lemma set_act_eq [simp]:
  "s\<lparr>acts := (acts s)(a \<mapsto> x)\<rparr> = s\<lparr>acts := (acts s)(a \<mapsto> y)\<rparr> \<longleftrightarrow> x = y"
  by (metis (no_types) cst.select_convs(5) cst.surjective cst.update_convs(5) fun_upd_same option.inject)

lemma wpt_resolve:
  assumes "acts s a = Some r"
  shows "wpt (pllua_resolve_activation cat cs a i fi)
    (\<lambda>_ s'. \<exists>r'. s' = s\<lparr>acts := (acts s)(a \<mapsto> r')\<rparr> \<and> func_info r' = func_info r \<and>
       func_member r' = func_member r \<and> resolved r' \<and>
       (r' = r \<or> argtypes r' = SharedWith i \<or> (\<exists>ts. argtypes r' = OwnCopy ts)))
    (\<lambda>_ _ _. False)
    (\<lambda>_ s'. \<exists>r'. s' = s\<lparr>acts := (acts s)(a \<mapsto> r')\<rparr> \<and> func_info r' = func_info r \<and>
       func_member r' = func_member r \<and> \<not> resolved r') s"
proof (cases "resolved r")
  case True
  then have "s\<lparr>acts := (acts s)(a \<mapsto> r)\<rparr> = s"
    using assms by (simp add: fun_upd_idem)
  with True assms show ?thesis
    by (auto simp: pllua_resolve_activation_def intro: exI [of _ r])
next
  case False
  with assms show ?thesis
    by (simp add: pllua_resolve_activation_def split: prod.split option.split)
qed

lemma cinv_set_act:
  assumes "cinv s" "acts s a = Some r" "act_ok (fobjs s) r \<Longrightarrow> act_ok (fobjs s) r'"
  shows "cinv (s\<lparr>acts := (acts s)(a \<mapsto> r')\<rparr>)"
  using cinv_upd_act [OF assms(1), of a "\<lambda>_. r'"] assms(2,3) by simp

lemma frame_set_act: "a \<in> own \<Longrightarrow> frame own s (s\<lparr>acts := (acts s)(a \<mapsto> r')\<rparr>)"
  by (auto simp: frame_def unowned_def)

subsection \<open>Collection\<close>

lemma gc_reachable [simp]: "reachable_fobjs (pllua_funcobject_gc f s) = reachable_fobjs s"
  by (auto simp: reachable_fobjs_def pllua_funcobject_gc_def split: option.splits)

lemma gc_one:
  assumes "cinv s" "f \<notin> reachable_fobjs s"
  shows "cinv (pllua_funcobject_gc f s) \<and> frame {} s (pllua_funcobject_gc f s)"
proof (cases "fobjs s f")
  case None
  with assms show ?thesis by (simp add: pllua_funcobject_gc_def)
next
  case (Some fo)
  have r: "\<And>oid. funcs s oid \<noteq> Some f" "f \<notin> set (lstack s)"
      "\<And>a r. a \<in> set (activations s) \<Longrightarrow> acts s a = Some r \<Longrightarrow> func_member r \<noteq> Some f"
    using assms(2) by (auto simp: reachable_fobjs_def ran_def)
  have ao: "act_ok ((fobjs s)(f := None)) r" if "act_ok (fobjs s) r" "func_member r \<noteq> Some f" for r
    using that by (fastforce simp: act_ok_def)
  show ?thesis
  proof (cases "fo_info fo")
    case None
    with Some have e: "pllua_funcobject_gc f s = s\<lparr>fobjs := (fobjs s)(f := None)\<rparr>"
      by (simp add: pllua_funcobject_gc_def)
    let ?s = "s\<lparr>fobjs := (fobjs s)(f := None)\<rparr>"
    have p: "inv_acts s" "inv_infos s" "inv_inj s" "inv_funcs s" "inv_stack s" "inv_fresh s"
      using assms(1) by (simp_all add: cinv_def)
    have "inv_acts ?s" using p(1) r(3) ao by (fastforce simp: inv_acts_def)
    moreover have "inv_funcs ?s" using p(4) r(1) by (fastforce simp: inv_funcs_def)
    moreover have "inv_infos ?s" "inv_inj ?s" "inv_stack ?s" "inv_fresh ?s"
      using p r(2) unfolding inv_defs by auto
    ultimately have "cinv ?s" by (simp add: cinv_def)
    moreover have "frame {} s (s\<lparr>fobjs := (fobjs s)(f := None)\<rparr>)"
      using r by (auto simp: frame_def unowned_def)
    ultimately show ?thesis using e by simp
  next
    case (Some i)
    with \<open>fobjs s f = Some fo\<close> have e:
      "pllua_funcobject_gc f s = s\<lparr>fobjs := (fobjs s)(f := None), infos := (infos s)(i := None)\<rparr>"
      by (simp add: pllua_funcobject_gc_def)
    have u: "\<And>f' fo'. fobjs s f' = Some fo' \<Longrightarrow> fo_info fo' = Some i \<Longrightarrow> f' = f"
      using assms(1) Some \<open>fobjs s f = Some fo\<close> unfolding cinv_def inv_inj_def by blast
    let ?s = "s\<lparr>fobjs := (fobjs s)(f := None), infos := (infos s)(i := None)\<rparr>"
    have p: "inv_acts s" "inv_infos s" "inv_inj s" "inv_funcs s" "inv_stack s" "inv_fresh s"
      using assms(1) by (simp_all add: cinv_def)
    have "inv_acts ?s" using p(1) r(3) ao by (fastforce simp: inv_acts_def)
    moreover have "inv_funcs ?s" using p(4) r(1) u by (fastforce simp: inv_funcs_def)
    moreover have "inv_infos ?s" "inv_inj ?s" "inv_stack ?s" "inv_fresh ?s"
      using p r(2) u unfolding inv_defs by auto
    ultimately have "cinv ?s" by (simp add: cinv_def)
    moreover have "frame {} s (s\<lparr>fobjs := (fobjs s)(f := None), infos := (infos s)(i := None)\<rparr>)"
      using r Some \<open>fobjs s f = Some fo\<close> by (auto simp: frame_def unowned_def)
    ultimately show ?thesis using e by simp
  qed
qed

lemma gc_fold:
  assumes "cinv s" "set fs \<inter> reachable_fobjs s = {}"
  shows "cinv (fold pllua_funcobject_gc fs s) \<and> frame {} s (fold pllua_funcobject_gc fs s)"
  using assms
proof (induction fs arbitrary: s)
  case (Cons f fs)
  then have 1: "cinv (pllua_funcobject_gc f s)" "frame {} s (pllua_funcobject_gc f s)"
    using gc_one [of s f] by auto
  with Cons.IH [OF 1(1)] Cons.prems frame_trans show ?case by auto
qed simp

lemma gc_wpt: "cinv s \<Longrightarrow> wpt (lua_gc which) (\<lambda>_ s'. cinv s' \<and> frame {} s s') E P s"
  unfolding lua_gc_def wpt_modify by (rule gc_fold) auto

subsection \<open>The end of a query\<close>

lemma free_one:
  assumes "cinv s"
  shows "cinv (pllua_freeactivation a s)"
  using assms by (auto simp: cinv_def inv_defs pllua_freeactivation_def)

lemma fold_free:
  assumes "cinv s"
  shows "cinv (fold pllua_freeactivation xs s) \<and>
    activations (fold pllua_freeactivation xs s) = filter (\<lambda>a. a \<notin> set xs) (activations s) \<and>
    (\<forall>a. a \<notin> set xs \<longrightarrow> acts (fold pllua_freeactivation xs s) a = acts s a) \<and>
    fobjs (fold pllua_freeactivation xs s) = fobjs s \<and>
    infos (fold pllua_freeactivation xs s) = infos s \<and>
    lstack (fold pllua_freeactivation xs s) = lstack s \<and>
    next_addr (fold pllua_freeactivation xs s) = next_addr s"
  using assms
proof (induction xs arbitrary: s)
  case (Cons x xs)
  from Cons.IH [OF free_one [OF Cons.prems]] show ?case
    by (simp add: pllua_freeactivation_def conj_commute)
qed simp

abbreviation since :: "cst \<Rightarrow> nat set" where
  "since s \<equiv> {n. next_addr s \<le> n}"

lemma active_old: "cinv s \<Longrightarrow> a \<in> set (activations s) \<Longrightarrow> a < next_addr s"
  unfolding cinv_def inv_acts_def inv_fresh_def by (metis not_less option.distinct(1))

lemma end_query_wpt:
  assumes "cinv s0" "cinv s" "frame (since s0) s0 s"
  shows "wpt (end_query (next_addr s0) (lstack s0)) (\<lambda>_ s'. cinv s' \<and> frame {} s0 s') E P s"
proof -
  let ?xs = "filter (\<lambda>a. next_addr s0 \<le> a) (activations s)"
  let ?t = "fold pllua_freeactivation ?xs s"
  note f = fold_free [OF assms(2), of ?xs]
  from assms(3) have l: "lstack s = lstack s0" by (simp add: frame_def)
  with f have e: "?t\<lparr>lstack := lstack s0\<rparr> = ?t" by simp
  have "a \<notin> set ?xs" "a \<in> set (activations s)" "acts s a = acts s0 a"
    if "a \<in> set (activations s0)" for a
    using that active_old [OF assms(1) that] assms(3) by (auto simp: frame_def)
  then have "frame {} s0 ?t"
    using assms(3) f l by (auto simp: frame_def unowned_def)
  with f show ?thesis
    unfolding end_query_def wpt_modify e by simp
qed

lemma act_ok_mono:
  assumes "act_ok objs r"
    and "\<And>f fo. objs f = Some fo \<Longrightarrow>
           \<exists>fo'. objs' f = Some fo' \<and> (fo_info fo \<noteq> None \<longrightarrow> fo_info fo' = fo_info fo)"
  shows "act_ok objs' r"
proof -
  have "\<exists>f fo. func_member r = Some f \<and> objs' f = Some fo \<and> fo_info fo = Some i"
    if i: "func_info r = Some i" for i
  proof -
    from assms(1) i obtain f fo where
      "func_member r = Some f" "objs f = Some fo" "fo_info fo = Some i"
      by (auto simp: act_ok_def)
    with assms(2) [of f fo] show ?thesis by auto
  qed
  moreover have "objs' f \<noteq> None" if "func_member r = Some f" for f
    using assms(1) assms(2) [of f] that by (auto simp: act_ok_def)
  ultimately show ?thesis
    using assms(1) by (simp add: act_ok_def)
qed

lemma cinv_new_object:
  assumes "cinv s"
  shows "cinv (s\<lparr>next_addr := Suc (next_addr s),
      fobjs := (fobjs s)(next_addr s \<mapsto> \<lparr>fo_info = None, fo_member = None\<rparr>),
      lstack := next_addr s # lstack s\<rparr>)" (is "cinv ?t")
proof -
  have p: "inv_acts s" "inv_infos s" "inv_inj s" "inv_funcs s" "inv_stack s" "inv_fresh s"
    using assms(1) by (simp_all add: cinv_def)
  have nf: "fobjs s (next_addr s) = None"
    using p(6) by (auto simp: inv_fresh_def)
  have "act_ok (fobjs ?t) r" if "act_ok (fobjs s) r" for r
    using that by (rule act_ok_mono) (use nf in auto)
  then have "inv_acts ?t" using p(1) by (fastforce simp: inv_acts_def)
  moreover have "inv_funcs ?t" using p(4) nf by (fastforce simp: inv_funcs_def)
  moreover have "inv_infos ?t" "inv_inj ?t" "inv_stack ?t" "inv_fresh ?t"
    using p unfolding inv_defs by auto
  ultimately show ?thesis by (simp add: cinv_def)
qed

subsection \<open>The loop, over user code that keeps the invariant\<close>

text \<open>
  The contract between the loop and the user code it runs: a chunk keeps the invariant and
  leaves alone what the loop holds; it reports failure as a result.
\<close>

locale user_code =
  fixes user :: user_code
  assumes user_inv:
    "cinv s \<Longrightarrow> wpt (user p) (\<lambda>_ s'. cinv s' \<and> frame {} s s') (\<lambda>_ _ _. False) (\<lambda>_ _. False) s"
begin

lemma compile_wpt:
  assumes "cinv s" "infos s i = Some fi" "unowned s i" "fn_oid fi = oid"
    and "a \<in> set (activations s)" "acts s a = Some r" "func_info r = None"
  shows "wpt (pllua_compile load user procTup fi ci)
    (\<lambda>rc s'. case rc of
        Inl err \<Rightarrow> cinv s' \<and> frame {} s s' \<and> infos s' i = Some fi \<and> unowned s' i \<and> acts s' a = Some r
      | Inr f \<Rightarrow> cinv s' \<and> frame {} s (s'\<lparr>lstack := tl (lstack s')\<rparr>) \<and> infos s' i = Some fi \<and>
          unowned s' i \<and> (\<exists>fo. fobjs s' f = Some fo \<and> fo_info fo = None) \<and>
          lstack s' = f # lstack s \<and> f \<ge> next_addr s \<and> f \<notin> set (lstack s))
    (\<lambda>_ _ _. False) (\<lambda>_ _. False) s"
proof -
  let ?f = "next_addr s"
  let ?s1 = "s\<lparr>next_addr := Suc ?f, fobjs := (fobjs s)(?f \<mapsto> \<lparr>fo_info = None, fo_member = None\<rparr>),
               lstack := ?f # lstack s\<rparr>"
  have p: "inv_acts s" "inv_infos s" "inv_inj s" "inv_funcs s" "inv_stack s" "inv_fresh s"
    using assms(1) by (simp_all add: cinv_def)
  have nf: "fobjs s ?f = None" "?f \<notin> set (lstack s)"
    using p(5,6) by (auto simp: inv_fresh_def inv_stack_def)
  have c1: "cinv ?s1" by (rule cinv_new_object [OF assms(1)])
  have un: "unowned ?s1 j = unowned s j" for j
    using nf(1) by (simp add: unowned_def) (metis option.distinct(1))
  have fr1: "frame {} s (s'\<lparr>lstack := tl (lstack s')\<rparr>)" if "frame {} ?s1 s'" for s'
    using that nf un unfolding frame_def
    by (auto simp: unowned_def)
  have ci: "cinv (s'\<lparr>lstack := tl (lstack s')\<rparr>)" if "cinv s'" for s'
    using that by (cases "lstack s'") (auto simp: cinv_def inv_defs)
  show ?thesis
  proof (cases "load (pllua_source fi ci)")
    case (Some msg)
    with c1 fr1 [of ?s1] ci [OF c1] assms(2,3,6) un show ?thesis
      by (simp add: pllua_compile_def unowned_def)
  next
    case None
    have "wpt (user procTup) (\<lambda>ru s'. cinv s' \<and> frame {} ?s1 s') (\<lambda>_ _ _. False) (\<lambda>_ _. False) ?s1"
      by (rule user_inv [OF c1])
    then show ?thesis
      using None
    proof (simp add: pllua_compile_def, elim wpt_mono, goal_cases)
      case (1 ru s')
      then have c: "cinv s'" and f: "frame {} ?s1 s'" by simp_all
      from f have k: "infos s' i = Some fi" "unowned s' i" "acts s' a = Some r"
          "lstack s' = ?f # lstack s" "fobjs s' ?f = Some \<lparr>fo_info = None, fo_member = None\<rparr>"
        using assms(2,3,5,6) un by (auto simp: frame_def)
      have m: "cinv (s'\<lparr>fobjs := (fobjs s')(?f \<mapsto> \<lparr>fo_info = None, fo_member = Some v\<rparr>)\<rparr>)" for v
      proof -
        let ?t = "s'\<lparr>fobjs := (fobjs s')(?f \<mapsto> \<lparr>fo_info = None, fo_member = Some v\<rparr>)\<rparr>"
        have q: "inv_acts s'" "inv_infos s'" "inv_inj s'" "inv_funcs s'" "inv_stack s'" "inv_fresh s'"
          using c by (simp_all add: cinv_def)
        have "act_ok (fobjs ?t) r" if "act_ok (fobjs s') r" for r
          using that by (rule act_ok_mono) (use k(5) in auto)
        then have "inv_acts ?t" using q(1) by (fastforce simp: inv_acts_def)
        moreover have "inv_funcs ?t" using q(4) k(5) by (fastforce simp: inv_funcs_def)
        moreover have "inv_infos ?t" "inv_inj ?t" "inv_stack ?t" "inv_fresh ?t"
          using q k(5) unfolding inv_defs by auto
        ultimately show ?thesis by (simp add: cinv_def)
      qed
      show ?case
      proof (cases ru)
        case (Value v)
        let ?t = "s'\<lparr>fobjs := (fobjs s')(?f \<mapsto> \<lparr>fo_info = None, fo_member = Some v\<rparr>)\<rparr>"
        have u: "unowned ?t j \<longleftrightarrow> unowned s' j" for j
          using k(5) by (simp add: unowned_def)
            (metis funcobj.select_convs(1) option.distinct(1) option.inject)
        have "frame {} s (?t\<lparr>lstack := tl (lstack ?t)\<rparr>)"
          using fr1 [OF f] u nf(2) unfolding frame_def by (auto simp: unowned_def)
        with Value m [of v] k u nf(2) show ?thesis by simp
      next
        case (StringError x2)
        with c k fr1 [OF f] ci [OF c] show ?thesis by (simp add: unowned_def)
      next
        case (PgError x3)
        with c k fr1 [OF f] ci [OF c] show ?thesis by (simp add: unowned_def)
      qed
    qed simp_all
  qed
qed

end

lemma load_fail: "pllua_load_from_proctup cat oid p trustd = Inl e \<Longrightarrow> \<exists>m. e = PgExn m"
  by (auto simp: pllua_load_from_proctup_def pllua_validate_proctup_def bindR_eq_Inl
      split: option.splits if_splits)

lemma load_oid: "pllua_load_from_proctup cat oid p trustd = Inr (fi, ci) \<Longrightarrow> fn_oid fi = oid"
  by (auto simp: pllua_load_from_proctup_def bindR_eq_Inr split: option.splits)

text \<open>Function data that no object owns can be given to one, or freed.\<close>

lemma cinv_own:
  assumes "cinv s" "unowned s i" "infos s i = Some fi" "fobjs s f = Some fo" "fo_info fo = None"
  shows "cinv (s\<lparr>fobjs := (fobjs s)(f \<mapsto> fo\<lparr>fo_info := Some i\<rparr>)\<rparr>)"
proof -
  let ?t = "s\<lparr>fobjs := (fobjs s)(f \<mapsto> fo\<lparr>fo_info := Some i\<rparr>)\<rparr>"
  have p: "inv_acts s" "inv_infos s" "inv_inj s" "inv_funcs s" "inv_stack s" "inv_fresh s"
    using assms(1) by (simp_all add: cinv_def)
  have "act_ok (fobjs ?t) r" if "act_ok (fobjs s) r" for r
    using that by (rule act_ok_mono) (use assms(4,5) in auto)
  then have "inv_acts ?t" using p(1) by (fastforce simp: inv_acts_def)
  moreover have "inv_funcs ?t" using p(4) assms(4,5) by (fastforce simp: inv_funcs_def)
  moreover have "inv_inj ?t" using p(3) assms(2,4,5) by (auto simp: inv_inj_def unowned_def)
  moreover have "inv_infos ?t" "inv_stack ?t" "inv_fresh ?t"
    using p assms(3,4) unfolding inv_defs by auto
  ultimately show ?thesis by (simp add: cinv_def)
qed

lemma cinv_drop_info:
  assumes "cinv s" "unowned s i"
  shows "cinv (s\<lparr>infos := (infos s)(i := None)\<rparr>)"
proof -
  let ?t = "s\<lparr>infos := (infos s)(i := None)\<rparr>"
  have p: "inv_acts s" "inv_infos s" "inv_inj s" "inv_funcs s" "inv_stack s" "inv_fresh s"
    using assms(1) by (simp_all add: cinv_def)
  have n: "j \<noteq> i" if "fobjs s f = Some fo" "fo_info fo = Some j" for f fo j
    using that assms(2) by (auto simp: unowned_def)
  have "inv_infos ?t" using p(2) n by (simp add: inv_infos_def)
  moreover have "inv_funcs ?t" using p(4) n by (fastforce simp: inv_funcs_def)
  moreover have "inv_acts ?t" "inv_inj ?t" "inv_stack ?t" "inv_fresh ?t"
    using p(1,3,5,6) by (simp_all add: inv_defs)
  ultimately show ?thesis by (simp add: cinv_def)
qed

lemma cinv_add_info:
  assumes "cinv s"
  shows "cinv (s\<lparr>next_addr := Suc (next_addr s), infos := (infos s)(next_addr s \<mapsto> fi)\<rparr>) \<and>
    unowned s (next_addr s)"
proof -
  let ?t = "s\<lparr>next_addr := Suc (next_addr s), infos := (infos s)(next_addr s \<mapsto> fi)\<rparr>"
  have p: "inv_acts s" "inv_infos s" "inv_inj s" "inv_funcs s" "inv_stack s" "inv_fresh s"
    using assms by (simp_all add: cinv_def)
  have none: "infos s (next_addr s) = None" using p(6) by (simp add: inv_fresh_def)
  have "inv_infos ?t" using p(2) by (simp add: inv_infos_def)
  moreover have "inv_funcs ?t" using p(4) none by (fastforce simp: inv_funcs_def)
  moreover have "inv_acts ?t" "inv_inj ?t" "inv_stack ?t" "inv_fresh ?t"
    using p(1,3,5,6) by (simp_all add: inv_defs)
  moreover have "unowned s (next_addr s)"
    using p(2) none unfolding unowned_def inv_infos_def by blast
  ultimately show ?thesis by (simp add: cinv_def)
qed

lemma cinv_pop: "cinv s \<Longrightarrow> cinv (s\<lparr>lstack := tl (lstack s)\<rparr>)"
  by (cases "lstack s") (auto simp: cinv_def inv_defs)

lemma cinv_unregister: "cinv s \<Longrightarrow> cinv (s\<lparr>funcs := (funcs s)(oid := None)\<rparr>)"
  by (auto simp: cinv_def inv_defs)

lemma cinv_register:
  assumes "cinv s" "fobjs s f = Some fo" "fo_info fo = Some i" "infos s i = Some fi" "fn_oid fi = oid"
  shows "cinv (s\<lparr>funcs := (funcs s)(oid \<mapsto> f)\<rparr>)"
  using assms by (simp add: cinv_def inv_defs)

text \<open>The activation as a failed compilation leaves it.\<close>

definition deresolved :: "nat \<Rightarrow> cst \<Rightarrow> bool" where
  "deresolved a s \<longleftrightarrow> (\<exists>r. acts s a = Some r \<and> \<not> resolved r \<and> func_info r = None)"

context user_code begin

lemma recompile_wpt:
  assumes "cinv s" "a \<in> set (activations s)"
  shows "wpt (recompile cat load user cs trustd oid a procTup)
    (\<lambda>break s'. \<not> break \<and> cinv s' \<and> frame {a} s s')
    (\<lambda>_ _ _. False)
    (\<lambda>_ s'. cinv s' \<and> frame {a} s s' \<and> deresolved a s') s"
proof -
  from assms obtain r where r: "acts s a = Some r" "act_ok (fobjs s) r" by (rule cinv_act)
  let ?r1 = "r\<lparr>resolved := False, func_info := None\<rparr>"
  let ?s1 = "s\<lparr>acts := (acts s)(a \<mapsto> ?r1)\<rparr>"
  have c1: "cinv ?s1"
    by (rule cinv_set_act [OF assms(1) r(1)]) (simp add: act_ok_def)
  have f1: "frame {a} s ?s1" by (simp add: frame_set_act)
  show ?thesis
  proof (cases "pllua_load_from_proctup cat oid procTup trustd")
    case (Inl e)
    with load_fail [OF Inl] c1 f1 r show ?thesis
      by (auto simp: recompile_def deresolved_def)
  next
    case (Inr ld)
    obtain fi ci where ld: "pllua_load_from_proctup cat oid procTup trustd = Inr (fi, ci)"
      using Inr by (cases ld) auto
    note fo = load_oid [OF ld]
    let ?i = "next_addr ?s1"
    let ?s2 = "?s1\<lparr>next_addr := Suc ?i, infos := (infos ?s1)(?i \<mapsto> fi)\<rparr>"
    from cinv_add_info [OF c1, of fi] have c2: "cinv ?s2" and u2: "unowned ?s2 ?i"
      by (simp_all add: unowned_def)
    have r2: "acts ?s2 a = Some ?r1" "a \<in> set (activations ?s2)" using assms by simp_all
    have un: "infos s ?i = None" using assms(1) by (simp add: cinv_def inv_fresh_def)
    have f2: "frame {a} s s'" if "frame {a} ?s2 s'" for s'
    proof -
      have "frame {a} s ?s2"
        using f1 un by (auto simp: frame_def unowned_def)
      then show ?thesis using that by (rule frame_trans)
    qed
    have f2i: "frame {a} s (s'\<lparr>infos := (infos s')(?i := X)\<rparr>)" if "frame {a} s s'" for s' X
      using that un by (auto simp: frame_def unowned_def)
    have "wpt (pllua_resolve_activation cat cs a ?i fi)
        (\<lambda>_. wpt (pllua_compile load user procTup fi ci) (\<lambda>rc. wpt (finish_compile oid a ?i rc)
           (\<lambda>break s'. \<not> break \<and> cinv s' \<and> frame {a} s s') (\<lambda>_ _ _. False)
           (\<lambda>_ s'. cinv s' \<and> frame {a} s s' \<and> deresolved a s'))
           (\<lambda>_ _ _. False) (\<lambda>_ s'. cinv s' \<and> frame {a} s s' \<and> deresolved a s'))
        (\<lambda>_ _ _. False) (\<lambda>_ s'. cinv s' \<and> frame {a} s s' \<and> deresolved a s') ?s2"
    proof (rule wpt_mono [OF wpt_resolve [OF r2(1)]], goal_cases)
      case (1 u s3)
      then obtain r3 where s3: "s3 = ?s2\<lparr>acts := (acts ?s2)(a \<mapsto> r3)\<rparr>" and r3: "func_info r3 = None"
          "func_member r3 = func_member r"
        by auto
      have c3: "cinv s3"
        unfolding s3 by (rule cinv_set_act [OF c2 r2(1)]) (simp add: act_ok_def r3)
      have f3: "frame {a} ?s2 s3" unfolding s3 by (rule frame_set_act) simp
      have k3: "infos s3 ?i = Some fi" "unowned s3 ?i" "a \<in> set (activations s3)" "acts s3 a = Some r3"
        using u2 assms by (simp_all add: s3 unowned_def)
      show ?case
      proof (rule wpt_mono [OF compile_wpt [OF c3 k3(1,2) fo k3(3,4) r3(1)]], goal_cases)
        case (1 rc s4)
        show ?case
        proof (cases rc)
          case (Inl err)
          with 1 have s4: "cinv s4" "frame {} s3 s4" "unowned s4 ?i" "acts s4 a = Some r3"
            by simp_all
          let ?t = "s4\<lparr>acts := (acts s4)(a \<mapsto> r3\<lparr>resolved := False\<rparr>)\<rparr>"
          have "cinv ?t"
            by (rule cinv_set_act [OF s4(1,4)]) (simp add: act_ok_def r3)
          then have "cinv (?t\<lparr>infos := (infos ?t)(?i := None)\<rparr>)"
            by (rule cinv_drop_info) (use s4(3) in \<open>simp add: unowned_def\<close>)
          moreover have "frame {a} s (?t\<lparr>infos := (infos ?t)(?i := None)\<rparr>)"
            by (intro f2i f2 frame_trans [OF f3 frame_trans [OF frame_mono [OF s4(2)] frame_set_act]])
              simp_all
          ultimately show ?thesis
            using Inl s4(4) r3 by (simp add: finish_compile_def deresolved_def)
        next
          case (Inr f)
          with 1 obtain fobj where s4: "cinv s4" "frame {} s3 (s4\<lparr>lstack := tl (lstack s4)\<rparr>)"
              "infos s4 ?i = Some fi" "unowned s4 ?i" "fobjs s4 f = Some fobj" "fo_info fobj = None"
              "lstack s4 = f # lstack s3" "f \<notin> set (lstack s3)"
            by auto
          let ?t = "s4\<lparr>fobjs := (fobjs s4)(f \<mapsto> fobj\<lparr>fo_info := Some ?i\<rparr>)\<rparr>"
          have ct: "cinv ?t" by (rule cinv_own [OF s4(1,4,3,5,6)])
          have s4f: "frame {a} s (s4\<lparr>lstack := tl (lstack s4)\<rparr>)"
            by (intro f2 frame_trans [OF f3 frame_mono [OF s4(2)]]) simp
          have ls: "lstack s3 = lstack s" by (simp add: s3)
          have u: "unowned ?t j \<longleftrightarrow> unowned s4 j \<and> j \<noteq> ?i" for j
            using s4(5,6) unfolding unowned_def
            by (simp, metis option.distinct(1) option.inject)
          have ft: "frame {a} s (?t\<lparr>funcs := F, lstack := lstack s\<rparr>)"
              "frame {a} s (?t\<lparr>lstack := lstack s\<rparr>)" for F
            using s4f s4(7,8) un u unfolding frame_def ls by (simp_all add: unowned_def) (metis option.distinct(1))+
          have pop: "lstack ?t = f # lstack s" using s4(7) ls by simp
          show ?thesis
          proof (cases "funcs s4 oid")
            case None
            have "cinv (?t\<lparr>funcs := (funcs ?t)(oid \<mapsto> f)\<rparr>)"
              by (rule cinv_register [where fo = "fobj\<lparr>fo_info := Some ?i\<rparr>" and i = ?i and fi = fi])
                (use ct s4(3) fo in simp_all)
            from cinv_pop [OF this] ft(1) [of "(funcs s4)(oid \<mapsto> f)"] None Inr s4 pop show ?thesis
              by (simp add: finish_compile_def pllua_intern_function_def)
          next
            case (Some g)
            from cinv_pop [OF ct] ft(2) Some Inr s4 pop show ?thesis
              by (simp add: finish_compile_def pllua_intern_function_def)
          qed
        qed
      qed simp_all
    next
      case 2 then show ?case by simp
    next
      case (3 e s3)
      then obtain r3 where s3: "s3 = ?s2\<lparr>acts := (acts ?s2)(a \<mapsto> r3)\<rparr>" and r3: "func_info r3 = None"
          "\<not> resolved r3" "func_member r3 = func_member r"
        by auto
      have "cinv s3"
        unfolding s3 by (rule cinv_set_act [OF c2 r2(1)]) (simp add: act_ok_def r3)
      moreover have "frame {a} s s3" unfolding s3 by (intro f2 frame_set_act) simp
      ultimately show ?case by (simp add: s3 deresolved_def r3)
    qed
    then show ?thesis
      using r ld by (simp add: recompile_def)
  qed
qed

end

text \<open>The activation refers to an up to date compile of the function's row.\<close>

definition up_to_date :: "oid \<Rightarrow> nat \<Rightarrow> cst \<Rightarrow> bool" where
  "up_to_date oid a s \<longleftrightarrow>
     (\<exists>p r i fi. procs s oid = Some p \<and> acts s a = Some r \<and> func_info r = Some i \<and>
        infos s i = Some fi \<and> pllua_function_valid (Some fi) p)"

lemma valid_None [simp]: "\<not> pllua_function_valid None p"
  by (simp add: pllua_function_valid_def)

lemma frame_funcs: "frame own (s\<lparr>funcs := F\<rparr>) s' = frame own s s'"
  by (simp add: frame_def unowned_def)

context user_code begin

lemma validate_step_wpt:
  assumes "cinv s" "a \<in> set (activations s)"
  shows "wpt (validate_step cat load user cs trustd oid a)
    (\<lambda>break s'. cinv s' \<and> frame {a} s s' \<and> (break \<longrightarrow> up_to_date oid a s'))
    (\<lambda>_ _ _. False) (\<lambda>_ s'. cinv s' \<and> frame {a} s s') s"
proof (cases "procs s oid")
  case None
  with assms show ?thesis by (simp add: validate_step_def)
next
  case (Some procTup)
  from assms obtain r where r: "acts s a = Some r" "act_ok (fobjs s) r" by (rule cinv_act)
  have rec: "wpt (recompile cat load user cs trustd oid a procTup)
      (\<lambda>break s'. cinv s' \<and> frame {a} s s' \<and> (break \<longrightarrow> up_to_date oid a s'))
      (\<lambda>_ _ _. False) (\<lambda>_ s'. cinv s' \<and> frame {a} s s') s'"
    if "cinv s'" "a \<in> set (activations s')" "\<And>t. frame {a} s' t = frame {a} s t" for s'
    by (rule wpt_mono [OF recompile_wpt [OF that(1,2)]]) (use that(3) in auto)
  have miss: "wpt (bindm (gets (\<lambda>s. funcs s oid)) (\<lambda>cached.
           case cached of
             None \<Rightarrow> recompile cat load user cs trustd oid a procTup
           | Some f \<Rightarrow>
               bindm (gets (\<lambda>s. fobjs s f)) (\<lambda>obj.
               bindm (deref_info (case obj of None \<Rightarrow> None | Some fo \<Rightarrow> fo_info fo)) (\<lambda>ffi.
               if pllua_function_valid ffi procTup then
                 bindm (pllua_setactivation a f) (\<lambda>_. ret True)
               else
                 bindm (pllua_intern_function None oid) (\<lambda>_.
                 recompile cat load user cs trustd oid a procTup)))))
      (\<lambda>break s'. cinv s' \<and> frame {a} s s' \<and> (break \<longrightarrow> up_to_date oid a s'))
      (\<lambda>_ _ _. False) (\<lambda>_ s'. cinv s' \<and> frame {a} s s') s"
  proof (cases "funcs s oid")
    case None
    with rec [OF assms] show ?thesis by simp
  next
    case F: (Some f)
    with assms(1) obtain fo i fi where f: "fobjs s f = Some fo" "fo_info fo = Some i"
        "infos s i = Some fi"
      unfolding cinv_def inv_funcs_def by blast
    show ?thesis
    proof (cases "pllua_function_valid (Some fi) procTup")
      case True
      let ?r = "r\<lparr>func_info := Some i, resolved := False, func_member := Some f\<rparr>"
      have "cinv (s\<lparr>acts := (acts s)(a \<mapsto> ?r)\<rparr>)"
        by (rule cinv_set_act [OF assms(1) r(1)]) (simp add: act_ok_def f)
      moreover have "frame {a} s (s\<lparr>acts := (acts s)(a \<mapsto> ?r)\<rparr>)" by (rule frame_set_act) simp
      ultimately show ?thesis
        using True F f r Some assms(2) by (simp add: pllua_setactivation_def up_to_date_def)
    next
      case False
      with rec [OF cinv_unregister [OF assms(1)]] assms(2) F f show ?thesis
        by (simp add: pllua_intern_function_def frame_funcs)
    qed
  qed
  show ?thesis
  proof (cases "func_info r")
    case None
    with miss r Some show ?thesis
      by (simp add: validate_step_def)
  next
    case I: (Some i)
    with cinv_live [OF assms r(1) I] obtain fi where fi: "infos s i = Some fi" by blast
    show ?thesis
    proof (cases "pllua_function_valid (Some fi) procTup")
      case True
      with Some r I fi assms(1) show ?thesis by (simp add: validate_step_def up_to_date_def)
    next
      case False
      with miss Some r I fi show ?thesis by (simp add: validate_step_def)
    qed
  qed
qed

lemma validate_loop_wpt:
  assumes "cinv s" "a \<in> set (activations s)"
  shows "wpt (validate_loop n cat load user cs trustd oid a)
    (\<lambda>done s'. cinv s' \<and> frame {a} s s' \<and> (done \<longrightarrow> up_to_date oid a s'))
    (\<lambda>_ _ _. False) (\<lambda>_ s'. cinv s' \<and> frame {a} s s') s"
  using assms
proof (induction n arbitrary: s)
  case (Suc n)
  show ?case
  proof (simp, rule wpt_mono [OF validate_step_wpt [OF Suc.prems]], goal_cases)
    case (1 break s')
    then have s': "cinv s'" "frame {a} s s'" "a \<in> set (activations s')"
      using Suc.prems(2) by (auto simp: frame_def)
    show ?case
    proof (cases break)
      case False
      then show ?thesis
        by simp (rule wpt_mono [OF Suc.IH [OF s'(1,3)]]; blast intro: frame_trans [OF s'(2)])
    qed (use 1 in simp)
  qed simp_all
qed simp

end

text \<open>What a successful call gives the caller.\<close>

definition ready :: "callsite \<Rightarrow> oid \<Rightarrow> nat \<Rightarrow> cst \<Rightarrow> bool" where
  "ready cs oid a s \<longleftrightarrow> a \<in> set (activations s) \<and> up_to_date oid a s \<and>
     (\<exists>r. acts s a = Some r \<and> resolved r) \<and>
     (\<forall>r i fi. acts s a = Some r \<longrightarrow> func_info r = Some i \<longrightarrow> infos s i = Some fi \<longrightarrow>
        fi_retset fi \<longrightarrow> value_per_call cs)"

lemma since_frame: "cinv s \<Longrightarrow> frame {n. next_addr s \<le> n} s s' \<Longrightarrow> frame {} s s'"
  using active_old by (fastforce simp: frame_def)

lemma wpt_newactivation:
  assumes "cinv s"
  shows "wpt pllua_newactivation
    (\<lambda>a s'. a = next_addr s \<and> cinv s' \<and> frame (since s) s s' \<and> a \<in> set (activations s'))
    E P s"
proof -
  let ?n = "next_addr s"
  have p: "inv_acts s" "inv_infos s" "inv_inj s" "inv_funcs s" "inv_stack s" "inv_fresh s"
    using assms by (simp_all add: cinv_def)
  have na: "?n \<notin> set (activations s)" using active_old [OF assms, of ?n] by blast
  show ?thesis
    using p na active_old [OF assms]
    by (simp add: pllua_newactivation_def cinv_def frame_def unowned_def)
      (auto simp: inv_defs act_ok_def)
qed

definition own_of :: "nat option \<Rightarrow> cst \<Rightarrow> nat set" where
  "own_of fn_extra s = (case fn_extra of None \<Rightarrow> since s | Some a \<Rightarrow> {a})"

lemma frame_own_of:
  assumes "frame (own_of x s) s t" "frame {a} t u" "a \<in> own_of x s"
  shows "frame (own_of x s) s u"
  using assms frame_mono [of "{a}" t u "own_of x s"] frame_trans by blast

context user_code begin

lemma finish_push_wpt:
  assumes "cinv s" "a \<in> set (activations s)" "up_to_date oid a s"
  shows "wpt (post_compile cat cs a)
    (\<lambda>r s'. r = Some a \<and> cinv s' \<and> frame {a} s s' \<and> ready cs oid a s')
    (\<lambda>_ _ _. False) (\<lambda>_ s'. cinv s' \<and> frame {a} s s') s"
proof -
  from assms(3) obtain p r i fi where u: "procs s oid = Some p" "acts s a = Some r"
      "func_info r = Some i" "infos s i = Some fi" "pllua_function_valid (Some fi) p"
    by (auto simp: up_to_date_def)
  have ok: "act_ok (fobjs s) r"
    using assms(1,2) u(2) by (auto simp: cinv_def inv_acts_def)
  show ?thesis
  proof (cases "fi_retset fi \<and> \<not> value_per_call cs")
    case True
    with u assms show ?thesis by (simp add: post_compile_def)
  next
    case False
    have "wpt (pllua_resolve_activation cat cs a i fi)
      (\<lambda>_ s'. cinv s' \<and> frame {a} s s' \<and> ready cs oid a s')
      (\<lambda>_ _ _. False) (\<lambda>_ s'. cinv s' \<and> frame {a} s s') s"
    proof (rule wpt_mono [OF wpt_resolve [OF u(2)]], goal_cases)
      case (1 x s')
      then obtain r' where s': "s' = s\<lparr>acts := (acts s)(a \<mapsto> r')\<rparr>" and r': "func_info r' = Some i"
          "func_member r' = func_member r" "resolved r'"
          "r' = r \<or> argtypes r' = SharedWith i \<or> (\<exists>ts. argtypes r' = OwnCopy ts)"
        using u(3) by auto
      have "cinv s'"
        unfolding s' by (rule cinv_set_act [OF assms(1) u(2)]) (use r' u(3) in \<open>auto simp: act_ok_def\<close>)
      moreover have "frame {a} s s'" unfolding s' by (rule frame_set_act) simp
      moreover have "ready cs oid a s'"
        using s' r' u assms(2) False by (auto simp: ready_def up_to_date_def)
      ultimately show ?case by blast
    next
      case (3 e s')
      then obtain r' where s': "s' = s\<lparr>acts := (acts s)(a \<mapsto> r')\<rparr>" and r': "func_info r' = Some i"
          "func_member r' = func_member r" "\<not> resolved r'"
        using u(3) by auto
      have "cinv s'"
        unfolding s' by (rule cinv_set_act [OF assms(1) u(2)]) (use r' u(3) in \<open>auto simp: act_ok_def\<close>)
      moreover have "frame {a} s s'" unfolding s' by (rule frame_set_act) simp
      ultimately show ?case by blast
    qed simp
    then show ?thesis
      using False u assms(1) by (auto simp: post_compile_def)
  qed
qed

lemma validate_and_push_wpt:
  assumes "cinv s"
  shows "wpt (pllua_validate_and_push n cat load user cs trustd oid fn_extra)
    (\<lambda>r s'. cinv s' \<and> frame (own_of fn_extra s) s s' \<and>
       (\<forall>a. r = Some a \<longrightarrow> ready cs oid a s' \<and> a \<in> own_of fn_extra s))
    (\<lambda>_ _ _. False) (\<lambda>_ s'. cinv s' \<and> frame (own_of fn_extra s) s s') s"
proof -
  have rest: "wpt (bindm (validate_loop n cat load user cs trustd oid a) (\<lambda>done.
     if \<not> done then ret None else post_compile cat cs a))
    (\<lambda>r s'. cinv s' \<and> frame (own_of fn_extra s) s s' \<and>
       (\<forall>a. r = Some a \<longrightarrow> ready cs oid a s' \<and> a \<in> own_of fn_extra s))
    (\<lambda>_ _ _. False) (\<lambda>_ s'. cinv s' \<and> frame (own_of fn_extra s) s s') s1"
    if s1: "cinv s1" "frame (own_of fn_extra s) s s1" "a \<in> set (activations s1)"
      "a \<in> own_of fn_extra s" for s1 a
  proof (subst wpt_bindm, rule wpt_mono [OF validate_loop_wpt [OF s1(1,3)]], goal_cases)
    case (1 fin s2)
    then have s2: "cinv s2" "frame {a} s1 s2" "a \<in> set (activations s2)"
      using s1(3) by (auto simp: frame_def)
    note f2 = frame_own_of [OF s1(2) s2(2) s1(4)]
    show ?case
    proof (cases fin)
      case True
      with 1 have "up_to_date oid a s2" by blast
      show ?thesis
        using True
        by (simp, intro wpt_mono [OF finish_push_wpt [OF s2(1,3) \<open>up_to_date oid a s2\<close>]])
          (auto intro: frame_own_of [OF f2] s1(4))
    next
      case False
      with f2 s2(1) show ?thesis by simp
    qed
  next
    case (3 e s2)
    then show ?case using frame_own_of [OF s1(2) _ s1(4)] by blast
  qed simp
  show ?thesis
  proof (cases fn_extra)
    case None
    show ?thesis
      unfolding pllua_validate_and_push_def None option.case wpt_bindm [of pllua_newactivation]
    proof (rule wpt_mono [OF wpt_newactivation [OF assms]], goal_cases)
      case (1 a s1)
      then show ?case by (intro rest [unfolded None]) (auto simp: own_of_def)
    qed assumption+
  next
    case (Some a)
    show ?thesis
    proof (cases "a \<in> set (activations s)")
      case True
      with rest [OF assms _ True, unfolded Some] assms show ?thesis
        unfolding pllua_validate_and_push_def Some option.case by (simp add: own_of_def)
    next
      case False
      with assms Some show ?thesis by (simp add: pllua_validate_and_push_def)
    qed
  qed
qed

end

subsection \<open>User code keeps the contract\<close>

lemma run_uprog_wpt:
  assumes call: "\<And>s cs trustd oid. cinv s \<Longrightarrow> wpt (call cs trustd oid None)
      (\<lambda>r s'. cinv s' \<and> frame (since s) s s') (\<lambda>_ _ _. False)
      (\<lambda>_ s'. cinv s' \<and> frame (since s) s s') s"
    and "cinv s"
  shows "wpt (run_uprog call p) (\<lambda>_ s'. cinv s' \<and> frame {} s s') (\<lambda>_ _ _. False) (\<lambda>_ _. False) s"
  using assms(2)
proof (induction p arbitrary: s)
  case (Replace oid q k)
  have "cinv (s\<lparr>procs := (procs s)(oid := q)\<rparr>)"
    using Replace.prems by (simp add: cinv_def inv_defs)
  from Replace.IH [OF this] show ?case
    by (simp add: frame_def unowned_def)
next
  case (Collect which k)
  show ?case
  proof (simp, rule wpt_mono [OF gc_wpt [OF Collect.prems]], goal_cases)
    case (1 x s')
    then show ?case
      by (intro wpt_mono [OF Collect.IH [of s']]) (auto intro: frame_trans)
  qed assumption+
next
  case (CallFunction cs trustd oid k)
  have ends: "wpt (bindm (end_query (next_addr s) (lstack s)) (\<lambda>_. K))
      (\<lambda>_ s'. cinv s' \<and> frame {} s s') (\<lambda>_ _ _. False) (\<lambda>_ _. False) s'"
    if "cinv s'" "frame (since s) s s'"
      "\<And>t. cinv t \<Longrightarrow> frame {} s t \<Longrightarrow>
        wpt K (\<lambda>_ s'. cinv s' \<and> frame {} s s') (\<lambda>_ _ _. False) (\<lambda>_ _. False) t" for s' K
    by (simp, rule wpt_mono [OF end_query_wpt [OF CallFunction.prems that(1,2)]])
      (use that(3) in auto)
  have k: "wpt (run_uprog call k) (\<lambda>_ s'. cinv s' \<and> frame {} s s') (\<lambda>_ _ _. False) (\<lambda>_ _. False) t"
    if "cinv t" "frame {} s t" for t
    by (rule wpt_mono [OF CallFunction.IH [OF that(1)]]) (use that(2) in \<open>auto intro: frame_trans\<close>)
  have ends_ret: "wpt (bindm (end_query (next_addr s) (lstack s)) (\<lambda>_. ret x))
      (\<lambda>_ s'. cinv s' \<and> frame {} s s') (\<lambda>_ _ _. False) (\<lambda>_ _. False) s'"
    if "cinv s'" "frame (since s) s s'" for s' x
    by (rule ends [OF that]) simp
  obtain res s' where c: "call cs trustd oid None s = (res, s')" by fastforce
  note post = call [OF CallFunction.prems, of cs trustd oid, unfolded wpt_def c]
  note goal = wpt_def [of "\<lambda>s. case call cs trustd oid None s of x \<Rightarrow> f x" for f]
  show ?case
  proof (cases res)
    case (Ret x)
    with post have s': "cinv s'" "frame (since s) s s'" by simp_all
    show ?thesis
    proof (cases x)
      case None
      from ends_ret [OF s', of "StringError ''interrupted''", unfolded wpt_def] Ret None c
      show ?thesis by (simp add: goal wpt_def)
    next
      case (Some a)
      from ends [OF s' k, unfolded wpt_def] Ret Some c
      show ?thesis by (simp add: goal wpt_def)
    qed
  next
    case (PgThrow e)
    with post have s': "cinv s'" "frame (since s) s s'" by simp_all
    from ends_ret [OF s', of "PgError e", unfolded wpt_def] PgThrow c
    show ?thesis by (simp add: goal wpt_def)
  qed (use post in simp_all)
qed simp

lemma user_at_code: "user_code (user_at d n cat load chunk)"
proof (induction d)
  case 0
  show ?case by standard simp
next
  case (Suc d)
  show ?case
  proof
    fix s p assume "cinv s"
    then show "wpt (user_at (Suc d) n cat load chunk p) (\<lambda>_ s'. cinv s' \<and> frame {} s s')
        (\<lambda>_ _ _. False) (\<lambda>_ _. False) s"
      unfolding user_at.simps
    proof (rule run_uprog_wpt [rotated])
      fix s cs trustd oid assume "cinv s"
      from user_code.validate_and_push_wpt [OF Suc.IH this, of n cat load cs trustd oid None]
      show "wpt (pllua_validate_and_push n cat load (user_at d n cat load chunk) cs trustd oid None)
          (\<lambda>r s'. cinv s' \<and> frame (since s) s s') (\<lambda>_ _ _. False)
          (\<lambda>_ s'. cinv s' \<and> frame (since s) s s') s"
        by (rule wpt_mono) (auto simp: own_of_def)
    qed
  qed
qed

interpretation ua: user_code "user_at d n cat load chunk" for d n cat load chunk
  by (rule user_at_code)

end
