(* ===== verification/Funcache_Ends.thy ===== *)
theory Funcache_Ends
  imports Funcache_Inv
begin

text \<open>
  Why the loop that makes an activation current ends: the locale \<open>stable_user\<close> adds to the
  contract of user code that it leaves one function's catalog row alone.
\<close>

subsection \<open>The loop ends\<close>

text \<open>
  When nothing replaces the function, an entry that appears in the table while its chunk runs
  is current, and the loop ends in its second iteration.
\<close>

definition entry_current :: "oid \<Rightarrow> pg_proc \<Rightarrow> cst \<Rightarrow> bool" where
  "entry_current oid p s \<longleftrightarrow> procs s oid = Some p \<and>
     (\<forall>f. funcs s oid = Some f \<longrightarrow>
        (\<exists>fo i fi. fobjs s f = Some fo \<and> fo_info fo = Some i \<and> infos s i = Some fi \<and>
           pllua_function_valid (Some fi) p))"

lemma entry_current_keep:
  assumes "entry_current oid p s" "procs s' oid = procs s oid" "funcs s' oid = funcs s oid"
    and "\<And>f fo i. funcs s oid = Some f \<Longrightarrow> fobjs s f = Some fo \<Longrightarrow> fo_info fo = Some i \<Longrightarrow>
           (\<exists>fo'. fobjs s' f = Some fo' \<and> fo_info fo' = Some i) \<and> infos s' i = infos s i"
  shows "entry_current oid p s'"
  unfolding entry_current_def
proof (intro conjI allI impI)
  fix f assume "funcs s' oid = Some f"
  with assms(3) have f: "funcs s oid = Some f" by simp
  with assms(1) obtain fo i fi where "fobjs s f = Some fo"
      "fo_info fo = Some i" "infos s i = Some fi" "pllua_function_valid (Some fi) p"
    unfolding entry_current_def by blast
  with f assms(4) show "\<exists>fo i fi. fobjs s' f = Some fo \<and> fo_info fo = Some i \<and> infos s' i = Some fi \<and>
           pllua_function_valid (Some fi) p"
    by fastforce
qed (use assms in \<open>simp add: entry_current_def\<close>)

lemma entry_current_gc:
  assumes "cinv s" "f \<notin> reachable_fobjs s" "entry_current oid p s"
  shows "entry_current oid p (pllua_funcobject_gc f s)"
proof (rule entry_current_keep [OF assms(3)])
  fix g fo i assume g: "funcs s oid = Some g" "fobjs s g = Some fo" "fo_info fo = Some i"
  with assms(2) have "g \<noteq> f" by (auto simp: reachable_fobjs_def ran_def)
  moreover have "j \<noteq> i" if "fobjs s f = Some fo'" "fo_info fo' = Some j" for fo' j
    using assms(1) g that \<open>g \<noteq> f\<close> unfolding cinv_def inv_inj_def by blast
  ultimately show "(\<exists>fo'. fobjs (pllua_funcobject_gc f s) g = Some fo' \<and> fo_info fo' = Some i) \<and>
      infos (pllua_funcobject_gc f s) i = infos s i"
    using g by (auto simp: pllua_funcobject_gc_def split: option.splits)
qed (auto simp: pllua_funcobject_gc_def split: option.splits)

lemma entry_current_gc_fold:
  assumes "cinv s" "set fs \<inter> reachable_fobjs s = {}" "entry_current oid p s"
  shows "entry_current oid p (fold pllua_funcobject_gc fs s)"
  using assms
proof (induction fs arbitrary: s)
  case (Cons f fs)
  then show ?case using gc_one [of s f] entry_current_gc [of s f] by auto
qed simp

lemma entry_current_same:
  "entry_current oid p s \<Longrightarrow> procs s' = procs s \<Longrightarrow> funcs s' = funcs s \<Longrightarrow> fobjs s' = fobjs s \<Longrightarrow>
   infos s' = infos s \<Longrightarrow> entry_current oid p s'"
  by (simp add: entry_current_def)

lemma wpt_resolve_same:
  assumes "acts s a = Some r"
  shows "wpt (pllua_resolve_activation cat cs a i fi)
    (\<lambda>_ s'. \<exists>r'. s' = s\<lparr>acts := (acts s)(a \<mapsto> r')\<rparr> \<and> func_info r' = func_info r)
    (\<lambda>_ _ _. False) (\<lambda>_ s'. \<exists>r'. s' = s\<lparr>acts := (acts s)(a \<mapsto> r')\<rparr>) s"
  by (rule wpt_mono [OF wpt_resolve [OF assms]]) blast+

locale stable_user = user_code +
  fixes oid0 :: oid and p0 :: pg_proc
  assumes user_stable:
    "cinv s \<Longrightarrow> entry_current oid0 p0 s \<Longrightarrow>
     wpt (user p) (\<lambda>_ s'. entry_current oid0 p0 s') (\<lambda>_ _ _. False) (\<lambda>_ _. False) s"
begin

lemma compile_stable:
  assumes "cinv s" "entry_current oid0 p0 s"
  shows "wpt (pllua_compile load user procTup fi ci) (\<lambda>_ s'. entry_current oid0 p0 s')
    (\<lambda>_ _ _. False) (\<lambda>_ _. False) s"
proof -
  let ?f = "next_addr s"
  let ?s1 = "s\<lparr>next_addr := Suc ?f, fobjs := (fobjs s)(?f \<mapsto> \<lparr>fo_info = None, fo_member = None\<rparr>),
               lstack := ?f # lstack s\<rparr>"
  have nf: "fobjs s ?f = None" using assms(1) by (simp add: cinv_def inv_fresh_def)
  have c1: "cinv ?s1" by (rule cinv_new_object [OF assms(1)])
  have e1: "entry_current oid0 p0 ?s1"
    by (rule entry_current_keep [OF assms(2)]) (use nf in auto)
  have pop: "entry_current oid0 p0 (t\<lparr>lstack := l\<rparr>)" if "entry_current oid0 p0 t" for t l
    by (rule entry_current_same [OF that]) simp_all
  show ?thesis
  proof (cases "load (pllua_source fi ci)")
    case (Some msg)
    with pop [OF e1, of "tl (lstack ?s1)"] show ?thesis by (simp add: pllua_compile_def)
  next
    case None
    from user_stable [OF c1 e1, of procTup] show ?thesis
      using None
    proof (simp add: pllua_compile_def, elim wpt_mono, goal_cases)
      case (1 ru s')
      then have e': "entry_current oid0 p0 s'" by simp
      have m: "entry_current oid0 p0 (s'\<lparr>fobjs := (fobjs s')(?f := map_option (\<lambda>fo. fo\<lparr>fo_member := Some v\<rparr>) (fobjs s' ?f))\<rparr>)" for v
        by (rule entry_current_keep [OF e']) auto
      show ?case by (cases ru) (use e' m pop in auto)
    qed simp_all
  qed
qed

end

context stable_user begin

text \<open>
  Compiling any function keeps the entry current; compiling this one leaves one in the table.
\<close>

lemma recompile_stable:
  assumes "cinv s" "a \<in> set (activations s)" "entry_current oid0 p0 s"
    and q: "oid = oid0 \<Longrightarrow> procTup = p0"
  shows "wpt (recompile cat load user cs trustd oid a procTup)
    (\<lambda>_ s'. entry_current oid0 p0 s' \<and>
       (oid = oid0 \<longrightarrow> funcs s' oid \<noteq> None \<and> (\<exists>r. acts s' a = Some r \<and> func_info r = None)))
    (\<lambda>_ _ _. False)
    (\<lambda>_ s'. entry_current oid0 p0 s') s"
proof -
  from assms(1,2) obtain r where r: "acts s a = Some r" "act_ok (fobjs s) r" by (rule cinv_act)
  let ?r1 = "r\<lparr>resolved := False, func_info := None\<rparr>"
  let ?s1 = "s\<lparr>acts := (acts s)(a \<mapsto> ?r1)\<rparr>"
  have c1: "cinv ?s1"
    by (rule cinv_set_act [OF assms(1) r(1)]) (simp add: act_ok_def)
  have e1: "entry_current oid0 p0 ?s1" by (rule entry_current_same [OF assms(3)]) simp_all
  show ?thesis
  proof (cases "pllua_load_from_proctup cat oid procTup trustd")
    case (Inl e)
    with load_fail [OF Inl] e1 r show ?thesis by (auto simp: recompile_def)
  next
    case (Inr ld)
    obtain fi ci where ld: "pllua_load_from_proctup cat oid procTup trustd = Inr (fi, ci)"
      using Inr by (cases ld) auto
    have vf: "pllua_function_valid (Some fi) procTup"
      using ld by (auto simp: pllua_load_from_proctup_def bindR_eq_Inr pllua_function_valid_def
          split: option.splits)
    let ?i = "next_addr ?s1"
    let ?s2 = "?s1\<lparr>next_addr := Suc ?i, infos := (infos ?s1)(?i \<mapsto> fi)\<rparr>"
    from cinv_add_info [OF c1, of fi] have c2: "cinv ?s2" and u2: "unowned ?s2 ?i"
      by (simp_all add: unowned_def)
    have r2: "acts ?s2 a = Some ?r1" "a \<in> set (activations ?s2)" using assms by simp_all
    have e2: "entry_current oid0 p0 ?s2"
      by (rule entry_current_keep [OF e1]) (use u2 in \<open>auto simp: unowned_def\<close>)
    let ?N = "\<lambda>break s'. entry_current oid0 p0 s' \<and>
       (oid = oid0 \<longrightarrow> funcs s' oid \<noteq> None \<and> (\<exists>r. acts s' a = Some r \<and> func_info r = None))"
    have "wpt (pllua_resolve_activation cat cs a ?i fi)
        (\<lambda>_. wpt (pllua_compile load user procTup fi ci) (\<lambda>rc. wpt (finish_compile oid a ?i rc)
           ?N (\<lambda>_ _ _. False) (\<lambda>_ s'. entry_current oid0 p0 s'))
           (\<lambda>_ _ _. False) (\<lambda>_ s'. entry_current oid0 p0 s'))
        (\<lambda>_ _ _. False) (\<lambda>_ s'. entry_current oid0 p0 s') ?s2"
    proof (rule wpt_mono [OF wpt_resolve [OF r2(1)]], goal_cases)
      case (1 u s3)
      then obtain r3 where s3: "s3 = ?s2\<lparr>acts := (acts ?s2)(a \<mapsto> r3)\<rparr>" and r3: "func_info r3 = None"
          "func_member r3 = func_member r"
        by auto
      have c3: "cinv s3"
        unfolding s3 by (rule cinv_set_act [OF c2 r2(1)]) (simp add: act_ok_def r3)
      have e3: "entry_current oid0 p0 s3"
        unfolding s3 by (rule entry_current_same [OF e2]) simp_all
      have k3: "infos s3 ?i = Some fi" "unowned s3 ?i" "a \<in> set (activations s3)" "acts s3 a = Some r3"
        using u2 assms by (simp_all add: s3 unowned_def)
      show ?case
      proof (rule wpt_mono [OF wpt_conj [OF compile_stable [OF c3 e3]
              compile_wpt [OF c3 k3(1,2) load_oid [OF ld] k3(3,4) r3(1)]]], goal_cases)
        case (1 rc s4)
        show ?case
        proof (cases rc)
          case (Inl err)
          with 1 have s4: "entry_current oid0 p0 s4" "unowned s4 ?i" by simp_all
          have "entry_current oid0 p0 (s4\<lparr>acts := A, infos := (infos s4)(?i := None)\<rparr>)" for A
            by (rule entry_current_keep [OF s4(1)]) (use s4(2) in \<open>auto simp: unowned_def\<close>)
          with Inl show ?thesis by (simp add: finish_compile_def)
        next
          case (Inr f)
          with 1 obtain fobj where s4: "entry_current oid0 p0 s4" "infos s4 ?i = Some fi"
              "fobjs s4 f = Some fobj" "fo_info fobj = None"
              "frame {} s3 (s4\<lparr>lstack := tl (lstack s4)\<rparr>)"
            by auto
          from s4(5) k3 have a4: "acts s4 a = Some r3" by (auto simp: frame_def)
          let ?t = "s4\<lparr>fobjs := (fobjs s4)(f \<mapsto> fobj\<lparr>fo_info := Some ?i\<rparr>)\<rparr>"
          have et: "entry_current oid0 p0 ?t"
            by (rule entry_current_keep [OF s4(1)]) (use s4(3,4) in auto)
          show ?thesis
          proof (cases "funcs s4 oid")
            case None
            have "entry_current oid0 p0 (?t\<lparr>funcs := (funcs s4)(oid \<mapsto> f), lstack := l\<rparr>)" for l
            proof (cases "oid = oid0")
              case True
              with et s4(2) vf q [OF True] show ?thesis by (simp add: entry_current_def)
            next
              case False
              with et show ?thesis by (simp add: entry_current_def)
            qed
            with None Inr s4 a4 r3 show ?thesis
              by (simp add: finish_compile_def pllua_intern_function_def)
          next
            case (Some g)
            have "entry_current oid0 p0 (?t\<lparr>lstack := l\<rparr>)" for l
              by (rule entry_current_same [OF et]) simp_all
            with Some Inr s4 a4 r3 show ?thesis
              by (auto simp: finish_compile_def pllua_intern_function_def)
          qed
        qed
      qed simp_all
    next
      case (3 e s3)
      then show ?case using entry_current_same [OF e2] by auto
    qed simp
    then show ?thesis
      using r ld by (simp add: recompile_def)
  qed
qed

end

lemma entry_current_act:
  "entry_current oid p s \<Longrightarrow> entry_current oid p (s\<lparr>acts := A\<rparr>)"
  by (rule entry_current_same) simp_all

lemma entry_current_unregister:
  "entry_current oid p s \<Longrightarrow> entry_current oid p (s\<lparr>funcs := (funcs s)(oid' := None)\<rparr>)"
  by (simp add: entry_current_def)

context stable_user begin

lemma validate_step_stable:
  assumes "cinv s" "a \<in> set (activations s)" "entry_current oid0 p0 s"
  shows "wpt (validate_step cat load user cs trustd oid a)
    (\<lambda>break s'. entry_current oid0 p0 s' \<and>
       (oid = oid0 \<longrightarrow> break \<or>
          funcs s' oid \<noteq> None \<and> (\<exists>r. acts s' a = Some r \<and> func_info r = None)))
    (\<lambda>_ _ _. False) (\<lambda>_ s'. entry_current oid0 p0 s') s"
proof (cases "procs s oid")
  case None
  with assms show ?thesis by (simp add: validate_step_def)
next
  case (Some procTup)
  let ?N = "\<lambda>break s'. entry_current oid0 p0 s' \<and>
       (oid = oid0 \<longrightarrow> break \<or>
          funcs s' oid \<noteq> None \<and> (\<exists>r. acts s' a = Some r \<and> func_info r = None))"
  from assms(1,2) obtain r where r: "acts s a = Some r" "act_ok (fobjs s) r" by (rule cinv_act)
  have q: "oid = oid0 \<Longrightarrow> procTup = p0" using Some assms(3) by (simp add: entry_current_def)
  have rec: "wpt (recompile cat load user cs trustd oid a procTup) ?N
      (\<lambda>_ _ _. False) (\<lambda>_ s'. entry_current oid0 p0 s') s'"
    if "cinv s'" "a \<in> set (activations s')" "entry_current oid0 p0 s'" for s'
    by (rule wpt_mono [OF recompile_stable [OF that q]]) auto
  have miss: "wpt (bindm (gets (\<lambda>s. funcs s oid)) (\<lambda>cached.
           case cached of
             None \<Rightarrow> recompile cat load user cs trustd oid a procTup
           | Some f \<Rightarrow>
               bindm (gets (\<lambda>s. fobjs s f)) (\<lambda>obj.
               bindm (deref_info (case obj of None \<Rightarrow> None | Some fo \<Rightarrow> fo_info fo)) (\<lambda>ffi.
               if pllua_function_valid ffi procTup then
                 bindm (pllua_setactivation a f) (\<lambda>_. ret True)
               else
                 bindm (pllua_intern_function None oid) (\<lambda>_.
                 recompile cat load user cs trustd oid a procTup)))))
      ?N (\<lambda>_ _ _. False) (\<lambda>_ s'. entry_current oid0 p0 s') s"
  proof (cases "funcs s oid")
    case None
    with rec [OF assms] show ?thesis by simp
  next
    case F: (Some f)
    with assms(1) obtain fo i fi where f: "fobjs s f = Some fo" "fo_info fo = Some i"
        "infos s i = Some fi"
      unfolding cinv_def inv_funcs_def by blast
    show ?thesis
    proof (cases "pllua_function_valid (Some fi) procTup")
      case True
      with F f assms(2) entry_current_act [OF assms(3)] show ?thesis
        by (simp add: pllua_setactivation_def)
    next
      case False
      with rec [OF cinv_unregister [OF assms(1)]] entry_current_unregister [OF assms(3)]
        assms(2) F f show ?thesis
        by (simp add: pllua_intern_function_def)
    qed
  qed
  show ?thesis
  proof (cases "func_info r")
    case None
    with miss r Some show ?thesis by (simp add: validate_step_def)
  next
    case I: (Some i)
    with cinv_live [OF assms(1,2) r(1) I] obtain fi where fi: "infos s i = Some fi" by blast
    show ?thesis
    proof (cases "pllua_function_valid (Some fi) procTup")
      case True
      with Some r I fi assms(3) show ?thesis by (simp add: validate_step_def)
    next
      case False
      with miss Some r I fi show ?thesis by (simp add: validate_step_def)
    qed
  qed
qed

lemma validate_loop_stable:
  assumes "cinv s" "a \<in> set (activations s)" "entry_current oid0 p0 s"
  shows "wpt (validate_loop n cat load user cs trustd oid a) (\<lambda>_ s'. entry_current oid0 p0 s')
    (\<lambda>_ _ _. False) (\<lambda>_ s'. entry_current oid0 p0 s') s"
  using assms
proof (induction n arbitrary: s)
  case (Suc n)
  show ?case
  proof (simp, rule wpt_mono [OF wpt_conj [OF validate_step_wpt [OF Suc.prems(1,2)]
          validate_step_stable [OF Suc.prems]]], goal_cases)
    case (1 break s')
    then show ?case
      using Suc.IH [of s'] Suc.prems(2) by (auto simp: frame_def)
  qed simp_all
qed simp

text \<open>A table entry that is current ends the loop at once.\<close>

lemma validate_step_hit:
  assumes "cinv s" "a \<in> set (activations s)" "entry_current oid0 p0 s"
    and "funcs s oid0 = Some f" "acts s a = Some r" "func_info r = None"
  shows "wpt (validate_step cat load user cs trustd oid0 a) (\<lambda>break _. break)
    (\<lambda>_ _ _. False) (\<lambda>_ _. False) s"
proof -
  from assms(3,4) obtain fo i fi where f: "fobjs s f = Some fo" "fo_info fo = Some i"
      "infos s i = Some fi" "pllua_function_valid (Some fi) p0" "procs s oid0 = Some p0"
    unfolding entry_current_def by blast
  with assms show ?thesis
    by (simp add: validate_step_def pllua_setactivation_def)
qed

lemma validate_step_first:
  assumes "cinv s" "a \<in> set (activations s)" "procs s oid0 = Some p0"
  shows "wpt (validate_step cat load user cs trustd oid0 a)
    (\<lambda>break s'. break \<or> entry_current oid0 p0 s' \<and>
          funcs s' oid0 \<noteq> None \<and> (\<exists>r. acts s' a = Some r \<and> func_info r = None))
    (\<lambda>_ _ _. False) (\<lambda>_ _. True) s"
proof (cases "entry_current oid0 p0 s")
  case True
  show ?thesis by (rule wpt_mono [OF validate_step_stable [OF assms(1,2) True]]) auto
next
  case False
  let ?N = "\<lambda>break s'. break \<or> entry_current oid0 p0 s' \<and>
          funcs s' oid0 \<noteq> None \<and> (\<exists>r. acts s' a = Some r \<and> func_info r = None)"
  from assms(1,2) obtain r where r: "acts s a = Some r" "act_ok (fobjs s) r" by (rule cinv_act)
  from False assms(3) obtain f where F: "funcs s oid0 = Some f"
    unfolding entry_current_def by blast
  with assms(1) obtain fo i fi where f: "fobjs s f = Some fo" "fo_info fo = Some i"
      "infos s i = Some fi"
    unfolding cinv_def inv_funcs_def by blast
  with False F assms(3) have nv: "\<not> pllua_function_valid (Some fi) p0"
    unfolding entry_current_def by auto
  let ?s = "s\<lparr>funcs := (funcs s)(oid0 := None)\<rparr>"
  have "entry_current oid0 p0 ?s" using assms(3) by (simp add: entry_current_def)
  from recompile_stable [OF cinv_unregister [OF assms(1)] _ this, of a oid0 p0 cat load cs trustd] assms(2)
  have rec: "wpt (recompile cat load user cs trustd oid0 a p0) ?N (\<lambda>_ _ _. False) (\<lambda>_ _. True) ?s"
    by (auto elim: wpt_mono)
  show ?thesis
  proof (cases "func_info r")
    case None
    with rec r F f nv assms(3) show ?thesis
      by (simp add: validate_step_def pllua_intern_function_def)
  next
    case I: (Some j)
    with cinv_live [OF assms(1,2) r(1) I] obtain fj where "infos s j = Some fj" by blast
    with rec r F f nv assms(3) I show ?thesis
      by (simp add: validate_step_def pllua_intern_function_def)
  qed
qed

lemma validate_loop_ends:
  assumes "cinv s" "a \<in> set (activations s)" "procs s oid0 = Some p0"
  shows "wpt (validate_loop (Suc (Suc n)) cat load user cs trustd oid0 a) (\<lambda>fin _. fin)
    (\<lambda>_ _ _. False) (\<lambda>_ _. True) s"
proof (subst validate_loop.simps(2), subst wpt_bindm,
    rule wpt_mono [OF wpt_conj [OF validate_step_wpt [OF assms(1,2)]
      validate_step_first [OF assms]]], goal_cases)
  case (1 break s')
  show ?case
  proof (cases break)
    case False
    with 1 assms(2) obtain f r where s': "cinv s'" "a \<in> set (activations s')"
        "entry_current oid0 p0 s'" "funcs s' oid0 = Some f" "acts s' a = Some r" "func_info r = None"
      by (auto simp: frame_def)
    with False show ?thesis
      by (simp, intro wpt_mono [OF validate_step_hit [OF s']]) simp_all
  qed simp
qed simp_all

lemma post_compile_returns:
  assumes "cinv s" "a \<in> set (activations s)" "up_to_date oid a s"
  shows "wpt (post_compile cat cs a) (\<lambda>r _. r \<noteq> None) (\<lambda>_ _ _. False) (\<lambda>_ _. True) s"
  by (rule wpt_mono [OF finish_push_wpt [OF assms]]) auto

lemma validate_and_push_ends:
  assumes "cinv s" "procs s oid0 = Some p0"
  shows "wpt (pllua_validate_and_push (Suc (Suc n)) cat load user cs trustd oid0 fn_extra)
    (\<lambda>r _. r \<noteq> None) (\<lambda>_ _ _. False) (\<lambda>_ _. True) s"
proof -
  have rest: "wpt (bindm (validate_loop (Suc (Suc n)) cat load user cs trustd oid0 a) (\<lambda>done.
     if \<not> done then ret None else post_compile cat cs a))
    (\<lambda>r _. r \<noteq> None) (\<lambda>_ _ _. False) (\<lambda>_ _. True) s1"
    if s1: "cinv s1" "a \<in> set (activations s1)" "procs s1 oid0 = Some p0" for s1 a
  proof (subst wpt_bindm, rule wpt_mono [OF wpt_conj [OF validate_loop_wpt [OF s1(1,2)]
          validate_loop_ends [OF s1]]], goal_cases)
    case (1 fin s2)
    then have "a \<in> set (activations s2)" "fin" using s1(2) by (auto simp: frame_def)
    with 1 post_compile_returns [of s2 a oid0 cat cs] show ?case by simp
  qed simp_all
  show ?thesis
  proof (cases fn_extra)
    case None
    have new: "wpt pllua_newactivation (\<lambda>a s'. procs s' oid0 = Some p0) E P s" for E P
      by (simp add: pllua_newactivation_def assms)
    show ?thesis
      unfolding pllua_validate_and_push_def None option.case wpt_bindm [of pllua_newactivation]
      by (rule wpt_mono [OF wpt_conj [OF wpt_newactivation [OF assms(1),
              where E = "\<lambda>_ _ _. False" and P = "\<lambda>_ _. False"] new]], rule rest) auto
  next
    case (Some a)
    show ?thesis
      using rest [OF assms(1) _ assms(2), of a] Some
      by (cases "a \<in> set (activations s)") (simp_all add: pllua_validate_and_push_def)
  qed
qed

lemma post_compile_stable:
  assumes "cinv s" "a \<in> set (activations s)" "up_to_date oid a s" "entry_current oid0 p0 s"
  shows "wpt (post_compile cat cs a) (\<lambda>_ s'. entry_current oid0 p0 s')
    (\<lambda>_ _ _. False) (\<lambda>_ s'. entry_current oid0 p0 s') s"
proof -
  from assms(3) obtain p r i fi where u: "procs s oid = Some p" "acts s a = Some r"
      "func_info r = Some i" "infos s i = Some fi"
    by (auto simp: up_to_date_def)
  have "wpt (pllua_resolve_activation cat cs a i fi) (\<lambda>_ s'. entry_current oid0 p0 s')
      (\<lambda>_ _ _. False) (\<lambda>_ s'. entry_current oid0 p0 s') s"
    by (rule wpt_mono [OF wpt_resolve [OF u(2)]]) (use entry_current_act [OF assms(4)] in auto)
  with u assms(4) show ?thesis by (auto simp: post_compile_def)
qed

lemma validate_and_push_stable:
  assumes "cinv s" "entry_current oid0 p0 s"
  shows "wpt (pllua_validate_and_push n cat load user cs trustd oid None)
    (\<lambda>_ s'. entry_current oid0 p0 s') (\<lambda>_ _ _. False) (\<lambda>_ s'. entry_current oid0 p0 s') s"
proof -
  have new: "wpt pllua_newactivation (\<lambda>a s'. entry_current oid0 p0 s') E P s" for E P
    by (simp add: pllua_newactivation_def) (rule entry_current_same [OF assms(2)]; simp)
  show ?thesis
    unfolding pllua_validate_and_push_def option.case wpt_bindm [of pllua_newactivation]
  proof (rule wpt_mono [OF wpt_conj [OF
        wpt_newactivation [OF assms(1), where E = "\<lambda>_ _ _. False" and P = "\<lambda>_ _. False"] new]],
      goal_cases)
    case (1 a s1)
    then have s1: "cinv s1" "a \<in> set (activations s1)" "entry_current oid0 p0 s1" by blast+
    show ?case
    proof (subst wpt_bindm, rule wpt_mono [OF wpt_conj [OF validate_loop_wpt [OF s1(1,2)]
            validate_loop_stable [OF s1]]], goal_cases)
      case (1 fin s2)
      then have "a \<in> set (activations s2)" using s1(2) by (auto simp: frame_def)
      with 1 show ?case by (cases fin) (auto intro: post_compile_stable)
    qed simp_all
  qed simp_all
qed

end

subsection \<open>Programs that leave a function alone\<close>

primrec leaves_alone :: "oid \<Rightarrow> uprog \<Rightarrow> bool" where
  "leaves_alone oid (Finish r) = True"
| "leaves_alone oid (Replace oid' p k) = (oid' \<noteq> oid \<and> leaves_alone oid k)"
| "leaves_alone oid (Collect which k) = leaves_alone oid k"
| "leaves_alone oid (CallFunction cs trustd oid' k) = leaves_alone oid k"

lemma entry_current_end_query:
  assumes "cinv s" "entry_current oid p s"
  shows "wpt (end_query base st) (\<lambda>_ s'. entry_current oid p s') E P s"
proof -
  let ?xs = "filter (\<lambda>a. base \<le> a) (activations s)"
  have pf: "procs (fold pllua_freeactivation xs s) = procs s \<and>
      funcs (fold pllua_freeactivation xs s) = funcs s" for xs
    by (induction xs arbitrary: s) (simp_all add: pllua_freeactivation_def)
  from fold_free [OF assms(1), of ?xs] pf [of ?xs] show ?thesis
    unfolding end_query_def wpt_modify by (intro entry_current_same [OF assms(2)]) simp_all
qed

lemma run_uprog_stable:
  assumes call: "\<And>s cs trustd oid. cinv s \<Longrightarrow> wpt (call cs trustd oid None)
      (\<lambda>r s'. cinv s' \<and> frame (since s) s s') (\<lambda>_ _ _. False)
      (\<lambda>_ s'. cinv s' \<and> frame (since s) s s') s"
    and call_stable: "\<And>s cs trustd oid. cinv s \<Longrightarrow> entry_current oid0 p0 s \<Longrightarrow>
      wpt (call cs trustd oid None) (\<lambda>_ s'. entry_current oid0 p0 s') (\<lambda>_ _ _. False)
        (\<lambda>_ s'. entry_current oid0 p0 s') s"
    and "cinv s" "entry_current oid0 p0 s" "leaves_alone oid0 p"
  shows "wpt (run_uprog call p) (\<lambda>_ s'. entry_current oid0 p0 s') (\<lambda>_ _ _. False) (\<lambda>_ _. False) s"
  using assms(3,4,5)
proof (induction p arbitrary: s)
  case (Replace oid q k)
  have "cinv (s\<lparr>procs := (procs s)(oid := q)\<rparr>)"
    using Replace.prems by (simp add: cinv_def inv_defs)
  moreover have "entry_current oid0 p0 (s\<lparr>procs := (procs s)(oid := q)\<rparr>)"
    using Replace.prems by (simp add: entry_current_def)
  ultimately show ?case
    using Replace.IH Replace.prems(3) by simp
next
  case (Collect which k)
  have "wpt (lua_gc which) (\<lambda>_ s'. cinv s' \<and> entry_current oid0 p0 s')
      (\<lambda>_ _ _. False) (\<lambda>_ _. False) s"
    unfolding lua_gc_def wpt_modify
    using gc_fold [OF Collect.prems(1), of "filter (\<lambda>f. f \<notin> reachable_fobjs s) which"]
      entry_current_gc_fold [OF Collect.prems(1) _ Collect.prems(2),
        of "filter (\<lambda>f. f \<notin> reachable_fobjs s) which"]
    by fastforce
  then show ?case
    using Collect.IH Collect.prems(3) by (auto elim: wpt_mono)
next
  case (CallFunction cs trustd oid k)
  have ends: "wpt (bindm (end_query (next_addr s) (lstack s)) (\<lambda>_. K))
      (\<lambda>_ s'. entry_current oid0 p0 s') (\<lambda>_ _ _. False) (\<lambda>_ _. False) s'"
    if "cinv s' \<and> frame (since s) s s'" "entry_current oid0 p0 s'"
      "\<And>t. cinv t \<Longrightarrow> entry_current oid0 p0 t \<Longrightarrow>
        wpt K (\<lambda>_ s'. entry_current oid0 p0 s') (\<lambda>_ _ _. False) (\<lambda>_ _. False) t" for s' K
    using that by (simp, intro wpt_mono [OF wpt_conj [OF end_query_wpt
          [OF CallFunction.prems(1), where E = "\<lambda>_ _ _. False" and P = "\<lambda>_ _. False"]
        entry_current_end_query [where E = "\<lambda>_ _ _. False" and P = "\<lambda>_ _. False"]]]) auto
  have ends_ret: "wpt (bindm (end_query (next_addr s) (lstack s)) (\<lambda>_. ret x))
      (\<lambda>_ s'. entry_current oid0 p0 s') (\<lambda>_ _ _. False) (\<lambda>_ _. False) s'"
    if "cinv s' \<and> frame (since s) s s'" "entry_current oid0 p0 s'" for s' x
    by (rule ends [OF that]) simp
  have k: "wpt (run_uprog call k) (\<lambda>_ s'. entry_current oid0 p0 s') (\<lambda>_ _ _. False) (\<lambda>_ _. False) t"
    if "cinv t" "entry_current oid0 p0 t" for t
    using CallFunction.IH [OF that] CallFunction.prems(3) by simp
  obtain res s' where c: "call cs trustd oid None s = (res, s')" by fastforce
  note post = wpt_conj [OF call [OF CallFunction.prems(1)] call_stable [OF CallFunction.prems(1,2)],
      of cs trustd oid, unfolded wpt_def c]
  note goal = wpt_def [of "\<lambda>s. case call cs trustd oid None s of x \<Rightarrow> f x" for f]
  show ?case
  proof (cases res)
    case (Ret x)
    with post have s': "cinv s' \<and> frame (since s) s s'" "entry_current oid0 p0 s'" by simp_all
    show ?thesis
    proof (cases x)
      case None
      from ends_ret [OF s', of "StringError ''interrupted''", unfolded wpt_def] Ret None c
      show ?thesis by (simp add: goal wpt_def)
    next
      case (Some a)
      from ends [OF s' k, unfolded wpt_def] Ret Some c
      show ?thesis by (simp add: goal wpt_def)
    qed
  next
    case (PgThrow e)
    with post have s': "cinv s' \<and> frame (since s) s s'" "entry_current oid0 p0 s'" by simp_all
    from ends_ret [OF s', of "PgError e", unfolded wpt_def] PgThrow c
    show ?thesis by (simp add: goal wpt_def)
  qed (use post in simp_all)
qed simp

lemma user_at_stable:
  assumes "\<And>p. leaves_alone oid0 (chunk p)"
  shows "stable_user (user_at d n cat load chunk) oid0 p0"
proof (induction d)
  case 0
  show ?case
    by (intro stable_user.intro user_at_code stable_user_axioms.intro) simp
next
  case (Suc d)
  show ?case
  proof (intro stable_user.intro user_at_code stable_user_axioms.intro)
    fix s p assume s: "cinv s" "entry_current oid0 p0 s"
    have call: "wpt (pllua_validate_and_push n cat load (user_at d n cat load chunk) cs trustd oid None)
        (\<lambda>r s'. cinv s' \<and> frame (since s) s s') (\<lambda>_ _ _. False)
        (\<lambda>_ s'. cinv s' \<and> frame (since s) s s') s" if "cinv s" for s cs trustd oid
      by (rule wpt_mono [OF ua.validate_and_push_wpt [OF that]]) (auto simp: own_of_def)
    show "wpt (user_at (Suc d) n cat load chunk p) (\<lambda>_ s'. entry_current oid0 p0 s')
        (\<lambda>_ _ _. False) (\<lambda>_ _. False) s"
      unfolding user_at.simps
      by (rule run_uprog_stable [OF _ _ s assms])
        (erule call, erule (1) stable_user.validate_and_push_stable [OF Suc.IH])
  qed
qed

end
