(* ===== verification/Compile_Props.thy ===== *)
theory Compile_Props
  imports Compile
begin

text \<open>
  Properties of names, parameter lists and the validator: the name check accepts exactly Lua's
  identifiers, and the parameter list of a validated function binds its inputs in call order.
\<close>


subsection \<open>Names\<close>

definition lua_reserved :: "string list" where
  "lua_reserved =
     [''and'', ''break'', ''do'', ''else'', ''elseif'', ''end'', ''false'', ''for'', ''function'',
      ''goto'', ''if'', ''in'', ''local'', ''nil'', ''not'', ''or'', ''repeat'', ''return'',
      ''then'', ''true'', ''until'', ''while'']"

definition lua_identifier :: "string \<Rightarrow> bool" where
  "lua_identifier s \<longleftrightarrow>
     s \<noteq> [] \<and> \<not> digit_char (hd s) \<and> list_all ident_char s \<and> s \<notin> set lua_reserved"

lemma not_reserved_iff: "s \<noteq> [] \<Longrightarrow> not_reserved s \<longleftrightarrow> s \<notin> set lua_reserved"
  by (cases s) (simp_all add: not_reserved_def lua_reserved_def Let_def)

text \<open>The validator's name check accepts exactly the names Lua reads as identifiers: letters,
  digits and underscores, no leading digit, none of the 22 reserved words.\<close>
theorem acceptable_name_iff: "pllua_acceptable_name (Some s) = lua_identifier s"
  by (cases s) (simp_all add: lua_identifier_def not_reserved_iff)

subsection \<open>The parameter list\<close>

fun join_commas :: "string list \<Rightarrow> string" where
  "join_commas [] = []"
| "join_commas [s] = s"
| "join_commas (s # ss) = s @ '','' @ join_commas ss"

lemma join_commas_Cons: "join_commas (s # ss) = s @ concat (map (\<lambda>t. '','' @ t) ss)"
  by (induction ss arbitrary: s) simp_all

text \<open>The names the loop writes: those of the arguments that are not OUT, up to an unnamed one.\<close>

definition param_names :: "(char \<times> string option) list \<Rightarrow> string list" where
  "param_names as =
     takeWhile (\<lambda>s. s \<noteq> '''')
       (map (\<lambda>(m, n). case_option '''' id n) (filter (\<lambda>(m, n). m \<noteq> CHR ''o'') as))"

lemma arglist_loop_eq:
  "arglist_loop as n =
     (case param_names as of
        [] \<Rightarrow> ([], n)
      | p # ps \<Rightarrow> ((if n > 0 then '','' else '''') @ join_commas (p # ps), n + length (p # ps)))"
proof (induction as n rule: arglist_loop.induct)
  case (2 mode name as n)
  show ?case
  proof (cases "mode \<noteq> CHR ''o'' \<and> (\<exists>c cs. name = Some (c # cs))")
    case True
    then obtain c cs where n: "name = Some (c # cs)" "mode \<noteq> CHR ''o''" by auto
    with 2(1) [OF n(2) n(1) refl] show ?thesis
      by (cases "param_names as") (simp_all add: param_names_def join_commas_Cons)
  next
    case False
    show ?thesis
    proof (cases "mode = CHR ''o''")
      case True
      with 2(2) show ?thesis by (simp add: param_names_def)
    next
      case F2: False
      with False have "name = None \<or> name = Some []" by (metis list.exhaust not_None_eq)
      with F2 show ?thesis by (auto simp: param_names_def)
    qed
  qed
qed (simp add: param_names_def)

lemma join_commas_snoc:
  "ps \<noteq> [] \<Longrightarrow> join_commas (ps @ [t]) = join_commas ps @ '','' @ t"
  by (cases ps) (simp_all add: join_commas_Cons)

lemma pllua_arglist_eq:
  assumes "\<not> is_trigger fi" "\<not> is_event_trigger fi" "ci_nargs ci > 0"
    and "argnames ci = Some (Some nm # names)"
    and "ps = param_names (all_args ci (Some nm # names))"
  shows "pllua_arglist fi ci = join_commas (ps @ (if length ps < ci_nargs ci then [''...''] else []))"
  using assms by (auto simp: pllua_arglist_def arglist_loop_eq
      join_commas_snoc [of "_ # _", simplified] split: list.splits)

subsection \<open>What the validator guarantees\<close>

definition input_mode :: "char \<Rightarrow> bool" where
  "input_mode m \<longleftrightarrow> m = CHR ''i'' \<or> m = CHR ''b''"

definition names_of :: "(char \<Rightarrow> bool) \<Rightarrow> (oid \<times> char \<times> string) list \<Rightarrow> string list" where
  "names_of P as = map (snd \<circ> snd) (filter (\<lambda>(t, m, n). P m) as)"

lemma names_of_simps [simp]:
  "names_of P [] = []"
  "names_of P ((t, m, n) # as) = (if P m then n # names_of P as else names_of P as)"
  by (simp_all add: names_of_def)

lemma validate_args_names:
  assumes "validate_args cat as nameless = Inr r"
  shows "\<forall>(t, m, n) \<in> set as. n \<noteq> '''' \<longrightarrow> pllua_acceptable_name (Some n)"
  using assms
  by (induction as arbitrary: nameless)
    (fastforce simp: bindR_eq_Inr validate_arg_def split: if_splits)+


lemma mode_simps [simp]:
  "input_mode (CHR ''i'')" "input_mode (CHR ''b'')" "\<not> input_mode (CHR ''o'')"
  "\<not> input_mode (CHR ''v'')" "\<not> input_mode (CHR ''t'')"
  by (simp_all add: input_mode_def)

lemma validate_arg_input:
  "input_mode m \<Longrightarrow> validate_arg cat (t, m, n) nameless = Inr nl \<Longrightarrow>
   (if n = '''' then nl else \<not> nameless \<and> \<not> nl)"
  by (auto simp: validate_arg_def input_mode_def bindR_eq_Inr split: if_splits)

lemma validate_arg_other:
  "\<not> input_mode m \<Longrightarrow> validate_arg cat (t, m, n) nameless = Inr nl \<Longrightarrow> nl = nameless"
  by (auto simp: validate_arg_def input_mode_def bindR_eq_Inr split: if_splits)

lemma validate_args_prefix:
  assumes "validate_args cat as nameless = Inr r"
  shows "(if nameless then filter (\<lambda>n. n \<noteq> '''') (names_of input_mode as) = []
     else takeWhile (\<lambda>n. n \<noteq> '''') (names_of input_mode as) =
          filter (\<lambda>n. n \<noteq> '''') (names_of input_mode as))"
  using assms
proof (induction as arbitrary: nameless)
  case (Cons a as)
  obtain t m n where a: "a = (t, m, n)" by (cases a)
  from Cons.prems a obtain nl where
    v: "validate_arg cat (t, m, n) nameless = Inr nl" "validate_args cat as nl = Inr r"
    by (auto simp: bindR_eq_Inr)
  show ?case
  proof (cases "input_mode m")
    case True
    from validate_arg_input [OF True v(1)] Cons.IH [OF v(2)] True a show ?thesis
      by (auto split: if_splits)
  next
    case False
    from validate_arg_other [OF False v(1)] Cons.IH [OF v(2)] False a show ?thesis
      by simp
  qed
qed simp

text \<open>
  The shape of a catalog row: as many modes and names as arguments, no null names, the inputs
  in the order IN and INOUT, VARIADIC, with the columns of TABLE at the end.
\<close>

definition row_modes :: "pg_proc \<Rightarrow> string" where
  "row_modes p = (case proargmodes p of
     Some ms \<Rightarrow> ms | None \<Rightarrow> replicate (length (proallargtypes p)) (CHR ''i''))"

definition runtime_mode :: "char \<Rightarrow> bool" where
  "runtime_mode m \<longleftrightarrow> input_mode m \<or> m = CHR ''v''"

lemma runtime_mode_simps [simp]:
  "input_mode m \<Longrightarrow> runtime_mode m" "runtime_mode (CHR ''v'')"
  "\<not> runtime_mode (CHR ''t'')" "\<not> runtime_mode (CHR ''o'')"
  by (simp_all add: runtime_mode_def)

definition proc_row_wf :: "pg_proc \<Rightarrow> bool" where
  "proc_row_wf p \<longleftrightarrow>
     length (row_modes p) = length (proallargtypes p) \<and>
     (case proargnames p of None \<Rightarrow> True
      | Some ns \<Rightarrow> length ns = length (proallargtypes p) \<and> None \<notin> set ns) \<and>
     length (filter runtime_mode (row_modes p)) = length (proargtypes p) \<and>
     dropWhile (\<lambda>m. m = CHR ''t'') (dropWhile (\<lambda>m. m = CHR ''v'')
       (dropWhile input_mode (filter (\<lambda>m. m \<noteq> CHR ''o'') (row_modes p)))) = []"

lemma names_of_append: "names_of P (as @ bs) = names_of P as @ names_of P bs"
  by (simp add: names_of_def)

text \<open>The arguments in order: inputs, then VARIADIC, then columns.\<close>

lemma names_of_columns:
  "dropWhile (\<lambda>m. m = CHR ''t'') (filter (\<lambda>m. m \<noteq> CHR ''o'') (map (fst \<circ> snd) as)) = [] \<Longrightarrow>
   names_of runtime_mode as = [] \<and> names_of input_mode as = [] \<and>
   names_of (\<lambda>m. m \<noteq> CHR ''o'') as = names_of (\<lambda>m. m = CHR ''t'') as"
proof (induction as)
  case (Cons a as)
  obtain t m n where "a = (t, m, n)" by (cases a)
  with Cons show ?case by (cases "m = CHR ''o''") (auto split: if_splits)
qed simp

lemma names_of_variadic:
  "dropWhile (\<lambda>m. m = CHR ''t'') (dropWhile (\<lambda>m. m = CHR ''v'')
     (filter (\<lambda>m. m \<noteq> CHR ''o'') (map (fst \<circ> snd) as))) = [] \<Longrightarrow>
   names_of input_mode as = [] \<and>
   names_of (\<lambda>m. m \<noteq> CHR ''o'') as =
     names_of runtime_mode as @ names_of (\<lambda>m. m = CHR ''t'') as"
proof (induction as)
  case (Cons a as)
  obtain t m n where a: "a = (t, m, n)" by (cases a)
  consider "m = CHR ''o''" | "m = CHR ''v''" | "m \<noteq> CHR ''o''" "m \<noteq> CHR ''v''" by blast
  then show ?case
  proof cases
    case 3
    with Cons.prems a names_of_columns [of "a # as"] show ?thesis by auto
  qed (use Cons a in simp_all)
qed simp

lemma names_of_ordered:
  "dropWhile (\<lambda>m. m = CHR ''t'') (dropWhile (\<lambda>m. m = CHR ''v'')
     (dropWhile input_mode (filter (\<lambda>m. m \<noteq> CHR ''o'') (map (fst \<circ> snd) as)))) = [] \<Longrightarrow>
   names_of (\<lambda>m. m \<noteq> CHR ''o'') as =
     names_of runtime_mode as @ names_of (\<lambda>m. m = CHR ''t'') as \<and>
   (\<exists>vs. names_of runtime_mode as = names_of input_mode as @ vs)"
proof (induction as)
  case (Cons a as)
  obtain t m n where a: "a = (t, m, n)" by (cases a)
  consider "m = CHR ''o''" | "input_mode m" | "m \<noteq> CHR ''o''" "\<not> input_mode m" by blast
  then show ?case
  proof cases
    case 2
    then have "m \<noteq> CHR ''o''" "m \<noteq> CHR ''t''" by (auto simp: input_mode_def)
    with Cons a 2 show ?thesis by simp
  next
    case 3
    with Cons.prems a have "dropWhile (\<lambda>m. m = CHR ''t'') (dropWhile (\<lambda>m. m = CHR ''v'')
        (filter (\<lambda>m. m \<noteq> CHR ''o'') (map (fst \<circ> snd) (a # as)))) = []"
      by (simp add: comp_def)
    from names_of_variadic [OF this] show ?thesis by (metis append_Nil)
  qed (use Cons a in simp_all)
qed simp

lemma param_names_named:
  assumes "length ms = length ns" "None \<notin> set ns" "length ts = length ms"
  shows "param_names (zip ms ns) =
    takeWhile (\<lambda>s. s \<noteq> '''') (names_of (\<lambda>m. m \<noteq> CHR ''o'') (zip ts (zip ms (map (case_option '''' id) ns))))"
proof -
  from assms have "map (\<lambda>(m, n). case_option '''' id n) (filter (\<lambda>(m, n). m \<noteq> CHR ''o'') (zip ms ns)) =
      names_of (\<lambda>m. m \<noteq> CHR ''o'') (zip ts (zip ms (map (case_option '''' id) ns)))"
    by (induction ms ns arbitrary: ts rule: list_induct2) (auto simp: length_Suc_conv)
  then show ?thesis by (simp add: param_names_def)
qed

lemma in_names_of: "n \<in> set (names_of P as) \<longleftrightarrow> (\<exists>t m. (t, m, n) \<in> set as \<and> P m)"
  by (force simp: names_of_def)

lemma length_names_of: "length (names_of P as) = length (filter P (map (fst \<circ> snd) as))"
  by (induction as) (auto simp: names_of_def)

lemma map_zip_fst_snd:
  "length ts = length ms \<Longrightarrow> length ms = length ns \<Longrightarrow>
   map (fst \<circ> snd) (zip ts (zip ms ns)) = ms"
  by (simp flip: map_map)

lemma take_takeWhile_append: "take (length xs) (takeWhile P (xs @ ys)) = takeWhile P xs"
  by (induction xs) simp_all

lemma takeWhile_appendI: "x \<in> set (takeWhile P xs) \<Longrightarrow> x \<in> set (takeWhile P (xs @ ys))"
  by (induction xs) (auto split: if_splits)

text \<open>C6. The parameter list of a function that passes the validator: it is a list of acceptable
  identifiers, followed by \<open>...\<close> when it has fewer names than the function has inputs; the
  parameters in the first positions are the names of the inputs in call order, up to the first
  unnamed one; no named IN or INOUT argument is missing.\<close>
theorem validated_parameter_list:
  assumes "pllua_validate_function cat load chk procs oid trustd = Inr ()"
    and "procs oid = Some p" "proc_row_wf p"
    and "pllua_load_from_proctup cat oid p trustd = Inr (fi, ci)"
    and "\<not> is_trigger fi" "\<not> is_event_trigger fi"
  shows "\<exists>ps. pllua_arglist fi ci =
       join_commas (ps @ (if length ps < fi_nargs fi then [''...''] else [])) \<and>
     list_all (\<lambda>s. pllua_acceptable_name (Some s)) ps \<and>
     take (fi_nargs fi) ps =
       takeWhile (\<lambda>s. s \<noteq> '''') (names_of runtime_mode (validated_args ci)) \<and>
     (\<forall>(t, m, n) \<in> set (validated_args ci). input_mode m \<and> n \<noteq> '''' \<longrightarrow> n \<in> set ps)"
proof -
  let ?as = "validated_args ci"
  from assms(1,2,4) obtain r where v: "validate_args cat ?as False = Inr r"
    by (auto simp: pllua_validate_function_def bindR_eq_Inr split: if_splits)
  from assms(4) have ci: "argmodes ci = proargmodes p" "argnames ci = proargnames p"
      "allargtypes ci = proallargtypes p" "nallargs ci = length (proallargtypes p)"
      "ci_nargs ci = length (proargtypes p)" "fi_nargs fi = length (proargtypes p)"
    by (auto simp: pllua_load_from_proctup_def bindR_eq_Inr split: option.splits)
  note wf = assms(3) [unfolded proc_row_wf_def]
  note wf1 = wf [THEN conjunct1] and wf2 = wf [THEN conjunct2, THEN conjunct1]
    and wf3 = wf [THEN conjunct2, THEN conjunct2, THEN conjunct1]
    and wf4 = wf [THEN conjunct2, THEN conjunct2, THEN conjunct2]
  have as: "?as = zip (proallargtypes p) (zip (row_modes p)
      (case proargnames p of Some nms \<Rightarrow> map (case_option '''' id) nms
       | None \<Rightarrow> replicate (length (proallargtypes p)) ''''))"
    by (simp add: validated_args_def ci row_modes_def split: option.splits)
  have modes: "map (fst \<circ> snd) ?as = row_modes p"
    using wf1 wf2 by (auto simp: as map_zip_fst_snd split: option.splits)
  from names_of_ordered [of ?as] wf4 obtain vs where o:
    "names_of (\<lambda>m. m \<noteq> CHR ''o'') ?as =
       names_of runtime_mode ?as @ names_of (\<lambda>m. m = CHR ''t'') ?as"
    "names_of runtime_mode ?as = names_of input_mode ?as @ vs"
    unfolding modes by blast
  have len: "length (names_of runtime_mode ?as) = fi_nargs fi"
    using wf3 by (simp add: length_names_of modes ci)
  show ?thesis
  proof (cases "fi_nargs fi > 0 \<and> proargnames p \<noteq> None")
    case False
    from False len wf have e: "set (names_of runtime_mode ?as) \<subseteq> {''''}"
    proof (cases "proargnames p")
      case None
      then show ?thesis by (auto simp: as in_names_of dest!: set_zip_rightD)
    next
      case Some
      with False len show ?thesis by simp
    qed
    then have "takeWhile (\<lambda>s. s \<noteq> '''') (names_of runtime_mode ?as) = []"
      by (cases "names_of runtime_mode ?as") auto
    moreover have "\<forall>(t, m, n) \<in> set ?as. input_mode m \<and> n \<noteq> '''' \<longrightarrow> False"
      using e by (fastforce simp: subset_iff in_names_of)
    moreover have "pllua_arglist fi ci = join_commas ([] @ (if 0 < fi_nargs fi then [''...''] else []))"
      using False assms(5,6) by (auto simp: pllua_arglist_def ci)
    ultimately show ?thesis
      by (intro exI [of _ "[]"]) simp
  next
    case True
    then obtain ns where ns: "proargnames p = Some ns" by blast
    from wf2 ns have l: "length ns = length (row_modes p)" "None \<notin> set ns"
        "length (proallargtypes p) = length (row_modes p)"
      by (simp_all add: wf1)
    from True wf3 have "row_modes p \<noteq> []" by (auto simp: ci)
    with l(1,2) obtain nm names where nm: "ns = Some nm # names"
      by (cases ns; cases "hd ns") auto
    let ?ps = "param_names (all_args ci (Some nm # names))"
    have ps: "?ps = takeWhile (\<lambda>s. s \<noteq> '''') (names_of runtime_mode ?as @ names_of (\<lambda>m. m = CHR ''t'') ?as)"
    proof -
      have "all_args ci ns = zip (row_modes p) ns"
        by (simp add: all_args_def ci(1,4) row_modes_def split: option.split)
      with param_names_named [OF l(1) [symmetric] l(2,3)] ns as o(1) nm show ?thesis
        by simp
    qed
    have "pllua_arglist fi ci =
        join_commas (?ps @ (if length ?ps < fi_nargs fi then [''...''] else []))"
      using pllua_arglist_eq [OF assms(5,6) _ _ refl] True ns nm by (simp add: ci)
    moreover have "list_all (\<lambda>s. pllua_acceptable_name (Some s)) ?ps"
      using validate_args_names [OF v]
      by (fastforce simp: list_all_iff ps in_names_of simp flip: o(1) dest!: set_takeWhileD)
    moreover have "take (fi_nargs fi) ?ps = takeWhile (\<lambda>s. s \<noteq> '''') (names_of runtime_mode ?as)"
      unfolding ps len [symmetric] by (rule take_takeWhile_append)
    moreover have "n \<in> set ?ps" if "(t, m, n) \<in> set ?as" "input_mode m" "n \<noteq> ''''" for t m n
    proof -
      from that validate_args_prefix [OF v] have
        "n \<in> set (takeWhile (\<lambda>s. s \<noteq> '''') (names_of input_mode ?as))"
        by (auto simp: in_names_of)
      then show ?thesis
        unfolding ps o(2) by (intro takeWhile_appendI)
    qed
    ultimately show ?thesis by blast
  qed
qed

definition sample_catalog :: catalog where
  "sample_catalog =
     \<lparr>lanpltrusted = (\<lambda>l. if l = 100 then Some True else None),
      type_is_rowtype = (\<lambda>t. t = RECORDOID),
      IsPolymorphicType = (\<lambda>t. t \<in> {ANYARRAYOID, ANYELEMENTOID}),
      typtype = (\<lambda>t. if 2200 \<le> t \<and> t < 2300 then CHR ''p'' else CHR ''b'')\<rparr>"

text \<open>\<open>f(a int, b int, VARIADIC int[]) RETURNS TABLE(c int)\<close>\<close>

definition sample_proc :: pg_proc where
  "sample_proc =
     \<lparr>proname = ''f'', prolang = 100, provariadic = 23, proretset = True, provolatile = CHR ''v'',
      prorettype = 23, proargtypes = [23, 23, 1007], prosrc = Some ''return a'',
      proallargtypes = [23, 23, 1007, 23], proargmodes = Some ''iivt'',
      proargnames = Some [Some ''a'', Some ''b'', Some '''', Some ''c''], xmin = 1, tid = 1\<rparr>"

theorem validated_parameter_list_witness:
  "case pllua_load_from_proctup sample_catalog 5 sample_proc True of
     Inl _ \<Rightarrow> False
   | Inr (fi, ci) \<Rightarrow> pllua_arglist fi ci = ''a,b,...'' \<and>
       (\<exists>ps. pllua_arglist fi ci = join_commas (ps @ (if length ps < 3 then [''...''] else [])) \<and>
          take 3 ps = [''a'', ''b''])"
proof -
  have v: "pllua_validate_function sample_catalog (\<lambda>_. None) True [5 \<mapsto> sample_proc] 5 True = Inr ()"
    by code_simp
  have wf: "proc_row_wf sample_proc" by code_simp
  obtain fi ci where l: "pllua_load_from_proctup sample_catalog 5 sample_proc True = Inr (fi, ci)"
    by (auto simp: pllua_load_from_proctup_def pllua_validate_proctup_def sample_catalog_def
        sample_proc_def)
  then have fi: "\<not> is_trigger fi" "\<not> is_event_trigger fi" "fi_nargs fi = 3"
      "takeWhile (\<lambda>s. s \<noteq> '''') (names_of runtime_mode (validated_args ci)) = [''a'', ''b'']"
      "pllua_arglist fi ci = ''a,b,...''"
    by (auto simp: pllua_load_from_proctup_def pllua_validate_proctup_def sample_catalog_def
        sample_proc_def validated_args_def names_of_def runtime_mode_def input_mode_def
        pllua_arglist_def all_args_def)
  have pr: "[5 \<mapsto> sample_proc] 5 = Some sample_proc" by simp
  from validated_parameter_list [OF v pr wf l fi(1,2), unfolded fi(3,4)] obtain ps where
    "pllua_arglist fi ci = join_commas (ps @ (if length ps < 3 then [''...''] else []))"
    "take 3 ps = [''a'', ''b'']"
    by (elim exE conjE)
  with fi(5) show ?thesis
    unfolding l sum.case prod.case by (intro conjI exI [of _ ps])
qed

end
