(* ===== verification/Funcache_Props.thy ===== *)
theory Funcache_Props
  imports Funcache_Ends Compile_Props
begin

text \<open>
  Properties of the function cache: no use of freed function data, an activation that is
  current when the call returns, and an end to the loop.
\<close>

text \<open>The state after the module was opened.\<close>

definition cst0 :: "(oid \<Rightarrow> pg_proc option) \<Rightarrow> cst" where
  "cst0 ps = \<lparr>procs = ps, infos = (\<lambda>_. None), fobjs = (\<lambda>_. None), funcs = (\<lambda>_. None),
     acts = (\<lambda>_. None), activations = [], lstack = [], next_addr = 0\<rparr>"

lemma cinv_cst0 [simp]: "cinv (cst0 ps)"
  by (simp add: cst0_def cinv_def inv_defs)

definition sample_site :: callsite where
  "sample_site = \<lparr>get_call_result_type = (TYPEFUNC_SCALAR, 23, None), get_fn_expr_variadic = False,
     resolve_polymorphic_argtypes = Some, value_per_call = True\<rparr>"

text \<open>A chunk that collects garbage and calls another function; and one that only returns.\<close>

definition sample_chunk :: "pg_proc \<Rightarrow> uprog" where
  "sample_chunk p = Finish (Value (LFun 1))"

definition busy_chunk :: "pg_proc \<Rightarrow> uprog" where
  "busy_chunk p = Replace 5 None (Collect [0, 1, 2]
     (CallFunction sample_site True 5 (Finish (Value (LFun 1)))))"

lemma sample_push:
  "\<exists>s'. pllua_validate_and_push 2 sample_catalog (\<lambda>_. None)
       (user_at 1 2 sample_catalog (\<lambda>_. None) sample_chunk) sample_site True 5 None
       (cst0 [5 \<mapsto> sample_proc]) = (Ret (Some 0), s') \<and> procs s' 5 = Some sample_proc"
  by (simp add: mdefs user_at.simps One_nat_def numeral_2_eq_2 sample_catalog_def sample_proc_def
      sample_site_def sample_chunk_def cst0_def pllua_load_from_proctup_def
      pllua_validate_proctup_def pllua_function_valid_def)

text \<open>C7. No call uses freed function data.  From a consistent cache, whatever the chunks of the
  functions do at compile time (replace functions, their own included, collect garbage, call
  functions that are compiled in turn, fail), making an activation current never reads through
  a dangling pointer, leaves by no Lua error, and leaves the cache consistent: every registered
  activation's function data is owned by a live function object that the activation
  references, and every table entry is a function object of its own function.\<close>
theorem cache_never_dangles:
  assumes "cinv s"
  shows "case pllua_validate_and_push n cat load (user_at d n cat load chunk) cs trustd oid fn_extra s of
     (Ret r, s') \<Rightarrow> cinv s'
   | (PgThrow e, s') \<Rightarrow> cinv s'
   | (LuaThrow rc v, s') \<Rightarrow> False
   | (PgPanic msg, s') \<Rightarrow> False"
  using ua.validate_and_push_wpt [OF assms, of n cat load d n cat load chunk cs trustd oid fn_extra]
  by (auto simp: wpt_def split: prod.splits outcome.splits)

theorem cache_never_dangles_witness:
  "case pllua_validate_and_push 3 sample_catalog (\<lambda>_. None)
       (user_at 2 3 sample_catalog (\<lambda>_. None) busy_chunk) sample_site True 5 None
       (cst0 [5 \<mapsto> sample_proc]) of
     (Ret r, s') \<Rightarrow> cinv s'
   | (PgThrow e, s') \<Rightarrow> cinv s'
   | (LuaThrow rc v, s') \<Rightarrow> False
   | (PgPanic msg, s') \<Rightarrow> False"
  by (rule cache_never_dangles) simp

text \<open>C8. When the call returns an activation, the activation is the one of the call site, it is
  registered and resolved, its function data is a compile of the row the catalog holds now, and
  a function that returns a set is only returned to a caller that takes one.\<close>
theorem activation_is_current:
  assumes "cinv s"
    and "pllua_validate_and_push n cat load (user_at d n cat load chunk) cs trustd oid fn_extra s
      = (Ret (Some a), s')"
  shows "\<exists>p r i fi. procs s' oid = Some p \<and> acts s' a = Some r \<and> func_info r = Some i \<and>
     infos s' i = Some fi \<and> fn_xmin fi = xmin p \<and> fn_tid fi = tid p \<and> resolved r \<and>
     a \<in> set (activations s') \<and> (fi_retset fi \<longrightarrow> value_per_call cs) \<and>
     (\<forall>a'. fn_extra = Some a' \<longrightarrow> a = a')"
proof -
  from ua.validate_and_push_wpt [OF assms(1), of n cat load d n cat load chunk cs trustd oid fn_extra]
  have "ready cs oid a s'" "a \<in> own_of fn_extra s"
    by (simp_all add: wpt_def assms(2))
  then show ?thesis
    by (auto simp: ready_def up_to_date_def own_of_def pllua_function_valid_def)
qed

theorem activation_is_current_witness:
  "\<exists>s' r i fi. pllua_validate_and_push 2 sample_catalog (\<lambda>_. None)
       (user_at 1 2 sample_catalog (\<lambda>_. None) sample_chunk) sample_site True 5 None
       (cst0 [5 \<mapsto> sample_proc]) = (Ret (Some 0), s') \<and>
     acts s' 0 = Some r \<and> func_info r = Some i \<and> infos s' i = Some fi \<and> resolved r \<and>
     fn_xmin fi = xmin sample_proc"
proof -
  from sample_push obtain s' where s': "pllua_validate_and_push 2 sample_catalog (\<lambda>_. None)
       (user_at 1 2 sample_catalog (\<lambda>_. None) sample_chunk) sample_site True 5 None
       (cst0 [5 \<mapsto> sample_proc]) = (Ret (Some 0), s')" and p: "procs s' 5 = Some sample_proc"
    by blast
  from activation_is_current [OF cinv_cst0 s'] obtain q r i fi where
    "procs s' 5 = Some q" "acts s' 0 = Some r" "func_info r = Some i" "infos s' i = Some fi"
    "resolved r" "fn_xmin fi = xmin q"
    by blast
  with s' p show ?thesis
    by (intro exI [of _ s'] exI [of _ r] exI [of _ i] exI [of _ fi] conjI) simp_all
qed

text \<open>The loop ends.  If no chunk replaces the function itself, two iterations are enough to
  have the call return an activation or raise an error, however the chunks recurse into the
  cache and whatever was cached before.\<close>
theorem loop_ends:
  assumes "cinv s" "procs s oid = Some p" "\<forall>q. leaves_alone oid (chunk q)"
  shows "fst (pllua_validate_and_push (n + 2) cat load (user_at d k cat load chunk) cs trustd oid
       fn_extra s) \<noteq> Ret None"
proof -
  have "stable_user (user_at d k cat load chunk) oid p"
    using assms(3) by (intro user_at_stable) blast
  from stable_user.validate_and_push_ends [OF this assms(1,2), of n cat load cs trustd fn_extra]
  show ?thesis
    by (auto simp: wpt_def numeral_2_eq_2 split: prod.splits outcome.splits)
qed

theorem loop_ends_witness:
  "fst (pllua_validate_and_push (0 + 2) sample_catalog (\<lambda>_. None)
       (user_at 1 2 sample_catalog (\<lambda>_. None) sample_chunk) sample_site True 5 None
       (cst0 [5 \<mapsto> sample_proc])) \<noteq> Ret None"
  by (rule loop_ends [where p = sample_proc]) (simp_all add: cst0_def sample_chunk_def cinv_def inv_defs)

end
