(* ===== verification/Exec.thy ===== *)
theory Exec
  imports Funcache
begin

text \<open>
  Calls of functions, src/src/exec.c: the conversion of results, and set-returning functions in
  value-per-call mode, whose body runs in a coroutine that belongs to the activation
  (\<open>pllua_activate_thread\<close> and its counterparts in src/src/objects.c).

  A coroutine is what it yields and how it ends; what else its body does is other components'
  business.  \<open>pg_faults\<close> and \<open>lua_faults\<close> are the answers of PostgreSQL and of Lua's allocator,
  in order, as in the error subsystem.
\<close>

subsection \<open>State\<close>

datatype co_end = Returns "lval list" | Raises lval

record coroutine =
  yields :: "lval list list"
  ending :: co_end
  close_error :: "lval option"

datatype expr_done = ExprSingleResult | ExprMultipleResult | ExprEndResult

text \<open>
  \<open>interned\<close> is whether the registry still has the activation; \<open>callbacks\<close> are those of the
  expression context, by the activation they are for.
\<close>

record srf =
  act_thread :: "nat option"
  member_thread :: "nat option"
  co_onstack :: bool
  interned :: bool
  self_act :: nat
  callbacks :: "nat list"
  coroutines :: "nat \<Rightarrow> coroutine option"
  next_thread :: nat
  isDone :: expr_done
  gc_debt :: nat
  gc_runs :: "nat list"
  srf_pg_faults :: "errdata option list"
  srf_lua_faults :: "bool list"

definition srf_pg_call :: "(srf, unit) m" where
  [mdefs]: "srf_pg_call s =
     (case srf_pg_faults s of
        [] \<Rightarrow> (Ret (), s)
      | None # fs \<Rightarrow> (Ret (), s\<lparr>srf_pg_faults := fs\<rparr>)
      | Some e # fs \<Rightarrow> (PgThrow e, s\<lparr>srf_pg_faults := fs\<rparr>))"

definition srf_lua_alloc :: "string \<Rightarrow> (srf, unit) m" where
  [mdefs]: "srf_lua_alloc msg s =
     (case srf_lua_faults s of
        [] \<Rightarrow> (Ret (), s)
      | b # bs \<Rightarrow>
          (if b then (LuaThrow LUA_ERRMEM (LStr msg), s\<lparr>srf_lua_faults := bs\<rparr>)
           else (Ret (), s\<lparr>srf_lua_faults := bs\<rparr>)))"

text \<open>
  \<open>PLLUA_TRY\<close> around a call, in Lua context: its PostgreSQL error comes out as a Lua error,
  the error object made of it being a parameter.
\<close>

definition srf_try :: "(errdata \<Rightarrow> lval) \<Rightarrow> (srf, 'a) m \<Rightarrow> (srf, 'a) m" where
  [mdefs]: "srf_try obj body s =
     (case body s of
        (PgThrow e, s') \<Rightarrow> (LuaThrow LUA_ERRRUN (obj e), s')
      | r \<Rightarrow> r)"

subsection \<open>The thread of an activation\<close>

definition pllua_activate_thread :: "(errdata \<Rightarrow> lval) \<Rightarrow> coroutine \<Rightarrow> (srf, nat) m" where
  [mdefs]: "pllua_activate_thread obj co =
     bindm (srf_try obj (bindm srf_pg_call (\<lambda>_.
       modify (\<lambda>s. s\<lparr>callbacks := self_act s # callbacks s\<rparr>)))) (\<lambda>_.
     bindm (srf_lua_alloc ''not enough memory'') (\<lambda>_.
     bindm (gets next_thread) (\<lambda>t.
     bindm (modify (\<lambda>s. s\<lparr>coroutines := (coroutines s)(t \<mapsto> co), next_thread := Suc t,
                          act_thread := Some t, member_thread := Some t\<rparr>)) (\<lambda>_.
     ret t))))"

text \<open>
  The thread's stack is closed, which may raise an error of its own; dropping the last
  reference frees it.
\<close>

definition pllua_resetactivation :: "(srf, unit) m" where
  [mdefs]: "pllua_resetactivation =
     bindm (gets interned) (\<lambda>found.
     if \<not> found then ret ()
     else
       bindm (gets act_thread) (\<lambda>thread.
       bindm (modify (\<lambda>s. s\<lparr>act_thread := None\<rparr>)) (\<lambda>_.
       bindm (gets (\<lambda>s. case thread of None \<Rightarrow> None
                         | Some t \<Rightarrow> (case coroutines s t of None \<Rightarrow> None | Some co \<Rightarrow> close_error co)))
         (\<lambda>err.
       bindm (modify (\<lambda>s. s\<lparr>member_thread := None,
                coroutines := (case thread of None \<Rightarrow> coroutines s
                               | Some t \<Rightarrow> (coroutines s)(t := None))\<rparr>)) (\<lambda>_.
       case err of None \<Rightarrow> ret () | Some v \<Rightarrow> lua_error v)))))"

definition pllua_deactivate_thread :: "(errdata \<Rightarrow> lval) \<Rightarrow> (srf, unit) m" where
  [mdefs]: "pllua_deactivate_thread obj =
     bindm (srf_try obj (bindm srf_pg_call (\<lambda>_.
       modify (\<lambda>s. s\<lparr>callbacks := filter (\<lambda>c. c \<noteq> self_act s) (callbacks s)\<rparr>)))) (\<lambda>_.
     pllua_resetactivation)"

text \<open>
  What the shutdown of the expression context (a rescan, or the end of the query before the
  last row) does for our callback: the callback is taken off the list and run, its Lua error
  rethrown as a PostgreSQL error.
\<close>

definition pllua_resetactivation_cb :: "(lval \<Rightarrow> errdata) \<Rightarrow> (srf, unit) m" where
  [mdefs]: "pllua_resetactivation_cb to_pg s =
     (case pllua_resetactivation s of
        (LuaThrow rc v, s') \<Rightarrow> (PgThrow (to_pg v), s')
      | r \<Rightarrow> r)"

definition shutdown_econtext :: "(lval \<Rightarrow> errdata) \<Rightarrow> (srf, unit) m" where
  [mdefs]: "shutdown_econtext to_pg =
     bindm (gets (\<lambda>s. self_act s \<in> set (callbacks s))) (\<lambda>mine.
     bindm (modify (\<lambda>s. s\<lparr>callbacks := filter (\<lambda>c. c \<noteq> self_act s) (callbacks s)\<rparr>)) (\<lambda>_.
     if mine then pllua_resetactivation_cb to_pg else ret ()))"

subsection \<open>Resuming\<close>

datatype resume_result = ResOK "lval list" | ResYield "lval list" | ResError lval

definition lua_resume :: "nat \<Rightarrow> (srf, resume_result) m" where
  [mdefs]: "lua_resume t s =
     (case coroutines s t of
        None \<Rightarrow> (PgPanic ''resume of a freed thread'', s)
      | Some co \<Rightarrow>
          (case yields co of
             v # vs \<Rightarrow> (Ret (ResYield v), s\<lparr>coroutines := (coroutines s)(t \<mapsto> co\<lparr>yields := vs\<rparr>)\<rparr>)
           | [] \<Rightarrow>
               (case ending co of
                  Returns vs \<Rightarrow> (Ret (ResOK vs), s)
                | Raises v \<Rightarrow> (Ret (ResError v), s))))"

text \<open>The resumption with its bookkeeping of \<open>onstack\<close>.\<close>

definition resume_onstack :: "nat \<Rightarrow> (srf, resume_result) m" where
  [mdefs]: "resume_onstack t =
     bindm (modify (\<lambda>s. s\<lparr>co_onstack := True\<rparr>)) (\<lambda>_.
     bindm (lua_resume t) (\<lambda>r.
     bindm (modify (\<lambda>s. s\<lparr>co_onstack := False\<rparr>)) (\<lambda>_. ret r)))"

subsection \<open>Results\<close>

datatype 'd constructed = CNil | CDatum 'd | CWrong

text \<open>
  What the conversion of a result looks at: the resolved activation, the type information
  (whether it is obsolete or modified), the check of a domain's constraints on null, and the
  type's constructor.
\<close>

record 'd return_env =
  re_rettype :: oid
  re_retdomain :: bool
  re_typefuncclass :: typefuncclass
  ti_stale :: "string option"
  check_domain_null :: "lval option"
  construct :: "lval list \<Rightarrow> lval + 'd constructed"

text \<open>
  PostgreSQL 9.6 or later.  \<open>None\<close> is a null result.  \<open>ti_stale\<close> holds the message when the
  type was dropped or modified.
\<close>

definition pllua_return_result :: "'d return_env \<Rightarrow> lval list \<Rightarrow> (srf, 'd option) m" where
  [mdefs]: "pllua_return_result env vs =
     (let nret = length vs;
          isnil = (nret = 0 \<or> nret = 1 \<and> last vs = LNil)
      in if re_rettype env = VOIDOID then ret None
         else if \<not> re_retdomain env \<and> isnil \<and>
                 (nret = 0 \<or> re_typefuncclass env = TYPEFUNC_SCALAR)
         then ret None
         else case ti_stale env of
           Some msg \<Rightarrow> luaL_error msg
         | None \<Rightarrow>
             if isnil then
               (case check_domain_null env of
                  Some e \<Rightarrow> lua_error e
                | None \<Rightarrow> ret None)
             else
               (case construct env vs of
                  Inl e \<Rightarrow> lua_error e
                | Inr CNil \<Rightarrow> ret None
                | Inr CWrong \<Rightarrow> luaL_error ''wrong parameter type''
                | Inr (CDatum d) \<Rightarrow> ret (Some d)))"

subsection \<open>Extra garbage collection\<close>

text \<open>\<open>run\<close> is \<open>pllua_run_extra_gc\<close>, given the debt; \<open>track\<close> is \<open>pllua_track_gc_debt\<close>.\<close>

definition pllua_common_lua_exit :: "bool \<Rightarrow> (srf, unit) m" where
  [mdefs]: "pllua_common_lua_exit track =
     (if track then modify (\<lambda>s. s\<lparr>gc_runs := gc_debt s # gc_runs s, gc_debt := 0\<rparr>) else ret ())"

subsection \<open>The calls\<close>

text \<open>The value of a call: the datum, or null.\<close>

definition pllua_resume_function ::
  "(errdata \<Rightarrow> lval) \<Rightarrow> 'd return_env \<Rightarrow> bool \<Rightarrow> (srf, 'd option) m"
where
  [mdefs]: "pllua_resume_function obj env track =
     bindm (gets act_thread) (\<lambda>thr.
     case thr of
       None \<Rightarrow> (\<lambda>s. (PgPanic ''no thread'', s))
     | Some t \<Rightarrow>
         bindm (resume_onstack t) (\<lambda>rc.
         case rc of
           ResOK _ \<Rightarrow>
             bindm (pllua_deactivate_thread obj) (\<lambda>_.
             bindm (modify (\<lambda>s. s\<lparr>isDone := ExprEndResult\<rparr>)) (\<lambda>_. ret None))
         | ResYield vs \<Rightarrow>
             bindm (srf_lua_alloc ''stack overflow'') (\<lambda>_.
             bindm (modify (\<lambda>s. s\<lparr>isDone := ExprMultipleResult\<rparr>)) (\<lambda>_.
             bindm (pllua_return_result env vs) (\<lambda>d.
             bindm (pllua_common_lua_exit track) (\<lambda>_. ret d))))
         | ResError v \<Rightarrow>
             bindm (pllua_deactivate_thread obj) (\<lambda>_. lua_error v)))"

text \<open>
  \<open>co\<close> is the body of the function applied to its arguments; when it is not a set-returning
  function the body is called directly (and cannot yield).
\<close>

definition pllua_call_function ::
  "(errdata \<Rightarrow> lval) \<Rightarrow> 'd return_env \<Rightarrow> bool \<Rightarrow> bool \<Rightarrow> coroutine \<Rightarrow> (srf, 'd option) m"
where
  [mdefs]: "pllua_call_function obj env track is_srf co =
     (let finish = (\<lambda>vs. bindm (pllua_return_result env vs) (\<lambda>d.
             bindm (pllua_common_lua_exit track) (\<lambda>_. ret d)))
      in if is_srf then
           bindm (pllua_activate_thread obj co) (\<lambda>t.
           bindm (resume_onstack t) (\<lambda>rc.
           case rc of
             ResOK vs \<Rightarrow>
               bindm (srf_lua_alloc ''stack overflow'') (\<lambda>_.
               bindm (pllua_deactivate_thread obj) (\<lambda>_.
               if vs = [] then
                 bindm (modify (\<lambda>s. s\<lparr>isDone := ExprEndResult\<rparr>)) (\<lambda>_. ret None)
               else finish vs))
           | ResYield vs \<Rightarrow>
               bindm (srf_lua_alloc ''stack overflow'') (\<lambda>_.
               bindm (modify (\<lambda>s. s\<lparr>isDone := ExprMultipleResult\<rparr>)) (\<lambda>_.
               finish vs))
           | ResError v \<Rightarrow>
               bindm (pllua_deactivate_thread obj) (\<lambda>_. lua_error v)))
         else
           (case ending co of
              Raises v \<Rightarrow> lua_error v
            | Returns vs \<Rightarrow>
                bindm (srf_lua_alloc ''stack overflow'') (\<lambda>_. finish vs)))"

text \<open>
  \<open>pllua_common_call\<close> for a function that is no trigger: an existing thread is resumed, without
  looking at the function again.  \<open>isDone\<close> is what the executor presets.
\<close>

definition pllua_common_call ::
  "(errdata \<Rightarrow> lval) \<Rightarrow> 'd return_env \<Rightarrow> bool \<Rightarrow> bool \<Rightarrow> coroutine \<Rightarrow> (srf, 'd option) m"
where
  [mdefs]: "pllua_common_call obj env track is_srf co =
     bindm (modify (\<lambda>s. s\<lparr>isDone := ExprSingleResult\<rparr>)) (\<lambda>_.
     bindm (gets act_thread) (\<lambda>thr.
     if thr \<noteq> None then pllua_resume_function obj env track
     else pllua_call_function obj env track is_srf co))"

text \<open>
  The executor's side of value-per-call: call until the function says it is done.  The result
  is the list of rows; the loop is bounded by \<open>n\<close> calls.
\<close>

primrec collect_rows ::
  "nat \<Rightarrow> (errdata \<Rightarrow> lval) \<Rightarrow> 'd return_env \<Rightarrow> bool \<Rightarrow> coroutine \<Rightarrow> (srf, 'd option list option) m"
where
  "collect_rows 0 obj env track co = ret None"
| "collect_rows (Suc n) obj env track co =
     bindm (pllua_common_call obj env track True co) (\<lambda>d.
     bindm (gets isDone) (\<lambda>fin.
     case fin of
       ExprEndResult \<Rightarrow> ret (Some [])
     | ExprSingleResult \<Rightarrow> ret (Some [d])
     | ExprMultipleResult \<Rightarrow>
         bindm (collect_rows n obj env track co) (\<lambda>rest.
         ret (map_option (\<lambda>ds. d # ds) rest))))"

end
