(* ===== verification/Exec_Props.thy ===== *)
theory Exec_Props
  imports Exec
begin

text \<open>
  Properties of calls: value-per-call mode delivers the rows of the body, the thread of a
  set-returning call and its callback live and die together, and null results of domain types
  are checked.
\<close>


subsection \<open>The resources of a set-returning call\<close>

text \<open>
  The thread pointer of the activation and the reference that keeps the thread alive agree; the
  thread they name is the only one alive, and the expression context has a callback that
  would release it.
\<close>

definition srf_inv :: "srf \<Rightarrow> bool" where
  "srf_inv s \<longleftrightarrow> interned s \<and> member_thread s = act_thread s \<and>
     (\<forall>t. act_thread s \<noteq> Some t \<longrightarrow> coroutines s t = None) \<and>
     (\<forall>t. act_thread s = Some t \<longrightarrow> coroutines s t \<noteq> None) \<and>
     (act_thread s \<noteq> None \<longrightarrow> self_act s \<in> set (callbacks s)) \<and>
     (\<forall>t \<ge> next_thread s. act_thread s \<noteq> Some t)"

lemma wpt_srf_pg_call:
  "srf_inv s \<Longrightarrow> (\<And>s'. srf_inv s' \<Longrightarrow> act_thread s' = act_thread s \<Longrightarrow> N () s') \<Longrightarrow>
   (\<And>e s'. srf_inv s' \<Longrightarrow> act_thread s' = act_thread s \<Longrightarrow> P e s') \<Longrightarrow> wpt srf_pg_call N E P s"
  by (auto simp: wpt_def srf_pg_call_def srf_inv_def split: list.splits option.splits)

lemma wpt_srf_lua_alloc:
  "srf_inv s \<Longrightarrow> (\<And>s'. srf_inv s' \<Longrightarrow> act_thread s' = act_thread s \<Longrightarrow> callbacks s' = callbacks s \<Longrightarrow>
      self_act s' = self_act s \<Longrightarrow> N () s') \<Longrightarrow>
   (\<And>rc v s'. srf_inv s' \<Longrightarrow> act_thread s' = act_thread s \<Longrightarrow> E rc v s') \<Longrightarrow>
   wpt (srf_lua_alloc msg) N E P s"
  by (auto simp: wpt_def srf_lua_alloc_def srf_inv_def split: list.splits)

lemma wpt_srf_try:
  "wpt m N E (\<lambda>e. E LUA_ERRRUN (obj e)) s \<Longrightarrow> wpt (srf_try obj m) N E P s"
  by (auto simp: wpt_def srf_try_def split: prod.splits outcome.splits)

lemma srf_inv_simps [simp]:
  "srf_inv (s\<lparr>isDone := d\<rparr>) = srf_inv s"
  "srf_inv (s\<lparr>co_onstack := b\<rparr>) = srf_inv s"
  "srf_inv (s\<lparr>gc_runs := r, gc_debt := n\<rparr>) = srf_inv s"
  by (simp_all add: srf_inv_def)

lemma wpt_activate:
  assumes "srf_inv s" "act_thread s = None"
  shows "wpt (pllua_activate_thread obj co)
    (\<lambda>t s'. srf_inv s' \<and> act_thread s' = Some t) (\<lambda>_ _ s'. srf_inv s' \<and> act_thread s' = None)
    (\<lambda>_ _. False) s"
  unfolding pllua_activate_thread_def wpt_bindm
proof (intro wpt_srf_try, simp, rule wpt_srf_pg_call [OF assms(1)], goal_cases)
  case (1 s1)
  let ?s2 = "s1\<lparr>callbacks := self_act s1 # callbacks s1\<rparr>"
  have s2: "srf_inv ?s2" "act_thread ?s2 = None" using 1 assms by (auto simp: srf_inv_def)
  show ?case
  proof (rule wpt_srf_lua_alloc [OF s2(1)], goal_cases)
    case (1 s3)
    with s2 have "self_act s3 \<in> set (callbacks s3)" by simp
    with 1 s2 show ?case by (auto simp: srf_inv_def)
  next
    case (2 rc v s3)
    with s2 show ?case by simp
  qed
qed (use assms in auto)

lemma wpt_reset:
  assumes "srf_inv s"
  shows "wpt pllua_resetactivation (\<lambda>_ s'. srf_inv s' \<and> act_thread s' = None)
    (\<lambda>_ _ s'. srf_inv s' \<and> act_thread s' = None) (\<lambda>_ _. False) s"
  using assms
  by (auto simp: pllua_resetactivation_def srf_inv_def split: option.splits)

lemma wpt_deactivate:
  assumes "srf_inv s"
  shows "wpt (pllua_deactivate_thread obj) (\<lambda>_ s'. srf_inv s' \<and> act_thread s' = None)
    (\<lambda>_ _ s'. srf_inv s') (\<lambda>_ _. False) s"
proof -
  have reset: "wpt pllua_resetactivation (\<lambda>_ s'. srf_inv s' \<and> act_thread s' = None)
    (\<lambda>_ _ s'. srf_inv s') (\<lambda>_ _. False) (s'\<lparr>callbacks := C\<rparr>)" if "srf_inv s'" for s' C
    using that
    by (auto simp: pllua_resetactivation_def srf_inv_def split: option.splits)
  show ?thesis
    unfolding pllua_deactivate_thread_def wpt_bindm
    by (intro wpt_srf_try, simp, rule wpt_srf_pg_call [OF assms]) (auto intro: reset)
qed

lemma wpt_resume:
  assumes "srf_inv s" "act_thread s = Some t"
  shows "wpt (resume_onstack t) (\<lambda>_ s'. srf_inv s' \<and> act_thread s' = Some t)
    (\<lambda>_ _ _. False) (\<lambda>_ _. False) s"
proof -
  from assms obtain co where "coroutines s t = Some co" by (fastforce simp: srf_inv_def)
  with assms show ?thesis
    by (auto simp: wpt_def resume_onstack_def lua_resume_def mdefs srf_inv_def
        split: list.splits co_end.splits)
qed

lemma wpt_return_result:
  "Q s \<Longrightarrow> wpt (pllua_return_result env vs) (\<lambda>_. Q) (\<lambda>_ _. Q) (\<lambda>_ _. False) s"
  by (auto simp: pllua_return_result_def Let_def split: option.splits sum.splits constructed.splits)

lemma wpt_lua_exit:
  "srf_inv s \<Longrightarrow> wpt (pllua_common_lua_exit track) (\<lambda>_. srf_inv) (\<lambda>_ _. srf_inv) (\<lambda>_ _. False) s"
  by (simp add: pllua_common_lua_exit_def)

lemma wpt_finish:
  assumes "srf_inv s"
  shows "wpt (bindm (pllua_return_result env vs) (\<lambda>d.
      bindm (pllua_common_lua_exit track) (\<lambda>_. ret d)))
    (\<lambda>_. srf_inv) (\<lambda>_ _. srf_inv) (\<lambda>_ _. False) s"
  by (simp, rule wpt_mono [OF wpt_return_result [of srf_inv, OF assms]])
    (auto intro: wpt_mono [OF wpt_lua_exit])

lemma srf_call_keeps_resources_aux:
  assumes "srf_inv s"
  shows "wpt (pllua_common_call obj env track is_srf co) (\<lambda>_. srf_inv) (\<lambda>_ _. srf_inv)
      (\<lambda>_ _. False) s"
proof -
  have deact_err: "wpt (bindm (pllua_deactivate_thread obj) (\<lambda>_. lua_error v))
      (\<lambda>_. srf_inv) (\<lambda>_ _. srf_inv) (\<lambda>_ _. False) s'" if "srf_inv s'" for s' v
    by (simp, rule wpt_mono [OF wpt_deactivate [OF that]]) auto
  have yield: "wpt (bindm (srf_lua_alloc ''stack overflow'') (\<lambda>_.
      bindm (modify (\<lambda>s. s\<lparr>isDone := ExprMultipleResult\<rparr>)) (\<lambda>_.
      bindm (pllua_return_result env vs) (\<lambda>d. bindm (pllua_common_lua_exit track) (\<lambda>_. ret d)))))
      (\<lambda>_. srf_inv) (\<lambda>_ _. srf_inv) (\<lambda>_ _. False) s'" if "srf_inv s'" for s' vs
    by (simp only: wpt_bindm, rule wpt_srf_lua_alloc [OF that])
      (use wpt_finish [of _ env vs track] in \<open>auto simp: wpt_bindm\<close>)
  show ?thesis
  proof -
    let ?s = "s\<lparr>isDone := ExprSingleResult\<rparr>"
    have s: "srf_inv ?s" using assms by simp
    have resume: "wpt (pllua_resume_function obj env track) (\<lambda>_. srf_inv) (\<lambda>_ _. srf_inv) (\<lambda>_ _. False) ?s"
      if "act_thread ?s = Some t" for t
      unfolding pllua_resume_function_def wpt_bindm wpt_gets that option.case
    proof (rule wpt_mono [OF wpt_resume [OF s that]], goal_cases)
      case (1 rc s')
      then show ?case
        using deact_err [of s'] yield [of s'] wpt_deactivate [of s' obj]
        by (cases rc) (auto elim: wpt_mono)
    qed simp_all
    have call: "wpt (pllua_call_function obj env track is_srf co) (\<lambda>_. srf_inv) (\<lambda>_ _. srf_inv)
        (\<lambda>_ _. False) ?s" if n: "act_thread ?s = None"
    proof (cases is_srf)
      case False
      show ?thesis
        using False s
        by (cases "ending co")
          (auto simp: pllua_call_function_def intro!: wpt_srf_lua_alloc wpt_finish [unfolded wpt_bindm wpt_ret])
    next
      case True
      have ok: "wpt (bindm (srf_lua_alloc ''stack overflow'') (\<lambda>_.
               bindm (pllua_deactivate_thread obj) (\<lambda>_.
               if vs = [] then
                 bindm (modify (\<lambda>s. s\<lparr>isDone := ExprEndResult\<rparr>)) (\<lambda>_. ret None)
               else bindm (pllua_return_result env vs) (\<lambda>d.
                 bindm (pllua_common_lua_exit track) (\<lambda>_. ret d)))))
          (\<lambda>_. srf_inv) (\<lambda>_ _. srf_inv) (\<lambda>_ _. False) s'" if "srf_inv s'" for s' vs
        unfolding wpt_bindm [of "srf_lua_alloc ''stack overflow''"] wpt_bindm [of "pllua_deactivate_thread obj"]
        by (rule wpt_srf_lua_alloc [OF that], erule wpt_mono [OF wpt_deactivate])
          (auto intro: wpt_finish [unfolded wpt_bindm wpt_ret])
      show ?thesis
        unfolding pllua_call_function_def Let_def if_P [OF True] wpt_bindm [of "pllua_activate_thread obj co"]
          wpt_bindm [of "resume_onstack _"]
      proof (rule wpt_mono [OF wpt_activate [OF s n]], goal_cases)
        case (1 t s1)
        then have s1: "srf_inv s1" "act_thread s1 = Some t" by simp_all
        show ?case
        proof (rule wpt_mono [OF wpt_resume [OF s1]], goal_cases)
          case (1 rc s')
          then show ?case
            using deact_err [of s'] yield [of s'] ok [of s'] by (cases rc) auto
        qed simp_all
      qed simp_all
    qed
    show ?thesis
      using resume call by (cases "act_thread s") (simp_all add: pllua_common_call_def)
  qed
qed


text \<open>The rows a set-returning function stands for.\<close>

definition srf_rows :: "coroutine \<Rightarrow> lval list list" where
  "srf_rows co =
     (if yields co \<noteq> [] then yields co
      else case ending co of Returns [] \<Rightarrow> [] | Returns vs \<Rightarrow> [vs] | Raises v \<Rightarrow> [])"

definition no_faults :: "srf \<Rightarrow> bool" where
  "no_faults s \<longleftrightarrow> srf_pg_faults s = [] \<and> srf_lua_faults s = []"

lemmas srf_ops = srf_pg_call_def srf_lua_alloc_def srf_try_def pllua_activate_thread_def
  pllua_resetactivation_def pllua_deactivate_thread_def lua_resume_def resume_onstack_def
  pllua_common_lua_exit_def pllua_resume_function_def pllua_common_call_def

lemma resume_end:
  assumes "srf_inv s" "no_faults s" "act_thread s = Some t" "coroutines s t = Some co"
    and "yields co = []" "ending co = Returns fin" "close_error co = None"
  shows "\<exists>s'. pllua_common_call obj env track True co' s = (Ret None, s') \<and> isDone s' = ExprEndResult \<and>
     act_thread s' = None \<and> callbacks s' = filter (\<lambda>c. c \<noteq> self_act s) (callbacks s)"
  using assms
  by (simp add: srf_inv_def no_faults_def srf_ops mdefs)

lemma resume_yield:
  assumes "srf_inv s" "no_faults s" "act_thread s = Some t" "coroutines s t = Some co"
    and "yields co = vs # rest" "pllua_return_result env vs = ret d"
  shows "\<exists>s'. pllua_common_call obj env track True co' s = (Ret d, s') \<and>
     isDone s' = ExprMultipleResult \<and> no_faults s' \<and> act_thread s' = Some t \<and>
     callbacks s' = callbacks s \<and> self_act s' = self_act s \<and>
     coroutines s' t = Some (co\<lparr>yields := rest\<rparr>)"
  using assms
  by (simp add: srf_inv_def no_faults_def srf_ops mdefs)

lemma srf_call_inv:
  assumes "srf_inv s" "pllua_common_call obj env track is_srf co s = (Ret d, s')"
  shows "srf_inv s'"
  using srf_call_keeps_resources_aux [OF assms(1), of obj env track is_srf co] assms(2)
  by (simp add: wpt_def)

lemma collect_rest:
  assumes "srf_inv s" "no_faults s" "act_thread s = Some t" "coroutines s t = Some co"
    and "ending co = Returns fin" "close_error co = None"
    and "\<forall>vs \<in> set (yields co). pllua_return_result env vs = ret (conv vs)"
  shows "\<exists>s'. collect_rows (Suc (length (yields co))) obj env track co' s =
       (Ret (Some (map conv (yields co))), s') \<and> act_thread s' = None \<and>
     callbacks s' = filter (\<lambda>c. c \<noteq> self_act s) (callbacks s) \<and> srf_inv s'"
  using assms
proof (induction "yields co" arbitrary: s co)
  case Nil
  from resume_end [OF Nil.prems(1-4) Nil.hyps [symmetric] Nil.prems(5,6)] obtain s' where
    s': "pllua_common_call obj env track True co' s = (Ret None, s')" "isDone s' = ExprEndResult"
      "act_thread s' = None" "callbacks s' = filter (\<lambda>c. c \<noteq> self_act s) (callbacks s)"
    by blast
  with srf_call_inv [OF Nil.prems(1) s'(1)] Nil.hyps show ?case
    by (simp add: bindm_def gets_def ret_def flip: Nil.hyps)
next
  case (Cons vs rest)
  from Cons.prems(7) Cons.hyps(2) have "pllua_return_result env vs = ret (conv vs)" by (metis list.set_intros(1))
  from resume_yield [OF Cons.prems(1-4) Cons.hyps(2) [symmetric] this] obtain s' where
    s': "pllua_common_call obj env track True co' s = (Ret (conv vs), s')"
      "isDone s' = ExprMultipleResult" "no_faults s'" "act_thread s' = Some t"
      "callbacks s' = callbacks s" "self_act s' = self_act s"
      "coroutines s' t = Some (co\<lparr>yields := rest\<rparr>)"
    by blast
  have "\<exists>s''. collect_rows (Suc (length rest)) obj env track co' s' =
       (Ret (Some (map conv rest)), s'') \<and> act_thread s'' = None \<and>
     callbacks s'' = filter (\<lambda>c. c \<noteq> self_act s) (callbacks s) \<and> srf_inv s''"
    using Cons.hyps(1) [of "co\<lparr>yields := rest\<rparr>" s'] srf_call_inv [OF Cons.prems(1) s'(1)] s'
      Cons.prems(5-7)
    by (simp flip: Cons.hyps(2))
  then obtain s'' where "collect_rows (Suc (length rest)) obj env track co' s' =
       (Ret (Some (map conv rest)), s'')" "act_thread s'' = None"
      "callbacks s'' = filter (\<lambda>c. c \<noteq> self_act s) (callbacks s)" "srf_inv s''"
    by blast
  with s' show ?case
    by (subst (1 2) Cons.hyps(2) [symmetric])
      (simp add: bindm_def [of "pllua_common_call _ _ _ _ _"] bindm_def gets_def ret_def)
qed

lemma first_call:
  assumes "srf_inv s" "no_faults s" "act_thread s = None" "yields co = vs # rest"
  shows "pllua_common_call obj env track True co s = pllua_common_call obj env track True co
    (s\<lparr>isDone := ExprSingleResult, callbacks := self_act s # callbacks s,
       coroutines := (coroutines s)(next_thread s \<mapsto> co), next_thread := Suc (next_thread s),
       act_thread := Some (next_thread s), member_thread := Some (next_thread s)\<rparr>)"
  using assms
  by (simp add: srf_inv_def no_faults_def srf_ops mdefs pllua_call_function_def Let_def)

text \<open>C9. Value-per-call mode delivers exactly the rows the body yields, in order, and then ends; a
  body that ends without yielding is a single row if it returned something, and no row
  otherwise.  Afterwards the call site has no thread and no callback left, and the next call
  would start anew.\<close>
theorem srf_delivers_rows:
  assumes "srf_inv s" "no_faults s" "act_thread s = None"
    and "ending co = Returns fin" "close_error co = None"
    and "\<forall>vs \<in> set (srf_rows co). pllua_return_result env vs = ret (conv vs)"
  shows "\<exists>s'. collect_rows (Suc (length (yields co))) obj env track co s =
       (Ret (Some (map conv (srf_rows co))), s') \<and> act_thread s' = None \<and>
     (\<forall>t. coroutines s' t = None) \<and> self_act s \<notin> set (callbacks s')"
proof (cases "yields co")
  case Nil
  show ?thesis
  proof (cases fin)
    case F: Nil
    with Nil assms show ?thesis
      by (simp add: srf_inv_def no_faults_def srf_ops mdefs pllua_call_function_def Let_def
          srf_rows_def)
  next
    case (Cons v vs)
    with Nil assms(4,6) have "pllua_return_result env (v # vs) = ret (conv (v # vs))"
      by (simp add: srf_rows_def)
    with Cons Nil assms(1-5) show ?thesis
      by (simp add: srf_inv_def no_faults_def srf_ops mdefs pllua_call_function_def Let_def
          srf_rows_def del: pllua_return_result_def)
  qed
next
  case (Cons vs rest)
  let ?s1 = "s\<lparr>isDone := ExprSingleResult, callbacks := self_act s # callbacks s,
                coroutines := (coroutines s)(next_thread s \<mapsto> co), next_thread := Suc (next_thread s),
                act_thread := Some (next_thread s), member_thread := Some (next_thread s)\<rparr>"
  have s1: "srf_inv ?s1" "no_faults ?s1" "act_thread ?s1 = Some (next_thread s)"
      "coroutines ?s1 (next_thread s) = Some co"
    using assms(1-3) by (auto simp: srf_inv_def no_faults_def)
  have rows: "srf_rows co = yields co" using Cons by (simp add: srf_rows_def)
  have first: "pllua_common_call obj env track True co s = pllua_common_call obj env track True co ?s1"
    by (rule first_call [OF assms(1-3) Cons])
  have eq: "collect_rows (Suc (length (yields co))) obj env track co s =
      collect_rows (Suc (length (yields co))) obj env track co ?s1"
    unfolding collect_rows.simps bindm_def [of "pllua_common_call _ _ _ _ _"] first ..
  from collect_rest [OF s1 assms(4,5), of env conv obj track co] assms(6)
  show ?thesis
    unfolding eq rows by (fastforce simp: srf_inv_def)
qed

definition srf0 :: srf where
  "srf0 = \<lparr>act_thread = None, member_thread = None, co_onstack = False, interned = True,
     self_act = 7, callbacks = [3], coroutines = (\<lambda>_. None), next_thread = 0,
     isDone = ExprSingleResult, gc_debt = 0, gc_runs = [], srf_pg_faults = [],
     srf_lua_faults = []\<rparr>"

lemma srf0_ok [simp]: "srf_inv srf0" "no_faults srf0" "act_thread srf0 = None"
  by (simp_all add: srf0_def srf_inv_def no_faults_def)

definition int_env :: "int return_env" where
  "int_env = \<lparr>re_rettype = 23, re_retdomain = False, re_typefuncclass = TYPEFUNC_SCALAR,
     ti_stale = None, check_domain_null = None,
     construct = (\<lambda>vs. case vs of [LInt i] \<Rightarrow> Inr (CDatum i)
                       | _ \<Rightarrow> Inl (LStr ''bad value''))\<rparr>"

definition sample_body :: coroutine where
  "sample_body = \<lparr>yields = [[LInt 1], [LNil], [LInt 3]], ending = Returns [LInt 9],
     close_error = None\<rparr>"

theorem srf_delivers_rows_witness:
  "\<exists>s'. collect_rows 4 (\<lambda>_. LNil) int_env False sample_body srf0 =
     (Ret (Some [Some 1, None, Some 3]), s') \<and> act_thread s' = None"
proof -
  let ?conv = "\<lambda>vs. case vs of [LInt i] \<Rightarrow> Some i | _ \<Rightarrow> None"
  have e: "ending sample_body = Returns [LInt 9]" "close_error sample_body = None"
      "srf_rows sample_body = [[LInt 1], [LNil], [LInt 3]]"
    by (simp_all add: sample_body_def srf_rows_def)
  have n: "Suc (length (yields sample_body)) = 4" by (simp add: sample_body_def)
  have "\<forall>vs \<in> set (srf_rows sample_body). pllua_return_result int_env vs = ret (?conv vs)"
    by (simp add: e int_env_def pllua_return_result_def)
  from srf_delivers_rows [OF srf0_ok e(1,2) this, unfolded n e(3)] show ?thesis
    by fastforce
qed


text \<open>An error raised in the body of a set-returning function, at any row, comes out of the call
  with its value, and releases the thread and its callback.\<close>
theorem srf_error_releases:
  assumes "srf_inv s" "no_faults s" "act_thread s = Some t" "coroutines s t = Some co"
    and "yields co = []" "ending co = Raises v"
  shows "\<exists>s' v'. pllua_common_call obj env track True co' s = (LuaThrow LUA_ERRRUN v', s') \<and>
     v' = (case close_error co of None \<Rightarrow> v | Some w \<Rightarrow> w) \<and>
     act_thread s' = None \<and> (\<forall>t. coroutines s' t = None) \<and> self_act s \<notin> set (callbacks s')"
  using assms
  by (cases "close_error co") (auto simp: srf_inv_def no_faults_def srf_ops mdefs)

theorem srf_error_releases_witness:
  "let co = \<lparr>yields = [], ending = Raises (LStr ''x''), close_error = None\<rparr>;
       s = srf0\<lparr>act_thread := Some 0, member_thread := Some 0, next_thread := 1, callbacks := [7, 3],
                coroutines := [0 \<mapsto> co]\<rparr>
   in \<exists>s'. pllua_common_call (\<lambda>_. LNil) int_env False True co s =
        (LuaThrow LUA_ERRRUN (LStr ''x''), s') \<and> act_thread s' = None"
  using srf_error_releases [where t = 0 and v = "LStr ''x''" and obj = "\<lambda>_. LNil" and env = int_env
      and track = False and co = "\<lparr>yields = [], ending = Raises (LStr ''x''), close_error = None\<rparr>"
      and co' = "\<lparr>yields = [], ending = Raises (LStr ''x''), close_error = None\<rparr>"
      and s = "srf0\<lparr>act_thread := Some 0, member_thread := Some 0, next_thread := 1,
         callbacks := [7, 3],
         coroutines := [0 \<mapsto> \<lparr>yields = [], ending = Raises (LStr ''x''), close_error = None\<rparr>]\<rparr>"]
  by (simp add: srf0_def srf_inv_def no_faults_def Let_def) blast

text \<open>A null result of a domain type is never returned unchecked: whatever values the function
  left, if it yields a null that did not come from the type's constructor, the type was current
  and the domain's constraints accept null.\<close>
theorem null_domain_is_checked:
  assumes "pllua_return_result env vs s = (Ret None, s')"
    and "re_retdomain env" "re_rettype env \<noteq> VOIDOID"
  shows "ti_stale env = None \<and> s' = s \<and>
     (if vs = [] \<or> vs = [LNil] then check_domain_null env = None
      else construct env vs = Inr CNil)"
  using assms
  by (cases vs)
    (auto simp: pllua_return_result_def mdefs Let_def split: option.splits sum.splits constructed.splits if_splits)

text \<open>A function with a composite result that returns a single nil returns a null, not a row of
  nulls: the type's constructor is not called.\<close>
theorem composite_nil_is_null:
  assumes "re_rettype env \<noteq> VOIDOID" "re_typefuncclass env \<noteq> TYPEFUNC_SCALAR"
    and "ti_stale env = None" "check_domain_null env = None"
  shows "pllua_return_result env [LNil] = ret None"
  using assms by (simp add: pllua_return_result_def Let_def)

theorem composite_nil_is_null_witness:
  "pllua_return_result (int_env\<lparr>re_typefuncclass := TYPEFUNC_COMPOSITE\<rparr>) [LNil] = ret None"
  by (rule composite_nil_is_null) (simp_all add: int_env_def)

text \<open>C11. A rescan of the expression context releases a set-returning call that has not finished, so
  that the next call starts from the first row.\<close>
theorem rescan_restarts:
  assumes "srf_inv s" "act_thread s = Some t" "coroutines s t = Some co" "close_error co = None"
  shows "\<exists>s'. shutdown_econtext to_pg s = (Ret (), s') \<and> srf_inv s' \<and> act_thread s' = None \<and>
     self_act s' \<notin> set (callbacks s') \<and>
     srf_pg_faults s' = srf_pg_faults s \<and> srf_lua_faults s' = srf_lua_faults s"
  using assms
  by (auto simp: srf_inv_def shutdown_econtext_def pllua_resetactivation_cb_def
      pllua_resetactivation_def mdefs)

theorem rescan_restarts_witness:
  "let s = srf0\<lparr>act_thread := Some 0, member_thread := Some 0, next_thread := 1, callbacks := [7, 3],
       coroutines := [0 \<mapsto> \<lparr>yields = [[LInt 2]], ending = Returns [], close_error = None\<rparr>]\<rparr>
   in \<exists>s'. shutdown_econtext (\<lambda>_. blank_errdata) s = (Ret (), s') \<and> act_thread s' = None"
  using rescan_restarts [where t = 0 and to_pg = "\<lambda>_. blank_errdata"
      and co = "\<lparr>yields = [[LInt 2]], ending = Returns [], close_error = None\<rparr>"
      and s = "srf0\<lparr>act_thread := Some 0, member_thread := Some 0, next_thread := 1,
         callbacks := [7, 3],
         coroutines := [0 \<mapsto> \<lparr>yields = [[LInt 2]], ending = Returns [], close_error = None\<rparr>]\<rparr>"]
  by (simp add: srf0_def srf_inv_def Let_def) blast

end
