(* ===== verification/Trusted.thy ===== *)
theory Trusted
  imports Prelude
begin

text \<open>
  The sandbox of trusted functions, src/src/trusted.c: what sandboxed code can load, and how a
  superuser lets modules in.  Tables that the code uses as maps are functions from keys to
  values, nil standing for an absent entry; module tables, which the modes copy or wrap, live in
  a heap.

  Calling a function that this file does not define is the parameter \<open>call\<close> (the outside
  \<open>require\<close>, mode functions, loaders of the sandbox itself), with its effect on the state.
\<close>

subsection \<open>State\<close>

record table =
  entries :: "(lval \<times> lval) list"
  metatable :: "nat option"

text \<open>The closures that \<open>_allow\<close> stores: \<open>pllua_bind_one_value\<close> and \<open>pllua_bind_one_call\<close>.\<close>

datatype closure =
    BindOneValue lval
  | BindOneCall lval lval lval
  | ProxyWrap lval lval

datatype searcher = PreloadSearch | AllowedSearch | UserSearch lval

record sandbox =
  sb_globals :: "lval \<Rightarrow> lval"
  sb_loaded :: "lval \<Rightarrow> lval"
  sb_allow :: "lval \<Rightarrow> lval"
  sb_preload :: "lval \<Rightarrow> lval"
  sb_searchers :: "searcher list option"
  modes :: "string \<Rightarrow> lval"
  heap :: "nat \<Rightarrow> table option"
  closures :: "nat \<Rightarrow> closure option"
  sb_next :: nat

type_synonym ('s, 'a) r = "'s \<Rightarrow> exn + ('a \<times> 's)"

type_synonym lua_call = "lval \<Rightarrow> lval list \<Rightarrow> (sandbox, lval) r"

definition bindS :: "('s, 'a) r \<Rightarrow> ('a \<Rightarrow> ('s, 'b) r) \<Rightarrow> ('s, 'b) r" where
  "bindS m f s = (case m s of Inl e \<Rightarrow> Inl e | Inr (a, s') \<Rightarrow> f a s')"

fun is_string :: "lval \<Rightarrow> bool" where
  "is_string (LStr _) = True"
| "is_string (LInt _) = True"
| "is_string (LFlt _) = True"
| "is_string _ = False"

fun is_function :: "lval \<Rightarrow> bool" where
  "is_function (LFun _) = True"
| "is_function _ = False"

subsection \<open>\<open>load\<close>\<close>

text \<open>
  The arguments given to the outside \<open>load\<close>; \<open>sandbox_env\<close> is the sandbox's global table.
\<close>

definition pllua_t_load :: "lval \<Rightarrow> lval list \<Rightarrow> lval list" where
  "pllua_t_load sandbox_env args =
     (let args = (if length args < 4
                  then take 3 (args @ replicate 3 LNil) @ [sandbox_env] else args)
      in args[2 := LStr ''t''])"

subsection \<open>\<open>require\<close>\<close>

definition pllua_do_trusted_require :: "lua_call \<Rightarrow> lval \<Rightarrow> lval \<Rightarrow> lval \<Rightarrow> (sandbox, lval) r" where
  "pllua_do_trusted_require call modefunc requirefunc modname =
     bindS (call requirefunc [modname]) (\<lambda>v. call modefunc [v])"

text \<open>Calling a function value, where it may be one of the closures of this file.\<close>

definition call_value :: "lua_call \<Rightarrow> lua_call" where
  "call_value call f args s =
     (case f of
        LFun n \<Rightarrow>
          (case closures s n of
             Some (BindOneValue v) \<Rightarrow> Inr (v, s)
           | Some (BindOneCall modef reqf name) \<Rightarrow>
               pllua_do_trusted_require call modef reqf name s
           | Some (ProxyWrap g self) \<Rightarrow>
               call g (self # tl args) s
           | None \<Rightarrow> call f args s)
      | _ \<Rightarrow> call f args s)"

definition pllua_package_preload_search :: "string \<Rightarrow> sandbox \<Rightarrow> lval \<times> lval" where
  "pllua_package_preload_search name s =
     (if sb_preload s (LStr name) = LNil
      then (LStr (''no field package.preload['' @ name @ '']''), LNil)
      else (sb_preload s (LStr name), LNil))"

definition pllua_package_allowed_search :: "string \<Rightarrow> sandbox \<Rightarrow> lval \<times> lval" where
  "pllua_package_allowed_search name s =
     (if sb_allow s (LStr name) = LNil
      then (LStr (''no module '' @ name @ '' in list of allowed modules''), LNil)
      else (sb_allow s (LStr name), LNil))"

text \<open>
  \<open>call2\<close> runs a searcher that sandboxed code added; its two results, and the number converted
  to a string where it gives one as message (\<open>tostr\<close>).
\<close>

fun pllua_t_require_findloader ::
  "(lval \<Rightarrow> string \<Rightarrow> (sandbox, lval \<times> lval) r) \<Rightarrow> (lval \<Rightarrow> string) \<Rightarrow> string \<Rightarrow> searcher list \<Rightarrow>
   string \<Rightarrow> (sandbox, lval \<times> lval) r"
where
  "pllua_t_require_findloader call2 tostr name [] msg s =
     Inl (LuaExn (''module '' @ name @ '' not found:'' @ msg))"
| "pllua_t_require_findloader call2 tostr name (sr # srs) msg s =
     (case (case sr of
              PreloadSearch \<Rightarrow> Inr (pllua_package_preload_search name s, s)
            | AllowedSearch \<Rightarrow> Inr (pllua_package_allowed_search name s, s)
            | UserSearch f \<Rightarrow> call2 f name s) of
        Inl e \<Rightarrow> Inl e
      | Inr ((a, b), s') \<Rightarrow>
          if is_function a then Inr ((a, b), s')
          else if is_string a then pllua_t_require_findloader call2 tostr name srs (msg @ tostr a) s'
          else pllua_t_require_findloader call2 tostr name srs msg s')"

definition pllua_t_require ::
  "lua_call \<Rightarrow> (lval \<Rightarrow> string \<Rightarrow> (sandbox, lval \<times> lval) r) \<Rightarrow> (lval \<Rightarrow> string) \<Rightarrow> string \<Rightarrow>
   (sandbox, lval) r"
where
  "pllua_t_require call call2 tostr name s =
     (if lua_toboolean (sb_loaded s (LStr name)) then Inr (sb_loaded s (LStr name), s)
      else case sb_searchers s of
        None \<Rightarrow> Inl (LuaExn ''package.searchers must be a table'')
      | Some srs \<Rightarrow>
          bindS (pllua_t_require_findloader call2 tostr name srs '''') (\<lambda>(loader, arg).
          bindS (call_value call loader [LStr name, arg]) (\<lambda>v s.
            let v' = (if v = LNil
                      then (if sb_loaded s (LStr name) = LNil then LBool True
                            else sb_loaded s (LStr name))
                      else v)
            in Inr (v', s\<lparr>sb_loaded := (sb_loaded s)(LStr name := v')\<rparr>))) s)"

subsection \<open>\<open>trusted.allow\<close> and \<open>trusted.remove\<close>\<close>

text \<open>\<open>lua_rawset\<close>: a nil key is an error, whatever the value.\<close>

definition rawset_fun :: "(lval \<Rightarrow> lval) \<Rightarrow> lval \<Rightarrow> lval \<Rightarrow> exn + (lval \<Rightarrow> lval)" where
  "rawset_fun t k v = (if k = LNil then Inl (LuaExn ''table index is nil'') else Inr (t(k := v)))"

definition new_closure :: "closure \<Rightarrow> sandbox \<Rightarrow> lval \<times> sandbox" where
  "new_closure c s = (LFun (sb_next s),
     s\<lparr>closures := (closures s)(sb_next s \<mapsto> c), sb_next := Suc (sb_next s)\<rparr>)"

text \<open>
  The argument checks: \<open>luaL_checkstring\<close> accepts numbers; \<open>luaL_optstring\<close> also nil.
\<close>

definition check_string :: "lval \<Rightarrow> exn + unit" where
  "check_string v = (if is_string v then Inr () else Inl (LuaExn ''bad argument (string expected)''))"

definition opt_string :: "lval \<Rightarrow> exn + unit" where
  "opt_string v = (if v = LNil then Inr () else check_string v)"

text \<open>
  A global name given as a boolean: true is the module's name in the sandbox, false is none.
\<close>

definition global_name :: "lval \<Rightarrow> lval \<Rightarrow> exn + lval" where
  "global_name g newname =
     (case g of
        LBool b \<Rightarrow> Inr (if b then newname else LNil)
      | _ \<Rightarrow> bindR (opt_string g) (\<lambda>_. Inr g))"

definition mode_function :: "(lval \<Rightarrow> string) \<Rightarrow> lval \<Rightarrow> sandbox \<Rightarrow> exn + lval" where
  "mode_function tostr mode s =
     (if is_function mode then Inr mode
      else bindR (opt_string mode) (\<lambda>_.
        let f = modes s (if mode = LNil then ''proxy'' else tostr mode)
        in if is_function f then Inr f
           else Inl (LuaExn ''trusted.modes value is not a function'')))"

definition pllua_trusted_allow ::
  "lua_call \<Rightarrow> (lval \<Rightarrow> string) \<Rightarrow> lval \<Rightarrow> lval \<Rightarrow> lval \<Rightarrow> lval \<Rightarrow> lval \<Rightarrow> lval \<Rightarrow> (sandbox, unit) r"
where
  "pllua_trusted_allow call tostr requirefunc modname newname0 mode glob0 immed s =
     bindR (check_string modname) (\<lambda>_.
     bindR (opt_string newname0) (\<lambda>_.
     let newname = (if newname0 = LNil then modname else newname0) in
     bindR (global_name glob0 newname) (\<lambda>glob.
     let load_now = (glob \<noteq> LNil \<or> lua_toboolean immed) in
     bindR (mode_function tostr mode s) (\<lambda>modef.
     bindR (if load_now then
              bindR (pllua_do_trusted_require call modef requirefunc modname s)
                (\<lambda>(v, s'). Inr (v, new_closure (BindOneValue v) s'))
            else Inr (LNil, new_closure (BindOneCall modef requirefunc modname) s))
       (\<lambda>(v, (f, s')).
     bindR (rawset_fun (sb_allow s') newname f) (\<lambda>allow'.
     let s1 = s'\<lparr>sb_allow := allow'\<rparr> in
     if glob = LNil then Inr ((), s1)
     else bindR (rawset_fun (sb_loaded s1) newname v) (\<lambda>loaded'.
          bindR (rawset_fun (sb_globals s1) glob v) (\<lambda>globals'.
          Inr ((), s1\<lparr>sb_loaded := loaded', sb_globals := globals'\<rparr>)))))))))"

definition pllua_trusted_remove :: "lval \<Rightarrow> lval \<Rightarrow> (sandbox, unit) r" where
  "pllua_trusted_remove modname glob0 s =
     bindR (check_string modname) (\<lambda>_.
     bindR (global_name glob0 modname) (\<lambda>glob.
     bindR (rawset_fun (sb_globals s) glob LNil) (\<lambda>globals'.
     bindR (rawset_fun (sb_allow s) modname LNil) (\<lambda>allow'.
     bindR (rawset_fun (sb_loaded s) modname LNil) (\<lambda>loaded'.
     Inr ((), s\<lparr>sb_globals := globals', sb_allow := allow', sb_loaded := loaded'\<rparr>))))))"

text \<open>
  \<open>trusted.allow\<close> and \<open>trusted.require\<close>, from the Lua text \<open>trusted_lua\<close>: a module is a string
  or an entry of up to five values, whose missing last two come from the call.
\<close>

datatype allow_spec =
    OneModule lval
  | ModuleList "lval list list"

fun allow_entry :: "lval list \<Rightarrow> lval \<times> lval \<times> lval \<times> lval \<times> lval" where
  "allow_entry vs =
     (case take 5 (vs @ replicate 5 LNil) of
        [a, b, c, d, e] \<Rightarrow> (a, b, c, d, e)
      | _ \<Rightarrow> (LNil, LNil, LNil, LNil, LNil))"

fun allow_all ::
  "lua_call \<Rightarrow> (lval \<Rightarrow> string) \<Rightarrow> lval \<Rightarrow> lval list list \<Rightarrow> lval \<Rightarrow> lval \<Rightarrow> lval \<Rightarrow> (sandbox, unit) r"
where
  "allow_all call tostr req [] mode glob immed s = Inr ((), s)"
| "allow_all call tostr req (v # vs) mode glob immed s =
     (case allow_entry v of
        (e_mod, e_new, e_mode, e_glob, e_immed) \<Rightarrow>
          bindS (pllua_trusted_allow call tostr req e_mod e_new
                   (if lua_toboolean e_mode then e_mode else mode)
                   (if e_glob = LNil then glob else e_glob)
                   (if e_immed = LNil then immed else e_immed))
            (\<lambda>_. allow_all call tostr req vs mode glob immed) s)"

definition trusted_allow ::
  "lua_call \<Rightarrow> (lval \<Rightarrow> string) \<Rightarrow> lval \<Rightarrow> allow_spec \<Rightarrow> lval \<Rightarrow> lval \<Rightarrow> lval \<Rightarrow> lval \<Rightarrow> (sandbox, unit) r"
where
  "trusted_allow call tostr req spec new mode glob immed s =
     (case spec of
        OneModule (LStr m) \<Rightarrow> pllua_trusted_allow call tostr req (LStr m) new mode glob immed s
      | OneModule _ \<Rightarrow> Inr ((), s)
      | ModuleList vs \<Rightarrow> allow_all call tostr req vs mode glob immed s)"

definition trusted_require ::
  "lua_call \<Rightarrow> (lval \<Rightarrow> string) \<Rightarrow> lval \<Rightarrow> allow_spec \<Rightarrow> lval \<Rightarrow> lval \<Rightarrow> (sandbox, unit) r"
where
  "trusted_require call tostr req spec new mode =
     trusted_allow call tostr req spec new mode (LBool True) LNil"

subsection \<open>The modes\<close>

text \<open>
  \<open>lua_rawset\<close> on a table of the heap, keeping the order of first insertion.  The keys here
  come from another table and are not nil.
\<close>

fun assoc_set :: "lval \<Rightarrow> lval \<Rightarrow> (lval \<times> lval) list \<Rightarrow> (lval \<times> lval) list" where
  "assoc_set k v [] = [(k, v)]"
| "assoc_set k v ((k', v') # es) = (if k = k' then (k, v) # es else (k', v') # assoc_set k v es)"

definition heap_set :: "nat \<Rightarrow> lval \<Rightarrow> lval \<Rightarrow> sandbox \<Rightarrow> sandbox" where
  "heap_set t k v s =
     s\<lparr>heap := (heap s)(t := map_option (\<lambda>tb. tb\<lparr>entries := assoc_set k v (entries tb)\<rparr>) (heap s t))\<rparr>"

definition new_table :: "sandbox \<Rightarrow> nat \<times> sandbox" where
  "new_table s = (sb_next s,
     s\<lparr>heap := (heap s)(sb_next s \<mapsto> \<lparr>entries = [], metatable = None\<rparr>),
       sb_next := Suc (sb_next s)\<rparr>)"

definition table_entries :: "sandbox \<Rightarrow> nat \<Rightarrow> (lval \<times> lval) list" where
  "table_entries s t = (case heap s t of None \<Rightarrow> [] | Some tb \<Rightarrow> entries tb)"

text \<open>
  The state of a deep copy: the memo table is local to the call.  The depth bounds nested C
  calls, which Lua limits with an error.
\<close>

type_synonym memo_state = "(nat \<Rightarrow> nat option) \<times> sandbox"

fun copy_entries ::
  "(nat \<Rightarrow> memo_state \<Rightarrow> exn + (nat \<times> memo_state)) \<Rightarrow> nat \<Rightarrow> (lval \<times> lval) list \<Rightarrow> memo_state \<Rightarrow>
   exn + memo_state"
where
  "copy_entries inner n [] ms = Inr ms"
| "copy_entries inner n ((k, v) # es) ms =
     bindR (case v of
              LTab t \<Rightarrow> bindR (inner t ms) (\<lambda>(t', ms'). Inr (LTab t', ms'))
            | _ \<Rightarrow> Inr (v, ms)) (\<lambda>(v', (memo, s)).
     copy_entries inner n es (memo, heap_set n k v' s))"

primrec pllua_trusted_mode_copy_inner :: "nat \<Rightarrow> nat \<Rightarrow> memo_state \<Rightarrow> exn + (nat \<times> memo_state)" where
  "pllua_trusted_mode_copy_inner 0 t ms = Inl (LuaExn ''C stack overflow'')"
| "pllua_trusted_mode_copy_inner (Suc d) t ms =
     (case ms of (memo, s) \<Rightarrow>
        (case memo t of
           Some n \<Rightarrow> Inr (n, ms)
         | None \<Rightarrow>
             (case new_table s of (n, s') \<Rightarrow>
                bindR (copy_entries (pllua_trusted_mode_copy_inner d) n (table_entries s t)
                         (memo(t \<mapsto> n), s')) (\<lambda>ms'. Inr (n, ms')))))"

definition pllua_trusted_mode_copy :: "nat \<Rightarrow> lval \<Rightarrow> (sandbox, lval) r" where
  "pllua_trusted_mode_copy d v s =
     (case v of
        LTab t \<Rightarrow>
          bindR (pllua_trusted_mode_copy_inner d t (\<lambda>_. None, s)) (\<lambda>(n, (memo, s')).
          Inr (LTab n, s'))
      | _ \<Rightarrow> Inr (v, s))"

text \<open>
  \<open>scopy\<close> iterates over its argument without looking at its type; \<open>None\<close> is undefined behaviour.
\<close>

definition pllua_trusted_mode_scopy :: "lval \<Rightarrow> sandbox \<Rightarrow> (lval \<times> sandbox) option" where
  "pllua_trusted_mode_scopy v s =
     (case v of
        LTab t \<Rightarrow>
          (case new_table s of (n, s') \<Rightarrow>
             Some (LTab n, fold (\<lambda>(k, x). heap_set n k x) (table_entries s t) s'))
      | _ \<Rightarrow> None)"

definition pllua_trusted_mode_direct :: "lval \<Rightarrow> (sandbox, lval) r" where
  "pllua_trusted_mode_direct v s = Inr (v, s)"

text \<open>
  One entry of the old metatable.  The keys of metatables are strings by assumption
  (\<open>strcmp\<close> on another key's \<open>lua_tostring\<close> is not defined).
\<close>

definition proxy_meta_entry :: "nat \<Rightarrow> nat \<Rightarrow> lval \<times> lval \<Rightarrow> sandbox \<Rightarrow> sandbox" where
  "proxy_meta_entry ot mt kv s =
     (case kv of (k, v) \<Rightarrow>
        if k = LStr ''__index'' then s
        else if k = LStr ''__newindex'' then heap_set mt k v s
        else if k = LStr ''__call'' then
          (case new_closure (ProxyWrap v (LTab ot)) s of (f, s') \<Rightarrow> heap_set mt k f s')
        else heap_set mt k v s)"

definition pllua_trusted_mode_proxy_metatable :: "nat \<Rightarrow> nat \<Rightarrow> sandbox \<Rightarrow> sandbox" where
  "pllua_trusted_mode_proxy_metatable ot mt s =
     (case heap s ot of
        Some tb \<Rightarrow>
          (case metatable tb of
             None \<Rightarrow> s
           | Some old \<Rightarrow> fold (proxy_meta_entry ot mt) (table_entries s old) s)
      | None \<Rightarrow> s)"

text \<open>The wrapping table with its metatable, which both proxy modes make.\<close>

definition proxy_table :: "nat \<Rightarrow> sandbox \<Rightarrow> nat \<times> sandbox" where
  "proxy_table t s =
     (case new_table s of (n, s1) \<Rightarrow>
      (case new_table s1 of (m, s2) \<Rightarrow>
        (let s3 = heap_set m (LStr ''__metatable'') (LBool True) s2;
             s4 = pllua_trusted_mode_proxy_metatable t m s3;
             s5 = heap_set m (LStr ''__index'') (LTab t) s4
         in (n, s5\<lparr>heap := (heap s5)(n := map_option (\<lambda>tb. tb\<lparr>metatable := Some m\<rparr>) (heap s5 n))\<rparr>))))"

definition pllua_trusted_mode_sproxy :: "lval \<Rightarrow> (sandbox, lval) r" where
  "pllua_trusted_mode_sproxy v s =
     (case v of
        LTab t \<Rightarrow> (case proxy_table t s of (n, s') \<Rightarrow> Inr (LTab n, s'))
      | _ \<Rightarrow> Inr (v, s))"

text \<open>In the deep version only the table values are replaced; the rest is read through.\<close>

fun proxy_entries ::
  "(nat \<Rightarrow> memo_state \<Rightarrow> exn + (nat \<times> memo_state)) \<Rightarrow> nat \<Rightarrow> (lval \<times> lval) list \<Rightarrow> memo_state \<Rightarrow>
   exn + memo_state"
where
  "proxy_entries inner n [] ms = Inr ms"
| "proxy_entries inner n ((k, v) # es) ms =
     (case v of
        LTab t \<Rightarrow>
          bindR (inner t ms) (\<lambda>(t', (memo, s)).
          proxy_entries inner n es (memo, heap_set n k (LTab t') s))
      | _ \<Rightarrow> proxy_entries inner n es ms)"

primrec pllua_trusted_mode_proxy_inner :: "nat \<Rightarrow> nat \<Rightarrow> memo_state \<Rightarrow> exn + (nat \<times> memo_state)" where
  "pllua_trusted_mode_proxy_inner 0 t ms = Inl (LuaExn ''C stack overflow'')"
| "pllua_trusted_mode_proxy_inner (Suc d) t ms =
     (case ms of (memo, s) \<Rightarrow>
        (case memo t of
           Some n \<Rightarrow> Inr (n, ms)
         | None \<Rightarrow>
             (case proxy_table t s of (n, s') \<Rightarrow>
                bindR (proxy_entries (pllua_trusted_mode_proxy_inner d) n (table_entries s t)
                         (memo(t \<mapsto> n), s')) (\<lambda>ms'. Inr (n, ms')))))"

definition pllua_trusted_mode_proxy :: "nat \<Rightarrow> lval \<Rightarrow> (sandbox, lval) r" where
  "pllua_trusted_mode_proxy d v s =
     (case v of
        LTab t \<Rightarrow>
          bindR (pllua_trusted_mode_proxy_inner d t (\<lambda>_. None, s)) (\<lambda>(n, (memo, s')).
          Inr (LTab n, s'))
      | _ \<Rightarrow> Inr (v, s))"

end
