(* ===== verification/Trusted_Props.thy ===== *)
theory Trusted_Props
  imports Trusted
begin

text \<open>
  What confines sandboxed code (src/src/trusted.c): \<open>load\<close> gives text chunks in the sandbox's
  environment, \<open>require\<close> gives only modules on the list of allowed ones, and \<open>trusted.allow\<close> and
  \<open>trusted.remove\<close> change that list.  Trusted_Modes is about the modules' copies and proxies.
\<close>

subsection \<open>Loading code\<close>

text \<open>Sandboxed code cannot load a binary chunk, and a chunk it loads without naming an environment
  runs in the sandbox: whatever the arguments, the outside \<open>load\<close> is given the mode \<open>t\<close>, and
  the sandbox as environment unless four arguments were given.\<close>
theorem load_is_text_in_sandbox:
  "let out = pllua_t_load env args in
     4 \<le> length out \<and> out ! 2 = LStr ''t'' \<and>
     (length args < 4 \<longrightarrow> out ! 3 = env) \<and> (4 \<le> length args \<longrightarrow> out ! 3 = args ! 3) \<and>
     (args \<noteq> [] \<longrightarrow> out ! 0 = args ! 0)"
  by (cases args) (auto simp: pllua_t_load_def Let_def nth_append nth_list_update)

theorem load_is_text_in_sandbox_witness:
  "pllua_t_load (LTab 9) [LStr ''chunk'', LStr ''name'', LStr ''b''] ! 2 = LStr ''t'' \<and>
   pllua_t_load (LTab 9) [LStr ''chunk'', LStr ''name'', LStr ''b''] ! 3 = LTab 9"
  using load_is_text_in_sandbox [of "LTab 9" "[LStr ''chunk'', LStr ''name'', LStr ''b'']"]
  by (simp add: Let_def)

subsection \<open>\<open>require\<close>\<close>

definition default_searchers :: "sandbox \<Rightarrow> bool" where
  "default_searchers s \<longleftrightarrow> sb_searchers s = Some [PreloadSearch, AllowedSearch]"

lemma findloader_default:
  "pllua_t_require_findloader call2 tostr name [PreloadSearch, AllowedSearch] msg s =
     (if is_function (sb_preload s (LStr name)) then Inr ((sb_preload s (LStr name), LNil), s)
      else if is_function (sb_allow s (LStr name)) then Inr ((sb_allow s (LStr name), LNil), s)
      else pllua_t_require_findloader call2 tostr name [] (msg @
        (if sb_preload s (LStr name) = LNil then tostr (LStr (''no field package.preload['' @ name @ '']''))
         else if is_string (sb_preload s (LStr name)) then tostr (sb_preload s (LStr name)) else '''') @
        (if sb_allow s (LStr name) = LNil
         then tostr (LStr (''no module '' @ name @ '' in list of allowed modules''))
         else if is_string (sb_allow s (LStr name)) then tostr (sb_allow s (LStr name)) else '''')) s)"
  by (simp add: pllua_package_preload_search_def pllua_package_allowed_search_def)

text \<open>\<open>require\<close> in the sandbox gives nothing that was not let in: a module that is neither
  loaded nor preloaded by sandboxed code comes from the list of allowed modules, by calling the
  loader stored there, and a name that is not on the list is an error.\<close>
theorem require_is_confined:
  assumes "default_searchers s"
    and "\<not> lua_toboolean (sb_loaded s (LStr name))" "sb_preload s (LStr name) = LNil"
  shows "(sb_allow s (LStr name) = LNil \<longrightarrow>
       (\<exists>m. pllua_t_require call call2 tostr name s = Inl (LuaExn m))) \<and>
     (\<forall>v s'. pllua_t_require call call2 tostr name s = Inr (v, s') \<longrightarrow>
       (\<exists>w s1. is_function (sb_allow s (LStr name)) \<and>
          call_value call (sb_allow s (LStr name)) [LStr name, LNil] s = Inr (w, s1) \<and>
          v = (if w \<noteq> LNil then w
               else if sb_loaded s1 (LStr name) \<noteq> LNil then sb_loaded s1 (LStr name)
               else LBool True) \<and>
          sb_loaded s' (LStr name) = v))"
  using assms
  by (auto simp: pllua_t_require_def default_searchers_def findloader_default bindS_def Let_def
      simp del: pllua_t_require_findloader.simps(2) split: sum.splits if_splits)

definition sandbox0 :: sandbox where
  "sandbox0 = \<lparr>sb_globals = (\<lambda>_. LNil), sb_loaded = (\<lambda>_. LNil), sb_allow = (\<lambda>_. LNil),
     sb_preload = (\<lambda>_. LNil), sb_searchers = Some [PreloadSearch, AllowedSearch],
     modes = (\<lambda>m. if m = ''direct'' then LFun 1 else if m = ''proxy'' then LFun 2 else LNil),
     heap = (\<lambda>_. None), closures = (\<lambda>_. None), sb_next = 10\<rparr>"

text \<open>An outside world in which function 0 is \<open>require\<close> and gives module \<open>re\<close> as table 5.\<close>

definition outside :: lua_call where
  "outside f args s =
     (if f = LFun 0 then (if args = [LStr ''re''] then Inr (LTab 5, s) else Inl (LuaExn ''not found''))
      else case args of [v] \<Rightarrow> Inr (v, s) | _ \<Rightarrow> Inr (LNil, s))"

fun plain :: "lval \<Rightarrow> string" where
  "plain (LStr m) = m"
| "plain _ = ''''"

theorem require_is_confined_witness:
  "\<exists>m. pllua_t_require outside (\<lambda>_ _ _. Inl (LuaExn '''')) plain ''io'' sandbox0 = Inl (LuaExn m)"
  using require_is_confined [of sandbox0 "''io''" outside "\<lambda>_ _ _. Inl (LuaExn '''')" plain]
  by (simp add: sandbox0_def default_searchers_def)

subsection \<open>Letting modules in and taking them out\<close>

text \<open>Outside functions that leave the sandbox's tables alone.\<close>

definition pure_call :: "lua_call \<Rightarrow> (lval \<Rightarrow> lval list \<Rightarrow> lval) \<Rightarrow> lval \<Rightarrow> bool" where
  "pure_call call g f \<longleftrightarrow> (\<forall>args s. call f args s = Inr (g f args, s))"

text \<open>What \<open>trusted.allow\<close> lets in is what \<open>require\<close> gives in the sandbox: after a successful
  \<open>allow\<close> under some name, requiring that name yields the mode applied to the module that the
  outside \<open>require\<close> gives, whether it was loaded at once or is loaded only now.\<close>
theorem allow_then_require:
  assumes "pllua_trusted_allow call tostr reqf (LStr m) newname mode glob immed s = Inr ((), s')"
    and "mode_function tostr mode s = Inr modef"
    and "pure_call call g reqf" "pure_call call g modef"
    and "default_searchers s" "nm = (case newname of LStr x \<Rightarrow> x | _ \<Rightarrow> m)"
    and "newname = LNil \<or> newname = LStr nm"
    and "\<not> lua_toboolean (sb_loaded s (LStr nm))" "sb_preload s (LStr nm) = LNil"
    and "lua_toboolean (g modef [g reqf [LStr m]])"
  shows "\<exists>s''. pllua_t_require call call2 tostr nm s' = Inr (g modef [g reqf [LStr m]], s'')"
proof -
  let ?v = "g modef [g reqf [LStr m]]"
  have v: "?v \<noteq> LNil" using assms(10) by auto
  have dtr: "pllua_do_trusted_require call modef reqf (LStr m) s = Inr (?v, s)" for s
    using assms(3,4) by (simp add: pllua_do_trusted_require_def bindS_def pure_call_def)
  have nn: "(if newname = LNil then LStr m else newname) = LStr nm"
    using assms(6,7) by auto
  obtain gl where gl: "global_name glob (LStr nm) = Inr gl"
    using assms(1) nn by (auto simp: pllua_trusted_allow_def bindR_eq_Inr Let_def)
  let ?f = "LFun (sb_next s)"
  obtain c where s': "sb_allow s' (LStr nm) = ?f" "closures s' (sb_next s) = Some c"
      "c = BindOneValue ?v \<or> c = BindOneCall modef reqf (LStr m)"
      "sb_searchers s' = sb_searchers s" "sb_preload s' = sb_preload s"
      "sb_loaded s' (LStr nm) = sb_loaded s (LStr nm) \<or> sb_loaded s' (LStr nm) = ?v"
    using assms(1,2) nn gl dtr
    by (auto simp: pllua_trusted_allow_def bindR_eq_Inr Let_def rawset_fun_def new_closure_def
        split: if_splits)
  have call: "call_value call ?f [LStr nm, LNil] s' = Inr (?v, s')"
    using s'(2,3) dtr by (auto simp: call_value_def)
  show ?thesis
  proof (cases "lua_toboolean (sb_loaded s' (LStr nm))")
    case True
    with s'(6) assms(8) show ?thesis by (auto simp: pllua_t_require_def)
  next
    case False
    then show ?thesis
      using s' assms(5,9) call v
      by (simp add: pllua_t_require_def default_searchers_def findloader_default bindS_def Let_def
          del: pllua_t_require_findloader.simps(2))
  qed
qed

text \<open>An outside world in which \<open>require\<close> is function 0 and every module is table 5.\<close>

definition outside5 :: lua_call where
  "outside5 f args s = Inr (if f = LFun 0 then LTab 5 else case args of v # _ \<Rightarrow> v | [] \<Rightarrow> LNil, s)"

theorem allow_then_require_witness:
  "\<exists>s' s''. pllua_trusted_allow outside5 plain (LFun 0) (LStr ''re'') LNil (LStr ''direct'') LNil LNil
       sandbox0 = Inr ((), s') \<and>
     pllua_t_require outside5 (\<lambda>_ _ _. Inl (LuaExn '''')) plain ''re'' s' = Inr (LTab 5, s'')"
proof -
  let ?g = "\<lambda>f args. if f = LFun 0 then LTab 5 else case args of v # _ \<Rightarrow> v | [] \<Rightarrow> LNil"
  obtain s' where a: "pllua_trusted_allow outside5 plain (LFun 0) (LStr ''re'') LNil (LStr ''direct'')
       LNil LNil sandbox0 = Inr ((), s')"
    by (simp add: pllua_trusted_allow_def sandbox0_def check_string_def opt_string_def
        global_name_def mode_function_def rawset_fun_def new_closure_def Let_def)
  have "\<exists>s''. pllua_t_require outside5 (\<lambda>_ _ _. Inl (LuaExn '''')) plain ''re'' s' = Inr (LTab 5, s'')"
    using allow_then_require [OF a, of "LFun 1" ?g "''re''" "\<lambda>_ _ _. Inl (LuaExn '''')"]
    by (simp add: pure_call_def outside5_def sandbox0_def mode_function_def opt_string_def
        default_searchers_def check_string_def)
  with a show ?thesis by blast
qed

text \<open>\<open>trusted.remove\<close> with a global name takes a module out: it is neither loaded nor allowed
  afterwards, the global is gone, and requiring it fails; nothing else changes.\<close>
theorem remove_takes_out:
  assumes "default_searchers s" "sb_preload s (LStr m) = LNil"
  shows "\<exists>s'. pllua_trusted_remove (LStr m) (LStr glob) s = Inr ((), s') \<and>
     sb_globals s' (LStr glob) = LNil \<and>
     (\<exists>e. pllua_t_require call call2 tostr m s' = Inl (LuaExn e)) \<and>
     (\<forall>k. k \<noteq> LStr m \<longrightarrow> sb_allow s' k = sb_allow s k \<and> sb_loaded s' k = sb_loaded s k) \<and>
     (\<forall>k. k \<noteq> LStr glob \<longrightarrow> sb_globals s' k = sb_globals s k)"
  using assms
  by (simp add: pllua_trusted_remove_def check_string_def global_name_def opt_string_def
      rawset_fun_def pllua_t_require_def default_searchers_def bindS_def
      pllua_package_preload_search_def pllua_package_allowed_search_def)

theorem remove_takes_out_witness:
  "let s = sandbox0\<lparr>sb_allow := (\<lambda>_. LNil)(LStr ''os'' := LFun 3)\<rparr> in
   \<exists>s' e. pllua_trusted_remove (LStr ''os'') (LStr ''os'') s = Inr ((), s') \<and>
     pllua_t_require outside (\<lambda>_ _ _. Inl (LuaExn '''')) plain ''os'' s' = Inl (LuaExn e)"
  using remove_takes_out [of "sandbox0\<lparr>sb_allow := (\<lambda>_. LNil)(LStr ''os'' := LFun 3)\<rparr>" "''os''" "''os''"
      outside "\<lambda>_ _ _. Inl (LuaExn '''')" plain]
  by (simp add: sandbox0_def default_searchers_def Let_def) blast

text \<open>Without a global name, \<open>trusted.remove\<close> raises an error and takes nothing out.\<close>

theorem remove_needs_global:
  "pllua_trusted_remove (LStr m) LNil s = Inl (LuaExn ''table index is nil'')"
  "pllua_trusted_remove (LStr m) (LBool False) s = Inl (LuaExn ''table index is nil'')"
  by (simp_all add: pllua_trusted_remove_def check_string_def global_name_def opt_string_def
      rawset_fun_def)

end
