(* ===== verification/Trusted_Modes.thy ===== *)
theory Trusted_Modes
  imports Trusted
begin

text \<open>
  The modes in which \<open>trusted.allow\<close> gives a module to the sandbox (src/src/trusted.c): a deep copy
  is isomorphic to the original and shares no table with it, and ends on cyclic tables; a proxy
  reads through to the original.  The heap's tables are numbered, and \<open>copy_inv\<close> and \<open>copy_step\<close>
  are the invariant and the effect of the recursive copying routine.
\<close>

subsection \<open>Deep copies\<close>

text \<open>The heap holds tables below its allocation mark only, with one entry for a key, and the
  tables that entries give lie below the mark too.\<close>

definition wf_heap :: "sandbox \<Rightarrow> bool" where
  "wf_heap s \<longleftrightarrow>
     (\<forall>t. sb_next s \<le> t \<longrightarrow> heap s t = None) \<and>
     (\<forall>t. distinct (map fst (table_entries s t))) \<and>
     (\<forall>t k u. (k, LTab u) \<in> set (table_entries s t) \<longrightarrow> u < sb_next s) \<and>
     (\<forall>t tb m. heap s t = Some tb \<longrightarrow> metatable tb = Some m \<longrightarrow> m < sb_next s)"

fun copied :: "(nat \<Rightarrow> nat option) \<Rightarrow> lval \<Rightarrow> lval" where
  "copied \<phi> (LTab t) = LTab (the (\<phi> t))"
| "copied \<phi> v = v"

definition kids :: "sandbox \<Rightarrow> nat \<Rightarrow> nat set" where
  "kids s t = {u. \<exists>k. (k, LTab u) \<in> set (table_entries s t)}"

definition copy_table :: "(nat \<Rightarrow> nat option) \<Rightarrow> (lval \<times> lval) list \<Rightarrow> table" where
  "copy_table \<phi> es = \<lparr>entries = map (\<lambda>(k, v). (k, copied \<phi> v)) es, metatable = None\<rparr>"

definition copy_done :: "sandbox \<Rightarrow> sandbox \<Rightarrow> (nat \<Rightarrow> nat option) \<Rightarrow> nat \<Rightarrow> bool" where
  "copy_done s0 s \<phi> u \<longleftrightarrow> kids s0 u \<subseteq> dom \<phi> \<and>
     heap s (the (\<phi> u)) = Some (copy_table \<phi> (table_entries s0 u))"

definition copy_inv :: "sandbox \<Rightarrow> memo_state \<Rightarrow> bool" where
  "copy_inv s0 ms \<longleftrightarrow>
     (case ms of (\<phi>, s) \<Rightarrow>
        sb_next s0 \<le> sb_next s \<and> dom \<phi> \<subseteq> {..<sb_next s0} \<and> ran \<phi> \<subseteq> {sb_next s0..<sb_next s} \<and>
        inj_on \<phi> (dom \<phi>) \<and> (\<forall>t. sb_next s \<le> t \<longrightarrow> heap s t = None) \<and>
        (\<forall>t<sb_next s0. heap s t = heap s0 t))"

text \<open>What one call does: it extends the memo, finishes every table it adds, and leaves the
  tables that were there before alone, save the one being filled.\<close>

definition copy_step :: "sandbox \<Rightarrow> nat set \<Rightarrow> memo_state \<Rightarrow> memo_state \<Rightarrow> bool" where
  "copy_step s0 W ms ms' \<longleftrightarrow>
     (case ms of (\<phi>, s) \<Rightarrow> case ms' of (\<phi>', s') \<Rightarrow>
        copy_inv s0 ms' \<and> \<phi> \<subseteq>\<^sub>m \<phi>' \<and> sb_next s \<le> sb_next s' \<and>
        (\<forall>a<sb_next s. a \<notin> W \<longrightarrow> heap s' a = heap s a) \<and>
        (\<forall>u\<in>dom \<phi>' - dom \<phi>. copy_done s0 s' \<phi>' u))"

lemma copied_mono: "\<phi> \<subseteq>\<^sub>m \<phi>' \<Longrightarrow> (\<And>u. v = LTab u \<Longrightarrow> u \<in> dom \<phi>) \<Longrightarrow> copied \<phi>' v = copied \<phi> v"
  by (cases v) (auto simp: map_le_def)

lemma copy_table_mono:
  assumes "\<phi> \<subseteq>\<^sub>m \<phi>'" "\<And>k u. (k, LTab u) \<in> set es \<Longrightarrow> u \<in> dom \<phi>"
  shows "copy_table \<phi>' es = copy_table \<phi> es"
  using assms by (auto simp: copy_table_def intro!: copied_mono)

lemma copy_done_mono:
  assumes "copy_done s0 s \<phi> u" "\<phi> \<subseteq>\<^sub>m \<phi>'" "u \<in> dom \<phi>" "heap s' (the (\<phi> u)) = heap s (the (\<phi> u))"
  shows "copy_done s0 s' \<phi>' u"
proof -
  have "the (\<phi>' u) = the (\<phi> u)" using assms(2,3) by (auto simp: map_le_def)
  moreover have "copy_table \<phi>' (table_entries s0 u) = copy_table \<phi> (table_entries s0 u)"
    using assms(1,2) by (intro copy_table_mono) (auto simp: copy_done_def kids_def)
  moreover have "dom \<phi> \<subseteq> dom \<phi>'" using assms(2) by (rule map_le_implies_dom_le)
  ultimately show ?thesis using assms(1,4) unfolding copy_done_def by (metis subset_trans)
qed

lemma copy_step_refl: "copy_inv s0 ms \<Longrightarrow> copy_step s0 W ms ms"
  by (auto simp: copy_step_def split: prod.splits)

lemma copy_step_inv: "copy_step s0 W ms ms' \<Longrightarrow> copy_inv s0 ms'"
  by (auto simp: copy_step_def split: prod.splits)

text \<open>Steps compose when the tables the second one fills are not among those the first finished.\<close>

lemma copy_step_trans:
  assumes "copy_step s0 W ms ms1" "copy_step s0 W ms1 ms2" "copy_inv s0 ms"
    and "W \<subseteq> {..<sb_next (snd ms)}"
    and new: "\<And>u. u \<in> dom (fst ms1) - dom (fst ms) \<Longrightarrow> the (fst ms1 u) \<notin> W"
  shows "copy_step s0 W ms ms2"
proof -
  obtain p0 s p1 s1 p2 s2 where e: "ms = (p0, s)" "ms1 = (p1, s1)" "ms2 = (p2, s2)"
    by (metis surj_pair)
  have st: "copy_inv s0 (p2, s2)" "p0 \<subseteq>\<^sub>m p1" "p1 \<subseteq>\<^sub>m p2" "sb_next s \<le> sb_next s1" "sb_next s1 \<le> sb_next s2"
      "\<And>a. a < sb_next s \<Longrightarrow> a \<notin> W \<Longrightarrow> heap s1 a = heap s a"
      "\<And>a. a < sb_next s1 \<Longrightarrow> a \<notin> W \<Longrightarrow> heap s2 a = heap s1 a"
      "\<And>u. u \<in> dom p1 - dom p0 \<Longrightarrow> copy_done s0 s1 p1 u"
      "\<And>u. u \<in> dom p2 - dom p1 \<Longrightarrow> copy_done s0 s2 p2 u" "copy_inv s0 (p1, s1)"
    using assms(1,2) by (auto simp: copy_step_def e)
  have "copy_done s0 s2 p2 u" if u: "u \<in> dom p2 - dom p0" for u
  proof (cases "u \<in> dom p1")
    case False then show ?thesis using st(9) u by blast
  next
    case True
    then have "the (p1 u) \<in> ran p1" by (auto simp: ran_def)
    then have lt: "the (p1 u) < sb_next s1" using st(10) by (auto simp: copy_inv_def)
    have "the (p1 u) \<notin> W" using new [of u] True u by (simp add: e)
    then have "heap s2 (the (p1 u)) = heap s1 (the (p1 u))" using st(7) lt by blast
    then show ?thesis using copy_done_mono [OF st(8) st(3) True] True u by blast
  qed
  moreover have "p0 \<subseteq>\<^sub>m p2" using st(2,3) by (rule map_le_trans)
  ultimately show ?thesis
    using st(1,4,5,6,7) by (simp add: copy_step_def e)
qed
lemma copy_stepE:
  assumes "copy_step s0 W (\<phi>, s) (\<phi>', s')"
  obtains "copy_inv s0 (\<phi>', s')" "\<phi> \<subseteq>\<^sub>m \<phi>'" "sb_next s \<le> sb_next s'"
    "\<And>a. a < sb_next s \<Longrightarrow> a \<notin> W \<Longrightarrow> heap s' a = heap s a"
    "\<And>u. u \<in> dom \<phi>' - dom \<phi> \<Longrightarrow> copy_done s0 s' \<phi>' u"
  using assms by (auto simp: copy_step_def)

lemma assoc_set_fresh: "k \<notin> fst ` set es \<Longrightarrow> assoc_set k v es = es @ [(k, v)]"
  by (induction k v es rule: assoc_set.induct) auto

text \<open>Filling table \<open>n\<close> from a list of entries, with a routine for the tables among the values.\<close>

definition inner_ok :: "sandbox \<Rightarrow> (nat \<Rightarrow> memo_state \<Rightarrow> exn + (nat \<times> memo_state)) \<Rightarrow> bool" where
  "inner_ok s0 inner \<longleftrightarrow>
     (\<forall>t ms m ms'. inner t ms = Inr (m, ms') \<longrightarrow> copy_inv s0 ms \<longrightarrow> t < sb_next s0 \<longrightarrow>
        copy_step s0 {} ms ms' \<and> fst ms' t = Some m)"

lemma heap_set_simps [simp]:
  "sb_next (heap_set t k v s) = sb_next s"
  "a \<noteq> t \<Longrightarrow> heap (heap_set t k v s) a = heap s a"
  "heap (heap_set t k v s) t = map_option (\<lambda>tb. tb\<lparr>entries := assoc_set k v (entries tb)\<rparr>) (heap s t)"
  by (simp_all add: heap_set_def)

lemma copy_inv_heap_set:
  "copy_inv s0 (\<phi>, s) \<Longrightarrow> sb_next s0 \<le> n \<Longrightarrow> n < sb_next s \<Longrightarrow> copy_inv s0 (\<phi>, heap_set n k v s)"
  by (auto simp: copy_inv_def)

lemma copy_entries_spec:
  assumes "inner_ok s0 inner"
    and "copy_entries inner n es (\<phi>, s) = Inr (\<phi>', s')" "copy_inv s0 (\<phi>, s)"
    and "\<And>k u. (k, LTab u) \<in> set es \<Longrightarrow> u < sb_next s0"
    and "sb_next s0 \<le> n" "n < sb_next s" "n \<in> ran \<phi>"
    and "heap s n = Some \<lparr>entries = pre, metatable = None\<rparr>"
    and "distinct (map fst es)" "fst ` set pre \<inter> fst ` set es = {}"
  shows "copy_step s0 {n} (\<phi>, s) (\<phi>', s') \<and> (\<forall>k u. (k, LTab u) \<in> set es \<longrightarrow> u \<in> dom \<phi>') \<and>
    heap s' n = Some \<lparr>entries = pre @ map (\<lambda>(k, v). (k, copied \<phi>' v)) es, metatable = None\<rparr>"
  using assms(2-)
proof (induction es arbitrary: \<phi> s pre)
  case Nil
  then show ?case by (simp add: copy_step_refl)
next
  case (Cons e es)
  obtain k v where e: "e = (k, v)" by (cases e)
  have "\<exists>v' \<phi>1 s1. copy_step s0 {} (\<phi>, s) (\<phi>1, s1) \<and> v' = copied \<phi>1 v \<and> (\<forall>u. v = LTab u \<longrightarrow> u \<in> dom \<phi>1) \<and>
      copy_entries inner n es (\<phi>1, heap_set n k v' s1) = Inr (\<phi>', s')"
  proof (cases "\<exists>u. v = LTab u")
    case True
    then obtain u where u: "v = LTab u" by blast
    have "u < sb_next s0" using Cons.prems(3) e u by auto
    moreover obtain m ms1 where m: "inner u (\<phi>, s) = Inr (m, ms1)"
        "copy_entries inner n es (fst ms1, heap_set n k (LTab m) (snd ms1)) = Inr (\<phi>', s')"
      using Cons.prems(1) e u by (auto simp: bindR_eq_Inr split: prod.splits)
    ultimately have "copy_step s0 {} (\<phi>, s) ms1" "fst ms1 u = Some m"
      using assms(1) Cons.prems(2) unfolding inner_ok_def by blast+
    with m(2) u show ?thesis
      by (intro exI [of _ "LTab m"] exI [of _ "fst ms1"] exI [of _ "snd ms1"]) auto
  next
    case False
    then have "copied \<phi> v = v" "copy_entries inner n es (\<phi>, heap_set n k v s) = Inr (\<phi>', s')"
      using Cons.prems(1) e by (cases v; auto)+
    then show ?thesis using False copy_step_refl [OF Cons.prems(2)]
      by (intro exI [of _ v] exI [of _ \<phi>] exI [of _ s]) auto
  qed
  then obtain v' \<phi>1 s1 where 1: "copy_step s0 {} (\<phi>, s) (\<phi>1, s1)" "v' = copied \<phi>1 v"
      "\<And>u. v = LTab u \<Longrightarrow> u \<in> dom \<phi>1"
      "copy_entries inner n es (\<phi>1, heap_set n k v' s1) = Inr (\<phi>', s')"
    by blast
  note st1 = copy_stepE [OF 1(1)]
  have inv1: "copy_inv s0 (\<phi>1, s1)" and m1: "\<phi> \<subseteq>\<^sub>m \<phi>1" and n1: "sb_next s \<le> sb_next s1"
    and h1: "heap s1 n = heap s n"
    using st1 Cons.prems(5) by (blast, blast, blast, metis empty_iff)
  let ?s2 = "heap_set n k v' s1"
  have pre2: "heap ?s2 n = Some \<lparr>entries = pre @ [(k, v')], metatable = None\<rparr>"
    using h1 Cons.prems(7,9) e by (simp add: assoc_set_fresh)
  have ran1: "n \<in> ran \<phi>1" using m1 Cons.prems(6) by (auto simp: ran_def map_le_def) (metis domI)
  have IH: "copy_step s0 {n} (\<phi>1, ?s2) (\<phi>', s')" "\<And>k u. (k, LTab u) \<in> set es \<Longrightarrow> u \<in> dom \<phi>'"
     "heap s' n = Some \<lparr>entries = (pre @ [(k, v')]) @ map (\<lambda>(k, v). (k, copied \<phi>' v)) es, metatable = None\<rparr>"
    using Cons.IH [OF 1(4) copy_inv_heap_set [OF inv1 Cons.prems(4)] _ Cons.prems(4) _ ran1 pre2]
      Cons.prems(3,5,8,9) e n1 by auto
  have m2: "\<phi>1 \<subseteq>\<^sub>m \<phi>'" using copy_stepE [OF IH(1)] by blast
  have v': "copied \<phi>' v = v'" using copied_mono [OF m2 1(3)] 1(2) by auto
  have notn: "the (\<phi>1 u) \<noteq> n" if "u \<in> dom \<phi>1 - dom \<phi>" for u
  proof
    assume "the (\<phi>1 u) = n"
    moreover obtain w where "\<phi> w = Some n" using Cons.prems(6) by (auto simp: ran_def)
    moreover from this have "\<phi>1 w = Some n" using m1 by (metis domI map_le_def)
    ultimately show False using that inv1
      by (auto simp: copy_inv_def inj_on_def) (metis domI option.sel)
  qed
  have s12: "copy_step s0 {n} (\<phi>, s) (\<phi>1, ?s2)"
  proof -
    from notn have "copy_done s0 ?s2 \<phi>1 u" if "u \<in> dom \<phi>1 - dom \<phi>" for u
      using that copy_stepE [OF 1(1)] by (metis copy_done_def heap_set_simps(2))
    then show ?thesis
      using copy_stepE [OF 1(1)] copy_inv_heap_set [OF inv1 Cons.prems(4), of k v'] n1 Cons.prems(5)
      by (auto simp: copy_step_def)
  qed
  have "copy_step s0 {n} (\<phi>, s) (\<phi>', s')"
    using notn by (intro copy_step_trans [OF s12 IH(1) Cons.prems(2)])
      (use Cons.prems(5) in \<open>simp_all add: Cons.prems(5)\<close>)
  moreover have "u \<in> dom \<phi>'" if "(k', LTab u) \<in> set (e # es)" for k' u
    using that e IH(2) 1(3) subsetD [OF map_le_implies_dom_le [OF m2]] by fastforce
  ultimately show ?case using IH(3) e v' by auto
qed

lemma inner_ok_copy: "wf_heap s0 \<Longrightarrow> inner_ok s0 (pllua_trusted_mode_copy_inner d)"
proof (induction d)
  case 0
  then show ?case by (simp add: inner_ok_def)
next
  case (Suc d)
  note ok = Suc.IH [OF Suc.prems]
  show ?case unfolding inner_ok_def
  proof (intro allI impI)
    fix t ms m ms'
    assume a: "pllua_trusted_mode_copy_inner (Suc d) t ms = Inr (m, ms')" "copy_inv s0 ms" "t < sb_next s0"
    obtain \<phi> s \<phi>' s' where e: "ms = (\<phi>, s)" "ms' = (\<phi>', s')" by (metis surj_pair)
    show "copy_step s0 {} ms ms' \<and> fst ms' t = Some m"
    proof (cases "\<phi> t")
      case (Some n)
      then show ?thesis using a e by (auto intro: copy_step_refl)
    next
      case None
      let ?n = "sb_next s" and ?s1 = "snd (new_table s)" and ?\<phi>1 = "\<phi>(t \<mapsto> sb_next s)"
      have t: "table_entries s t = table_entries s0 t"
        using a(2,3) e by (simp add: copy_inv_def table_entries_def)
      have m: "m = ?n" and c: "copy_entries (pllua_trusted_mode_copy_inner d) ?n (table_entries s0 t)
          (?\<phi>1, ?s1) = Inr (\<phi>', s')"
        using a(1) None e t by (auto simp: new_table_def bindR_eq_Inr)
      have i1: "copy_inv s0 (?\<phi>1, ?s1)"
        using a(2,3) e None by (auto simp: copy_inv_def new_table_def inj_on_def ran_def)
      have sp: "copy_step s0 {?n} (?\<phi>1, ?s1) (\<phi>', s')"
          "\<And>k u. (k, LTab u) \<in> set (table_entries s0 t) \<Longrightarrow> u \<in> dom \<phi>'"
          "heap s' ?n = Some (copy_table \<phi>' (table_entries s0 t))"
      proof -
        have "?n \<in> ran ?\<phi>1" by (auto simp: ran_def)
        with copy_entries_spec [OF ok c i1, of "[]"] Suc.prems a(2) e
        have "copy_step s0 {?n} (?\<phi>1, ?s1) (\<phi>', s') \<and>
          (\<forall>k u. (k, LTab u) \<in> set (table_entries s0 t) \<longrightarrow> u \<in> dom \<phi>') \<and>
          heap s' ?n = Some (copy_table \<phi>' (table_entries s0 t))"
          by (simp add: wf_heap_def new_table_def copy_inv_def copy_table_def)
        then show "copy_step s0 {?n} (?\<phi>1, ?s1) (\<phi>', s')"
          "\<And>k u. (k, LTab u) \<in> set (table_entries s0 t) \<Longrightarrow> u \<in> dom \<phi>'"
          "heap s' ?n = Some (copy_table \<phi>' (table_entries s0 t))" by blast+
      qed
      have le: "?\<phi>1 \<subseteq>\<^sub>m \<phi>'" and tn: "\<phi>' t = Some ?n"
        using copy_stepE [OF sp(1)] by (blast, metis domI fun_upd_same map_le_def)
      have le0: "\<phi> \<subseteq>\<^sub>m \<phi>'" 
      proof (unfold map_le_def, intro ballI)
        fix a assume "a \<in> dom \<phi>"
        moreover from this have "a \<noteq> t" using None by auto
        ultimately show "\<phi> a = \<phi>' a" using bspec [OF le [unfolded map_le_def], of a] by simp
      qed
      have "copy_done s0 s' \<phi>' u" if "u \<in> dom \<phi>' - dom \<phi>" for u
      proof (cases "u = t")
        case True
        then show ?thesis using sp(2,3) tn by (auto simp: copy_done_def kids_def)
      next
        case False
        then show ?thesis using that copy_stepE [OF sp(1)] by (metis Diff_iff domIff fun_upd_other)
      qed
      moreover have "heap s' a = heap s a" if "a < sb_next s" for a
        using copy_stepE [OF sp(1)] that by (simp add: new_table_def) (metis less_SucI less_irrefl)
      moreover have "sb_next s \<le> sb_next s'"
        using copy_stepE [OF sp(1)] by (simp add: new_table_def) (metis Suc_leD)
      ultimately show ?thesis
        using copy_step_inv [OF sp(1)] le0 tn m e by (simp add: copy_step_def)
    qed
  qed
qed




text \<open>The depth that is enough: each nested call has entered one more table in the memo.\<close>

definition uncopied :: "sandbox \<Rightarrow> (nat \<Rightarrow> nat option) \<Rightarrow> nat set" where
  "uncopied s0 \<phi> = {t. t < sb_next s0} - dom \<phi>"

lemma copy_entries_returns:
  assumes "inner_ok s0 inner"
    and ret: "\<And>u ms. u < sb_next s0 \<Longrightarrow> copy_inv s0 ms \<Longrightarrow> uncopied s0 (fst ms) \<subseteq> U \<Longrightarrow>
       \<exists>r. inner u ms = Inr r"
    and "copy_inv s0 (\<phi>, s)" "uncopied s0 \<phi> \<subseteq> U" "sb_next s0 \<le> n" "n < sb_next s"
    and "\<And>k u. (k, LTab u) \<in> set es \<Longrightarrow> u < sb_next s0"
  shows "\<exists>r. copy_entries inner n es (\<phi>, s) = Inr r"
  using assms(3-)
proof (induction es arbitrary: \<phi> s)
  case Nil
  then show ?case by simp
next
  case (Cons e es)
  obtain k v where e: "e = (k, v)" by (cases e)
  show ?case
  proof (cases "\<exists>u. v = LTab u")
    case True
    then obtain u where u: "v = LTab u" by blast
    have lt: "u < sb_next s0" using Cons.prems(5) e u by auto
    obtain m \<phi>1 s1 where i: "inner u (\<phi>, s) = Inr (m, (\<phi>1, s1))"
      using ret [OF lt Cons.prems(1)] Cons.prems(2) by auto
    have st: "copy_step s0 {} (\<phi>, s) (\<phi>1, s1)"
      using assms(1) i Cons.prems(1) lt unfolding inner_ok_def by blast
    have n1: "n < sb_next s1" "uncopied s0 \<phi>1 \<subseteq> U" "copy_inv s0 (\<phi>1, s1)"
    proof -
      have "\<phi> \<subseteq>\<^sub>m \<phi>1" "sb_next s \<le> sb_next s1" and i1: "copy_inv s0 (\<phi>1, s1)"
        using copy_stepE [OF st] by blast+
      then show "n < sb_next s1" "uncopied s0 \<phi>1 \<subseteq> U" "copy_inv s0 (\<phi>1, s1)"
        using Cons.prems(2,4) map_le_implies_dom_le [of \<phi> \<phi>1] by (auto simp: uncopied_def)
    qed
    have "\<exists>r. copy_entries inner n es (\<phi>1, heap_set n k (LTab m) s1) = Inr r"
      using n1 Cons.prems(3,5) by (intro Cons.IH) (auto intro: copy_inv_heap_set)
    then show ?thesis using i e u by (simp add: bindR_def)
  next
    case False
    have "\<exists>r. copy_entries inner n es (\<phi>, heap_set n k v s) = Inr r"
      using Cons.prems by (intro Cons.IH) (auto intro: copy_inv_heap_set)
    then show ?thesis using False e by (cases v) (auto simp: bindR_def)
  qed
qed

lemma copy_inner_returns:
  assumes "wf_heap s0"
  shows "t < sb_next s0 \<Longrightarrow> copy_inv s0 ms \<Longrightarrow> card (uncopied s0 (fst ms)) < d \<Longrightarrow>
    \<exists>r. pllua_trusted_mode_copy_inner d t ms = Inr r"
proof (induction d arbitrary: t ms)
  case 0
  then show ?case by simp
next
  case (Suc d)
  obtain \<phi> s where ms: "ms = (\<phi>, s)" by (cases ms)
  show ?case
  proof (cases "\<phi> t")
    case (Some n)
    then show ?thesis using ms by simp
  next
    case None
    let ?\<phi>1 = "\<phi>(t \<mapsto> sb_next s)" and ?s1 = "snd (new_table s)"
    have fin: "finite (uncopied s0 \<psi>)" for \<psi> by (simp add: uncopied_def)
    have "uncopied s0 ?\<phi>1 \<subset> uncopied s0 \<phi>" using None Suc.prems(1) by (auto simp: uncopied_def)
    then have c: "card (uncopied s0 ?\<phi>1) < d"
      using psubset_card_mono [OF fin [of \<phi>], of "uncopied s0 ?\<phi>1"] Suc.prems(3) ms by simp
    have i1: "copy_inv s0 (?\<phi>1, ?s1)"
      using Suc.prems(1,2) ms None by (auto simp: copy_inv_def new_table_def inj_on_def ran_def)
    have t: "table_entries s t = table_entries s0 t"
      using Suc.prems(1,2) ms by (simp add: copy_inv_def table_entries_def)
    have "\<exists>r. copy_entries (pllua_trusted_mode_copy_inner d) (sb_next s) (table_entries s0 t) (?\<phi>1, ?s1) = Inr r"
    proof (rule copy_entries_returns [OF inner_ok_copy [OF assms], where U = "uncopied s0 ?\<phi>1"])
      fix u ms'
      assume "u < sb_next s0" "copy_inv s0 ms'" "uncopied s0 (fst ms') \<subseteq> uncopied s0 ?\<phi>1"
      then show "\<exists>r. pllua_trusted_mode_copy_inner d u ms' = Inr r"
        using Suc.IH c card_mono [OF fin] by (meson le_less_trans)
    qed (use i1 Suc.prems(2) ms assms in \<open>auto simp: new_table_def copy_inv_def wf_heap_def\<close>)
    then show ?thesis using ms None t by (auto simp: new_table_def bindR_def)
  qed
qed

text \<open>C13. Copying ends, whatever cycles the tables form, at a depth of nested calls no larger than
  the number of tables.\<close>
theorem deep_copy_ends:
  assumes "wf_heap s" "t < sb_next s" "sb_next s < d"
  shows "\<exists>n s'. pllua_trusted_mode_copy d (LTab t) s = Inr (LTab n, s')"
proof -
  have "copy_inv s (\<lambda>_. None, s)" using assms(1) by (auto simp: copy_inv_def wf_heap_def)
  moreover have "card (uncopied s (\<lambda>_. None)) < d"
    using assms(3) by (simp add: uncopied_def lessThan_def [symmetric])
  ultimately obtain r where "pllua_trusted_mode_copy_inner d t (\<lambda>_. None, s) = Inr r"
    using copy_inner_returns [OF assms(1,2), of "(\<lambda>_. None, s)" d] by auto
  then show ?thesis by (cases r) (auto simp: pllua_trusted_mode_copy_def bindR_def)
qed

definition cyc :: sandbox where
  "cyc = \<lparr>sb_globals = (\<lambda>_. LNil), sb_loaded = (\<lambda>_. LNil), sb_allow = (\<lambda>_. LNil),
     sb_preload = (\<lambda>_. LNil), sb_searchers = Some [], modes = (\<lambda>_. LNil),
     heap = (\<lambda>_. None)(0 \<mapsto> \<lparr>entries = [(LStr ''sub'', LTab 1), (LStr ''f'', LFun 7)], metatable = Some 2\<rparr>,
       1 \<mapsto> \<lparr>entries = [(LStr ''up'', LTab 0)], metatable = None\<rparr>,
       2 \<mapsto> \<lparr>entries = [(LStr ''__newindex'', LTab 0)], metatable = None\<rparr>),
     closures = (\<lambda>_. None), sb_next = 3\<rparr>"

lemma wf_cyc: "wf_heap cyc"
  by (auto simp: wf_heap_def cyc_def table_entries_def split: option.splits if_splits)


theorem deep_copy_ends_witness:
  "\<exists>n s'. pllua_trusted_mode_copy 4 (LTab 0) cyc = Inr (LTab n, s')"
  using deep_copy_ends [OF wf_cyc, of 0 4] by (simp add: cyc_def)

subsection \<open>Proxies\<close>

definition raw_get :: "sandbox \<Rightarrow> nat \<Rightarrow> lval \<Rightarrow> lval" where
  "raw_get s t k = (case map_of (table_entries s t) k of None \<Rightarrow> LNil | Some v \<Rightarrow> v)"

definition meta_get :: "sandbox \<Rightarrow> nat \<Rightarrow> string \<Rightarrow> lval" where
  "meta_get s t ev =
     (case heap s t of
        Some tb \<Rightarrow> (case metatable tb of None \<Rightarrow> LNil | Some m \<Rightarrow> raw_get s m (LStr ev))
      | None \<Rightarrow> LNil)"

text \<open>Lua's \<open>t[k]\<close>, where \<open>__index\<close> is a table or absent; \<open>None\<close> is a handler to be called.\<close>

fun lua_index :: "nat \<Rightarrow> sandbox \<Rightarrow> nat \<Rightarrow> lval \<Rightarrow> lval option" where
  "lua_index 0 s t k = None"
| "lua_index (Suc d) s t k =
     (if raw_get s t k \<noteq> LNil then Some (raw_get s t k)
      else case meta_get s t ''__index'' of
        LNil \<Rightarrow> Some LNil
      | LTab u \<Rightarrow> lua_index d s u k
      | _ \<Rightarrow> None)"

lemma map_of_assoc_set [simp]: "map_of (assoc_set k v es) = (map_of es)(k \<mapsto> v)"
  by (induction k v es rule: assoc_set.induct) auto

lemma raw_get_heap_set:
  "heap s t \<noteq> None \<Longrightarrow> raw_get (heap_set t k v s) t k' = (if k' = k then v else raw_get s t k')"
  by (auto simp: raw_get_def table_entries_def split: option.splits)

lemma raw_get_heap_set_other: "u \<noteq> t \<Longrightarrow> raw_get (heap_set t k v s) u k' = raw_get s u k'"
  by (simp add: raw_get_def table_entries_def)

lemma proxy_meta_entry_other:
  "u \<noteq> mt \<Longrightarrow> heap (proxy_meta_entry ot mt kv s) u = heap s u"
  "sb_next s \<le> sb_next (proxy_meta_entry ot mt kv s)"
  by (auto simp: proxy_meta_entry_def new_closure_def split: prod.splits)

lemma fold_proxy_meta_other:
  "u \<noteq> mt \<Longrightarrow> heap (fold (proxy_meta_entry ot mt) es s) u = heap s u"
  "sb_next s \<le> sb_next (fold (proxy_meta_entry ot mt) es s)"
proof (induction es arbitrary: s)
  case (Cons e es)
  { case 1 then show ?case using Cons(1) by (simp add: proxy_meta_entry_other) }
  { case 2 then show ?case using Cons(2) [of "proxy_meta_entry ot mt e s"]
      proxy_meta_entry_other(2) [of s ot mt e] by simp }
qed simp_all

lemma new_closure_heap [simp]:
  "heap (snd (new_closure c s)) = heap s" "raw_get (snd (new_closure c s)) = raw_get s"
  by (auto simp: new_closure_def raw_get_def table_entries_def fun_eq_iff)

lemma proxy_meta_entry_get:
  assumes "heap s mt \<noteq> None" "k \<noteq> LStr ''__call''"
  shows "heap (proxy_meta_entry ot mt kv s) mt \<noteq> None"
    and "raw_get (proxy_meta_entry ot mt kv s) mt k =
      (if k = fst kv \<and> k \<noteq> LStr ''__index'' then snd kv else raw_get s mt k)"
  using assms
  by (cases kv; simp add: proxy_meta_entry_def raw_get_heap_set case_prod_unfold)+

lemma fold_proxy_meta_get:
  assumes "heap s mt \<noteq> None" "k \<noteq> LStr ''__call''" "distinct (map fst es)"
  shows "heap (fold (proxy_meta_entry ot mt) es s) mt \<noteq> None \<and>
    raw_get (fold (proxy_meta_entry ot mt) es s) mt k =
      (if k = LStr ''__index'' then raw_get s mt k
       else case map_of es k of Some v \<Rightarrow> v | None \<Rightarrow> raw_get s mt k)"
  using assms(1,3)
proof (induction es arbitrary: s)
  case (Cons e es)
  note g = proxy_meta_entry_get [OF Cons.prems(1) assms(2), of ot e]
  show ?case
  proof (cases e)
    case (Pair k' v')
    show ?thesis
      using Cons.IH [OF g(1)] Cons.prems(2) g(2) unfolding Pair
      by (cases "k = LStr ''__index''"; cases "k = k'")
        (simp_all add: map_of_eq_None_iff [THEN iffD2] cong: option.case_cong)
  qed
qed auto

lemma fold_proxy_meta_present:
  "heap s mt \<noteq> None \<Longrightarrow> heap (fold (proxy_meta_entry ot mt) es s) mt \<noteq> None"
proof (induction es arbitrary: s)
  case (Cons e es)
  show ?case using Cons.IH [OF proxy_meta_entry_get(1) [OF Cons.prems, of LNil]] by simp
qed simp

lemma proxy_table_shape:
  assumes "wf_heap s" "heap s t = Some tb" "proxy_table t s = (n, s')"
  shows "n = sb_next s" "\<And>u. u < sb_next s \<Longrightarrow> heap s' u = heap s u"
    and "heap s' n = Some \<lparr>entries = [], metatable = Some (Suc n)\<rparr>"
    and "raw_get s' (Suc n) (LStr ''__index'') = LTab t"
    and "\<And>k. k \<noteq> LStr ''__call'' \<Longrightarrow> k \<noteq> LStr ''__index'' \<Longrightarrow> raw_get s' (Suc n) k =
      (case metatable tb of
         Some m \<Rightarrow> (case map_of (table_entries s m) k of Some v \<Rightarrow> v
                    | None \<Rightarrow> if k = LStr ''__metatable'' then LBool True else LNil)
       | None \<Rightarrow> if k = LStr ''__metatable'' then LBool True else LNil)"
proof -
  let ?n = "sb_next s" and ?m = "Suc (sb_next s)"
  let ?s3 = "heap_set ?m (LStr ''__metatable'') (LBool True) (snd (new_table (snd (new_table s))))"
  let ?s4 = "pllua_trusted_mode_proxy_metatable t ?m ?s3"
  let ?s5 = "heap_set ?m (LStr ''__index'') (LTab t) ?s4"
  have s': "n = ?n" "heap s' = (heap ?s5)(?n := map_option (\<lambda>tb. tb\<lparr>metatable := Some ?m\<rparr>) (heap ?s5 ?n))"
    using assms(3) by (auto simp: proxy_table_def new_table_def Let_def)
  have t: "t < ?n" using assms(1,2) by (metis linorder_not_less option.distinct(1) wf_heap_def)
  have h3: "heap ?s3 ?m \<noteq> None" "heap ?s3 ?n = Some \<lparr>entries = [], metatable = None\<rparr>"
      "\<And>u. u < ?n \<Longrightarrow> heap ?s3 u = heap s u"
      "raw_get ?s3 ?m k = (if k = LStr ''__metatable'' then LBool True else LNil)" for k
    by (auto simp: new_table_def raw_get_def table_entries_def)
  have "heap ?s4 ?m \<noteq> None"
    unfolding pllua_trusted_mode_proxy_metatable_def
    using h3(1) fold_proxy_meta_present [OF h3(1)]
    by (auto simp del: fold_simps not_None_eq split: option.split)
  moreover have "heap ?s4 u = heap ?s3 u" if "u \<noteq> ?m" for u
    unfolding pllua_trusted_mode_proxy_metatable_def
    using that by (auto simp del: fold_simps simp: fold_proxy_meta_other split: option.split)
  ultimately have h4: "heap ?s4 ?m \<noteq> None" "\<And>u. u \<noteq> ?m \<Longrightarrow> heap ?s4 u = heap ?s3 u" by blast+
  show "n = sb_next s" by (rule s')
  show "heap s' u = heap s u" if "u < sb_next s" for u using that s' h4 h3 by simp
  show "heap s' n = Some \<lparr>entries = [], metatable = Some (Suc n)\<rparr>" using s' h4 h3 by simp
  have g: "raw_get s' ?m k = raw_get ?s5 ?m k" for k by (simp add: raw_get_def table_entries_def s')
  show "raw_get s' (Suc n) (LStr ''__index'') = LTab t"
    using g h4(1) by (simp add: s'(1) raw_get_heap_set)
  have t3: "heap ?s3 t = Some tb" using h3(3) [OF t] assms(2) by simp
  have e3: "table_entries ?s3 m = table_entries s m" if "metatable tb = Some m" for m
    using that assms(1,2) h3(3) [of m] by (simp add: wf_heap_def table_entries_def)
  have d3: "distinct (map fst (table_entries s m))" for m using assms(1) by (simp add: wf_heap_def)
  show "raw_get s' (Suc n) k = (case metatable tb of
         Some m \<Rightarrow> (case map_of (table_entries s m) k of Some v \<Rightarrow> v
                    | None \<Rightarrow> if k = LStr ''__metatable'' then LBool True else LNil)
       | None \<Rightarrow> if k = LStr ''__metatable'' then LBool True else LNil)"
    if k: "k \<noteq> LStr ''__call''" "k \<noteq> LStr ''__index''" for k
  proof -
    have "raw_get s' (Suc n) k = raw_get ?s4 ?m k"
      using g [of k] k h4(1) by (simp add: s'(1) raw_get_heap_set)
    also have "\<dots> = (case metatable tb of
         Some m \<Rightarrow> (case map_of (table_entries s m) k of Some v \<Rightarrow> v | None \<Rightarrow> raw_get ?s3 ?m k)
       | None \<Rightarrow> raw_get ?s3 ?m k)"
    proof (cases "metatable tb")
      case None
      then show ?thesis by (simp add: pllua_trusted_mode_proxy_metatable_def t3)
    next
      case (Some m)
      then show ?thesis
        using fold_proxy_meta_get [OF h3(1) k(1) d3 [of m], of t] k(2) e3 [OF Some]
        by (simp add: pllua_trusted_mode_proxy_metatable_def t3 del: fold_simps)
    qed
    finally show ?thesis by (simp only: h3(4))
  qed
qed

text \<open>C14. A proxied module reads like the original: indexing the wrapping table gives what indexing
  the original gives, whatever the key, while the wrapping table itself holds nothing, its metatable
  cannot be fetched, and no original table has changed.\<close>
theorem proxy_reads_through:
  assumes "wf_heap s" "heap s t = Some tb" "pllua_trusted_mode_sproxy (LTab t) s = Inr (v, s')"
    and "\<forall>m. metatable tb = Some m \<longrightarrow> raw_get s m (LStr ''__metatable'') \<noteq> LNil \<or>
           map_of (table_entries s m) (LStr ''__metatable'') = None"
  shows "\<exists>n. v = LTab n \<and> sb_next s \<le> n \<and> entries (the (heap s' n)) = [] \<and>
    (\<forall>u<sb_next s. heap s' u = heap s u) \<and> meta_get s' n ''__metatable'' \<noteq> LNil \<and>
    (\<forall>d k. lua_index (Suc d) s' n k = lua_index d s' t k)"
proof -
  obtain n where p: "proxy_table t s = (n, s')" "v = LTab n"
    using assms(3) by (auto simp: pllua_trusted_mode_sproxy_def split: prod.splits)
  note S = proxy_table_shape [OF assms(1,2) p(1)]
  have e: "table_entries s' n = []" using S(3) by (simp add: table_entries_def)
  have m: "meta_get s' n ev = raw_get s' (Suc n) (LStr ev)" for ev using S(3) by (simp add: meta_get_def)
  have "lua_index (Suc d) s' n k = lua_index d s' t k" for d k
    using S(4) e by (simp add: m) (simp add: raw_get_def)
  moreover have "meta_get s' n ''__metatable'' \<noteq> LNil"
    using S(5) [of "LStr ''__metatable''"] assms(4)
    by (auto simp: m raw_get_def split: option.splits)
  ultimately show ?thesis using p(2) S(1,2,3) by auto
qed

theorem proxy_reads_through_witness:
  "\<exists>v s'. pllua_trusted_mode_sproxy (LTab 0) cyc = Inr (v, s') \<and>
     (\<exists>n. v = LTab n \<and> lua_index 2 s' n (LStr ''f'') = Some (LFun 7))"
proof -
  obtain v s' where c: "pllua_trusted_mode_sproxy (LTab 0) cyc = Inr (v, s')"
    by (cases "proxy_table 0 cyc") (simp add: pllua_trusted_mode_sproxy_def)
  have h: "heap cyc 0 = Some \<lparr>entries = [(LStr ''sub'', LTab 1), (LStr ''f'', LFun 7)], metatable = Some 2\<rparr>"
    by (simp add: cyc_def)
  have "raw_get cyc 2 (LStr ''__metatable'') \<noteq> LNil \<or>
      map_of (table_entries cyc 2) (LStr ''__metatable'') = None"
    by (simp add: cyc_def table_entries_def)
  then obtain n where n: "v = LTab n" "\<forall>u<3. heap s' u = heap cyc u"
      "\<forall>d k. lua_index (Suc d) s' n k = lua_index d s' 0 k"
    using proxy_reads_through [OF wf_cyc h c] by (auto simp: cyc_def)
  have "lua_index 1 s' 0 (LStr ''f'') = Some (LFun 7)"
    using n(2) h by (simp add: raw_get_def table_entries_def)
  then have "lua_index 2 s' n (LStr ''f'') = Some (LFun 7)"
    using n(3) by (simp add: numeral_2_eq_2 del: lua_index.simps)
  with c n(1) show ?thesis by blast
qed

text \<open>What the modes do with what is not a table: every mode hands it over as it is, except
  \<open>scopy\<close>, which has no defined behaviour there.\<close>
theorem modes_on_non_tables:
  assumes "\<forall>t. v \<noteq> LTab t"
  shows "pllua_trusted_mode_copy d v s = Inr (v, s) \<and> pllua_trusted_mode_sproxy v s = Inr (v, s) \<and>
    pllua_trusted_mode_proxy d v s = Inr (v, s) \<and> pllua_trusted_mode_direct v s = Inr (v, s) \<and>
    pllua_trusted_mode_scopy v s = None"
  using assms
  by (cases v) (simp_all add: pllua_trusted_mode_copy_def pllua_trusted_mode_sproxy_def
      pllua_trusted_mode_proxy_def pllua_trusted_mode_direct_def pllua_trusted_mode_scopy_def)

end
