(* ===== verification/Time.thy ===== *)
theory Time
  imports Prelude
begin

text \<open>
  Date and time values, src/src/time.c: construction of a datum from a table of fields
  (\<open>pllua_time_tosql\<close>) and the opposite (\<open>pllua_time_as_table\<close>).  PostgreSQL's date arithmetic and
  time zone database are the parameter record \<open>pgtime\<close>; a timestamp is a count of microseconds and
  a date a count of days, as PostgreSQL stores them.  \<open>dbl\<close> rounds a real number to a double,
  so that every float operation of the source is the exact operation followed by \<open>dbl\<close>.

  Signed overflow wraps, since PostgreSQL's build uses -fwrapv; \<open>c_int\<close> and \<open>c_int64\<close> stand
  wherever the source stores into an \<open>int\<close> or an \<open>int64\<close>.
\<close>

subsection \<open>Types\<close>

datatype dt_oid = TIMESTAMPTZOID | TIMESTAMPOID | DATEOID | TIMEOID | TIMETZOID | INTERVALOID

record pg_tm =
  tm_sec :: int
  tm_min :: int
  tm_hour :: int
  tm_mday :: int
  tm_mon :: int
  tm_year :: int
  tm_isdst :: int
  tm_gmtoff :: int

definition ztm :: pg_tm where
  "ztm = \<lparr>tm_sec = 0, tm_min = 0, tm_hour = 0, tm_mday = 0, tm_mon = 0, tm_year = 0,
          tm_isdst = 0, tm_gmtoff = 0\<rparr>"

datatype 'd dt_value = DateV int | TimestampV int | OtherV 'd

text \<open>What \<open>pg_next_dst_boundary\<close> reports: failure, a zone without DST, or the offsets before and
  after the boundary.\<close>

datatype dst_info =
    DstFail
  | NoDst (before_gmtoff: int) (before_isdst: int)
  | DstBoundary (before_gmtoff: int) (before_isdst: int) (dst_boundary: int)
      (after_gmtoff: int) (after_isdst: int)

record ('tz, 'd) pgtime =
  date2j :: "int \<Rightarrow> int \<Rightarrow> int \<Rightarrow> int"
  j2date :: "int \<Rightarrow> int \<times> int \<times> int"
  valid_julian :: "int \<Rightarrow> int \<Rightarrow> int \<Rightarrow> bool"
  next_dst_boundary :: "int \<Rightarrow> 'tz \<Rightarrow> dst_info"
  session_timezone :: 'tz
  tzset :: "string \<Rightarrow> 'tz option"
  tzset_offset :: "int \<Rightarrow> 'tz option"
  decode_timezone :: "string \<Rightarrow> int option"
  tm2timestamp :: "pg_tm \<Rightarrow> int \<Rightarrow> int option \<Rightarrow> int option"
  timestamp2tm :: "int \<Rightarrow> 'tz option \<Rightarrow> bool \<Rightarrow> (pg_tm \<times> int \<times> string option) option"
  localtime :: "int \<Rightarrow> 'tz \<Rightarrow> (int \<times> int \<times> int) option"
  unix_epoch_timestamp :: int
  make_interval :: "int \<Rightarrow> int \<Rightarrow> int \<Rightarrow> int \<Rightarrow> int \<Rightarrow> rat \<Rightarrow> exn + 'd"
  timestamptz_pl_interval :: "int \<Rightarrow> 'd \<Rightarrow> exn + int"
  timestamp_pl_interval :: "int \<Rightarrow> 'd \<Rightarrow> exn + int"
  make_time :: "int \<Rightarrow> int \<Rightarrow> rat \<Rightarrow> exn + 'd"
  time_pl_interval :: "'d \<Rightarrow> 'd \<Rightarrow> exn + 'd"
  timetz_in :: "string \<Rightarrow> exn + 'd"
  timetz_pl_interval :: "'d \<Rightarrow> 'd \<Rightarrow> exn + 'd"
  interval_fields :: "'d \<Rightarrow> pg_tm \<times> int"
  part_function :: "dt_oid \<Rightarrow> string \<Rightarrow> 'd dt_value \<Rightarrow> exn + fnum option"
  date_timestamp :: "int \<Rightarrow> exn + int"

text \<open>PostgreSQL's constants.\<close>

definition UNIX_EPOCH_JDATE :: int where "UNIX_EPOCH_JDATE = 2440588"
definition POSTGRES_EPOCH_JDATE :: int where "POSTGRES_EPOCH_JDATE = 2451545"
definition DATETIME_MIN_JULIAN :: int where "DATETIME_MIN_JULIAN = 0"
definition DATE_END_JULIAN :: int where "DATE_END_JULIAN = 2147483494"

definition IS_VALID_DATE :: "int \<Rightarrow> bool" where
  "IS_VALID_DATE d \<longleftrightarrow> DATETIME_MIN_JULIAN - POSTGRES_EPOCH_JDATE \<le> d \<and>
     d < DATE_END_JULIAN - POSTGRES_EPOCH_JDATE"

subsection \<open>Arithmetic\<close>

definition floordiv :: "int \<Rightarrow> int \<Rightarrow> int" where
  "floordiv dividend divisor =
     c_div dividend divisor - (if dividend < 0 \<and> c_mod dividend divisor \<noteq> 0 then 1 else 0)"

text \<open>The remaining value and the next field with the carry.\<close>

definition calc_overflow :: "int \<Rightarrow> int \<Rightarrow> int \<Rightarrow> int \<times> int" where
  "calc_overflow val modulus nextfield =
     (let carry = c_int (floordiv val modulus)
      in (c_int (val - c_int (carry * modulus)), c_int (nextfield + carry)))"

text \<open>Rounding to an integer, ties to even; a result that does not fit is the value that x86-64's
  conversion instruction gives, C leaving it undefined.\<close>

definition rint :: "rat \<Rightarrow> int" where
  "rint q =
     (let f = \<lfloor>q\<rfloor>; r = q - of_int f
      in if r < 1 / 2 then f else if 1 / 2 < r then f + 1 else if even f then f else f + 1)"

definition fits64 :: "int \<Rightarrow> bool" where
  "fits64 i \<longleftrightarrow> - (2 ^ 63) \<le> i \<and> i < 2 ^ 63"

definition llrint :: "rat \<Rightarrow> int" where
  "llrint q = (if fits64 (rint q) then rint q else - (2 ^ 63))"

definition float_to_int :: "rat \<Rightarrow> int" where
  "float_to_int q = (if - (2 ^ 31) \<le> \<lfloor>q\<rfloor> \<and> \<lfloor>q\<rfloor> < 2 ^ 31 then \<lfloor>q\<rfloor> else - (2 ^ 31))"

subsection \<open>Reading numbers\<close>

text \<open>A string is converted by \<open>str2num\<close>, Lua's own conversion, with nil for no number.\<close>

fun to_number :: "(string \<Rightarrow> lval) \<Rightarrow> lval \<Rightarrow> lval" where
  "to_number str2num (LInt i) = LInt i"
| "to_number str2num (LFlt x) = LFlt x"
| "to_number str2num (LStr s) = str2num s"
| "to_number str2num _ = LNil"

record getnum =
  is_float :: bool
  ival :: int
  fval :: "rat option"
  isign :: "int option"

text \<open>
  \<open>want_float\<close>: the caller passes a place for a float; \<open>inf_sign\<close>: what the caller's variable
  holds, if it passes one.  The result's \<open>fval\<close> is \<open>None\<close> where the caller's variable is left alone.
\<close>

definition getnumber :: "(string \<Rightarrow> lval) \<Rightarrow> lval \<Rightarrow> bool \<Rightarrow> int option \<Rightarrow> string \<Rightarrow> exn + getnum" where
  "getnumber str2num v want_float inf_sign field =
     (let bad = Inl (LuaExn (''invalid value in field '' @ field));
          infinity = (\<lambda>sg. case inf_sign of
              None \<Rightarrow> bad
            | Some s \<Rightarrow> if s \<noteq> 0 \<and> sg \<noteq> s then bad
                else Inr \<lparr>is_float = True, ival = 0, fval = None, isign = Some sg\<rparr>)
      in case to_number str2num v of
           LInt i \<Rightarrow> Inr \<lparr>is_float = False, ival = i, fval = None, isign = inf_sign\<rparr>
         | LFlt (Fin q) \<Rightarrow>
             if q = of_int \<lfloor>q\<rfloor> \<and> fits64 \<lfloor>q\<rfloor>
             then Inr \<lparr>is_float = False, ival = \<lfloor>q\<rfloor>, fval = None, isign = inf_sign\<rparr>
             else if want_float then Inr \<lparr>is_float = True, ival = 0, fval = Some q, isign = inf_sign\<rparr>
             else bad
         | LFlt PosInf \<Rightarrow> infinity 1
         | LFlt NegInf \<Rightarrow> infinity (-1)
         | _ \<Rightarrow> bad)"

subsection \<open>Local time to offset\<close>

text \<open>
  The offset (seconds west, as \<open>tm2timestamp\<close> is given it) and the new \<open>tm_isdst\<close>, from the
  local time in seconds and what is known of the zone around it.
\<close>

definition zone_offset :: "dst_info \<Rightarrow> int \<Rightarrow> pg_tm \<Rightarrow> int \<times> pg_tm" where
  "zone_offset info mytime tm =
     (let overflow = (0, tm\<lparr>tm_isdst := 0\<rparr>) in
      case info of
        DstFail \<Rightarrow> overflow
      | NoDst g d \<Rightarrow> (- g, tm\<lparr>tm_isdst := d\<rparr>)
      | DstBoundary bg bd boundary ag ad \<Rightarrow>
          let beforetime = c_int64 (mytime - bg); aftertime = c_int64 (mytime - ag);
              wraps = (\<lambda>g t. (0 < g \<and> mytime < 0 \<and> 0 < t) \<or> (g \<le> 0 \<and> 0 < mytime \<and> t < 0))
          in
          if wraps bg beforetime \<or> wraps ag aftertime then overflow
          else if beforetime < boundary \<and> aftertime < boundary then (- bg, tm\<lparr>tm_isdst := bd\<rparr>)
          else if boundary < beforetime \<and> boundary \<le> aftertime then (- ag, tm\<lparr>tm_isdst := ad\<rparr>)
          else if tm_isdst tm = -1 then
            (if aftertime < beforetime then (- bg, tm\<lparr>tm_isdst := bd\<rparr>)
             else (- ag, tm\<lparr>tm_isdst := ad\<rparr>))
          else if tm_isdst tm = bd then (- bg, tm)
          else (- ag, tm))"

definition determine_timezone_offset :: "('tz, 'd) pgtime \<Rightarrow> pg_tm \<Rightarrow> 'tz \<Rightarrow> int \<times> pg_tm" where
  "determine_timezone_offset pg tm tzp =
     (if \<not> valid_julian pg (tm_year tm) (tm_mon tm) (tm_mday tm) then (0, tm\<lparr>tm_isdst := 0\<rparr>)
      else
        let date = c_int (date2j pg (tm_year tm) (tm_mon tm) (tm_mday tm) - UNIX_EPOCH_JDATE);
            day = c_int64 (date * 86400);
            sec = c_int (tm_sec tm + (tm_min tm + tm_hour tm * 60) * 60);
            mytime = c_int64 (day + sec);
            prevtime = c_int64 (mytime - 86400)
        in if c_div day 86400 \<noteq> date \<or> (mytime < 0 \<and> 0 < day) \<or> (mytime < 0 \<and> 0 < prevtime)
           then (0, tm\<lparr>tm_isdst := 0\<rparr>)
           else zone_offset (next_dst_boundary pg prevtime tzp) mytime tm)"

subsection \<open>Collecting the fields\<close>

text \<open>The local variables of \<open>pllua_time_tosql\<close> while it reads its argument.\<close>

record input =
  tm :: pg_tm
  tmpint :: int
  tmpflt :: rat
  microsecs :: int
  epoch_microsecs :: int
  found_year :: bool
  found_mon :: bool
  found_mday :: bool
  found_hour :: bool
  found_min :: bool
  found_sec :: bool
  found_epoch :: nat
  inf_sign :: int
  tzname :: "string option"
  found_tz :: bool
  found_gmtoff :: bool
  gmtoff :: int

definition input0 :: input where
  "input0 = \<lparr>tm = ztm\<lparr>tm_isdst := -1\<rparr>, tmpint = 0, tmpflt = 0, microsecs = 0, epoch_microsecs = 0,
     found_year = False, found_mon = False, found_mday = False, found_hour = False,
     found_min = False, found_sec = False, found_epoch = 0, inf_sign = 0, tzname = None,
     found_tz = False, found_gmtoff = False, gmtoff = 0\<rparr>"

text \<open>The effect of a \<open>getnumber\<close> on the variables passed to it by address.\<close>

definition got :: "getnum \<Rightarrow> input \<Rightarrow> input" where
  "got r x = x\<lparr>tmpint := ival r, tmpflt := (case fval r of None \<Rightarrow> tmpflt x | Some q \<Rightarrow> q),
     inf_sign := (case isign r of None \<Rightarrow> inf_sign x | Some s \<Rightarrow> s)\<rparr>"

text \<open>A field is read with \<open>f\<close>, indexing of the argument.\<close>

definition TMGET ::
  "(string \<Rightarrow> lval) \<Rightarrow> (string \<Rightarrow> lval) \<Rightarrow> string \<Rightarrow> (int \<Rightarrow> input \<Rightarrow> input) \<Rightarrow> input \<Rightarrow> exn + input"
where
  "TMGET str2num f name store x =
     (if f name = LNil then Inr x
      else bindR (getnumber str2num (f name) False (Some (inf_sign x)) name) (\<lambda>r.
           Inr (store (c_int (ival r)) (got r x))))"

definition get_sec :: "(string \<Rightarrow> lval) \<Rightarrow> (rat \<Rightarrow> rat) \<Rightarrow> (string \<Rightarrow> lval) \<Rightarrow> input \<Rightarrow> exn + input" where
  "get_sec str2num dbl f x =
     (if f ''sec'' = LNil then Inr x
      else bindR (getnumber str2num (f ''sec'') True (Some (inf_sign x)) ''sec'') (\<lambda>r.
        let x = got r x;
            fisec = of_int \<lfloor>\<bar>tmpflt x\<bar>\<rfloor>;
            frac = \<bar>tmpflt x\<bar> - fisec;
            us = c_int (llrint (dbl (frac * 1000000)));
            x' = (if is_float r then
                    (if tmpflt x < 0
                     then x\<lparr>tm := tm x\<lparr>tm_sec := c_int (- c_int (float_to_int fisec + 1))\<rparr>,
                            microsecs := c_int (1000000 - us)\<rparr>
                     else x\<lparr>tm := tm x\<lparr>tm_sec := float_to_int fisec\<rparr>, microsecs := us\<rparr>)
                  else x\<lparr>tm := tm x\<lparr>tm_sec := c_int (tmpint x)\<rparr>\<rparr>)
        in Inr (x'\<lparr>found_sec := True\<rparr>)))"

text \<open>A field in units of \<open>scale\<close> microseconds.\<close>

definition get_micros ::
  "(string \<Rightarrow> lval) \<Rightarrow> (rat \<Rightarrow> rat) \<Rightarrow> (string \<Rightarrow> lval) \<Rightarrow> string \<Rightarrow> int \<Rightarrow> (int \<Rightarrow> input \<Rightarrow> input) \<Rightarrow>
   input \<Rightarrow> exn + input"
where
  "get_micros str2num dbl f name scale store x =
     (if f name = LNil then Inr x
      else bindR (getnumber str2num (f name) True (Some (inf_sign x)) name) (\<lambda>r.
        let x = got r x
        in Inr (store (if is_float r then llrint (if scale = 1 then tmpflt x else dbl (tmpflt x * of_int scale))
                       else c_int64 (tmpint x * scale)) x)))"

definition get_isdst :: "(string \<Rightarrow> lval) \<Rightarrow> input \<Rightarrow> input" where
  "get_isdst f x =
     (if f ''isdst'' = LNil then x
      else x\<lparr>tm := tm x\<lparr>tm_isdst := (if lua_toboolean (f ''isdst'') then 1 else 0)\<rparr>\<rparr>)"

definition get_timezone ::
  "('tz, 'd) pgtime \<Rightarrow> (string \<Rightarrow> lval) \<Rightarrow> (string \<Rightarrow> lval) \<Rightarrow> input \<Rightarrow> exn + input"
where
  "get_timezone pg str2num f x =
     (case f ''timezone'' of
        LNil \<Rightarrow> Inr x
      | LBool b \<Rightarrow> Inr (if b then x\<lparr>found_tz := True\<rparr> else x)
      | LStr z \<Rightarrow>
          let x' = x\<lparr>found_tz := True, tzname := Some z\<rparr>
          in (case decode_timezone pg z of
                None \<Rightarrow> Inr x'
              | Some tzoff \<Rightarrow> Inr (x'\<lparr>gmtoff := c_int (- tzoff), found_gmtoff := True\<rparr>))
      | v \<Rightarrow> bindR (getnumber str2num v False None ''timezone'') (\<lambda>r.
             Inr (x\<lparr>gmtoff := ival r, found_gmtoff := True\<rparr>)))"

definition add_micros :: "int \<Rightarrow> input \<Rightarrow> input" where
  "add_micros n x = x\<lparr>microsecs := c_int64 (microsecs x + n)\<rparr>"

definition set_epoch :: "int \<Rightarrow> input \<Rightarrow> input" where
  "set_epoch n x = x\<lparr>epoch_microsecs := n, found_epoch := Suc (found_epoch x)\<rparr>"

definition read_input ::
  "('tz, 'd) pgtime \<Rightarrow> (string \<Rightarrow> lval) \<Rightarrow> (rat \<Rightarrow> rat) \<Rightarrow> (string \<Rightarrow> lval) \<Rightarrow> exn + input"
where
  "read_input pg str2num dbl f =
     bindR (TMGET str2num f ''year'' (\<lambda>n x. x\<lparr>tm := tm x\<lparr>tm_year := n\<rparr>, found_year := True\<rparr>) input0) (\<lambda>x.
     bindR (TMGET str2num f ''month'' (\<lambda>n x. x\<lparr>tm := tm x\<lparr>tm_mon := n\<rparr>, found_mon := True\<rparr>) x) (\<lambda>x.
     bindR (TMGET str2num f ''day'' (\<lambda>n x. x\<lparr>tm := tm x\<lparr>tm_mday := n\<rparr>, found_mday := True\<rparr>) x) (\<lambda>x.
     bindR (TMGET str2num f ''hour'' (\<lambda>n x. x\<lparr>tm := tm x\<lparr>tm_hour := n\<rparr>, found_hour := True\<rparr>) x) (\<lambda>x.
     bindR (TMGET str2num f ''min'' (\<lambda>n x. x\<lparr>tm := tm x\<lparr>tm_min := n\<rparr>, found_min := True\<rparr>) x) (\<lambda>x.
     bindR (get_sec str2num dbl f (get_isdst f x)) (\<lambda>x.
     bindR (get_micros str2num dbl f ''msec'' 1000 add_micros x) (\<lambda>x.
     bindR (get_micros str2num dbl f ''usec'' 1 add_micros x) (\<lambda>x.
     bindR (get_micros str2num dbl f ''epoch'' 1000000 set_epoch x) (\<lambda>x.
     bindR (get_micros str2num dbl f ''epoch_msec'' 1000 set_epoch x) (\<lambda>x.
     bindR (get_micros str2num dbl f ''epoch_usec'' 1 set_epoch x) (\<lambda>x.
     get_timezone pg str2num f x)))))))))))"

subsection \<open>Checking the combination of fields\<close>

definition check_input :: "dt_oid \<Rightarrow> input \<Rightarrow> exn + unit" where
  "check_input oid x =
     (let err = (\<lambda>m. Inl (LuaExn m)); tz = (found_tz x \<or> found_gmtoff x) in
      bindR
        (if 1 < found_epoch x then err ''cannot specify multiple epoch fields''
         else if 0 < found_epoch x then
           (if found_year x \<or> found_mon x \<or> found_mday x
              then err ''cannot specify both epoch and date fields''
            else if found_hour x \<or> found_min x \<or> found_sec x
              then err ''cannot specify both epoch and time fields''
            else if oid = TIMESTAMPTZOID \<and> tz
              then err ''cannot specify timezone with epoch for timestamptz''
            else Inr ())
         else if oid \<in> {DATEOID, TIMESTAMPTZOID, TIMESTAMPOID} then
           (if \<not> found_year x then err ''missing datetime field year''
            else if \<not> found_mon x then err ''missing datetime field mon''
            else if \<not> found_mday x then err ''missing datetime field day''
            else if oid \<noteq> TIMESTAMPTZOID \<and> tz then err ''cannot specify timezone for this type''
            else Inr ())
         else if oid \<in> {TIMEOID, TIMETZOID} then
           (if \<not> found_hour x then err ''missing datetime field hour''
            else if found_sec x \<and> \<not> found_min x then err ''missing datetime field min''
            else if oid = TIMETZOID \<and> found_tz x \<and> \<not> found_gmtoff x
              then err ''non-numeric timezones not supported for timetz''
            else if oid \<noteq> TIMETZOID \<and> tz then err ''cannot specify timezone for this type''
            else Inr ())
         else Inr ())
      (\<lambda>_. if inf_sign x \<noteq> 0 \<and> oid \<notin> {TIMESTAMPOID, TIMESTAMPTZOID}
           then err ''infinite values not permitted for this type'' else Inr ()))"

subsection \<open>Normalising\<close>

definition carry_sec :: "pg_tm \<Rightarrow> pg_tm" where
  "carry_sec t =
     (if tm_sec t < 0 \<or> 60 < tm_sec t \<or> (tm_sec t = 60 \<and> tm_min t \<noteq> 59)
      then case calc_overflow (tm_sec t) 60 (tm_min t) of (s, n) \<Rightarrow> t\<lparr>tm_sec := s, tm_min := n\<rparr>
      else t)"

definition carry_min :: "pg_tm \<Rightarrow> pg_tm" where
  "carry_min t =
     (if tm_min t < 0 \<or> 60 \<le> tm_min t
      then case calc_overflow (tm_min t) 60 (tm_hour t) of (m, n) \<Rightarrow> t\<lparr>tm_min := m, tm_hour := n\<rparr>
      else t)"

definition carry_hour :: "pg_tm \<Rightarrow> pg_tm" where
  "carry_hour t =
     (if tm_hour t < 0 \<or> 24 \<le> tm_hour t
      then case calc_overflow (tm_hour t) 24 (tm_mday t) of (h, n) \<Rightarrow> t\<lparr>tm_hour := h, tm_mday := n\<rparr>
      else t)"

definition normalise_time :: "pg_tm \<Rightarrow> pg_tm" where
  "normalise_time t =
     (if tm_hour t \<noteq> 24 \<or> tm_min t \<noteq> 0 \<or> tm_sec t \<noteq> 0
      then carry_hour (carry_min (carry_sec t)) else t)"

definition normalise_month :: "pg_tm \<Rightarrow> pg_tm" where
  "normalise_month t =
     (if tm_mon t < 1 \<or> 12 < tm_mon t
      then case calc_overflow (c_int (tm_mon t - 1)) 12 (tm_year t) of
             (m, n) \<Rightarrow> t\<lparr>tm_mon := c_int (1 + m), tm_year := n\<rparr>
      else t)"

definition normalise :: "dt_oid \<Rightarrow> pg_tm \<Rightarrow> pg_tm" where
  "normalise oid t = (if oid = INTERVALOID then t else normalise_month (normalise_time t))"

subsection \<open>Text of a time with time zone\<close>

fun digits :: "nat \<Rightarrow> string" where
  "digits n = (if n < 10 then [char_of (48 + n)] else digits (n div 10) @ [char_of (48 + n mod 10)])"

text \<open>\<open>%02d\<close>\<close>

definition fmt_02d :: "int \<Rightarrow> string" where
  "fmt_02d i =
     (let ds = digits (nat \<bar>i\<bar>)
      in if i < 0 then ''-'' @ ds else replicate (2 - length ds) CHR ''0'' @ ds)"

definition timetz_text :: "int \<Rightarrow> int \<Rightarrow> int \<Rightarrow> int \<Rightarrow> string" where
  "timetz_text hour mins sec off =
     (let absoff = (if off < 0 then c_int64 (- off) else off)
      in fmt_02d hour @ '':'' @ fmt_02d mins @ '':'' @ fmt_02d sec @
         (if off < 0 then ''-'' else ''+'') @
         fmt_02d (c_int (c_div absoff 3600)) @ '':'' @
         fmt_02d (c_int (c_mod (c_div absoff 60) 60)) @ '':'' @
         fmt_02d (c_int (c_mod absoff 60)))"

subsection \<open>Making the datum\<close>

definition choose_tz :: "('tz, 'd) pgtime \<Rightarrow> input \<Rightarrow> exn + 'tz option" where
  "choose_tz pg x =
     (if found_tz x \<or> found_gmtoff x then
        case (if found_gmtoff x then tzset_offset pg (c_int64 (- gmtoff x))
              else case tzname x of Some z \<Rightarrow> tzset pg z | None \<Rightarrow> Some (session_timezone pg)) of
          None \<Rightarrow> Inl (PgExn ''invalid timezone specified'')
        | Some z \<Rightarrow> Inr (Some z)
      else Inr None)"

definition micros_to_secs :: "(rat \<Rightarrow> rat) \<Rightarrow> int \<Rightarrow> rat" where
  "micros_to_secs dbl us = dbl (dbl (of_int us) / 1000000)"

definition timestamp_from_epoch ::
  "('tz, 'd) pgtime \<Rightarrow> dt_oid \<Rightarrow> input \<Rightarrow> 'tz option \<Rightarrow> 'd \<Rightarrow> exn + 'd dt_value"
where
  "timestamp_from_epoch pg oid x tz iresult =
     (if inf_sign x \<noteq> 0 then Inr (TimestampV (if 0 < inf_sign x then 2 ^ 63 - 1 else - (2 ^ 63)))
      else
        bindR (timestamptz_pl_interval pg (unix_epoch_timestamp pg) iresult) (\<lambda>ts.
        if oid = TIMESTAMPOID \<and>
           ((\<not> found_gmtoff x \<and> found_tz x) \<or> (found_gmtoff x \<and> gmtoff x \<noteq> 0))
        then (case timestamp2tm pg ts tz True of
                None \<Rightarrow> Inl (PgExn ''timestamp out of range'')
              | Some (t, fsec, _) \<Rightarrow>
                  (case tm2timestamp pg t fsec None of
                     None \<Rightarrow> Inl (PgExn ''could not convert to time zone'')
                   | Some ts' \<Rightarrow> Inr (TimestampV ts')))
        else Inr (TimestampV ts)))"

definition date_from_epoch :: "('tz, 'd) pgtime \<Rightarrow> input \<Rightarrow> 'tz option \<Rightarrow> int \<Rightarrow> exn + 'd dt_value" where
  "date_from_epoch pg x tz us =
     (if (\<not> found_tz x \<and> \<not> found_gmtoff x) \<or> (found_gmtoff x \<and> gmtoff x = 0) then
        let jdate = floordiv us (86400 * 1000000) + UNIX_EPOCH_JDATE - POSTGRES_EPOCH_JDATE
        in if \<not> IS_VALID_DATE jdate then Inl (PgExn ''date value out of range'')
           else Inr (DateV (c_int jdate))
      else
        (case tz of
           None \<Rightarrow> Inl (PgExn ''invalid timezone specified'')
         | Some z \<Rightarrow>
             (case localtime pg (floordiv us 1000000) z of
                None \<Rightarrow> Inl (PgExn ''date value conversion failed'')
              | Some (y, m, d) \<Rightarrow>
                  Inr (DateV (c_int (date2j pg (c_int (y + 1900)) (c_int (m + 1)) d - POSTGRES_EPOCH_JDATE))))))"

definition from_epoch ::
  "('tz, 'd) pgtime \<Rightarrow> (rat \<Rightarrow> rat) \<Rightarrow> dt_oid \<Rightarrow> input \<Rightarrow> 'tz option \<Rightarrow> exn + 'd dt_value"
where
  "from_epoch pg dbl oid x tz =
     (let us = c_int64 (microsecs x + epoch_microsecs x) in
      if oid = DATEOID then date_from_epoch pg x tz us
      else
        bindR (make_interval pg 0 0 0 0 0 (micros_to_secs dbl us)) (\<lambda>iresult.
        case oid of
          TIMEOID \<Rightarrow>
            bindR (make_time pg 0 0 0) (\<lambda>t.
            bindR (time_pl_interval pg t iresult) (\<lambda>r. Inr (OtherV r)))
        | TIMETZOID \<Rightarrow>
            bindR (timetz_in pg (timetz_text 0 0 0 (gmtoff x))) (\<lambda>t.
            bindR (timetz_pl_interval pg t iresult) (\<lambda>r. Inr (OtherV r)))
        | INTERVALOID \<Rightarrow> Inr (OtherV iresult)
        | _ \<Rightarrow> timestamp_from_epoch pg oid x tz iresult))"

text \<open>Adding the microseconds, for the types that have an addition (\<open>addfunc\<close>).\<close>

definition add_interval ::
  "('tz, 'd) pgtime \<Rightarrow> (rat \<Rightarrow> rat) \<Rightarrow> int \<Rightarrow> ('a \<Rightarrow> 'd \<Rightarrow> exn + 'a) \<Rightarrow> ('a \<Rightarrow> 'd dt_value) \<Rightarrow> 'a \<Rightarrow>
   exn + 'd dt_value"
where
  "add_interval pg dbl us addfunc con r =
     (if us = 0 then Inr (con r)
      else bindR (make_interval pg 0 0 0 0 0 (micros_to_secs dbl us)) (\<lambda>iresult.
           bindR (addfunc r iresult) (\<lambda>r'. Inr (con r'))))"

definition from_fields ::
  "('tz, 'd) pgtime \<Rightarrow> (rat \<Rightarrow> rat) \<Rightarrow> dt_oid \<Rightarrow> input \<Rightarrow> 'tz option \<Rightarrow> exn + 'd dt_value"
where
  "from_fields pg dbl oid x tz =
     (let t = normalise oid (tm x); us = microsecs x in
      case oid of
        DATEOID \<Rightarrow>
          Inr (DateV (c_int (date2j pg (tm_year t) (tm_mon t) (tm_mday t) - POSTGRES_EPOCH_JDATE)))
      | TIMESTAMPTZOID \<Rightarrow>
          (case determine_timezone_offset pg t
                  (case tz of Some z \<Rightarrow> z | None \<Rightarrow> session_timezone pg) of (tzo, t') \<Rightarrow>
             (case tm2timestamp pg t' 0 (Some tzo) of
                None \<Rightarrow> Inl (PgExn ''could not convert to timestamp'')
              | Some ts \<Rightarrow> add_interval pg dbl us (timestamptz_pl_interval pg) TimestampV ts))
      | TIMESTAMPOID \<Rightarrow>
          (case tm2timestamp pg t 0 None of
             None \<Rightarrow> Inl (PgExn ''could not convert to timestamp'')
           | Some ts \<Rightarrow> add_interval pg dbl us (timestamp_pl_interval pg) TimestampV ts)
      | TIMEOID \<Rightarrow>
          bindR (make_time pg (tm_hour t) (tm_min t) (of_int (tm_sec t)))
            (add_interval pg dbl us (time_pl_interval pg) OtherV)
      | TIMETZOID \<Rightarrow>
          bindR (timetz_in pg (timetz_text (tm_hour t) (tm_min t) (tm_sec t) (gmtoff x)))
            (add_interval pg dbl us (timetz_pl_interval pg) OtherV)
      | INTERVALOID \<Rightarrow>
          bindR (make_interval pg (tm_year t) (tm_mon t) (tm_mday t) (tm_hour t) (tm_min t)
                   (dbl (of_int (tm_sec t) + micros_to_secs dbl us))) (\<lambda>r. Inr (OtherV r)))"

text \<open>
  The whole function.  It declines (no result) unless it has one argument that can be indexed;
  \<open>indexable\<close> tells whether a userdata has an \<open>__index\<close> metafield, and \<open>getfield\<close> indexes.
\<close>

definition pllua_time_tosql ::
  "('tz, 'd) pgtime \<Rightarrow> (string \<Rightarrow> lval) \<Rightarrow> (rat \<Rightarrow> rat) \<Rightarrow> (lval \<Rightarrow> bool) \<Rightarrow> (lval \<Rightarrow> string \<Rightarrow> lval) \<Rightarrow>
   dt_oid \<Rightarrow> lval list \<Rightarrow> exn + 'd dt_value option"
where
  "pllua_time_tosql pg str2num dbl indexable getfield oid args =
     (case args of
        [v] \<Rightarrow>
          if (case v of LTab _ \<Rightarrow> True | LUdata _ \<Rightarrow> indexable v | LErrObj _ \<Rightarrow> indexable v | _ \<Rightarrow> False) then
            bindR (read_input pg str2num dbl (getfield v)) (\<lambda>x.
            bindR (check_input oid x) (\<lambda>_.
            bindR (choose_tz pg x) (\<lambda>tz.
            bindR (if 0 < found_epoch x then from_epoch pg dbl oid x tz
                   else from_fields pg dbl oid x tz) (\<lambda>r. Inr (Some r)))))
          else Inr None
      | _ \<Rightarrow> Inr None)"

subsection \<open>Taking a value apart\<close>

text \<open>The arguments of \<open>as_table\<close>: the offset or name to which a \<open>timestamptz\<close> is converted.\<close>

definition as_table_zone ::
  "('tz, 'd) pgtime \<Rightarrow> (string \<Rightarrow> lval) \<Rightarrow> dt_oid \<Rightarrow> lval \<Rightarrow> exn + input"
where
  "as_table_zone pg str2num oid v =
     (if oid = TIMESTAMPTZOID then
        (case v of
           LNil \<Rightarrow> Inr input0
         | LBool _ \<Rightarrow> Inr input0
         | LStr z \<Rightarrow>
             let x = input0\<lparr>found_tz := True, tzname := Some z\<rparr>
             in (case decode_timezone pg z of
                   None \<Rightarrow> Inr x
                 | Some tzoff \<Rightarrow> Inr (x\<lparr>gmtoff := c_int (- tzoff), found_gmtoff := True\<rparr>))
         | _ \<Rightarrow> bindR (getnumber str2num v False None ''timezone'') (\<lambda>r.
                Inr (input0\<lparr>gmtoff := ival r, found_gmtoff := True\<rparr>)))
      else if v \<noteq> LNil then Inl (LuaExn ''cannot specify timezone parameter for this type'')
      else Inr input0)"

text \<open>What the first half of \<open>as_table\<close> leaves in its variables.\<close>

record parts =
  p_tm :: pg_tm
  p_hour :: int
  p_usec :: int
  p_tzn :: "string option"
  p_epoch :: "fnum option"

definition parts0 :: parts where
  "parts0 = \<lparr>p_tm = ztm\<lparr>tm_isdst := -1\<rparr>, p_hour = 0, p_usec = 0, p_tzn = None, p_epoch = None\<rparr>"

text \<open>\<open>pllua_time_raw_part\<close>: \<open>None\<close> is a null result.  The parts of a time of day are finite.\<close>

definition pllua_time_raw_part ::
  "('tz, 'd) pgtime \<Rightarrow> string \<Rightarrow> 'd dt_value \<Rightarrow> dt_oid \<Rightarrow> dt_oid \<Rightarrow> exn + fnum option"
where
  "pllua_time_raw_part pg part v oid func =
     bindR (case v of
              DateV d \<Rightarrow> if oid = DATEOID then bindR (date_timestamp pg d) (\<lambda>t. Inr (TimestampV t))
                         else Inr v
            | _ \<Rightarrow> Inr v) (part_function pg func part)"

fun finite_part :: "exn + fnum option \<Rightarrow> exn + rat" where
  "finite_part (Inl e) = Inl e"
| "finite_part (Inr None) = Inl (LuaExn ''unexpected null from time_part'')"
| "finite_part (Inr (Some (Fin q))) = Inr q"
| "finite_part (Inr (Some _)) = Inr 0"

definition trunc :: "rat \<Rightarrow> int" where
  "trunc q = (if q < 0 then - \<lfloor>- q\<rfloor> else \<lfloor>q\<rfloor>)"

definition time_parts ::
  "('tz, 'd) pgtime \<Rightarrow> (rat \<Rightarrow> rat) \<Rightarrow> dt_oid \<Rightarrow> 'd dt_value \<Rightarrow> exn + parts"
where
  "time_parts pg dbl oid v =
     bindR (if oid = TIMETZOID
            then bindR (finite_part (pllua_time_raw_part pg ''timezone'' v oid TIMETZOID))
                   (\<lambda>z. Inr (c_int (trunc z)))
            else Inr 0) (\<lambda>off.
     bindR (finite_part (pllua_time_raw_part pg ''epoch'' v oid oid)) (\<lambda>e.
       let e = dbl (e + of_int off);
           whole = trunc e;
           secs = c_int whole
       in Inr (parts0\<lparr>
            p_usec := llrint (dbl (1000000 * (e - of_int whole))),
            p_hour := c_div secs 3600,
            p_tm := (p_tm parts0)\<lparr>tm_gmtoff := off, tm_sec := c_mod secs 60,
                                  tm_min := c_mod (c_div secs 60) 60\<rparr>\<rparr>)))"

definition timestamp_parts ::
  "('tz, 'd) pgtime \<Rightarrow> dt_oid \<Rightarrow> int \<Rightarrow> input \<Rightarrow> exn + parts"
where
  "timestamp_parts pg oid ts x =
     (if ts = - (2 ^ 63) then Inr (parts0\<lparr>p_epoch := Some NegInf\<rparr>)
      else if ts = 2 ^ 63 - 1 then Inr (parts0\<lparr>p_epoch := Some PosInf\<rparr>)
      else bindR (choose_tz pg x) (\<lambda>tz.
        case timestamp2tm pg ts tz (oid = TIMESTAMPTZOID) of
          None \<Rightarrow> Inl (PgExn ''timestamp out of range'')
        | Some (t, fsec, tzn) \<Rightarrow>
            Inr (parts0\<lparr>p_tm := t, p_hour := tm_hour t, p_usec := fsec,
                        p_tzn := (if oid = TIMESTAMPTZOID then tzn else None)\<rparr>)))"

definition parts_of ::
  "('tz, 'd) pgtime \<Rightarrow> (rat \<Rightarrow> rat) \<Rightarrow> dt_oid \<Rightarrow> 'd dt_value \<Rightarrow> input \<Rightarrow> exn + parts"
where
  "parts_of pg dbl oid v x =
     (case v of
        DateV d \<Rightarrow>
          (case j2date pg (d + POSTGRES_EPOCH_JDATE) of (y, m, dd) \<Rightarrow>
             Inr (parts0\<lparr>p_tm := (p_tm parts0)\<lparr>tm_year := y, tm_mon := m, tm_mday := dd\<rparr>\<rparr>))
      | TimestampV ts \<Rightarrow> timestamp_parts pg oid ts x
      | OtherV w \<Rightarrow>
          if oid = INTERVALOID then
            (case interval_fields pg w of (t, us) \<Rightarrow>
               Inr (parts0\<lparr>p_tm := (p_tm parts0)\<lparr>tm_sec := tm_sec t, tm_min := tm_min t,
                             tm_mday := tm_mday t, tm_mon := tm_mon t, tm_year := tm_year t\<rparr>,
                           p_hour := tm_hour t, p_usec := us\<rparr>))
          else time_parts pg dbl oid v)"

text \<open>The table, as the fields set in order.\<close>

definition fields_of :: "dt_oid \<Rightarrow> parts \<Rightarrow> (string \<times> lval) list" where
  "fields_of oid p =
     (case p_epoch p of
        Some e \<Rightarrow> [(''epoch'', LFlt e)]
      | None \<Rightarrow>
          let t = p_tm p in
          (if oid \<in> {TIMEOID, TIMETZOID} then []
           else [(''year'', LInt (tm_year t)), (''month'', LInt (tm_mon t)), (''day'', LInt (tm_mday t))]) @
          (if oid = DATEOID then []
           else [(''hour'', LInt (p_hour p)), (''min'', LInt (tm_min t)), (''sec'', LInt (tm_sec t)),
                 (''usec'', LInt (p_usec p))]) @
          (if oid = TIMESTAMPTZOID \<and> 0 \<le> tm_isdst t
           then [(''isdst'', LBool (tm_isdst t \<noteq> 0))] else []) @
          (if oid \<in> {TIMESTAMPTZOID, TIMETZOID} then [(''timezone'', LInt (tm_gmtoff t))] else []) @
          (case p_tzn p of Some z \<Rightarrow> [(''timezone_abbrev'', LStr z)] | None \<Rightarrow> []))"

definition pllua_time_as_table ::
  "('tz, 'd) pgtime \<Rightarrow> (string \<Rightarrow> lval) \<Rightarrow> (rat \<Rightarrow> rat) \<Rightarrow> dt_oid \<Rightarrow> 'd dt_value \<Rightarrow> lval \<Rightarrow>
   exn + (string \<times> lval) list"
where
  "pllua_time_as_table pg str2num dbl oid v zone =
     bindR (as_table_zone pg str2num oid zone) (\<lambda>x.
     bindR (parts_of pg dbl oid v x) (\<lambda>p. Inr (fields_of oid p)))"

subsection \<open>Fields by name\<close>

text \<open>PostgreSQL's functions never give NaN for a part.\<close>

definition pllua_time_part ::
  "('tz, 'd) pgtime \<Rightarrow> (rat \<Rightarrow> rat) \<Rightarrow> 'd dt_value \<Rightarrow> dt_oid \<Rightarrow> string \<Rightarrow> exn + lval"
where
  "pllua_time_part pg dbl v oid opart =
     (let part = (if opart = ''epoch_msec'' \<or> opart = ''epoch_usec'' then ''epoch''
                  else if opart = ''isoweek'' then ''week'' else opart);
          func = (if oid = DATEOID then TIMESTAMPOID else oid)
      in bindR (pllua_time_raw_part pg part v oid func) (\<lambda>res.
           Inr (case res of
                  None \<Rightarrow> LNil
                | Some PosInf \<Rightarrow> LFlt PosInf
                | Some NegInf \<Rightarrow> LFlt NegInf
                | Some NaN \<Rightarrow> LFlt NaN
                | Some (Fin q) \<Rightarrow>
                    if part \<noteq> opart then
                      (if opart = ''epoch_msec'' then LFlt (Fin (dbl (q * 1000)))
                       else if opart = ''epoch_usec'' then LInt (llrint (dbl (q * 1000000)))
                       else LInt (llrint q))
                    else if part = ''epoch'' \<or> part = ''second'' then LFlt (Fin q)
                    else LInt (llrint q))))"

definition pllua_time_index ::
  "('tz, 'd) pgtime \<Rightarrow> (rat \<Rightarrow> rat) \<Rightarrow> (string \<Rightarrow> lval) \<Rightarrow> 'd dt_value \<Rightarrow> dt_oid \<Rightarrow> string \<Rightarrow> exn + lval"
where
  "pllua_time_index pg dbl methods v oid part =
     (if methods part \<noteq> LNil then Inr (methods part) else pllua_time_part pg dbl v oid part)"

end
