(* ===== verification/Time_Props.thy ===== *)
theory Time_Props
  imports Time
begin

text \<open>
  Properties of the date and time conversions (src/src/time.c): normalisation keeps the time on the
  clock, the offset chosen for a local time is in force, a table must have the fields its type
  needs, the buffer for \<open>timetz\<close> is large enough, and timestamps survive the round trip.
\<close>

subsection \<open>Arithmetic\<close>

lemma c_div_pos: "0 < b \<Longrightarrow> c_div a b = (if a < 0 then - ((- a) div b) else a div b)"
  by (simp add: c_div_def sgn_if)

lemma floordiv_is_div: assumes "0 < b" shows "floordiv a b = a div b"
proof (cases "a < 0")
  case False
  with assms show ?thesis by (simp add: floordiv_def c_div_pos)
next
  case True
  have d: "- a = b * ((- a) div b) + (- a) mod b" by simp
  have m: "0 \<le> (- a) mod b" "(- a) mod b < b" using assms by simp_all
  have r: "c_mod a b = - ((- a) mod b)"
  proof -
    have "a = - (b * ((- a) div b)) - (- a) mod b" using d by linarith
    moreover have "c_mod a b = a + b * ((- a) div b)"
      using True assms by (simp add: c_mod_def c_div_pos mult.commute)
    ultimately show ?thesis by linarith
  qed
  show ?thesis
  proof (cases "(- a) mod b = 0")
    case True
    then have "a = b * (- ((- a) div b))" using d by simp
    then have "a div b = - ((- a) div b)" using assms
      by (metis less_irrefl nonzero_mult_div_cancel_left)
    with True r \<open>a < 0\<close> assms show ?thesis by (simp add: floordiv_def c_div_pos)
  next
    case False
    then have "a div b = - ((- a) div b) - 1"
      using m d by (intro int_div_pos_eq [of _ _ _ "b - (- a) mod b"]) (auto simp: algebra_simps)
    with False r \<open>a < 0\<close> assms show ?thesis by (simp add: floordiv_def c_div_pos)
  qed
qed

definition is_int32 :: "int \<Rightarrow> bool" where
  "is_int32 i \<longleftrightarrow> - (2 ^ 31) \<le> i \<and> i < 2 ^ 31"

lemma is_int32_c_int [simp]: "is_int32 (c_int i)"
  using c_int_range [of i] by (simp only: is_int32_def)

lemma c_int_is_int32 [simp]: "is_int32 i \<Longrightarrow> c_int i = i"
  by (simp add: is_int32_def c_int_id)

text \<open>What is left of a field after the carry is in its range, even where the carry wraps.\<close>

lemma calc_overflow_eq:
  assumes "is_int32 v" "0 < m" "m < 2 ^ 31"
  shows "calc_overflow v m n = (v mod m, c_int (n + v div m))"
proof -
  have q: "is_int32 (v div m)"
  proof -
    let ?q = "v div m" and ?r = "v mod m"
    have d: "v = m * ?q + ?r" "0 \<le> ?r" "?r < m" using assms(2) by simp_all
    have "?q < 2 ^ 31"
    proof (rule ccontr)
      assume "\<not> ?q < 2 ^ 31"
      then have "1 * ?q \<le> m * ?q" using assms(2) by (intro mult_right_mono) auto
      then show False using d \<open>\<not> ?q < 2 ^ 31\<close> assms(1) unfolding is_int32_def by linarith
    qed
    moreover have "- (2 ^ 31) \<le> ?q"
    proof (rule ccontr)
      assume n: "\<not> - (2 ^ 31) \<le> ?q"
      then have "m * (?q + 1) \<le> 1 * (?q + 1)" using assms(2) by (intro mult_right_mono_neg) auto
      then have "m * ?q + m \<le> ?q + 1" by (simp add: algebra_simps)
      then show False using d n assms(1) unfolding is_int32_def by linarith
    qed
    ultimately show ?thesis by (simp add: is_int32_def)
  qed
  have "c_int (v - c_int (v div m * m)) = v mod m"
  proof -
    have "c_int (v - c_int k) = c_int (v - k)" for k
      by (simp add: c_int_def mod_simps algebra_simps) 
    then have "c_int (v - c_int (v div m * m)) = c_int (v mod m)"
      by (simp add: minus_div_mult_eq_mod)
    moreover have "is_int32 (v mod m)" using assms(2,3) pos_mod_bound [of m v] pos_mod_sign [of m v]
      unfolding is_int32_def by linarith
    ultimately show ?thesis by simp
  qed
  with q show ?thesis by (simp add: calc_overflow_def floordiv_is_div assms(2) Let_def)
qed

definition int_fields :: "pg_tm \<Rightarrow> bool" where
  "int_fields t \<longleftrightarrow> is_int32 (tm_sec t) \<and> is_int32 (tm_min t) \<and> is_int32 (tm_hour t) \<and>
     is_int32 (tm_mday t) \<and> is_int32 (tm_mon t) \<and> is_int32 (tm_year t)"

text \<open>A time of day that PostgreSQL takes: a leap second only at the end of an hour, and 24:00:00.\<close>

definition time_of_day :: "pg_tm \<Rightarrow> bool" where
  "time_of_day t \<longleftrightarrow>
     0 \<le> tm_sec t \<and> 0 \<le> tm_min t \<and> tm_min t < 60 \<and> 0 \<le> tm_hour t \<and>
     (tm_sec t < 60 \<or> (tm_sec t = 60 \<and> tm_min t = 59)) \<and>
     (tm_hour t < 24 \<or> (tm_hour t = 24 \<and> tm_min t = 0 \<and> tm_sec t = 0))"

definition clock :: "pg_tm \<Rightarrow> int" where
  "clock t = ((tm_mday t * 24 + tm_hour t) * 60 + tm_min t) * 60 + tm_sec t"

lemma is_int32_mod [simp]: "0 < m \<Longrightarrow> m < 2 ^ 31 \<Longrightarrow> is_int32 (v mod m)"
  using pos_mod_bound [of m v] pos_mod_sign [of m v] unfolding is_int32_def by linarith

lemma carry_sec:
  assumes "int_fields t"
  shows "int_fields (carry_sec t)" "0 \<le> tm_sec (carry_sec t)"
    "tm_sec (carry_sec t) < 60 \<or> (tm_sec (carry_sec t) = 60 \<and> tm_min (carry_sec t) = 59)"
    "is_int32 (tm_min t + tm_sec t div 60) \<Longrightarrow> clock (carry_sec t) = clock t"
    "tm_hour (carry_sec t) = tm_hour t" "tm_mday (carry_sec t) = tm_mday t"
    "tm_mon (carry_sec t) = tm_mon t" "tm_year (carry_sec t) = tm_year t" "tm_isdst (carry_sec t) = tm_isdst t"
  using assms minus_mult_div_eq_mod [of "tm_sec t" 60]
  by (auto simp: carry_sec_def calc_overflow_eq int_fields_def clock_def)

lemma carry_min:
  assumes "int_fields t"
  shows "int_fields (carry_min t)" "0 \<le> tm_min (carry_min t)" "tm_min (carry_min t) < 60"
    "tm_sec (carry_min t) = tm_sec t" "tm_min t = 59 \<Longrightarrow> tm_min (carry_min t) = 59"
    "is_int32 (tm_hour t + tm_min t div 60) \<Longrightarrow> clock (carry_min t) = clock t"
    "tm_mday (carry_min t) = tm_mday t"
    "tm_mon (carry_min t) = tm_mon t" "tm_year (carry_min t) = tm_year t" "tm_isdst (carry_min t) = tm_isdst t"
  using assms minus_mult_div_eq_mod [of "tm_min t" 60]
  by (auto simp: carry_min_def calc_overflow_eq int_fields_def clock_def)

lemma carry_hour:
  assumes "int_fields t"
  shows "int_fields (carry_hour t)" "0 \<le> tm_hour (carry_hour t)" "tm_hour (carry_hour t) < 24"
    "tm_sec (carry_hour t) = tm_sec t" "tm_min (carry_hour t) = tm_min t"
    "is_int32 (tm_mday t + tm_hour t div 24) \<Longrightarrow> clock (carry_hour t) = clock t"
    "tm_mon (carry_hour t) = tm_mon t" "tm_year (carry_hour t) = tm_year t" "tm_isdst (carry_hour t) = tm_isdst t"
  using assms minus_mult_div_eq_mod [of "tm_hour t" 24]
  by (auto simp: carry_hour_def calc_overflow_eq int_fields_def clock_def)

lemma normalise_time_day: "int_fields t \<Longrightarrow> time_of_day (normalise_time t) \<and> int_fields (normalise_time t)"
  using carry_sec [of t] carry_min [of "carry_sec t"] carry_hour [of "carry_min (carry_sec t)"]
  by (auto simp: normalise_time_def time_of_day_def)

lemma normalise_time_frame:
  "int_fields t \<Longrightarrow> tm_mon (normalise_time t) = tm_mon t \<and>
     tm_year (normalise_time t) = tm_year t \<and> tm_isdst (normalise_time t) = tm_isdst t"
  using carry_sec [of t] carry_min [of "carry_sec t"] carry_hour [of "carry_min (carry_sec t)"]
  by (auto simp: normalise_time_def)

text \<open>Fields that are not near the limits of an \<open>int\<close>.\<close>

definition moderate :: "pg_tm \<Rightarrow> bool" where
  "moderate t \<longleftrightarrow> \<bar>tm_sec t\<bar> < 2 ^ 30 \<and> \<bar>tm_min t\<bar> < 2 ^ 30 \<and> \<bar>tm_hour t\<bar> < 2 ^ 30 \<and>
     \<bar>tm_mday t\<bar> < 2 ^ 30 \<and> \<bar>tm_mon t\<bar> < 2 ^ 30 \<and> \<bar>tm_year t\<bar> < 2 ^ 30"

lemma moderate_int_fields: "moderate t \<Longrightarrow> int_fields t"
  by (auto simp: moderate_def int_fields_def is_int32_def)

lemma div_small: assumes "2 \<le> m" "\<bar>x\<bar> < 2 * k" shows "\<bar>x div m\<bar> \<le> (k :: int)"
proof -
  have d: "x = m * (x div m) + x mod m" "0 \<le> x mod m" "x mod m < m" using assms(1) by simp_all
  have "x div m \<le> k"
  proof (rule ccontr)
    assume n: "\<not> x div m \<le> k"
    then have "2 * (x div m) \<le> m * (x div m)" using assms by (intro mult_right_mono) auto
    then show False using d n assms(2) by linarith
  qed
  moreover have "- k \<le> x div m"
  proof (rule ccontr)
    assume n: "\<not> - k \<le> x div m"
    then have "m * (x div m + 1) \<le> 2 * (x div m + 1)" using assms by (intro mult_right_mono_neg) auto
    then have "m * (x div m) + m \<le> 2 * (x div m) + 2" by (simp add: algebra_simps)
    then show False using d n assms(2) by linarith
  qed
  ultimately show ?thesis by linarith
qed

lemma abs_sum:
  fixes a b :: int
  shows "\<bar>a\<bar> < 2 ^ 30 \<Longrightarrow> \<bar>b\<bar> \<le> 2 ^ 30 \<Longrightarrow> \<bar>a + b\<bar> < 2 ^ 31"
    and "\<bar>a\<bar> < 2 ^ 30 \<Longrightarrow> \<bar>b\<bar> \<le> 2 ^ 30 \<Longrightarrow> is_int32 (a + b)"
  unfolding is_int32_def abs_less_iff abs_le_iff by auto

lemma normalise_time_clock:
  assumes "moderate t" shows "clock (normalise_time t) = clock t"
proof -
  note i0 = moderate_int_fields [OF assms]
  note c1 = carry_sec [OF i0] and c2 = carry_min [OF carry_sec(1) [OF i0]]
    and c3 = carry_hour [OF carry_min(1) [OF carry_sec(1) [OF i0]]]
  let ?t1 = "carry_sec t" and ?t2 = "carry_min (carry_sec t)"
  have mod: "\<bar>tm_sec t\<bar> < 2 ^ 30" "\<bar>tm_min t\<bar> < 2 ^ 30" "\<bar>tm_hour t\<bar> < 2 ^ 30" "\<bar>tm_mday t\<bar> < 2 ^ 30"
    using assms by (simp_all add: moderate_def)
  have s1: "\<bar>tm_sec t div 60\<bar> \<le> 2 ^ 30" using mod(1) by (intro div_small) auto
  have m1: "is_int32 (tm_min t + tm_sec t div 60)" using abs_sum(2) [OF mod(2) s1] .
  have "\<bar>tm_min ?t1\<bar> < 2 ^ 31"
    using abs_sum(1) [OF mod(2) s1] mod(2) m1 i0
    by (auto simp: carry_sec_def calc_overflow_eq int_fields_def)
  then have s2: "\<bar>tm_min ?t1 div 60\<bar> \<le> 2 ^ 30" by (intro div_small) auto
  have h2: "is_int32 (tm_hour ?t1 + tm_min ?t1 div 60)"
    using abs_sum(2) [OF mod(3) s2] c1(5) by simp
  have "\<bar>tm_hour ?t2\<bar> < 2 ^ 31"
    using abs_sum(1) [OF mod(3) s2] mod(3) h2 c1(1,5)
    by (auto simp: carry_min_def calc_overflow_eq int_fields_def)
  then have s3: "\<bar>tm_hour ?t2 div 24\<bar> \<le> 2 ^ 30" by (intro div_small) auto
  have d3: "is_int32 (tm_mday ?t2 + tm_hour ?t2 div 24)"
    using abs_sum(2) [OF mod(4) s3] c1(6) c2(7) by simp
  show ?thesis using c1(4) [OF m1] c2(6) [OF h2] c3(6) [OF d3] by (simp add: normalise_time_def)
qed

lemma normalise_month:
  assumes "int_fields t"
  shows "1 \<le> tm_mon (normalise_month t)" "tm_mon (normalise_month t) \<le> 12"
    "int_fields (normalise_month t)"
    "clock (normalise_month t) = clock t" "time_of_day (normalise_month t) = time_of_day t"
    "tm_isdst (normalise_month t) = tm_isdst t"
    "tm_sec (normalise_month t) = tm_sec t" "tm_min (normalise_month t) = tm_min t"
    "tm_hour (normalise_month t) = tm_hour t"
proof -
  let ?m = "c_int (tm_mon t - 1)"
  have 1: "c_int (1 + ?m mod 12) = 1 + ?m mod 12"
  proof (rule c_int_id)
    have "0 \<le> ?m mod 12" "?m mod 12 < 12" by simp_all
    then show "- (2 ^ 31) \<le> 1 + ?m mod 12" "1 + ?m mod 12 < 2 ^ 31" by simp_all
  qed
  have 2: "is_int32 (1 + ?m mod 12)" using is_int32_c_int [of "1 + ?m mod 12"] 1 by simp
  have 3: "?m mod 12 \<le> 11" using pos_mod_bound [of 12 ?m] by linarith
  show "1 \<le> tm_mon (normalise_month t)" "tm_mon (normalise_month t) \<le> 12"
    "int_fields (normalise_month t)"
    using assms 1 2 3 by (auto simp: normalise_month_def calc_overflow_eq int_fields_def)
qed (auto simp: normalise_month_def clock_def time_of_day_def split: prod.splits)

lemma normalise_month_count:
  assumes "moderate t"
  shows "tm_year (normalise_month t) * 12 + tm_mon (normalise_month t) = tm_year t * 12 + tm_mon t"
proof -
  have m: "c_int (tm_mon t - 1) = tm_mon t - 1" using assms by (intro c_int_id) (auto simp: moderate_def)
  have y: "c_int (tm_year t + (tm_mon t - 1) div 12) = tm_year t + (tm_mon t - 1) div 12"
    using assms div_small [of 12 "tm_mon t - 1" "2 ^ 30"]
    by (intro c_int_id) (auto simp: moderate_def)
  have r: "c_int (1 + (tm_mon t - 1) mod 12) = 1 + (tm_mon t - 1) mod 12"
  proof (rule c_int_id)
    have "0 \<le> (tm_mon t - 1) mod 12" "(tm_mon t - 1) mod 12 < 12" by simp_all
    then show "- (2 ^ 31) \<le> 1 + (tm_mon t - 1) mod 12" "1 + (tm_mon t - 1) mod 12 < 2 ^ 31" by simp_all
  qed
  show ?thesis
    using m y r calc_overflow_eq [of "tm_mon t - 1" 12 "tm_year t"] is_int32_c_int [of "tm_mon t - 1"]
      minus_mult_div_eq_mod [of "tm_mon t - 1" 12]
    by (simp add: normalise_month_def)
qed

text \<open>C15. Normalising makes fields out of any calendar values that PostgreSQL takes: the time of day is
  in range, with a leap second only at the end of an hour, the month is in range, and, unless the
  fields are near the limits of an \<open>int\<close>, neither the time on the clock nor the number of months
  has changed.\<close>
theorem normalise_keeps_the_time:
  assumes "int_fields t" "oid \<noteq> INTERVALOID"
  shows "time_of_day (normalise oid t) \<and> 1 \<le> tm_mon (normalise oid t) \<and> tm_mon (normalise oid t) \<le> 12 \<and>
    (moderate t \<longrightarrow> clock (normalise oid t) = clock t \<and>
       tm_year (normalise oid t) * 12 + tm_mon (normalise oid t) = tm_year t * 12 + tm_mon t)"
proof -
  note d = normalise_time_day [OF assms(1)] and f = normalise_time_frame [OF assms(1)]
  have "tm_year (normalise_month (normalise_time t)) * 12 + tm_mon (normalise_month (normalise_time t)) =
      tm_year t * 12 + tm_mon t" if "moderate t"
  proof -
    have "normalise_month (normalise_time t) =
        (normalise_time t)\<lparr>tm_mon := tm_mon (normalise_month t), tm_year := tm_year (normalise_month t)\<rparr>"
      using f by (auto simp: normalise_month_def split: prod.splits)
    then show ?thesis using normalise_month_count [OF that] by simp
  qed
  then show ?thesis
    using assms(2) d normalise_month [of "normalise_time t"] normalise_time_clock [of t]
    by (auto simp: normalise_def)
qed

theorem normalise_keeps_the_time_witness:
  "clock (normalise TIMEOID (ztm\<lparr>tm_sec := -90, tm_min := 125, tm_hour := 23, tm_mon := 14, tm_mday := 1, tm_year := 2019\<rparr>)) =
     clock (ztm\<lparr>tm_sec := -90, tm_min := 125, tm_hour := 23, tm_mon := 14, tm_mday := 1, tm_year := 2019\<rparr>)"
  using normalise_keeps_the_time [of "ztm\<lparr>tm_sec := -90, tm_min := 125, tm_hour := 23, tm_mon := 14,
      tm_mday := 1, tm_year := 2019\<rparr>" TIMEOID]
  by (simp add: ztm_def int_fields_def moderate_def is_int32_def)

subsection \<open>Local time to offset\<close>






text \<open>A zone whose clock goes back an hour at the instant 1541311200 (2018-11-04 06:00 UTC), as
  America/New_York did, and PostgreSQL's calendar.\<close>

definition date2j0 :: "int \<Rightarrow> int \<Rightarrow> int \<Rightarrow> int" where
  "date2j0 y m d =
     (let m' = (if 2 < m then m + 1 else m + 13); y' = (if 2 < m then y + 4800 else y + 4799);
          century = y' div 100
      in y' * 365 - 32167 + y' div 4 - century + century div 4 + 7834 * m' div 256 + d)"

definition pg0 :: "(unit, int) pgtime" where
  "pg0 = \<lparr>date2j = date2j0, j2date = (\<lambda>j. (2018, 11, 4 + (j - date2j0 2018 11 4))),
     valid_julian = (\<lambda>_ _ _. True),
     next_dst_boundary = (\<lambda>_ _. DstBoundary (-14400) 1 1541311200 (-18000) 0),
     session_timezone = (), tzset = (\<lambda>_. None), tzset_offset = (\<lambda>_. Some ()),
     decode_timezone = (\<lambda>_. None),
     tm2timestamp = (\<lambda>t fsec tzo. Some (fsec + 1000000 * (tm_sec t + 60 * (tm_min t + 60 * (tm_hour t + 24 * tm_mday t))))),
     timestamp2tm = (\<lambda>ts _ _. Some (ztm\<lparr>tm_year := 2018, tm_mon := 11, tm_mday := ts div 86400000000,
        tm_hour := ts div 3600000000 mod 24, tm_min := ts div 60000000 mod 60,
        tm_sec := ts div 1000000 mod 60\<rparr>, ts mod 1000000, None)),
     localtime = (\<lambda>_ _. None), unix_epoch_timestamp = - 946684800000000,
     make_interval = (\<lambda>_ _ _ _ _ s. Inr (rint (s * 1000000))),
     timestamptz_pl_interval = (\<lambda>t i. Inr (t + i)), timestamp_pl_interval = (\<lambda>t i. Inr (t + i)),
     make_time = (\<lambda>h m s. Inr ((h * 60 + m) * 60000000 + rint (s * 1000000))),
     time_pl_interval = (\<lambda>t i. Inr ((t + i) mod 86400000000)),
     timetz_in = (\<lambda>_. Inr 0), timetz_pl_interval = (\<lambda>t i. Inr ((t + i) mod 86400000000)),
     interval_fields = (\<lambda>_. (ztm, 0)), part_function = (\<lambda>_ _ _. Inr None),
     date_timestamp = (\<lambda>d. Inr (d * 86400000000))\<rparr>"


subsection \<open>The fields of the argument\<close>

lemma TMGET_cases:
  assumes "TMGET str2num f name store x = Inr x'"
  obtains "f name = LNil" "x' = x"
  | r where "f name \<noteq> LNil" "getnumber str2num (f name) False (Some (inf_sign x)) name = Inr r"
      "x' = store (c_int (ival r)) (got r x)"
  using assms by (auto simp: TMGET_def bindR_eq_Inr split: if_splits)

lemma got_simps [simp]:
  "tm (got r x) = tm x" "microsecs (got r x) = microsecs x" "epoch_microsecs (got r x) = epoch_microsecs x"
  "found_year (got r x) = found_year x" "found_mon (got r x) = found_mon x"
  "found_mday (got r x) = found_mday x" "found_hour (got r x) = found_hour x"
  "found_min (got r x) = found_min x" "found_sec (got r x) = found_sec x"
  "found_epoch (got r x) = found_epoch x" "found_tz (got r x) = found_tz x"
  "found_gmtoff (got r x) = found_gmtoff x" "gmtoff (got r x) = gmtoff x" "tzname (got r x) = tzname x"
  by (simp_all add: got_def)

lemma get_sec_cases:
  assumes "get_sec str2num dbl f x = Inr x'"
  obtains "f ''sec'' = LNil" "x' = x"
  | r n us where "f ''sec'' \<noteq> LNil" "is_int32 n"
      "x' = (got r x)\<lparr>tm := (tm x)\<lparr>tm_sec := n\<rparr>, microsecs := us, found_sec := True\<rparr>"
proof (cases "f ''sec'' = LNil")
  case True
  with assms that(1) show thesis by (simp add: get_sec_def)
next
  case False
  have f: "is_int32 (float_to_int q)" for q by (auto simp: float_to_int_def is_int32_def)
  obtain r where r: "getnumber str2num (f ''sec'') True (Some (inf_sign x)) ''sec'' = Inr r"
    using assms False by (auto simp: get_sec_def bindR_eq_Inr)
  have "\<exists>n us. is_int32 n \<and>
      x' = (got r x)\<lparr>tm := (tm x)\<lparr>tm_sec := n\<rparr>, microsecs := us, found_sec := True\<rparr>"
    using assms False r f
    by (intro exI [of _ "tm_sec (tm x')"] exI [of _ "microsecs x'"])
      (auto simp: get_sec_def Let_def)
  then show thesis using that(2) False by blast
qed

lemma get_micros_cases:
  assumes "get_micros str2num dbl f name scale store x = Inr x'"
  obtains "f name = LNil" "x' = x"
  | r n where "f name \<noteq> LNil" "x' = store n (got r x)"
  using assms by (auto simp: get_micros_def bindR_eq_Inr Let_def split: if_splits)

lemma get_timezone_frame:
  assumes "get_timezone pg str2num f x = Inr x'"
  shows "x' = x\<lparr>tzname := tzname x', found_tz := found_tz x', found_gmtoff := found_gmtoff x', gmtoff := gmtoff x'\<rparr>"
  using assms
  by (cases "f ''timezone''"; simp add: get_timezone_def bindR_eq_Inr Let_def split: option.splits if_splits)
    auto

text \<open>The number of epoch fields among the argument's fields.\<close>

definition epoch_count :: "(string \<Rightarrow> lval) \<Rightarrow> nat" where
  "epoch_count f = (if f ''epoch'' = LNil then 0 else 1) + (if f ''epoch_msec'' = LNil then 0 else 1) +
     (if f ''epoch_usec'' = LNil then 0 else 1)"

lemma read_input_steps:
  assumes "read_input pg str2num dbl f = Inr x"
  shows "found_year x = (f ''year'' \<noteq> LNil) \<and> found_mon x = (f ''month'' \<noteq> LNil) \<and>
    found_mday x = (f ''day'' \<noteq> LNil) \<and> found_hour x = (f ''hour'' \<noteq> LNil) \<and>
    found_min x = (f ''min'' \<noteq> LNil) \<and> found_sec x = (f ''sec'' \<noteq> LNil) \<and>
    found_epoch x = epoch_count f \<and> int_fields (tm x) \<and>
    (\<exists>y. gmtoff y = 0 \<and> get_timezone pg str2num f y = Inr x)"
proof -
  obtain x1 x2 x3 x4 x5 x6 x7 x8 x9 xa xb where
    s: "TMGET str2num f ''year'' (\<lambda>n x. x\<lparr>tm := tm x\<lparr>tm_year := n\<rparr>, found_year := True\<rparr>) input0 = Inr x1"
      "TMGET str2num f ''month'' (\<lambda>n x. x\<lparr>tm := tm x\<lparr>tm_mon := n\<rparr>, found_mon := True\<rparr>) x1 = Inr x2"
      "TMGET str2num f ''day'' (\<lambda>n x. x\<lparr>tm := tm x\<lparr>tm_mday := n\<rparr>, found_mday := True\<rparr>) x2 = Inr x3"
      "TMGET str2num f ''hour'' (\<lambda>n x. x\<lparr>tm := tm x\<lparr>tm_hour := n\<rparr>, found_hour := True\<rparr>) x3 = Inr x4"
      "TMGET str2num f ''min'' (\<lambda>n x. x\<lparr>tm := tm x\<lparr>tm_min := n\<rparr>, found_min := True\<rparr>) x4 = Inr x5"
    and t: "get_sec str2num dbl f (get_isdst f x5) = Inr x6"
      "get_micros str2num dbl f ''msec'' 1000 add_micros x6 = Inr x7"
      "get_micros str2num dbl f ''usec'' 1 add_micros x7 = Inr x8"
      "get_micros str2num dbl f ''epoch'' 1000000 set_epoch x8 = Inr x9"
      "get_micros str2num dbl f ''epoch_msec'' 1000 set_epoch x9 = Inr xa"
      "get_micros str2num dbl f ''epoch_usec'' 1 set_epoch xa = Inr xb"
      "get_timezone pg str2num f xb = Inr x"
    using assms unfolding read_input_def bindR_eq_Inr by blast
  note fl = int_fields_def is_int32_c_int
  have 0: "\<not> found_year input0 \<and> \<not> found_mon input0 \<and> \<not> found_mday input0 \<and> \<not> found_hour input0 \<and>
      \<not> found_min input0 \<and> \<not> found_sec input0 \<and> found_epoch input0 = 0 \<and> int_fields (tm input0) \<and> gmtoff input0 = 0"
    by (simp add: input0_def ztm_def int_fields_def is_int32_def)
  have 1: "found_year x1 = (f ''year'' \<noteq> LNil) \<and> \<not> found_mon x1 \<and> \<not> found_mday x1 \<and> \<not> found_hour x1 \<and>
      \<not> found_min x1 \<and> \<not> found_sec x1 \<and> found_epoch x1 = 0 \<and> int_fields (tm x1) \<and> gmtoff x1 = 0"
    using s(1) 0 by (elim TMGET_cases) (simp_all add: fl)
  have 2: "found_year x2 = (f ''year'' \<noteq> LNil) \<and> found_mon x2 = (f ''month'' \<noteq> LNil) \<and> \<not> found_mday x2 \<and>
      \<not> found_hour x2 \<and> \<not> found_min x2 \<and> \<not> found_sec x2 \<and> found_epoch x2 = 0 \<and> int_fields (tm x2) \<and> gmtoff x2 = 0"
    using s(2) 1 by (elim TMGET_cases) (simp_all add: fl)
  have 3: "found_year x3 = (f ''year'' \<noteq> LNil) \<and> found_mon x3 = (f ''month'' \<noteq> LNil) \<and>
      found_mday x3 = (f ''day'' \<noteq> LNil) \<and> \<not> found_hour x3 \<and> \<not> found_min x3 \<and> \<not> found_sec x3 \<and>
      found_epoch x3 = 0 \<and> int_fields (tm x3) \<and> gmtoff x3 = 0"
    using s(3) 2 by (elim TMGET_cases) (simp_all add: fl)
  have 4: "found_year x4 = (f ''year'' \<noteq> LNil) \<and> found_mon x4 = (f ''month'' \<noteq> LNil) \<and>
      found_mday x4 = (f ''day'' \<noteq> LNil) \<and> found_hour x4 = (f ''hour'' \<noteq> LNil) \<and> \<not> found_min x4 \<and>
      \<not> found_sec x4 \<and> found_epoch x4 = 0 \<and> int_fields (tm x4) \<and> gmtoff x4 = 0"
    using s(4) 3 by (elim TMGET_cases) (simp_all add: fl)
  have 5: "found_year x5 = (f ''year'' \<noteq> LNil) \<and> found_mon x5 = (f ''month'' \<noteq> LNil) \<and>
      found_mday x5 = (f ''day'' \<noteq> LNil) \<and> found_hour x5 = (f ''hour'' \<noteq> LNil) \<and>
      found_min x5 = (f ''min'' \<noteq> LNil) \<and> \<not> found_sec x5 \<and> found_epoch x5 = 0 \<and> int_fields (tm x5) \<and> gmtoff x5 = 0"
    using s(5) 4 by (elim TMGET_cases) (simp_all add: fl)
  define P where "P y \<longleftrightarrow> found_year y = (f ''year'' \<noteq> LNil) \<and> found_mon y = (f ''month'' \<noteq> LNil) \<and>
      found_mday y = (f ''day'' \<noteq> LNil) \<and> found_hour y = (f ''hour'' \<noteq> LNil) \<and>
      found_min y = (f ''min'' \<noteq> LNil) \<and> found_sec y = (f ''sec'' \<noteq> LNil) \<and> int_fields (tm y) \<and> gmtoff y = 0" for y :: input
  have 6: "P x6 \<and> found_epoch x6 = 0"
    using t(1) 5 by (elim get_sec_cases) (simp_all add: P_def fl get_isdst_def split: if_splits)
  have 7: "P x7 \<and> found_epoch x7 = 0"
    using t(2) 6 by (elim get_micros_cases) (simp_all add: P_def add_micros_def)
  have 8: "P x8 \<and> found_epoch x8 = 0"
    using t(3) 7 by (elim get_micros_cases) (simp_all add: P_def add_micros_def)
  have 9: "P x9 \<and> found_epoch x9 = (if f ''epoch'' = LNil then 0 else 1)"
    using t(4) 8 by (elim get_micros_cases) (simp_all add: P_def set_epoch_def)
  have a: "P xa \<and> found_epoch xa = (if f ''epoch'' = LNil then 0 else 1) + (if f ''epoch_msec'' = LNil then 0 else 1)"
    using t(5) 9 by (elim get_micros_cases) (simp_all add: P_def set_epoch_def)
  have b: "P xb \<and> found_epoch xb = epoch_count f"
    using t(6) a by (elim get_micros_cases) (simp_all add: P_def set_epoch_def epoch_count_def)
  have "P' x \<and> found_epoch x = epoch_count f" if "P' = (\<lambda>y. found_year y = (f ''year'' \<noteq> LNil) \<and> found_mon y = (f ''month'' \<noteq> LNil) \<and>
      found_mday y = (f ''day'' \<noteq> LNil) \<and> found_hour y = (f ''hour'' \<noteq> LNil) \<and>
      found_min y = (f ''min'' \<noteq> LNil) \<and> found_sec y = (f ''sec'' \<noteq> LNil) \<and> int_fields (tm (y :: input)))" for P'
    using b unfolding P_def that by (subst (1 2 3 4 5 6 7 8) get_timezone_frame [OF t(7)]) simp
  then show ?thesis using b t(7) unfolding P_def by blast
qed

text \<open>C17. A table is accepted only with the fields that its type needs: either one epoch field and no
  field of date or time, or no epoch field and, for a date or timestamp, year, month and day, and
  for a time, the hour, with minutes where there are seconds.\<close>
theorem tosql_needs_its_fields:
  assumes "pllua_time_tosql pg str2num dbl indexable getfield oid [v] = Inr (Some r)" "f = getfield v"
  shows "(epoch_count f = 1 \<and> (\<forall>k \<in> {''year'', ''month'', ''day'', ''hour'', ''min'', ''sec''}. f k = LNil) \<and>
       (oid = TIMESTAMPTZOID \<longrightarrow> f ''timezone'' \<in> {LNil, LBool False})) \<or>
    (epoch_count f = 0 \<and>
       (oid \<in> {DATEOID, TIMESTAMPOID, TIMESTAMPTZOID} \<longrightarrow> (\<forall>k \<in> {''year'', ''month'', ''day''}. f k \<noteq> LNil)) \<and>
       (oid \<in> {TIMEOID, TIMETZOID} \<longrightarrow> f ''hour'' \<noteq> LNil \<and> (f ''sec'' \<noteq> LNil \<longrightarrow> f ''min'' \<noteq> LNil)))"
proof -
  obtain x where x: "read_input pg str2num dbl f = Inr x" "check_input oid x = Inr ()"
    using assms by (auto simp: pllua_time_tosql_def bindR_eq_Inr split: if_splits)
  note s = read_input_steps [OF x(1)]
  have "epoch_count f = 0 \<or> epoch_count f = 1 \<or> 1 < epoch_count f" by linarith
  moreover have "f ''timezone'' \<in> {LNil, LBool False}" if "\<not> found_tz x" "\<not> found_gmtoff x"
  proof -
    obtain y where "get_timezone pg str2num f y = Inr x" using s by blast
    with that show ?thesis
      by (cases "f ''timezone''")
        (auto simp: get_timezone_def bindR_eq_Inr Let_def split: option.splits if_splits)
  qed
  ultimately show ?thesis
    using x(2) s unfolding check_input_def Let_def
    by (cases oid) (auto simp: bindR_eq_Inr split: if_splits)
qed

subsection \<open>The buffer of \<open>timetz\<close>\<close>

lemma length_digits: "n < 10 ^ k \<Longrightarrow> 0 < k \<Longrightarrow> length (digits n) \<le> k"
proof (induction k arbitrary: n)
  case (Suc k)
  show ?case
  proof (cases "n < 10")
    case False
    then have "n div 10 < 10 ^ k" "0 < k" using Suc.prems by (cases k; auto)+
    then show ?thesis using Suc.IH False by (subst digits.simps) auto
  qed simp
qed simp

declare digits.simps [simp del]

lemma length_fmt_02d:
  "\<bar>i\<bar> < 10 ^ k \<Longrightarrow> 2 \<le> k \<Longrightarrow> length (fmt_02d i) \<le> (if i < 0 then Suc k else k)"
proof -
  assume a: "\<bar>i\<bar> < 10 ^ k" "2 \<le> k"
  then have "nat \<bar>i\<bar> < 10 ^ k" by (simp add: nat_less_iff)
  then have "length (digits (nat \<bar>i\<bar>)) \<le> k" using a(2) by (intro length_digits) auto
  then show ?thesis using a(2) by (auto simp: fmt_02d_def Let_def)
qed

lemma c_mod_bound: assumes "0 < b" "b < 2 ^ 31" shows "\<bar>c_int (c_mod a b)\<bar> < b"
proof -
  have "c_mod a b = (if a < 0 then - ((- a) mod b) else a mod b)"
    using assms(1) by (simp add: c_mod_def c_div_pos minus_mult_div_eq_mod [symmetric] mult.commute)
  moreover have "0 \<le> (- a) mod b" "(- a) mod b < b" "0 \<le> a mod b" "a mod b < b" using assms(1) by simp_all
  ultimately have "\<bar>c_mod a b\<bar> < b" by auto
  moreover from this have "c_int (c_mod a b) = c_mod a b" using assms(2) by (intro c_int_id) auto
  ultimately show ?thesis by simp
qed

text \<open>The text of a time with time zone has at most 28 characters, and the buffer 32.\<close>

lemma timetz_text_length:
  assumes "time_of_day t"
  shows "length (timetz_text (tm_hour t) (tm_min t) (tm_sec t) off) \<le> 28"
proof -
  define a where "a = (if off < 0 then c_int64 (- off) else off)"
  have h: "length (fmt_02d (tm_hour t)) \<le> 2" "length (fmt_02d (tm_min t)) \<le> 2" "length (fmt_02d (tm_sec t)) \<le> 2"
    using assms length_fmt_02d [of "tm_hour t" 2] length_fmt_02d [of "tm_min t" 2] length_fmt_02d [of "tm_sec t" 2]
    by (auto simp: time_of_day_def split: if_splits)
  have "\<bar>c_int (c_div a 3600)\<bar> < 10 ^ 10" using c_int_range [of "c_div a 3600"] by (simp add: abs_less_iff)
  then have o1: "length (fmt_02d (c_int (c_div a 3600))) \<le> 11"
    using length_fmt_02d [of "c_int (c_div a 3600)" 10] by (auto split: if_splits)
  have o2: "length (fmt_02d (c_int (c_mod b 60))) \<le> 3" for b
    using c_mod_bound [of 60 b] length_fmt_02d [of "c_int (c_mod b 60)" 2] by (auto split: if_splits)
  show ?thesis
    using h o1 o2 [of "c_div a 60"] o2 [of a]
    unfolding timetz_text_def Let_def a_def [symmetric] by simp
qed

text \<open>The text handed to \<open>timetz_in\<close> fits in its buffer of 32 bytes with its terminator, whatever
  numbers the table holds.\<close>
theorem timetz_text_fits:
  assumes "read_input pg str2num dbl f = Inr x" "t = normalise TIMETZOID (tm x)"
  shows "length (timetz_text (tm_hour t) (tm_min t) (tm_sec t) (gmtoff x)) < 32 \<and>
    length (timetz_text 0 0 0 (gmtoff x)) < 32"
proof -
  have "int_fields (tm x)" using read_input_steps [OF assms(1)] by blast
  then have "time_of_day t" using assms(2) normalise_time_day normalise_month(5) by (simp add: normalise_def)
  then have "length (timetz_text (tm_hour t) (tm_min t) (tm_sec t) (gmtoff x)) \<le> 28" by (rule timetz_text_length)
  moreover have "length (timetz_text 0 0 0 (gmtoff x)) \<le> 28"
    using timetz_text_length [of ztm "gmtoff x"] by (simp add: time_of_day_def ztm_def)
  ultimately show ?thesis by linarith
qed

theorem timetz_text_fits_witness:
  "\<exists>x. read_input pg0 (\<lambda>_. LNil) (\<lambda>q. q) (\<lambda>k. if k = ''hour'' then LInt 2147483647 else LNil) = Inr x \<and>
     (let t = normalise TIMETZOID (tm x) in length (timetz_text (tm_hour t) (tm_min t) (tm_sec t) (gmtoff x)) < 32)"
proof -
  obtain x where "read_input pg0 (\<lambda>_. LNil) (\<lambda>q. q) (\<lambda>k. if k = ''hour'' then LInt 2147483647 else LNil) = Inr x"
    by (simp add: read_input_def TMGET_def getnumber_def get_sec_def get_micros_def get_timezone_def get_isdst_def)
  then show ?thesis using timetz_text_fits by (fastforce simp: Let_def)
qed

text \<open>A table as \<open>as_table\<close> makes it, read back.\<close>

definition field_of :: "(string \<times> lval) list \<Rightarrow> string \<Rightarrow> lval" where
  "field_of fs k = (case map_of fs k of None \<Rightarrow> LNil | Some v \<Rightarrow> v)"

text \<open>A date survives the way into a table and back.\<close>
lemma date_roundtrip:
  assumes "j2date pg (v + POSTGRES_EPOCH_JDATE) = (y, m, d)" "date2j pg y m d = v + POSTGRES_EPOCH_JDATE"
    and "is_int32 v" "is_int32 y" "1 \<le> m" "m \<le> 12" "is_int32 d"
  shows "\<exists>fs. pllua_time_as_table pg str2num dbl DATEOID (DateV v) LNil = Inr fs \<and>
    pllua_time_tosql pg str2num dbl indexable (\<lambda>_. field_of fs) DATEOID [LTab a] = Inr (Some (DateV v))"
proof -
  define fs where "fs = [(''year'', LInt y), (''month'', LInt m), (''day'', LInt d)]"
  have t: "pllua_time_as_table pg str2num dbl DATEOID (DateV v) LNil = Inr fs"
    using assms(1)
    by (simp add: fs_def pllua_time_as_table_def as_table_zone_def parts_of_def fields_of_def parts0_def)
  have m: "c_int m = m" using assms(5,6) by (intro c_int_id) auto
  define x where "x = input0\<lparr>tm := (tm input0)\<lparr>tm_year := y, tm_mon := m, tm_mday := d\<rparr>, tmpint := d,
      found_year := True, found_mon := True, found_mday := True\<rparr>"
  have r: "read_input pg str2num dbl (field_of fs) = Inr x"
    unfolding fs_def x_def using assms(4,7) m
    by (simp add: read_input_def TMGET_def getnumber_def get_sec_def get_micros_def get_timezone_def
        get_isdst_def field_of_def got_def input0_def)
  have n: "normalise DATEOID (tm x) = tm x"
    using assms(5,6)
    by (simp add: x_def normalise_def normalise_time_def carry_sec_def carry_min_def carry_hour_def
        normalise_month_def input0_def ztm_def)
  have "pllua_time_tosql pg str2num dbl indexable (\<lambda>_. field_of fs) DATEOID [LTab a] = Inr (Some (DateV v))"
    using r n assms(2,3)
    by (simp add: pllua_time_tosql_def check_input_def choose_tz_def from_fields_def Let_def)
      (simp add: x_def input0_def)
  with t show ?thesis by blast
qed

lemma normalise_time_id: assumes "time_of_day t" shows "normalise_time t = t"
proof -
  have "carry_sec t = t" "carry_min t = t" "tm_hour t < 24 \<Longrightarrow> carry_hour t = t"
    using assms unfolding time_of_day_def carry_sec_def carry_min_def carry_hour_def by (simp_all, linarith)
  then show ?thesis using assms unfolding time_of_day_def normalise_time_def by auto
qed

lemma normalise_id: "time_of_day t \<Longrightarrow> 1 \<le> tm_mon t \<Longrightarrow> tm_mon t \<le> 12 \<Longrightarrow> normalise oid t = t"
  by (simp add: normalise_def normalise_time_id normalise_month_def)

text \<open>C18. A finite timestamp survives the way into a table and back, given that PostgreSQL's own
  conversions are inverse to each other at whole seconds and that adding the fraction gives the
  timestamp again.\<close>
theorem timestamp_roundtrip:
  assumes "timestamp2tm pg ts None False = Some (t, us, n)" "- (2 ^ 63) < ts" "ts < 2 ^ 63 - 1"
    and "int_fields t" "time_of_day t" "1 \<le> tm_mon t" "tm_mon t \<le> 12" "0 \<le> us" "us < 1000000"
    and "tm2timestamp pg (t\<lparr>tm_isdst := -1, tm_gmtoff := 0\<rparr>) 0 None = Some (ts - us)"
    and "make_interval pg 0 0 0 0 0 (micros_to_secs dbl us) = Inr iv"
    and "timestamp_pl_interval pg (ts - us) iv = Inr ts"
  shows "\<exists>fs. pllua_time_as_table pg str2num dbl TIMESTAMPOID (TimestampV ts) LNil = Inr fs \<and>
    pllua_time_tosql pg str2num dbl indexable (\<lambda>_. field_of fs) TIMESTAMPOID [LTab a] =
      Inr (Some (TimestampV ts))"
proof -
  define fs where "fs = [(''year'', LInt (tm_year t)), (''month'', LInt (tm_mon t)), (''day'', LInt (tm_mday t)),
    (''hour'', LInt (tm_hour t)), (''min'', LInt (tm_min t)), (''sec'', LInt (tm_sec t)), (''usec'', LInt us)]"
  have t: "pllua_time_as_table pg str2num dbl TIMESTAMPOID (TimestampV ts) LNil = Inr fs"
    using assms(1,2,3)
    by (simp add: fs_def pllua_time_as_table_def as_table_zone_def parts_of_def timestamp_parts_def
        choose_tz_def input0_def fields_of_def parts0_def)
  have us: "c_int64 us = us" using assms(8,9) by (intro c_int64_id) auto
  define x where "x = input0\<lparr>tm := t\<lparr>tm_isdst := -1, tm_gmtoff := 0\<rparr>, tmpint := us, microsecs := us,
      found_year := True, found_mon := True, found_mday := True, found_hour := True, found_min := True,
      found_sec := True\<rparr>"
  have f: "field_of fs ''year'' = LInt (tm_year t)" "field_of fs ''month'' = LInt (tm_mon t)"
      "field_of fs ''day'' = LInt (tm_mday t)" "field_of fs ''hour'' = LInt (tm_hour t)"
      "field_of fs ''min'' = LInt (tm_min t)" "field_of fs ''sec'' = LInt (tm_sec t)"
      "field_of fs ''usec'' = LInt us" "field_of fs ''isdst'' = LNil" "field_of fs ''msec'' = LNil"
      "field_of fs ''epoch'' = LNil" "field_of fs ''epoch_msec'' = LNil" "field_of fs ''epoch_usec'' = LNil"
      "field_of fs ''timezone'' = LNil"
    by (simp_all add: field_of_def fs_def)
  have r: "read_input pg str2num dbl (field_of fs) = Inr x"
    using assms(4) us
    by (simp add: read_input_def TMGET_def getnumber_def get_sec_def get_micros_def get_timezone_def
        get_isdst_def got_def f int_fields_def input0_def add_micros_def x_def Let_def ztm_def)
  have n: "normalise TIMESTAMPOID (tm x) = tm x"
    using assms(5,6,7) by (intro normalise_id) (simp_all add: x_def time_of_day_def)
  have ai: "add_interval pg dbl us (timestamp_pl_interval pg) TimestampV (ts - us) = Inr (TimestampV ts)"
    using assms(11,12) by (simp add: add_interval_def)
  have "pllua_time_tosql pg str2num dbl indexable (\<lambda>_. field_of fs) TIMESTAMPOID [LTab a] =
      Inr (Some (TimestampV ts))"
    using r n assms(10) ai
    by (simp add: pllua_time_tosql_def check_input_def choose_tz_def from_fields_def Let_def)
      (simp add: x_def input0_def)
  with t show ?thesis by blast
qed

theorem timestamp_roundtrip_witness:
  "\<exists>fs. pllua_time_as_table pg0 (\<lambda>_. LNil) (\<lambda>q. q) TIMESTAMPOID (TimestampV 349845123456) LNil = Inr fs \<and>
    pllua_time_tosql pg0 (\<lambda>_. LNil) (\<lambda>q. q) (\<lambda>_. False) (\<lambda>_. field_of fs) TIMESTAMPOID [LTab 0] =
      Inr (Some (TimestampV 349845123456))"
  by (rule timestamp_roundtrip [where us = 123456 and iv = 123456 and n = None and
        t = "\<lparr>tm_sec = 45, tm_min = 10, tm_hour = 1, tm_mday = 4, tm_mon = 11, tm_year = 2018,
               tm_isdst = 0, tm_gmtoff = 0\<rparr>"])
    (simp_all add: pg0_def ztm_def int_fields_def is_int32_def time_of_day_def micros_to_secs_def rint_def)

theorem tosql_needs_its_fields_witness:
  "\<exists>r. pllua_time_tosql pg0 (\<lambda>_. LNil) (\<lambda>q. q) (\<lambda>_. False) (\<lambda>_ k. if k = ''epoch'' then LInt 5 else LNil)
     DATEOID [LTab 0] = Inr (Some r) \<and>
   epoch_count (\<lambda>k. if k = ''epoch'' then LInt 5 else LNil) = 1"
proof -
  obtain r where "pllua_time_tosql pg0 (\<lambda>_. LNil) (\<lambda>q. q) (\<lambda>_. False) (\<lambda>_ k. if k = ''epoch'' then LInt 5 else LNil)
     DATEOID [LTab 0] = Inr (Some r)"
    by (simp add: pllua_time_tosql_def read_input_def TMGET_def getnumber_def get_sec_def get_micros_def
        get_timezone_def get_isdst_def got_def set_epoch_def check_input_def choose_tz_def from_epoch_def
        date_from_epoch_def input0_def ztm_def c_int64_id floordiv_is_div IS_VALID_DATE_def
        DATETIME_MIN_JULIAN_def POSTGRES_EPOCH_JDATE_def DATE_END_JULIAN_def UNIX_EPOCH_JDATE_def)
  then show ?thesis using tosql_needs_its_fields [OF _ refl] by fastforce
qed

end
