(* ===== verification/Jsonb.thy ===== *)
theory Jsonb
  imports Prelude
begin

text \<open>
  The conversions between jsonb and Lua tables, src/src/jsonb.c.  Both directions are stack
  machines: \<open>pllua_jsonb_map\<close> reads the tokens of PostgreSQL's iterator and builds tables on the
  Lua stack, \<open>pllua_jsonb_tosql\<close> walks over tables with frames on the Lua stack and gives tokens
  to PostgreSQL's builder.  A value of jsonb is a tree whose leaves are scalars or, where the
  code does not look inside, whole jsonb values.
\<close>

subsection \<open>Data\<close>

datatype jv =
    JNull
  | JBool bool
  | JNum rat
  | JStr string
  | JArr "jv list"
  | JObj "(string \<times> jv) list"

datatype jt =
    Leaf jv
  | Arr "jt list"
  | Obj "(string \<times> jt) list"

datatype jtok =
    WJB_BEGIN_ARRAY
  | WJB_BEGIN_OBJECT
  | WJB_KEY string
  | WJB_VALUE jv
  | WJB_ELEM jv
  | WJB_END_ARRAY
  | WJB_END_OBJECT

text \<open>The two metatables, \<open>array_mt\<close> and \<open>object_mt\<close>.\<close>

datatype jtag = ArrayMt | ObjectMt

text \<open>
  A Lua value: a plain one, a datum of type numeric or jsonb, or a table with its metatable and
  its entries in the order in which they are iterated.
\<close>

datatype jl =
    V lval
  | NumD rat
  | JsonD jv
  | Tab "jtag option" "(jl \<times> jl) list"

text \<open>Tokens of a tree, as PostgreSQL's iterator gives them and its builder takes them; \<open>lf\<close> is the
  token of a leaf at that place.\<close>

fun ctoks :: "(jv \<Rightarrow> jtok) \<Rightarrow> jt \<Rightarrow> jtok list" where
  "ctoks lf (Leaf v) = [lf v]"
| "ctoks lf (Arr xs) = WJB_BEGIN_ARRAY # concat (map (ctoks WJB_ELEM) xs) @ [WJB_END_ARRAY]"
| "ctoks lf (Obj kvs) =
     WJB_BEGIN_OBJECT # concat (map (\<lambda>(k, x). WJB_KEY k # ctoks WJB_VALUE x) kvs) @ [WJB_END_OBJECT]"

subsection \<open>From jsonb to Lua\<close>

record mapcfg =
  mapfunc :: "(jl \<Rightarrow> jl \<Rightarrow> jl list \<Rightarrow> jl \<times> jl) option"
  noresult :: bool
  nullvalue :: lval
  keep_numeric :: bool
  tonumber :: "rat \<Rightarrow> lval"

text \<open>
  The second argument: a table of options (read with \<open>f\<close>), a map function, or anything else,
  which is the value for null.  \<open>run\<close> calls a Lua function.
\<close>

datatype map_arg = Options "string \<Rightarrow> lval" | MapFunction nat | NullValue lval

definition map_config ::
  "(nat \<Rightarrow> jl \<Rightarrow> jl \<Rightarrow> jl list \<Rightarrow> jl \<times> jl) \<Rightarrow> (rat \<Rightarrow> lval) \<Rightarrow> map_arg \<Rightarrow> mapcfg"
where
  "map_config run tonum arg =
     (case arg of
        Options f \<Rightarrow>
          \<lparr>mapfunc = (case f ''map'' of LFun n \<Rightarrow> Some (run n) | _ \<Rightarrow> None),
           noresult = lua_toboolean (f ''discard''), nullvalue = f ''null'',
           keep_numeric = lua_toboolean (f ''pg_numeric''), tonumber = tonum\<rparr>
      | MapFunction n \<Rightarrow>
          \<lparr>mapfunc = Some (run n), noresult = False, nullvalue = LNil, keep_numeric = False,
           tonumber = tonum\<rparr>
      | NullValue v \<Rightarrow>
          \<lparr>mapfunc = None, noresult = False, nullvalue = v, keep_numeric = False, tonumber = tonum\<rparr>)"

text \<open>The Lua stack with its top first, the table \<open>patht\<close> with its length, and the calls made so
  far to the map function.\<close>

record mapst =
  stk :: "jl list"
  patht :: "int \<Rightarrow> jl"
  patht_len :: int
  mapcalls :: "(jl \<times> jl \<times> jl list) list"

definition entry_set :: "jl \<Rightarrow> jl \<Rightarrow> (jl \<times> jl) list \<Rightarrow> (jl \<times> jl) list" where
  "entry_set k v es =
     (if v = V LNil then filter (\<lambda>e. fst e \<noteq> k) es
      else if k \<in> fst ` set es then map (\<lambda>e. if fst e = k then (k, v) else e) es
      else es @ [(k, v)])"

fun tointeger :: "jl \<Rightarrow> int" where
  "tointeger (V (LInt i)) = i"
| "tointeger _ = 0"

fun isinteger :: "jl \<Rightarrow> bool" where
  "isinteger (V (LInt i)) = True"
| "isinteger _ = False"

definition bad_stack :: "exn + 'a" where
  "bad_stack = Inl (LuaExn ''attempt to index a value that is not a table'')"

text \<open>\<open>lua_settable\<close> and \<open>lua_seti\<close> on the table below the key or index and the value.\<close>

fun settable :: "jl list \<Rightarrow> exn + jl list" where
  "settable (v # k # Tab tg es # rest) =
     (if k = V LNil then Inl (LuaExn ''index is nil'') else Inr (Tab tg (entry_set k v es) # rest))"
| "settable _ = bad_stack"

fun seti :: "int \<Rightarrow> jl list \<Rightarrow> exn + jl list" where
  "seti i (v # k # Tab tg es # rest) = Inr (k # Tab tg (entry_set (V (LInt i)) v es) # rest)"
| "seti i _ = bad_stack"

definition path_values :: "mapst \<Rightarrow> jl list" where
  "path_values s = map (patht s) [1..patht_len s]"

text \<open>The call of the map function on the key and value on top of the stack.\<close>

definition call_mapfunc :: "mapcfg \<Rightarrow> mapst \<Rightarrow> mapst" where
  "call_mapfunc c s =
     (case mapfunc c of
        None \<Rightarrow> s
      | Some f \<Rightarrow>
          (case stk s of
             v # k # rest \<Rightarrow>
               (case f k v (path_values s) of (k', v') \<Rightarrow>
                  s\<lparr>stk := v' # k' # rest, mapcalls := mapcalls s @ [(k, v, path_values s)]\<rparr>)
           | _ \<Rightarrow> s))"

definition push_scalar :: "mapcfg \<Rightarrow> jv \<Rightarrow> jl" where
  "push_scalar c v =
     (case v of
        JNull \<Rightarrow> V (nullvalue c)
      | JBool b \<Rightarrow> V (LBool b)
      | JNum q \<Rightarrow> if keep_numeric c then NumD q else V (tonumber c q)
      | JStr s \<Rightarrow> V (LStr s)
      | _ \<Rightarrow> JsonD v)"

definition push :: "jl \<Rightarrow> mapst \<Rightarrow> mapst" where
  "push v s = s\<lparr>stk := v # stk s\<rparr>"

definition push_path :: "mapst \<Rightarrow> mapst" where
  "push_path s =
     (case stk s of
        k # _ \<Rightarrow> if k = V LNil then s
                else s\<lparr>patht := (patht s)(patht_len s + 1 := k), patht_len := patht_len s + 1\<rparr>
      | [] \<Rightarrow> s)"

text \<open>After a container is complete, the index having been popped if it is an array.\<close>

definition end_container :: "mapcfg \<Rightarrow> mapst \<Rightarrow> exn + mapst" where
  "end_container c s =
     (let is_toplevel = (length (stk s) \<ge> 2 \<and> stk s ! 1 = V LNil);
          s = (if is_toplevel then s else s\<lparr>patht_len := patht_len s - 1\<rparr>)
      in if noresult c then Inr s
         else
           let s = call_mapfunc c s in
           if is_toplevel then Inr s
           else if isinteger (stk s ! 1) then
             (let idx = tointeger (stk s ! 1)
              in bindR (seti (idx + 1) (stk s)) (\<lambda>st. Inr (s\<lparr>stk := V (LInt (idx + 1)) # tl st\<rparr>)))
           else bindR (settable (stk s)) (\<lambda>st. Inr (s\<lparr>stk := st\<rparr>)))"

definition map_step :: "mapcfg \<Rightarrow> bool \<Rightarrow> jtok \<Rightarrow> mapst \<Rightarrow> exn + mapst" where
  "map_step c is_scalar tok s =
     (case tok of
        WJB_BEGIN_ARRAY \<Rightarrow>
          Inr (if is_scalar then s
               else
                 let s = push_path s;
                     s = (if noresult c then s else push (Tab (Some ArrayMt) []) s)
                 in push (V (LInt 0)) s)
      | WJB_BEGIN_OBJECT \<Rightarrow>
          Inr (let s = push_path s in if noresult c then s else push (Tab (Some ObjectMt) []) s)
      | WJB_KEY k \<Rightarrow> Inr (push (V (LStr k)) s)
      | WJB_VALUE v \<Rightarrow>
          let s = call_mapfunc c (push (push_scalar c v) s)
          in if noresult c then Inr s
             else bindR (settable (stk s)) (\<lambda>st. Inr (s\<lparr>stk := st\<rparr>))
      | WJB_ELEM v \<Rightarrow>
          let s = push (push_scalar c v) s;
              idx = tointeger (stk s ! 1);
              s = call_mapfunc c s
          in if is_scalar then Inr s
             else bindR (if noresult c then Inr (stk s) else seti (idx + 1) (stk s)) (\<lambda>st.
                  Inr (s\<lparr>stk := V (LInt (idx + 1)) # tl st\<rparr>))
      | WJB_END_ARRAY \<Rightarrow> if is_scalar then Inr s else end_container c (s\<lparr>stk := tl (stk s)\<rparr>)
      | WJB_END_OBJECT \<Rightarrow> end_container c s)"

fun map_loop :: "mapcfg \<Rightarrow> bool \<Rightarrow> jtok list \<Rightarrow> mapst \<Rightarrow> exn + mapst" where
  "map_loop c is_scalar [] s = Inr s"
| "map_loop c is_scalar (t # ts) s = bindR (map_step c is_scalar t s) (map_loop c is_scalar ts)"

text \<open>
  The whole function: the result, and the calls of the map function.  \<open>root_count\<close> and
  \<open>is_scalar\<close> are read from the value's header; the table \<open>patht\<close> lies under the stack.
\<close>

definition pllua_jsonb_map ::
  "mapcfg \<Rightarrow> nat \<Rightarrow> bool \<Rightarrow> jtok list \<Rightarrow> exn + (jl option \<times> (jl \<times> jl \<times> jl list) list)"
where
  "pllua_jsonb_map c root_count is_scalar toks =
     (if root_count = 0 then Inr (if noresult c then None else Some (Tab None []), [])
      else bindR (map_loop c is_scalar toks
                    \<lparr>stk = [V LNil, V (LTab 0)], patht = (\<lambda>_. V LNil), patht_len = 0, mapcalls = []\<rparr>) (\<lambda>s.
           Inr (if noresult c then None else Some (hd (stk s)), mapcalls s)))"

subsection \<open>From Lua to jsonb\<close>

text \<open>
  The environment of a conversion: Lua's conversions between strings and numbers, \<open>table.sort\<close>
  on strings, metamethods of userdata, and PostgreSQL's conversions of numbers and encodings.
\<close>

record jenv =
  str2int :: "string \<Rightarrow> int option"
  num2str :: "lval \<Rightarrow> string"
  sort_strings :: "string list \<Rightarrow> string list"
  key_tostring :: "jl \<Rightarrow> exn + string"
  num2numeric :: "lval \<Rightarrow> exn + rat"
  udata_scalar :: "lval \<Rightarrow> exn + jv"
  verify_encoding :: "string \<Rightarrow> bool"

record tosqlcfg =
  map_value :: "(jl \<Rightarrow> jl) option"
  empty_object :: bool
  array_thresh :: int
  array_frac :: int
  null_value :: lval

text \<open>The second argument of the constructor, a table of options or nil.\<close>

definition tosql_config :: "(nat \<Rightarrow> jl \<Rightarrow> jl) \<Rightarrow> (string \<Rightarrow> lval) option \<Rightarrow> tosqlcfg" where
  "tosql_config run arg =
     (case arg of
        None \<Rightarrow> \<lparr>map_value = None, empty_object = False, array_thresh = 1000, array_frac = 1000,
                 null_value = LNil\<rparr>
      | Some f \<Rightarrow>
          \<lparr>map_value = (case f ''map'' of LFun n \<Rightarrow> Some (run n) | _ \<Rightarrow> None),
           empty_object = lua_toboolean (f ''empty_object''),
           array_thresh = (case f ''array_thresh'' of LInt i \<Rightarrow> c_int i | _ \<Rightarrow> 1000),
           array_frac = (case f ''array_frac'' of LInt i \<Rightarrow> c_int i | _ \<Rightarrow> 1000),
           null_value = f ''null''\<rparr>)"

definition LUA_MAXINTEGER :: int where "LUA_MAXINTEGER = 2 ^ 63 - 1"

definition key_int :: "jenv \<Rightarrow> jl \<Rightarrow> int option" where
  "key_int e k =
     (case k of
        V (LInt i) \<Rightarrow> Some i
      | V (LFlt (Fin q)) \<Rightarrow> if q = of_int \<lfloor>q\<rfloor> then Some \<lfloor>q\<rfloor> else None
      | V (LStr s) \<Rightarrow> str2int e s
      | _ \<Rightarrow> None)"

text \<open>What is put into the key table for a key.\<close>

definition object_key :: "jenv \<Rightarrow> bool \<Rightarrow> jl \<Rightarrow> exn + jl" where
  "object_key e known_array k =
     (case k of
        V (LStr s) \<Rightarrow> Inr k
      | V (LInt i) \<Rightarrow> Inr k
      | V (LFlt x) \<Rightarrow> Inr k
      | V (LUdata u) \<Rightarrow> if known_array then Inr k else bindR (key_tostring e k) (\<lambda>s. Inr (V (LStr s)))
      | V (LTab u) \<Rightarrow> if known_array then Inr k else bindR (key_tostring e k) (\<lambda>s. Inr (V (LStr s)))
      | Tab _ _ \<Rightarrow> if known_array then Inr k else bindR (key_tostring e k) (\<lambda>s. Inr (V (LStr s)))
      | NumD q \<Rightarrow> if known_array then Inr k else bindR (key_tostring e k) (\<lambda>s. Inr (V (LStr s)))
      | JsonD j \<Rightarrow> if known_array then Inr k else bindR (key_tostring e k) (\<lambda>s. Inr (V (LStr s)))
      | _ \<Rightarrow> Inl (LuaExn ''cannot serialize scalar value as key''))"

fun object_keys :: "jenv \<Rightarrow> bool \<Rightarrow> jl list \<Rightarrow> exn + jl list" where
  "object_keys e known_array [] = Inr []"
| "object_keys e known_array (k # ks) =
     bindR (object_key e known_array k) (\<lambda>k'. bindR (object_keys e known_array ks) (\<lambda>ks'. Inr (k' # ks')))"

text \<open>\<open>table.sort\<close> without a comparison function: numbers or strings, but not both.\<close>

fun int_of_key :: "jl \<Rightarrow> int option" where
  "int_of_key (V (LInt i)) = Some i"
| "int_of_key _ = None"

fun str_of_key :: "jl \<Rightarrow> string option" where
  "str_of_key (V (LStr s)) = Some s"
| "str_of_key _ = None"

definition lua_sort :: "jenv \<Rightarrow> jl list \<Rightarrow> exn + jl list" where
  "lua_sort e ks =
     (if \<forall>k\<in>set ks. int_of_key k \<noteq> None then Inr (map (\<lambda>i. V (LInt i)) (sort (map (the \<circ> int_of_key) ks)))
      else if \<forall>k\<in>set ks. str_of_key k \<noteq> None
        then Inr (map (\<lambda>s. V (LStr s)) (sort_strings e (map (the \<circ> str_of_key) ks)))
      else Inl (LuaExn ''attempt to compare number with string''))"

text \<open>
  \<open>pllua_jsonb_pushkeys\<close>: whether the container is an object, and its list of keys.
\<close>

definition pllua_jsonb_pushkeys :: "jenv \<Rightarrow> tosqlcfg \<Rightarrow> jl \<Rightarrow> exn + (bool \<times> jl list)" where
  "pllua_jsonb_pushkeys e c x =
     (case x of
        Tab tg es \<Rightarrow>
          let known_object = (tg = Some ObjectMt);
              known_array = (tg = Some ArrayMt);
              keys = map fst es;
              intkeys = filter (\<lambda>k. key_int e k \<noteq> None) keys;
              ints = map (the \<circ> key_int e) intkeys;
              numkeys = int (length keys);
              numintkeys = int (length intkeys);
              min_intkey = fold min ints LUA_MAXINTEGER;
              max_intkey = fold max ints 0
          in bindR (object_keys e known_array keys) (\<lambda>okeys.
             if known_object \<or>
                (\<not> known_array \<and>
                 ((empty_object c \<and> numkeys = 0) \<or> numkeys \<noteq> numintkeys \<or> min_intkey < 1 \<or>
                  (0 < numintkeys \<and> array_thresh c < min_intkey) \<or>
                  (0 < numintkeys \<and> c_int (array_frac c * numkeys) < max_intkey)))
             then Inr (True, okeys)
             else bindR (lua_sort e intkeys) (\<lambda>ks. Inr (False, ks)))
      | _ \<Rightarrow> Inl (LuaExn ''table expected''))"

text \<open>\<open>None\<close> is a container.\<close>

definition pllua_jsonb_toscalar :: "jenv \<Rightarrow> jl \<Rightarrow> exn + jv option" where
  "pllua_jsonb_toscalar e x =
     (let str = (\<lambda>s. if verify_encoding e s then Inr (Some (JStr s))
                     else Inl (PgExn ''invalid byte sequence for encoding''))
      in case x of
        V LNil \<Rightarrow> Inr (Some JNull)
      | V (LBool b) \<Rightarrow> Inr (Some (JBool b))
      | V (LInt i) \<Rightarrow> bindR (num2numeric e (LInt i)) (\<lambda>q. Inr (Some (JNum q)))
      | V (LFlt f) \<Rightarrow> bindR (num2numeric e (LFlt f)) (\<lambda>q. Inr (Some (JNum q)))
      | NumD q \<Rightarrow> Inr (Some (JNum q))
      | JsonD j \<Rightarrow> Inr (Some j)
      | V (LUdata u) \<Rightarrow> bindR (udata_scalar e (LUdata u)) (\<lambda>j. Inr (Some j))
      | V (LStr s) \<Rightarrow> str s
      | Tab _ _ \<Rightarrow> Inr None
      | _ \<Rightarrow> Inl (LuaExn ''cannot serialize scalar value''))"

text \<open>The nulls before an array element: \<open>while (++prevkey != key)\<close> on \<open>int\<close>s, which wrap.\<close>

function fill_nulls :: "int \<Rightarrow> int \<Rightarrow> jtok list" where
  "fill_nulls prevkey key =
     (if c_int (prevkey + 1) = c_int key then []
      else WJB_ELEM JNull # fill_nulls (c_int (prevkey + 1)) key)"
  by auto
termination
proof (relation "measure (\<lambda>(p, k). nat ((k - p - 1) mod 2 ^ 32))")
  fix p k :: int
  assume n: "c_int (p + 1) \<noteq> c_int k"
  have "(k - p - 1) mod 2 ^ 32 \<noteq> 0"
  proof
    assume "(k - p - 1) mod 2 ^ 32 = 0"
    then have "(k + 2 ^ 31) mod 2 ^ 32 = (p + 1 + 2 ^ 31) mod 2 ^ 32"
      by (subst mod_eq_dvd_iff) (simp add: algebra_simps mod_eq_0_iff_dvd)
    with n show False by (simp add: c_int_def)
  qed
  moreover have "(k - c_int (p + 1) - 1) mod 2 ^ 32 = ((k - p - 1) mod 2 ^ 32 - 1) mod 2 ^ 32"
  proof -
    have "(k - c_int (p + 1) - 1) mod 2 ^ 32 = (k - (p + 1 + 2 ^ 31) mod 2 ^ 32 + 2 ^ 31 - 1) mod 2 ^ 32"
      by (simp add: c_int_def algebra_simps)
    also have "\<dots> = (k - p - 2) mod 2 ^ 32" by (simp add: mod_simps algebra_simps)
    finally show ?thesis by (simp add: mod_simps algebra_simps)
  qed
  moreover have "0 \<le> (k - p - 1) mod 2 ^ 32" "(k - p - 1) mod 2 ^ 32 < 2 ^ 32" by simp_all
  ultimately have "(k - c_int (p + 1) - 1) mod 2 ^ 32 = (k - p - 1) mod 2 ^ 32 - 1"
    by (simp add: mod_pos_pos_trivial)
  with \<open>(k - p - 1) mod 2 ^ 32 \<noteq> 0\<close> \<open>0 \<le> (k - p - 1) mod 2 ^ 32\<close>
  show "((c_int (p + 1), k), p, k) \<in> measure (\<lambda>(p, k). nat ((k - p - 1) mod 2 ^ 32))"
    by (simp add: nat_less_iff)
qed simp

declare fill_nulls.simps [simp del]

text \<open>A frame of the stack: container, key list, previous key (none in an object), next index.\<close>

record frame =
  container :: jl
  keylist :: "jl list"
  prevkey :: "int option"
  index :: nat

definition get_entry :: "jl \<Rightarrow> jl \<Rightarrow> jl" where
  "get_entry x k =
     (case x of Tab _ es \<Rightarrow> (case map_of es k of Some v \<Rightarrow> v | None \<Rightarrow> V LNil) | _ \<Rightarrow> V LNil)"

fun int_key :: "jenv \<Rightarrow> jl \<Rightarrow> int" where
  "int_key e k = (case key_int e k of Some i \<Rightarrow> c_int i | None \<Rightarrow> 0)"

fun key_text :: "jenv \<Rightarrow> jl \<Rightarrow> string" where
  "key_text e (V (LStr s)) = s"
| "key_text e (V x) = num2str e x"
| "key_text e _ = ''''"

text \<open>The substitution of null and the call of the map function.\<close>

definition prepare_value :: "tosqlcfg \<Rightarrow> jl \<Rightarrow> jl" where
  "prepare_value c x =
     (let x = (if x = V (null_value c) then V LNil else x)
      in case map_value c of None \<Rightarrow> x | Some f \<Rightarrow> f x)"

text \<open>Entering a container: a frame and its opening token.\<close>

definition enter :: "jenv \<Rightarrow> tosqlcfg \<Rightarrow> jl \<Rightarrow> exn + (frame \<times> jtok)" where
  "enter e c x =
     bindR (pllua_jsonb_pushkeys e c x) (\<lambda>(is_obj, ks).
       Inr (\<lparr>container = x, keylist = ks, prevkey = (if is_obj then None else Some 0), index = 1\<rparr>,
            if is_obj then WJB_BEGIN_OBJECT else WJB_BEGIN_ARRAY))"

text \<open>One turn of the loop on a stack that is not empty, with the tokens it pushes.\<close>

definition tosql_step :: "jenv \<Rightarrow> tosqlcfg \<Rightarrow> frame \<Rightarrow> frame list \<Rightarrow> exn + (frame list \<times> jtok list)" where
  "tosql_step e c f fs =
     (if length (keylist f) < index f then
        Inr (fs, [if prevkey f = None then WJB_END_OBJECT else WJB_END_ARRAY])
      else
        let k = keylist f ! (index f - 1);
            v = get_entry (container f) k
        in bindR (case prevkey f of
                    Some p \<Rightarrow> Inr (fill_nulls p (int_key e k), f\<lparr>prevkey := Some (int_key e k), index := Suc (index f)\<rparr>, WJB_ELEM)
                  | None \<Rightarrow>
                      if verify_encoding e (key_text e k)
                      then Inr ([WJB_KEY (key_text e k)], f\<lparr>index := Suc (index f)\<rparr>, WJB_VALUE)
                      else Inl (PgExn ''invalid byte sequence for encoding''))
             (\<lambda>(toks, f', leaf).
              let v' = prepare_value c v
              in bindR (pllua_jsonb_toscalar e v') (\<lambda>r.
                   case r of
                     Some j \<Rightarrow> Inr (f' # fs, toks @ [leaf j])
                   | None \<Rightarrow> bindR (enter e c v') (\<lambda>(g, t). Inr (g # f' # fs, toks @ [t])))))"

text \<open>\<open>None\<close> is a loop that does not end, which a map function can cause.\<close>

partial_function (option) tosql_loop ::
  "jenv \<Rightarrow> tosqlcfg \<Rightarrow> frame list \<Rightarrow> jtok list \<Rightarrow> (exn + jtok list) option"
where
  "tosql_loop e c st out =
     (case st of
        [] \<Rightarrow> Some (Inr out)
      | f # fs \<Rightarrow>
          (case tosql_step e c f fs of
             Inl x \<Rightarrow> Some (Inl x)
           | Inr (st', toks) \<Rightarrow> tosql_loop e c st' (out @ toks)))"

text \<open>
  The whole function: what is handed to PostgreSQL's builder, a scalar or a list of tokens.
\<close>

datatype built = Scalar jv | Tokens "jtok list"

definition pllua_jsonb_tosql :: "jenv \<Rightarrow> tosqlcfg \<Rightarrow> jl \<Rightarrow> (exn + built) option" where
  "pllua_jsonb_tosql e c x =
     (let x' = prepare_value c x in
      case pllua_jsonb_toscalar e x' of
        Inl err \<Rightarrow> Some (Inl err)
      | Inr (Some j) \<Rightarrow> Some (Inr (Scalar j))
      | Inr None \<Rightarrow>
          (case enter e c x' of
             Inl err \<Rightarrow> Some (Inl err)
           | Inr (f, t) \<Rightarrow> map_option (\<lambda>r. bindR r (\<lambda>toks. Inr (Tokens toks))) (tosql_loop e c [f] [t])))"

end
