(* ===== verification/Jsonb_Map.thy ===== *)
theory Jsonb_Map
  imports Jsonb
begin

text \<open>
  Reading jsonb into Lua (\<open>pllua_jsonb_map\<close>, src/src/jsonb.c): \<open>jval\<close> and \<open>jcalls\<close> say what table
  belongs to a tree and which calls of the map function, and the stack machine computes them.
\<close>

subsection \<open>The tree that is meant\<close>

definition app :: "mapcfg \<Rightarrow> jl \<Rightarrow> jl \<Rightarrow> jl list \<Rightarrow> jl" where
  "app c k v q = (case mapfunc c of None \<Rightarrow> v | Some f \<Rightarrow> snd (f k v q))"

definition call_of :: "mapcfg \<Rightarrow> jl \<Rightarrow> jl \<Rightarrow> jl list \<Rightarrow> (jl \<times> jl \<times> jl list) list" where
  "call_of c k v q = (if mapfunc c = None then [] else [(k, v, q)])"

text \<open>The Lua value of a tree whose children have the path \<open>q\<close>, and the calls of the map function
  for everything inside it.\<close>

fun jval :: "mapcfg \<Rightarrow> jl list \<Rightarrow> jt \<Rightarrow> jl"
  and arr_entries :: "mapcfg \<Rightarrow> jl list \<Rightarrow> int \<Rightarrow> jt list \<Rightarrow> (jl \<times> jl) list \<Rightarrow> (jl \<times> jl) list"
  and obj_entries :: "mapcfg \<Rightarrow> jl list \<Rightarrow> (string \<times> jt) list \<Rightarrow> (jl \<times> jl) list \<Rightarrow> (jl \<times> jl) list"
where
  "jval c q (Leaf v) = push_scalar c v"
| "jval c q (Arr xs) = Tab (Some ArrayMt) (arr_entries c q 0 xs [])"
| "jval c q (Obj kvs) = Tab (Some ObjectMt) (obj_entries c q kvs [])"
| "arr_entries c q i [] es = es"
| "arr_entries c q i (x # xs) es =
     arr_entries c q (i + 1) xs
       (entry_set (V (LInt (i + 1))) (app c (V (LInt i)) (jval c (q @ [V (LInt i)]) x) q) es)"
| "obj_entries c q [] es = es"
| "obj_entries c q ((k, x) # kvs) es =
     obj_entries c q kvs (entry_set (V (LStr k)) (app c (V (LStr k)) (jval c (q @ [V (LStr k)]) x) q) es)"

fun jcalls :: "mapcfg \<Rightarrow> jl list \<Rightarrow> jt \<Rightarrow> (jl \<times> jl \<times> jl list) list"
  and arr_calls :: "mapcfg \<Rightarrow> jl list \<Rightarrow> int \<Rightarrow> jt list \<Rightarrow> (jl \<times> jl \<times> jl list) list"
  and obj_calls :: "mapcfg \<Rightarrow> jl list \<Rightarrow> (string \<times> jt) list \<Rightarrow> (jl \<times> jl \<times> jl list) list"
where
  "jcalls c q (Leaf v) = []"
| "jcalls c q (Arr xs) = arr_calls c q 0 xs"
| "jcalls c q (Obj kvs) = obj_calls c q kvs"
| "arr_calls c q i [] = []"
| "arr_calls c q i (x # xs) =
     jcalls c (q @ [V (LInt i)]) x @ call_of c (V (LInt i)) (jval c (q @ [V (LInt i)]) x) q @
     arr_calls c q (i + 1) xs"
| "obj_calls c q [] = []"
| "obj_calls c q ((k, x) # kvs) =
     jcalls c (q @ [V (LStr k)]) x @ call_of c (V (LStr k)) (jval c (q @ [V (LStr k)]) x) q @
     obj_calls c q kvs"

subsection \<open>The machine\<close>

text \<open>The map function stores what it is given under the key it is given.\<close>

definition keeps_keys :: "mapcfg \<Rightarrow> bool" where
  "keeps_keys c \<longleftrightarrow> \<not> noresult c \<and> (\<forall>f. mapfunc c = Some f \<longrightarrow> (\<forall>k v q. fst (f k v q) = k))"

definition in_state :: "mapst \<Rightarrow> jl list \<Rightarrow> jl list \<Rightarrow> (jl \<times> jl \<times> jl list) list \<Rightarrow> bool" where
  "in_state s st q cs \<longleftrightarrow>
     stk s = st \<and> path_values s = q \<and> patht_len s = int (length q) \<and> mapcalls s = cs"

lemma upto_snoc: "0 \<le> n \<Longrightarrow> [1..n + 1] = [1..n] @ [n + 1]"
  by (simp add: upto_rec2)

lemma in_state_push: "in_state s st q cs \<Longrightarrow> in_state (push v s) (v # st) q cs"
  by (auto simp: in_state_def push_def path_values_def)

lemma in_state_stk: "in_state s st q cs \<Longrightarrow> in_state (s\<lparr>stk := st'\<rparr>) st' q cs"
  by (auto simp: in_state_def path_values_def)

lemma in_state_push_path:
  assumes "in_state s (k # st) q cs"
  shows "in_state (push_path s) (k # st) (if k = V LNil then q else q @ [k]) cs"
proof -
  have n: "0 \<le> patht_len s" using assms by (simp add: in_state_def)
  have "map (\<lambda>i. if i = patht_len s + 1 then k else patht s i) [1..patht_len s] = map (patht s) [1..patht_len s]"
    by (rule map_cong) auto
  then show ?thesis
    using assms n by (auto simp: in_state_def push_path_def path_values_def upto_snoc fun_upd_def)
qed

lemma in_state_pop_path:
  assumes "in_state s st (q @ [k]) cs"
  shows "in_state (s\<lparr>patht_len := patht_len s - 1\<rparr>) st q cs"
proof -
  have "patht_len s = int (length q) + 1" using assms by (simp add: in_state_def)
  moreover from this have "[1..patht_len s] = [1..patht_len s - 1] @ [patht_len s]"
    using upto_snoc [of "patht_len s - 1"] by simp
  ultimately show ?thesis using assms by (auto simp: in_state_def path_values_def)
qed

lemma in_state_call:
  assumes "in_state s (v # k # st) q cs" "keeps_keys c"
  shows "in_state (call_mapfunc c s) (app c k v q # k # st) q (cs @ call_of c k v q)"
proof (cases "mapfunc c")
  case None
  then show ?thesis using assms(1) by (simp add: call_mapfunc_def app_def call_of_def)
next
  case (Some f)
  then have "f k v q = (k, snd (f k v q))" using assms(2) unfolding keeps_keys_def by (metis prod.collapse)
  then show ?thesis
    using assms(1) Some
    by (auto simp: call_mapfunc_def app_def call_of_def in_state_def path_values_def split: prod.splits)
qed

lemma map_loop_append: "map_loop c b (ts @ us) s = bindR (map_loop c b ts s) (map_loop c b us)"
  by (induction ts arbitrary: s) (auto simp: bindR_def split: sum.splits)

text \<open>The end of a container inside another one.\<close>

lemma end_in_array:
  assumes "in_state s (v # V (LInt i) # Tab tg es # st) (q @ [V (LInt i)]) cs" "keeps_keys c"
  shows "\<exists>s'. end_container c s = Inr s' \<and>
    in_state s' (V (LInt (i + 1)) # Tab tg (entry_set (V (LInt (i + 1))) (app c (V (LInt i)) v q) es) # st) q
      (cs @ call_of c (V (LInt i)) v q)"
proof -
  let ?s1 = "s\<lparr>patht_len := patht_len s - 1\<rparr>"
  have 1: "in_state ?s1 (v # V (LInt i) # Tab tg es # st) q cs" by (rule in_state_pop_path [OF assms(1)])
  note 2 = in_state_call [OF 1 assms(2)]
  have n: "stk s ! 1 \<noteq> V LNil" "\<not> noresult c" using assms by (simp_all add: in_state_def keeps_keys_def)
  have 3: "stk (call_mapfunc c ?s1) = app c (V (LInt i)) v q # V (LInt i) # Tab tg es # st"
    using 2 by (simp add: in_state_def)
  show ?thesis
    using n 3 in_state_stk [OF 2]
    by (simp add: end_container_def Let_def)
qed

lemma end_in_object:
  assumes "in_state s (v # V (LStr k) # Tab tg es # st) (q @ [V (LStr k)]) cs" "keeps_keys c"
  shows "\<exists>s'. end_container c s = Inr s' \<and>
    in_state s' (Tab tg (entry_set (V (LStr k)) (app c (V (LStr k)) v q) es) # st) q
      (cs @ call_of c (V (LStr k)) v q)"
proof -
  let ?s1 = "s\<lparr>patht_len := patht_len s - 1\<rparr>"
  have 1: "in_state ?s1 (v # V (LStr k) # Tab tg es # st) q cs" by (rule in_state_pop_path [OF assms(1)])
  note 2 = in_state_call [OF 1 assms(2)]
  have n: "stk s ! 1 \<noteq> V LNil" "\<not> noresult c" using assms by (simp_all add: in_state_def keeps_keys_def)
  have 3: "stk (call_mapfunc c ?s1) = app c (V (LStr k)) v q # V (LStr k) # Tab tg es # st"
    using 2 by (simp add: in_state_def)
  show ?thesis
    using n 3 in_state_stk [OF 2]
    by (simp add: end_container_def Let_def)
qed

text \<open>A value inside an array, and inside an object.\<close>

definition elem_ok :: "mapcfg \<Rightarrow> jt \<Rightarrow> bool" where
  "elem_ok c x \<longleftrightarrow> (\<forall>s i tg es st q cs. in_state s (V (LInt i) # Tab tg es # st) q cs \<longrightarrow>
     (\<exists>s'. map_loop c False (ctoks WJB_ELEM x) s = Inr s' \<and>
       in_state s' (V (LInt (i + 1)) # Tab tg (entry_set (V (LInt (i + 1)))
           (app c (V (LInt i)) (jval c (q @ [V (LInt i)]) x) q) es) # st) q
         (cs @ jcalls c (q @ [V (LInt i)]) x @ call_of c (V (LInt i)) (jval c (q @ [V (LInt i)]) x) q)))"

definition value_ok :: "mapcfg \<Rightarrow> jt \<Rightarrow> bool" where
  "value_ok c x \<longleftrightarrow> (\<forall>s k tg es st q cs. in_state s (V (LStr k) # Tab tg es # st) q cs \<longrightarrow>
     (\<exists>s'. map_loop c False (ctoks WJB_VALUE x) s = Inr s' \<and>
       in_state s' (Tab tg (entry_set (V (LStr k))
           (app c (V (LStr k)) (jval c (q @ [V (LStr k)]) x) q) es) # st) q
         (cs @ jcalls c (q @ [V (LStr k)]) x @ call_of c (V (LStr k)) (jval c (q @ [V (LStr k)]) x) q)))"

lemma elems_ok:
  assumes "\<forall>x\<in>set xs. elem_ok c x" "in_state s (V (LInt i) # Tab tg es # st) q cs"
  shows "\<exists>s' j. map_loop c False (concat (map (ctoks WJB_ELEM) xs)) s = Inr s' \<and>
    in_state s' (V (LInt j) # Tab tg (arr_entries c q i xs es) # st) q (cs @ arr_calls c q i xs)"
  using assms
proof (induction xs arbitrary: s i es cs)
  case Nil
  then show ?case by auto
next
  case (Cons x xs)
  have "elem_ok c x" using Cons.prems(1) by simp
  then obtain s1 where s1: "map_loop c False (ctoks WJB_ELEM x) s = Inr s1"
    "in_state s1 (V (LInt (i + 1)) # Tab tg (entry_set (V (LInt (i + 1)))
           (app c (V (LInt i)) (jval c (q @ [V (LInt i)]) x) q) es) # st) q
         (cs @ jcalls c (q @ [V (LInt i)]) x @ call_of c (V (LInt i)) (jval c (q @ [V (LInt i)]) x) q)"
    using Cons.prems(2) unfolding elem_ok_def by meson
  have "\<forall>x\<in>set xs. elem_ok c x" using Cons.prems(1) by simp
  from Cons.IH [OF this s1(2)] show ?case using s1(1) by (simp add: map_loop_append)
qed

lemma values_ok:
  assumes "\<forall>(k, x)\<in>set kvs. value_ok c x" "in_state s (Tab tg es # st) q cs"
  shows "\<exists>s'. map_loop c False (concat (map (\<lambda>(k, x). WJB_KEY k # ctoks WJB_VALUE x) kvs)) s = Inr s' \<and>
    in_state s' (Tab tg (obj_entries c q kvs es) # st) q (cs @ obj_calls c q kvs)"
  using assms
proof (induction kvs arbitrary: s es cs)
  case Nil
  then show ?case by auto
next
  case (Cons e kvs)
  obtain k x where e: "e = (k, x)" by (cases e)
  have 0: "in_state (push (V (LStr k)) s) (V (LStr k) # Tab tg es # st) q cs"
    by (rule in_state_push [OF Cons.prems(2)])
  have "value_ok c x" using Cons.prems(1) e by simp
  then obtain s1 where s1: "map_loop c False (ctoks WJB_VALUE x) (push (V (LStr k)) s) = Inr s1"
    "in_state s1 (Tab tg (entry_set (V (LStr k)) (app c (V (LStr k)) (jval c (q @ [V (LStr k)]) x) q) es) # st) q
         (cs @ jcalls c (q @ [V (LStr k)]) x @ call_of c (V (LStr k)) (jval c (q @ [V (LStr k)]) x) q)"
    using 0 unfolding value_ok_def by meson
  have "\<forall>(k, x)\<in>set kvs. value_ok c x" using Cons.prems(1) by simp
  from Cons.IH [OF this s1(2)] show ?case using s1(1) e by (simp add: map_loop_append map_step_def)
qed

text \<open>A container below a key, up to its end; at top level the key is nil and the path is empty.\<close>

definition child_path :: "jl \<Rightarrow> jl list \<Rightarrow> jl list" where
  "child_path k q = (if k = V LNil then q else q @ [k])"

lemma array_body:
  assumes "\<forall>x\<in>set xs. elem_ok c x" "in_state s (k # st) q cs" "keeps_keys c"
  shows "\<exists>s'. map_loop c False (ctoks lf (Arr xs)) s = end_container c s' \<and>
    in_state s' (jval c (child_path k q) (Arr xs) # k # st) (child_path k q)
      (cs @ jcalls c (child_path k q) (Arr xs))"
proof -
  have "in_state (push (V (LInt 0)) (push (Tab (Some ArrayMt) []) (push_path s)))
      (V (LInt 0) # Tab (Some ArrayMt) [] # k # st) (child_path k q) cs"
    using in_state_push_path [OF assms(2)] unfolding child_path_def by (intro in_state_push)
  from elems_ok [OF assms(1) this] obtain s' j where
    s': "map_loop c False (concat (map (ctoks WJB_ELEM) xs))
        (push (V (LInt 0)) (push (Tab (Some ArrayMt) []) (push_path s))) = Inr s'"
      "in_state s' (V (LInt j) # Tab (Some ArrayMt) (arr_entries c (child_path k q) 0 xs []) # k # st)
        (child_path k q) (cs @ arr_calls c (child_path k q) 0 xs)" by blast
  have "map_loop c False (ctoks lf (Arr xs)) s = end_container c (s'\<lparr>stk := tl (stk s')\<rparr>)"
    using s'(1) assms(3)
    by (simp add: map_loop_append map_step_def Let_def keeps_keys_def) (simp add: bindR_def split: sum.splits)
  moreover have "in_state (s'\<lparr>stk := tl (stk s')\<rparr>)
      (jval c (child_path k q) (Arr xs) # k # st) (child_path k q) (cs @ jcalls c (child_path k q) (Arr xs))"
    using in_state_stk [OF s'(2)] s'(2) by (simp add: in_state_def)
  ultimately show ?thesis by blast
qed

lemma object_body:
  assumes "\<forall>(k, x)\<in>set kvs. value_ok c x" "in_state s (k # st) q cs" "keeps_keys c"
  shows "\<exists>s'. map_loop c False (ctoks lf (Obj kvs)) s = end_container c s' \<and>
    in_state s' (jval c (child_path k q) (Obj kvs) # k # st) (child_path k q)
      (cs @ jcalls c (child_path k q) (Obj kvs))"
proof -
  have "in_state (push (Tab (Some ObjectMt) []) (push_path s))
      (Tab (Some ObjectMt) [] # k # st) (child_path k q) cs"
    using in_state_push_path [OF assms(2)] unfolding child_path_def by (intro in_state_push)
  from values_ok [OF assms(1) this] obtain s' where
    s': "map_loop c False (concat (map (\<lambda>(k, x). WJB_KEY k # ctoks WJB_VALUE x) kvs))
        (push (Tab (Some ObjectMt) []) (push_path s)) = Inr s'"
      "in_state s' (Tab (Some ObjectMt) (obj_entries c (child_path k q) kvs []) # k # st)
        (child_path k q) (cs @ obj_calls c (child_path k q) kvs)" by blast
  have "map_loop c False (ctoks lf (Obj kvs)) s = end_container c s'"
    using s'(1) assms(3)
    by (simp add: map_loop_append map_step_def Let_def keeps_keys_def) (simp add: bindR_def split: sum.splits)
  then show ?thesis using s'(2) by auto
qed

lemma leaf_ok:
  assumes "keeps_keys c" shows "elem_ok c (Leaf v)" "value_ok c (Leaf v)"
proof -
  show "elem_ok c (Leaf v)"
    unfolding elem_ok_def
  proof (intro allI impI)
    fix s i tg es st q cs
    assume a: "in_state s (V (LInt i) # Tab tg es # st) q cs"
    note b = in_state_call [OF in_state_push [OF a, of "push_scalar c v"] assms]
    have "stk (push (push_scalar c v) s) ! 1 = V (LInt i)" using in_state_push [OF a] by (simp add: in_state_def)
    moreover have "stk (call_mapfunc c (push (push_scalar c v) s)) =
        app c (V (LInt i)) (push_scalar c v) q # V (LInt i) # Tab tg es # st" using b by (simp add: in_state_def)
    ultimately show "\<exists>s'. map_loop c False (ctoks WJB_ELEM (Leaf v)) s = Inr s' \<and>
       in_state s' (V (LInt (i + 1)) # Tab tg (entry_set (V (LInt (i + 1)))
           (app c (V (LInt i)) (jval c (q @ [V (LInt i)]) (Leaf v)) q) es) # st) q
         (cs @ jcalls c (q @ [V (LInt i)]) (Leaf v) @ call_of c (V (LInt i)) (jval c (q @ [V (LInt i)]) (Leaf v)) q)"
      using in_state_stk [OF b] assms by (simp add: map_step_def Let_def keeps_keys_def)
  qed
  show "value_ok c (Leaf v)"
    unfolding value_ok_def
  proof (intro allI impI)
    fix s k tg es st q cs
    assume a: "in_state s (V (LStr k) # Tab tg es # st) q cs"
    note b = in_state_call [OF in_state_push [OF a, of "push_scalar c v"] assms]
    have "stk (call_mapfunc c (push (push_scalar c v) s)) =
        app c (V (LStr k)) (push_scalar c v) q # V (LStr k) # Tab tg es # st" using b by (simp add: in_state_def)
    then show "\<exists>s'. map_loop c False (ctoks WJB_VALUE (Leaf v)) s = Inr s' \<and>
       in_state s' (Tab tg (entry_set (V (LStr k))
           (app c (V (LStr k)) (jval c (q @ [V (LStr k)]) (Leaf v)) q) es) # st) q
         (cs @ jcalls c (q @ [V (LStr k)]) (Leaf v) @ call_of c (V (LStr k)) (jval c (q @ [V (LStr k)]) (Leaf v)) q)"
      using in_state_stk [OF b] assms by (simp add: map_step_def Let_def keeps_keys_def)
  qed
qed

lemma container_ok:
  assumes "keeps_keys c" "\<And>s k st q cs lf. in_state s (k # st) q cs \<Longrightarrow>
    \<exists>s'. map_loop c False (ctoks lf x) s = end_container c s' \<and>
      in_state s' (jval c (child_path k q) x # k # st) (child_path k q) (cs @ jcalls c (child_path k q) x)"
  shows "elem_ok c x \<and> value_ok c x"
  unfolding elem_ok_def value_ok_def
proof (intro conjI allI impI)
  fix s i tg es st q cs
  assume "in_state s (V (LInt i) # Tab tg es # st) q cs"
  from assms(2) [OF this, of WJB_ELEM] end_in_array [OF _ assms(1)]
  show "\<exists>s'. map_loop c False (ctoks WJB_ELEM x) s = Inr s' \<and>
       in_state s' (V (LInt (i + 1)) # Tab tg (entry_set (V (LInt (i + 1)))
           (app c (V (LInt i)) (jval c (q @ [V (LInt i)]) x) q) es) # st) q
         (cs @ jcalls c (q @ [V (LInt i)]) x @ call_of c (V (LInt i)) (jval c (q @ [V (LInt i)]) x) q)"
    by (fastforce simp: child_path_def)
next
  fix s k tg es st q cs
  assume "in_state s (V (LStr k) # Tab tg es # st) q cs"
  from assms(2) [OF this, of WJB_VALUE] end_in_object [OF _ assms(1)]
  show "\<exists>s'. map_loop c False (ctoks WJB_VALUE x) s = Inr s' \<and>
       in_state s' (Tab tg (entry_set (V (LStr k))
           (app c (V (LStr k)) (jval c (q @ [V (LStr k)]) x) q) es) # st) q
         (cs @ jcalls c (q @ [V (LStr k)]) x @ call_of c (V (LStr k)) (jval c (q @ [V (LStr k)]) x) q)"
    by (fastforce simp: child_path_def)
qed

lemma tree_ok: "keeps_keys c \<Longrightarrow> elem_ok c x \<and> value_ok c x"
proof (induction x)
  case (Leaf v)
  then show ?case by (simp add: leaf_ok)
next
  case (Arr xs)
  then show ?case by (intro container_ok array_body) auto
next
  case (Obj kvs)
  then show ?case by (intro container_ok object_body) (auto simp: snds.simps)
qed

text \<open>The iterator puts an array around a scalar at top level.\<close>

definition jsonb_tokens :: "jt \<Rightarrow> jtok list" where
  "jsonb_tokens x =
     (case x of Leaf v \<Rightarrow> [WJB_BEGIN_ARRAY, WJB_ELEM v, WJB_END_ARRAY] | _ \<Rightarrow> ctoks WJB_ELEM x)"

definition is_leaf :: "jt \<Rightarrow> bool" where
  "is_leaf x = (case x of Leaf _ \<Rightarrow> True | _ \<Rightarrow> False)"

lemma end_at_top:
  assumes "in_state s [v, V LNil, V (LTab 0)] [] cs" "keeps_keys c"
  shows "\<exists>s'. end_container c s = Inr s' \<and>
    in_state s' [app c (V LNil) v [], V LNil, V (LTab 0)] [] (cs @ call_of c (V LNil) v [])"
  using assms in_state_call [OF assms]
  by (auto simp: end_container_def Let_def in_state_def keeps_keys_def)

definition start :: mapst where
  "start = \<lparr>stk = [V LNil, V (LTab 0)], patht = (\<lambda>_. V LNil), patht_len = 0, mapcalls = []\<rparr>"

lemma map_run:
  assumes "keeps_keys c"
  shows "\<exists>s'. map_loop c (is_leaf x) (jsonb_tokens x) start = Inr s' \<and>
      in_state s' [app c (V LNil) (jval c [] x) [], V LNil, V (LTab 0)] []
        (jcalls c [] x @ call_of c (V LNil) (jval c [] x) [])"
proof -
  have s0: "in_state start [V LNil, V (LTab 0)] [] []" by (simp add: start_def in_state_def path_values_def)
  show ?thesis
  proof (cases x)
    case (Leaf w)
    then show ?thesis
      using in_state_call [OF in_state_push [OF s0, of "push_scalar c w"] assms]
      by (simp add: map_step_def Let_def jsonb_tokens_def is_leaf_def)
  next
    case (Arr xs)
    have "\<exists>s'. map_loop c False (ctoks WJB_ELEM x) start = end_container c s' \<and>
       in_state s' (jval c [] x # [V LNil, V (LTab 0)]) [] ([] @ jcalls c [] x)"
      using array_body [OF _ s0 assms] tree_ok [OF assms] Arr unfolding child_path_def by simp
    then show ?thesis using end_at_top [OF _ assms] Arr by (fastforce simp: jsonb_tokens_def is_leaf_def)
  next
    case (Obj kvs)
    have "\<exists>s'. map_loop c False (ctoks WJB_ELEM x) start = end_container c s' \<and>
       in_state s' (jval c [] x # [V LNil, V (LTab 0)]) [] ([] @ jcalls c [] x)"
      using object_body [OF _ s0 assms] tree_ok [OF assms] Obj unfolding child_path_def by auto
    then show ?thesis using end_at_top [OF _ assms] Obj by (fastforce simp: jsonb_tokens_def is_leaf_def)
  qed
qed

text \<open>C19. Mapping a jsonb value builds the table that corresponds to it: the tokens of the iterator are
  consumed without the stack going wrong, arrays and objects become tables with the entries and the
  metatable they should have, and the map function is called once for every value and completed
  container, after what is inside it, with its key and with the path that leads to it; a map
  function must keep the keys, and the result must not be discarded.\<close>
theorem map_builds_the_tree:
  assumes "keeps_keys c" "n \<noteq> 0"
  shows "pllua_jsonb_map c n (is_leaf x) (jsonb_tokens x) =
    Inr (Some (app c (V LNil) (jval c [] x) []), jcalls c [] x @ call_of c (V LNil) (jval c [] x) [])"
  using map_run [OF assms(1), of x] assms unfolding pllua_jsonb_map_def start_def [symmetric]
  by (auto simp: in_state_def keeps_keys_def)

theorem map_builds_the_tree_witness:
  "let c = \<lparr>mapfunc = Some (\<lambda>k v q. (k, v)), noresult = False, nullvalue = LLight 7, keep_numeric = True,
            tonumber = (\<lambda>_. LNil)\<rparr> in
   pllua_jsonb_map c 2 False (jsonb_tokens (Obj [(''a'', Arr []), (''b'', Arr [Leaf JNull])])) =
     Inr (Some (Tab (Some ObjectMt)
           [(V (LStr ''a''), Tab (Some ArrayMt) []),
            (V (LStr ''b''), Tab (Some ArrayMt) [(V (LInt 1), V (LLight 7))])]),
       [(V (LStr ''a''), Tab (Some ArrayMt) [], []), (V (LInt 0), V (LLight 7), [V (LStr ''b'')]),
        (V (LStr ''b''), Tab (Some ArrayMt) [(V (LInt 1), V (LLight 7))], []),
        (V LNil, Tab (Some ObjectMt)
           [(V (LStr ''a''), Tab (Some ArrayMt) []),
            (V (LStr ''b''), Tab (Some ArrayMt) [(V (LInt 1), V (LLight 7))])], [])])"
  using map_builds_the_tree [of "\<lparr>mapfunc = Some (\<lambda>k v q. (k, v)), noresult = False, nullvalue = LLight 7,
      keep_numeric = True, tonumber = (\<lambda>_. LNil)\<rparr>" 2 "Obj [(''a'', Arr []), (''b'', Arr [Leaf JNull])]"]
  by (simp add: keeps_keys_def is_leaf_def app_def call_of_def entry_set_def push_scalar_def)

text \<open>With \<open>discard\<close>, the end of an empty container does not take its key off the path, so the calls
  that follow get a path they should not have.\<close>

lemma discard_loses_the_path:
  "let c = \<lparr>mapfunc = Some (\<lambda>k v q. (k, v)), noresult = True, nullvalue = LNil, keep_numeric = True,
            tonumber = (\<lambda>_. LNil)\<rparr> in
   pllua_jsonb_map c 2 False (jsonb_tokens (Obj [(''a'', Arr []), (''b'', Leaf (JBool True))])) =
     Inr (None, [(V (LStr ''b''), V (LBool True), [V (LStr ''a'')])])"
  by (simp add: pllua_jsonb_map_def jsonb_tokens_def map_step_def Let_def push_path_def push_def
      end_container_def call_mapfunc_def path_values_def push_scalar_def)

end
