(* ===== verification/Trigger.thy ===== *)
theory Trigger
  imports Prelude
begin

text \<open>
  Trigger objects, src/src/trigger.c, and the entry point for triggers, pllua_call_trigger of
  src/src/exec.c.  A trigger object refers to PostgreSQL's \<open>TriggerData\<close>, which exists during the
  call only, and caches the rows and other fields it has handed out; rows are datum objects, which
  user code can modify in place (the columns are then held apart, \<open>exploded\<close>).  \<open>'t\<close> is the type
  of tuples; the constructor of the relation's row type for values that are not rows is the
  parameter \<open>mk\<close>.
\<close>

subsection \<open>State\<close>

datatype tg_operation = TgInsert | TgUpdate | TgDelete | TgTruncate
datatype tg_timing = TgBefore | TgAfter | TgInstead

record 't trigger_data =
  tg_op :: tg_operation
  tg_when :: tg_timing
  tg_row :: bool
  tg_trigtuple :: 't
  tg_newtuple :: 't
  tgname :: string
  tgargs :: "string list"
  relname :: string
  nspname :: "string option"
  rel_oid :: int
  rel_atts :: "(string \<times> bool) list"

record 't row_datum =
  d_value :: 't
  d_exploded :: "'t option"

text \<open>\<open>td_alive\<close>: PostgreSQL's data still exist.  It is not a variable of the program.\<close>

record 't trig =
  td :: "'t trigger_data option"
  td_alive :: bool
  trig_modified :: bool
  cache :: "string \<Rightarrow> lval"
  rows :: "nat \<Rightarrow> 't row_datum option"
  row_next :: nat

datatype trig_exn = TrigErr string | DanglingTriggerData

definition d_modified :: "'t row_datum \<Rightarrow> bool" where
  "d_modified d = (d_exploded d \<noteq> None)"

definition d_current :: "'t row_datum \<Rightarrow> 't" where
  "d_current d = (case d_exploded d of None \<Rightarrow> d_value d | Some t \<Rightarrow> t)"

subsection \<open>The object\<close>

definition pllua_trigger_begin :: "'t trigger_data \<Rightarrow> (nat \<Rightarrow> 't row_datum option) \<Rightarrow> nat \<Rightarrow> 't trig" where
  "pllua_trigger_begin t rs n =
     \<lparr>td = Some t, td_alive = True, trig_modified = False, cache = (\<lambda>_. LNil), rows = rs, row_next = n\<rparr>"

definition pllua_trigger_end :: "'t trig \<Rightarrow> 't trig" where
  "pllua_trigger_end s = s\<lparr>td := None\<rparr>"

text \<open>The check, and the access to the data that follows it.\<close>

definition pllua_checktrigger :: "'t trig \<Rightarrow> trig_exn + 't trigger_data" where
  "pllua_checktrigger s =
     (case td s of
        None \<Rightarrow> Inl (TrigErr ''cannot access dead trigger object'')
      | Some t \<Rightarrow> if td_alive s then Inr t else Inl DanglingTriggerData)"

definition pllua_trigger_getrow :: "'t \<Rightarrow> 't trig \<Rightarrow> lval \<times> 't trig" where
  "pllua_trigger_getrow t s =
     (LUdata (row_next s),
      s\<lparr>rows := (rows s)(row_next s \<mapsto> \<lparr>d_value = t, d_exploded = None\<rparr>), row_next := Suc (row_next s)\<rparr>)"

definition pllua_trigger_get_new :: "'t trigger_data \<Rightarrow> 't trig \<Rightarrow> lval \<times> 't trig" where
  "pllua_trigger_get_new t s =
     (if \<not> tg_row t then (LNil, s)
      else case tg_op t of
        TgInsert \<Rightarrow> pllua_trigger_getrow (tg_trigtuple t) s
      | TgUpdate \<Rightarrow> pllua_trigger_getrow (tg_newtuple t) s
      | _ \<Rightarrow> (LNil, s))"

definition pllua_trigger_get_old :: "'t trigger_data \<Rightarrow> 't trig \<Rightarrow> lval \<times> 't trig" where
  "pllua_trigger_get_old t s =
     (if \<not> tg_row t \<or> tg_op t = TgInsert then (LNil, s)
      else pllua_trigger_getrow (tg_trigtuple t) s)"

definition pllua_trigger_get_when :: "'t trigger_data \<Rightarrow> lval" where
  "pllua_trigger_get_when t =
     LStr (case tg_when t of TgBefore \<Rightarrow> ''before'' | TgAfter \<Rightarrow> ''after'' | TgInstead \<Rightarrow> ''instead'')"

definition pllua_trigger_get_operation :: "'t trigger_data \<Rightarrow> lval" where
  "pllua_trigger_get_operation t =
     LStr (case tg_op t of TgInsert \<Rightarrow> ''insert'' | TgUpdate \<Rightarrow> ''update'' | TgDelete \<Rightarrow> ''delete''
           | TgTruncate \<Rightarrow> ''truncate'')"

definition pllua_trigger_get_level :: "'t trigger_data \<Rightarrow> lval" where
  "pllua_trigger_get_level t = LStr (if tg_row t then ''row'' else ''statement'')"

text \<open>The table of \<open>trigger.relation\<close>, as its fields; the attributes are numbered from 0, and
  dropped ones are left out.\<close>

definition pllua_trigger_get_relation ::
  "'t trigger_data \<Rightarrow> (string \<times> lval) list \<times> (string \<times> lval) list"
where
  "pllua_trigger_get_relation t =
     ([(''namespace'', LStr (case nspname t of Some n \<Rightarrow> n | None \<Rightarrow> '''')), (''name'', LStr (relname t)),
       (''oid'', LInt (rel_oid t))],
      map (\<lambda>(i, (a, _)). (a, LInt (int i)))
        (filter (\<lambda>(i, (a, dropped)). \<not> dropped) (zip [0..<length (rel_atts t)] (rel_atts t))))"

text \<open>The functions in the metatable's \<open>_keys\<close>.  The relation's table is the fresh table 0 here.\<close>

definition trigger_key :: "string \<Rightarrow> ('t trigger_data \<Rightarrow> 't trig \<Rightarrow> lval \<times> 't trig) option" where
  "trigger_key k =
     (if k = ''new'' then Some pllua_trigger_get_new
      else if k = ''old'' then Some pllua_trigger_get_old
      else if k = ''name'' then Some (\<lambda>t s. (LStr (tgname t), s))
      else if k = ''when'' then Some (\<lambda>t s. (pllua_trigger_get_when t, s))
      else if k = ''operation'' then Some (\<lambda>t s. (pllua_trigger_get_operation t, s))
      else if k = ''level'' then Some (\<lambda>t s. (pllua_trigger_get_level t, s))
      else if k = ''relation'' then Some (\<lambda>t s. (LTab 0, s))
      else None)"

definition row_name :: "'t trigger_data \<Rightarrow> string" where
  "row_name t = (if tg_op t = TgDelete then ''old'' else ''new'')"

text \<open>A field from the cache, or computed and put there unless it is nil; false in the cache stands
  for a nil.\<close>

definition cached_field :: "'t trigger_data \<Rightarrow> string \<Rightarrow> 't trig \<Rightarrow> lval \<times> 't trig" where
  "cached_field t k s =
     (case cache s k of
        LBool b \<Rightarrow> (if b then LBool True else LNil, s)
      | LNil \<Rightarrow>
          (case trigger_key k of
             None \<Rightarrow> (LNil, s)
           | Some f \<Rightarrow>
               (case f t s of (v, s') \<Rightarrow>
                  (v, if v = LNil then s' else s'\<lparr>cache := (cache s')(k := v)\<rparr>)))
      | v \<Rightarrow> (v, s))"

definition pllua_trigger_index :: "string \<Rightarrow> 't trig \<Rightarrow> trig_exn + (lval \<times> 't trig)" where
  "pllua_trigger_index k s =
     bindR (pllua_checktrigger s) (\<lambda>t.
       if k = '''' \<or> hd k = CHR ''_'' \<or> hd k = CHR ''.'' then Inr (LNil, s)
       else Inr (cached_field t (if k = ''row'' then row_name t
                                 else if k = ''op'' then ''operation'' else k) s))"

text \<open>The row type's constructor: a row gives its present columns.\<close>

definition construct_row :: "(lval \<Rightarrow> string + 't) \<Rightarrow> lval \<Rightarrow> 't trig \<Rightarrow> trig_exn + 't" where
  "construct_row mk v s =
     (case (case v of LUdata a \<Rightarrow> rows s a | _ \<Rightarrow> None) of
        Some d \<Rightarrow> Inr (d_current d)
      | None \<Rightarrow> (case mk v of Inl m \<Rightarrow> Inl (TrigErr m) | Inr t \<Rightarrow> Inr t))"

definition pllua_trigger_newindex ::
  "(lval \<Rightarrow> string + 't) \<Rightarrow> string \<Rightarrow> lval \<Rightarrow> 't trig \<Rightarrow> trig_exn + 't trig"
where
  "pllua_trigger_newindex mk k v s =
     bindR (pllua_checktrigger s) (\<lambda>t.
       if k \<noteq> ''row'' then Inl (TrigErr (''cannot modify field trigger.'' @ k))
       else if \<not> tg_row t then Inl (TrigErr ''trigger row can only be modified in a per-row trigger'')
       else if v = LNil then
         Inr (s\<lparr>cache := (cache s)(row_name t := LBool False), trig_modified := True\<rparr>)
       else
         bindR (construct_row mk v s) (\<lambda>r.
           case pllua_trigger_getrow r s of (d, s') \<Rightarrow>
             Inr (s'\<lparr>cache := (cache s')(row_name t := d), trig_modified := True\<rparr>)))"

subsection \<open>The result\<close>

datatype 't trig_result = NoTuple | OriginalTuple 't | CopiedTuple 't

definition row_at :: "'t trig \<Rightarrow> lval \<Rightarrow> 't row_datum option" where
  "row_at s v = (case v of LUdata a \<Rightarrow> rows s a | _ \<Rightarrow> None)"

definition through_constructor ::
  "(lval \<Rightarrow> string + 't) \<Rightarrow> lval \<Rightarrow> 't trig \<Rightarrow> trig_exn + 't trig_result"
where
  "through_constructor mk v s = bindR (construct_row mk v s) (\<lambda>r. Inr (CopiedTuple r))"

definition pllua_return_trigger_result ::
  "(lval \<Rightarrow> string + 't) \<Rightarrow> lval list \<Rightarrow> 't trig \<Rightarrow> trig_exn + 't trig_result"
where
  "pllua_return_trigger_result mk rets s =
     bindR (pllua_checktrigger s) (\<lambda>t.
       if \<not> tg_row t \<or> tg_when t = TgAfter then Inr NoTuple
       else
         let original = OriginalTuple (if tg_op t = TgUpdate then tg_newtuple t else tg_trigtuple t);
             cached = cache s (row_name t)
         in case rets of
           [] \<Rightarrow>
             (if cached = LNil then Inr original
              else if cached = LBool False then Inr NoTuple
              else case row_at s cached of
                None \<Rightarrow> Inl (TrigErr ''incorrect type in trigger.row on return from trigger'')
              | Some d \<Rightarrow>
                  if \<not> d_modified d
                  then Inr (if \<not> trig_modified s then original else CopiedTuple (d_value d))
                  else through_constructor mk cached s)
         | [v] \<Rightarrow>
             (if v = LNil then Inr NoTuple
              else if \<not> trig_modified s \<and> cached = v then
                (case row_at s cached of
                   None \<Rightarrow> Inl (TrigErr ''incorrect type in trigger.row on return from trigger'')
                 | Some d \<Rightarrow> if \<not> d_modified d then Inr original else through_constructor mk v s)
              else through_constructor mk v s)
         | _ \<Rightarrow> Inl (TrigErr ''invalid number of results from trigger''))"

subsection \<open>The call\<close>

text \<open>
  \<open>body\<close> is the function's code: given the trigger object, the old and new row and the string
  arguments it gives results, or leaves by an error, with the state it leaves behind.  After the
  call PostgreSQL's data are gone, whichever way it ended.
\<close>

definition pllua_push_trigger_args :: "'t trigger_data \<Rightarrow> lval list" where
  "pllua_push_trigger_args t = map LStr (tgargs t)"

definition pllua_call_trigger ::
  "(lval \<Rightarrow> string + 't) \<Rightarrow> (lval list \<Rightarrow> 't trig \<Rightarrow> (trig_exn + lval list) \<times> 't trig) \<Rightarrow>
   't trigger_data \<Rightarrow> (nat \<Rightarrow> 't row_datum option) \<Rightarrow> nat \<Rightarrow> (trig_exn + 't trig_result) \<times> 't trig"
where
  "pllua_call_trigger mk body t rs n =
     (let s0 = pllua_trigger_begin t rs n;
          over = (\<lambda>s. s\<lparr>td_alive := False\<rparr>)
      in case bindR (pllua_trigger_index ''old'' s0) (\<lambda>(old, s1).
              bindR (pllua_trigger_index ''new'' s1) (\<lambda>(new, s2). Inr (old, new, s2))) of
           Inl e \<Rightarrow> (Inl e, over s0)
         | Inr (old, new, s2) \<Rightarrow>
             (case body (old # new # pllua_push_trigger_args t) s2 of
                (Inl e, s3) \<Rightarrow> (Inl e, over s3)
              | (Inr rets, s3) \<Rightarrow>
                  (case pllua_return_trigger_result mk rets s3 of
                     Inl e \<Rightarrow> (Inl e, over s3)
                   | Inr r \<Rightarrow> (Inr r, over (pllua_trigger_end s3)))))"

end
