(* ===== verification/Trigger_Props.thy ===== *)
theory Trigger_Props
  imports Trigger
begin

text \<open>
  Row triggers (src/src/trigger.c): the trigger object with its cache and its row objects refines
  one row variable (\<open>row_is\<close> is the simulation relation, \<open>abs_op\<close> and \<open>abs_return\<close> the abstract
  trigger), and the object is dead after the call.
\<close>

subsection \<open>What a trigger's code does with its row\<close>

text \<open>
  The operations of user code on the row: reading fields, replacing the row by a value that is
  not a row object (nil suppresses the operation), and changing columns in place.
\<close>

datatype 't row_op =
    ReadField string
  | SetRow lval
  | ModifyRow "'t \<Rightarrow> 't"

definition modify_row :: "('t \<Rightarrow> 't) \<Rightarrow> lval \<Rightarrow> 't trig \<Rightarrow> trig_exn + 't trig" where
  "modify_row g v s =
     (case v of
        LUdata a \<Rightarrow>
          (case rows s a of
             Some d \<Rightarrow> Inr (s\<lparr>rows := (rows s)(a \<mapsto> d\<lparr>d_exploded := Some (g (d_current d))\<rparr>)\<rparr>)
           | None \<Rightarrow> Inl (TrigErr ''not a row''))
      | _ \<Rightarrow> Inl (TrigErr ''not a row''))"

definition run_op :: "(lval \<Rightarrow> string + 't) \<Rightarrow> 't row_op \<Rightarrow> 't trig \<Rightarrow> trig_exn + 't trig" where
  "run_op mk u s =
     (case u of
        ReadField k \<Rightarrow> bindR (pllua_trigger_index k s) (\<lambda>(v, s'). Inr s')
      | SetRow v \<Rightarrow> pllua_trigger_newindex mk ''row'' v s
      | ModifyRow g \<Rightarrow> bindR (pllua_trigger_index ''row'' s) (\<lambda>(v, s'). modify_row g v s'))"

fun run_ops :: "(lval \<Rightarrow> string + 't) \<Rightarrow> 't row_op list \<Rightarrow> 't trig \<Rightarrow> trig_exn + 't trig" where
  "run_ops mk [] s = Inr s"
| "run_ops mk (u # us) s = bindR (run_op mk u s) (run_ops mk us)"

text \<open>The abstract trigger keeps one row, or none.\<close>

definition abs_op :: "(lval \<Rightarrow> string + 't) \<Rightarrow> 't row_op \<Rightarrow> 't option \<Rightarrow> trig_exn + 't option" where
  "abs_op mk u r =
     (case u of
        ReadField k \<Rightarrow> Inr r
      | SetRow v \<Rightarrow> if v = LNil then Inr None
                    else (case mk v of Inl m \<Rightarrow> Inl (TrigErr m) | Inr t \<Rightarrow> Inr (Some t))
      | ModifyRow g \<Rightarrow> (case r of None \<Rightarrow> Inl (TrigErr ''not a row'') | Some t \<Rightarrow> Inr (Some (g t))))"

fun abs_ops :: "(lval \<Rightarrow> string + 't) \<Rightarrow> 't row_op list \<Rightarrow> 't option \<Rightarrow> trig_exn + 't option" where
  "abs_ops mk [] r = Inr r"
| "abs_ops mk (u # us) r = bindR (abs_op mk u r) (abs_ops mk us)"

fun plain_op :: "'t row_op \<Rightarrow> bool" where
  "plain_op (SetRow v) \<longleftrightarrow> (\<forall>a. v \<noteq> LUdata a)"
| "plain_op _ \<longleftrightarrow> True"

definition original :: "'t trigger_data \<Rightarrow> 't" where
  "original t = (if tg_op t = TgUpdate then tg_newtuple t else tg_trigtuple t)"

text \<open>The row that the trigger object stands for.\<close>

definition row_is :: "'t trigger_data \<Rightarrow> 't trig \<Rightarrow> 't option \<Rightarrow> bool" where
  "row_is t s r \<longleftrightarrow>
     td s = Some t \<and> td_alive s \<and>
     (case cache s (row_name t) of
        LNil \<Rightarrow> \<not> trig_modified s \<and> r = Some (original t)
      | LBool b \<Rightarrow> \<not> b \<and> trig_modified s \<and> r = None
      | LUdata a \<Rightarrow> (\<exists>d. rows s a = Some d \<and> r = Some (d_current d) \<and>
                       (trig_modified s \<or> d_value d = original t)) \<and> a < row_next s
      | _ \<Rightarrow> False)"

definition row_trigger :: "'t trigger_data \<Rightarrow> bool" where
  "row_trigger t \<longleftrightarrow> tg_row t \<and> tg_when t \<noteq> TgAfter \<and> tg_op t \<noteq> TgTruncate"

lemma row_name_cases: "row_name t = ''new'' \<or> row_name t = ''old''"
  by (simp add: row_name_def)

text \<open>A field function hands out a fresh row or leaves the state alone.\<close>

lemma trigger_key_effect:
  assumes "trigger_key k = Some f"
  shows "snd (f t s) = s \<or> (\<exists>x. f t s = pllua_trigger_getrow x s)"
  using assms
  by (auto simp: trigger_key_def pllua_trigger_get_new_def pllua_trigger_get_old_def
      split: if_splits tg_operation.splits)

lemma trigger_key_row:
  assumes "row_trigger t"
  shows "\<exists>f. trigger_key (row_name t) = Some f \<and> f t s = pllua_trigger_getrow (original t) s"
  using assms
  by (cases "tg_op t")
    (auto simp: row_trigger_def trigger_key_def row_name_def original_def pllua_trigger_get_new_def
      pllua_trigger_get_old_def)

lemma row_is_getrow: "row_is t s r \<Longrightarrow> row_is t (snd (pllua_trigger_getrow x s)) r"
  by (auto simp: row_is_def pllua_trigger_getrow_def split: lval.splits)

lemma row_is_cache: "row_is t s r \<Longrightarrow> k \<noteq> row_name t \<Longrightarrow> row_is t (s\<lparr>cache := (cache s)(k := v)\<rparr>) r"
  by (auto simp: row_is_def split: lval.splits)

lemma row_is_check: "row_is t s r \<Longrightarrow> pllua_checktrigger s = Inr t"
  by (simp add: row_is_def pllua_checktrigger_def)

text \<open>Reading the row gives it, and keeps it.\<close>

lemma cached_row:
  assumes "row_trigger t" "row_is t s r" "cached_field t (row_name t) s = (v, s')"
  shows "row_is t s' r \<and> (case r of None \<Rightarrow> v = LNil | Some x \<Rightarrow> v = cache s' (row_name t) \<and> (\<exists>a. v = LUdata a))"
proof (cases "cache s (row_name t)")
  case LNil
  obtain f where f: "trigger_key (row_name t) = Some f" "f t s = pllua_trigger_getrow (original t) s"
    using trigger_key_row [OF assms(1)] by blast
  show ?thesis
    using assms(2,3) LNil f
    by (auto simp: cached_field_def row_is_def pllua_trigger_getrow_def d_current_def)
next
  case (LUdata a)
  then have "v = LUdata a" "s' = s" using assms(3) by (auto simp: cached_field_def)
  then show ?thesis using assms(2) LUdata by (auto simp: row_is_def)
qed (use assms(2,3) in \<open>auto simp: cached_field_def row_is_def\<close>)

lemma cached_other:
  fixes t :: "'a trigger_data"
  assumes "row_is t s r" "k \<noteq> row_name t"
  shows "row_is t (snd (cached_field t k s)) r"
proof (cases "trigger_key k :: ('a trigger_data \<Rightarrow> 'a trig \<Rightarrow> lval \<times> 'a trig) option")
  case (Some f)
  obtain v s' where fv: "f t s = (v, s')" by (cases "f t s")
  have "row_is t s' r"
    using trigger_key_effect [OF Some, of t s] fv assms(1) row_is_getrow [OF assms(1)] by (metis snd_conv)
  moreover note row_is_cache [OF this assms(2), of v]
  ultimately show ?thesis
    using Some fv assms(1) by (auto simp: cached_field_def split: lval.splits)
next
  case None
  then have "snd (cached_field t k s) = s"
    by (auto simp: cached_field_def split: lval.splits)
  with assms(1) show ?thesis by simp
qed

lemma row_name_ok [simp]: "row_name t \<noteq> ''''" "hd (row_name t) \<noteq> CHR ''_''" "hd (row_name t) \<noteq> CHR ''.''"
    "row_name t \<noteq> ''op''" "row_name t \<noteq> ''row''"
  by (simp_all add: row_name_def)

lemma index_row:
  assumes "row_trigger t" "row_is t s r"
  shows "\<exists>v s'. pllua_trigger_index ''row'' s = Inr (v, s') \<and> row_is t s' r \<and>
    (case r of None \<Rightarrow> v = LNil | Some x \<Rightarrow> v = cache s' (row_name t) \<and> (\<exists>a. v = LUdata a))"
  using cached_row [OF assms] row_is_check [OF assms(2)]
  by (cases "cached_field t (row_name t) s") (simp add: pllua_trigger_index_def)

lemma index_any:
  assumes "row_trigger t" "row_is t s r"
  shows "\<exists>v s'. pllua_trigger_index k s = Inr (v, s') \<and> row_is t s' r"
proof -
  let ?k = "if k = ''row'' then row_name t else if k = ''op'' then ''operation'' else k"
  have "row_is t (snd (cached_field t ?k s)) r"
    using cached_row [OF assms, of "fst (cached_field t ?k s)" "snd (cached_field t ?k s)"]
      cached_other [OF assms(2), of ?k] by (cases "?k = row_name t") simp_all
  then show ?thesis
    using assms(2) row_is_check [OF assms(2)]
    by (cases "cached_field t ?k s") (simp add: pllua_trigger_index_def)
qed

lemma run_op_refines:
  assumes "row_trigger t" "row_is t s r" "plain_op u"
  shows "case abs_op mk u r of
      Inl e \<Rightarrow> run_op mk u s = Inl e
    | Inr r' \<Rightarrow> \<exists>s'. run_op mk u s = Inr s' \<and> row_is t s' r'"
proof (cases u)
  case (ReadField k)
  then show ?thesis using index_any [OF assms(1,2), of k] by (auto simp: abs_op_def run_op_def)
next
  case (SetRow v)
  note chk = row_is_check [OF assms(2)]
  have row: "tg_row t" using assms(1) by (simp add: row_trigger_def)
  have c: "construct_row mk v s = (case mk v of Inl m \<Rightarrow> Inl (TrigErr m) | Inr t \<Rightarrow> Inr t)"
    using assms(3) SetRow by (auto simp: construct_row_def split: lval.splits)
  show ?thesis
  proof (cases "v = LNil")
    case True
    then show ?thesis
      using SetRow chk row assms(2) by (simp add: abs_op_def run_op_def pllua_trigger_newindex_def row_is_def)
  next
    case False
    then show ?thesis
      using SetRow chk row assms(2) c
      by (cases "mk v") (auto simp: abs_op_def run_op_def pllua_trigger_newindex_def row_is_def
          pllua_trigger_getrow_def d_current_def)
  qed
next
  case (ModifyRow g)
  obtain v s' where v: "pllua_trigger_index ''row'' s = Inr (v, s')" "row_is t s' r"
      "case r of None \<Rightarrow> v = LNil | Some x \<Rightarrow> v = cache s' (row_name t) \<and> (\<exists>a. v = LUdata a)"
    using index_row [OF assms(1,2)] by blast
  show ?thesis
  proof (cases r)
    case None
    then show ?thesis using ModifyRow v by (simp add: abs_op_def run_op_def modify_row_def)
  next
    case (Some x)
    then obtain a where a: "v = LUdata a" "cache s' (row_name t) = LUdata a" using v(3) by auto
    then obtain d where d: "rows s' a = Some d" "x = d_current d"
      using v(2) Some by (auto simp: row_is_def)
    then show ?thesis using ModifyRow v(1,2) a Some
      by (auto simp: abs_op_def run_op_def modify_row_def row_is_def d_current_def)
  qed
qed

lemma run_ops_refines:
  assumes "row_trigger t"
  shows "row_is t s r \<Longrightarrow> list_all plain_op us \<Longrightarrow> case abs_ops mk us r of
      Inl e \<Rightarrow> run_ops mk us s = Inl e
    | Inr r' \<Rightarrow> \<exists>s'. run_ops mk us s = Inr s' \<and> row_is t s' r'"
proof (induction us arbitrary: s r)
  case (Cons u us)
  note R = run_op_refines [OF assms Cons.prems(1), of u mk]
  show ?case
  proof (cases "abs_op mk u r")
    case (Inl e)
    then show ?thesis using R Cons.prems(2) by simp
  next
    case (Inr r')
    then obtain s' where "run_op mk u s = Inr s'" "row_is t s' r'" using R Cons.prems(2) by auto
    then show ?thesis using Cons.IH [of s' r'] Cons.prems(2) Inr by (cases "abs_ops mk us r'") simp_all
  qed
qed simp

text \<open>How the code returns: without a value, with the row it reads from the object, or with a value
  that is not a row object.\<close>

datatype row_return = ReturnNothing | ReturnRow | ReturnValue lval

definition row_body :: "(lval \<Rightarrow> string + 't) \<Rightarrow> 't row_op list \<Rightarrow> row_return \<Rightarrow>
    lval list \<Rightarrow> 't trig \<Rightarrow> (trig_exn + lval list) \<times> 't trig" where
  "row_body mk us how args s =
     (case run_ops mk us s of
        Inl e \<Rightarrow> (Inl e, s)
      | Inr s' \<Rightarrow>
          (case how of
             ReturnNothing \<Rightarrow> (Inr [], s')
           | ReturnValue v \<Rightarrow> (Inr [v], s')
           | ReturnRow \<Rightarrow>
               (case pllua_trigger_index ''row'' s' of
                  Inl e \<Rightarrow> (Inl e, s')
                | Inr (v, s'') \<Rightarrow> (Inr [v], s''))))"

definition abs_return :: "(lval \<Rightarrow> string + 't) \<Rightarrow> row_return \<Rightarrow> 't option \<Rightarrow> trig_exn + 't option" where
  "abs_return mk how r =
     (case how of
        ReturnNothing \<Rightarrow> Inr r
      | ReturnRow \<Rightarrow> Inr r
      | ReturnValue v \<Rightarrow> if v = LNil then Inr None
                         else (case mk v of Inl m \<Rightarrow> Inl (TrigErr m) | Inr t \<Rightarrow> Inr (Some t)))"

fun tuple_of :: "'t trig_result \<Rightarrow> 't option" where
  "tuple_of NoTuple = None"
| "tuple_of (OriginalTuple t) = Some t"
| "tuple_of (CopiedTuple t) = Some t"

lemma result_nothing:
  assumes "row_trigger t" "row_is t s r"
  shows "\<exists>x. pllua_return_trigger_result mk [] s = Inr x \<and> tuple_of x = r"
  using assms row_is_check [OF assms(2)]
  by (auto simp: pllua_return_trigger_result_def row_trigger_def row_is_def row_at_def original_def
      d_modified_def d_current_def through_constructor_def construct_row_def split: lval.splits)

lemma result_row:
  assumes "row_trigger t" "row_is t s r"
    and "case r of None \<Rightarrow> v = LNil | Some x \<Rightarrow> v = cache s (row_name t) \<and> (\<exists>a. v = LUdata a)"
  shows "\<exists>x. pllua_return_trigger_result mk [v] s = Inr x \<and> tuple_of x = r"
  using assms row_is_check [OF assms(2)]
  by (auto simp: pllua_return_trigger_result_def row_trigger_def row_is_def row_at_def original_def
      d_modified_def d_current_def through_constructor_def construct_row_def split: option.splits)

lemma result_value:
  assumes "row_trigger t" "row_is t s r" "\<And>a. v \<noteq> LUdata a"
  shows "case abs_return mk (ReturnValue v) r of
      Inl e \<Rightarrow> pllua_return_trigger_result mk [v] s = Inl e
    | Inr r' \<Rightarrow> \<exists>x. pllua_return_trigger_result mk [v] s = Inr x \<and> tuple_of x = r'"
proof -
  have c: "construct_row mk v s = (case mk v of Inl m \<Rightarrow> Inl (TrigErr m) | Inr t \<Rightarrow> Inr t)"
    using assms(3) by (auto simp: construct_row_def split: lval.splits)
  have n: "\<not> (\<not> trig_modified s \<and> cache s (row_name t) = v)" if "v \<noteq> LNil"
    using assms(2,3) that by (auto simp: row_is_def split: lval.splits)
  show ?thesis
  proof (cases "v = LNil")
    case True
    then show ?thesis using assms(1) row_is_check [OF assms(2)]
      by (simp add: pllua_return_trigger_result_def row_trigger_def abs_return_def)
  next
    case False
    then show ?thesis using assms(1) row_is_check [OF assms(2)] n c
      by (cases "mk v") (auto simp: pllua_return_trigger_result_def row_trigger_def abs_return_def
          through_constructor_def)
  qed
qed

text \<open>C22. A row trigger that runs before or instead of the operation gives PostgreSQL the row that its
  code leaves: whatever sequence of reads, replacements and changes in place it performs and
  however it returns, the result is the tuple that a single row variable would hold, or none
  where that variable is nil, and an error exactly where there is one.\<close>
theorem trigger_result_is_the_row:
  assumes "row_trigger t" "list_all plain_op us" "\<forall>a. how \<noteq> ReturnValue (LUdata a)" "\<forall>a\<ge>n. rs a = None"
  shows "map_sum id tuple_of (fst (pllua_call_trigger mk (row_body mk us how) t rs n)) =
    bindR (abs_ops mk us (Some (original t))) (abs_return mk how)"
proof -
  let ?s0 = "pllua_trigger_begin t rs n"
  have s0: "row_is t ?s0 (Some (original t))" by (simp add: row_is_def pllua_trigger_begin_def)
  obtain v1 s1 where 1: "pllua_trigger_index ''old'' ?s0 = Inr (v1, s1)" "row_is t s1 (Some (original t))"
    using index_any [OF assms(1) s0] by blast
  obtain v2 s2 where 2: "pllua_trigger_index ''new'' s1 = Inr (v2, s2)" "row_is t s2 (Some (original t))"
    using index_any [OF assms(1) 1(2)] by blast
  note R = run_ops_refines [OF assms(1) 2(2) assms(2), of mk]
  show ?thesis
  proof (cases "abs_ops mk us (Some (original t))")
    case (Inl e)
    then show ?thesis using R 1 2 by (simp add: pllua_call_trigger_def Let_def row_body_def)
  next
    case (Inr r)
    then obtain s3 where 3: "run_ops mk us s2 = Inr s3" "row_is t s3 r" using R by auto
    show ?thesis
    proof (cases how)
      case ReturnNothing
      obtain x where "pllua_return_trigger_result mk [] s3 = Inr x" "tuple_of x = r"
        using result_nothing [OF assms(1) 3(2)] by blast
      then show ?thesis using 1 2 3 Inr ReturnNothing
        by (simp add: pllua_call_trigger_def Let_def row_body_def abs_return_def)
    next
      case ReturnRow
      obtain v s4 where 4: "pllua_trigger_index ''row'' s3 = Inr (v, s4)" "row_is t s4 r"
          "case r of None \<Rightarrow> v = LNil | Some x \<Rightarrow> v = cache s4 (row_name t) \<and> (\<exists>a. v = LUdata a)"
        using index_row [OF assms(1) 3(2)] by blast
      obtain x where "pllua_return_trigger_result mk [v] s4 = Inr x" "tuple_of x = r"
        using result_row [OF assms(1) 4(2,3)] by blast
      then show ?thesis using 1 2 3 4(1) Inr ReturnRow
        by (simp add: pllua_call_trigger_def Let_def row_body_def abs_return_def)
    next
      case (ReturnValue v)
      then have "\<And>a. v \<noteq> LUdata a" using assms(3) by auto
      from result_value [OF assms(1) 3(2) this, of mk] show ?thesis using 1 2 3 Inr ReturnValue
        by (cases "abs_return mk (ReturnValue v) r")
          (auto simp: pllua_call_trigger_def Let_def row_body_def)
    qed
  qed
qed

theorem trigger_result_is_the_row_witness:
  "let t = \<lparr>tg_op = TgUpdate, tg_when = TgBefore, tg_row = True, tg_trigtuple = 1, tg_newtuple = (2 :: int),
            tgname = ''t'', tgargs = [], relname = ''r'', nspname = None, rel_oid = 3, rel_atts = []\<rparr>;
       us = [ReadField ''new'', ModifyRow (\<lambda>x. x + 10), ReadField ''op'', ModifyRow (\<lambda>x. x * 2)] in
   map_sum id tuple_of (fst (pllua_call_trigger (\<lambda>_. Inl ''no'') (row_body (\<lambda>_. Inl ''no'') us ReturnNothing)
     t (\<lambda>_. None) 0)) = Inr (Some 24)"
proof -
  let ?t = "\<lparr>tg_op = TgUpdate, tg_when = TgBefore, tg_row = True, tg_trigtuple = 1, tg_newtuple = (2 :: int),
            tgname = ''t'', tgargs = [], relname = ''r'', nspname = None, rel_oid = 3, rel_atts = []\<rparr>"
  let ?us = "[ReadField ''new'', ModifyRow (\<lambda>x. x + 10), ReadField ''op'', ModifyRow (\<lambda>x. x * 2)]"
  have "row_trigger ?t" "list_all plain_op ?us" by (simp_all add: row_trigger_def)
  from trigger_result_is_the_row [OF this, of ReturnNothing 0 "\<lambda>_. None" "\<lambda>_. Inl ''no''"] show ?thesis
    by (simp add: abs_op_def abs_return_def original_def)
qed

text \<open>After a trigger call that returned, its object is dead: every access is refused, nothing reads
  PostgreSQL's data, which are gone; after a call that left by an error the object still refers to
  them.\<close>
theorem trigger_object_dies:
  assumes "pllua_call_trigger mk body t rs n = (res, s)"
    and "\<forall>args s1 r s2. body args s1 = (r, s2) \<longrightarrow> td s2 = td s1"
  shows "(\<forall>x. res = Inr x \<longrightarrow>
      (\<forall>k. pllua_trigger_index k s = Inl (TrigErr ''cannot access dead trigger object'')) \<and>
      (\<forall>k v. pllua_trigger_newindex mk k v s = Inl (TrigErr ''cannot access dead trigger object''))) \<and>
    (\<forall>e. res = Inl e \<longrightarrow> (\<forall>k. pllua_trigger_index k s = Inl DanglingTriggerData))"
proof -
  have keep: "td s' = td s0" if "pllua_trigger_index k s0 = Inr (v, s')" for k v s' and s0 :: "'a trig"
  proof -
    have f: "td (snd (f t0 s0)) = td s0" if "trigger_key k' = Some f"
      for k' t0 and f :: "'a trigger_data \<Rightarrow> 'a trig \<Rightarrow> lval \<times> 'a trig"
      using trigger_key_effect [OF that, of t0 s0] by (auto simp: pllua_trigger_getrow_def)
    have c: "td (snd (cached_field t0 k' s0)) = td s0" for t0 k'
    proof (cases "trigger_key k' :: ('a trigger_data \<Rightarrow> 'a trig \<Rightarrow> lval \<times> 'a trig) option")
      case (Some g)
      then show ?thesis using f [OF Some, of t0]
        by (cases "cache s0 k'"; cases "g t0 s0") (simp_all add: cached_field_def)
    qed (cases "cache s0 k'"; simp add: cached_field_def)
    show ?thesis
      using that c by (auto simp: pllua_trigger_index_def bindR_eq_Inr split: if_splits; metis snd_conv)
  qed
  have b: "td s2 = td s1" if "body args s1 = (r, s2)" for args s1 r s2 using assms(2) that by blast
  let ?s0 = "pllua_trigger_begin t rs n"
  have t0: "td ?s0 = Some t" by (simp add: pllua_trigger_begin_def)
  define B where "B = bindR (pllua_trigger_index ''old'' ?s0) (\<lambda>(old, s1).
      bindR (pllua_trigger_index ''new'' s1) (\<lambda>(new, s2). Inr (old, new, s2)))"
  note call = assms(1) [unfolded pllua_call_trigger_def Let_def, folded B_def]
  have "(\<exists>x. res = Inr x \<and> td s = None) \<or> (\<exists>e. res = Inl e \<and> td s = Some t \<and> \<not> td_alive s)"
  proof (cases B)
    case (Inl e)
    then show ?thesis using call t0 by auto
  next
    case (Inr z)
    obtain v1 v2 s2 where z: "z = (v1, v2, s2)" by (cases z)
    have s2: "td s2 = Some t" using Inr t0 unfolding B_def z by (auto simp: bindR_eq_Inr dest!: keep)
    obtain r s3 where r: "body (v1 # v2 # pllua_push_trigger_args t) s2 = (r, s3)" by fastforce
    then have s3: "td s3 = Some t" using b s2 by metis
    show ?thesis
    proof (cases r)
      case (Inl e)
      then show ?thesis using call \<open>B = Inr z\<close> z r s3 by auto
    next
      case (Inr rets)
      define q where "q = pllua_return_trigger_result mk rets s3"
      have "(res, s) = (case q of Inl e \<Rightarrow> (Inl e, s3\<lparr>td_alive := False\<rparr>)
          | Inr x \<Rightarrow> (Inr x, (pllua_trigger_end s3)\<lparr>td_alive := False\<rparr>))"
        using call \<open>B = Inr z\<close> z r Inr by (simp add: q_def)
      then show ?thesis using s3 by (cases q) (auto simp: pllua_trigger_end_def)
    qed
  qed
  then show ?thesis
    by (auto simp: pllua_trigger_index_def pllua_trigger_newindex_def pllua_checktrigger_def)
qed

theorem trigger_object_dies_witness:
  "let t = \<lparr>tg_op = TgInsert, tg_when = TgBefore, tg_row = True, tg_trigtuple = 1, tg_newtuple = (2 :: int),
            tgname = ''t'', tgargs = [], relname = ''r'', nspname = None, rel_oid = 3, rel_atts = []\<rparr>;
       s = snd (pllua_call_trigger (\<lambda>_. Inl ''no'') (\<lambda>args s. (Inr [], s)) t (\<lambda>_. None) 0) in
   pllua_trigger_index ''name'' s = Inl (TrigErr ''cannot access dead trigger object'')"
proof -
  let ?t = "\<lparr>tg_op = TgInsert, tg_when = TgBefore, tg_row = True, tg_trigtuple = 1, tg_newtuple = (2 :: int),
            tgname = ''t'', tgargs = [], relname = ''r'', nspname = None, rel_oid = 3, rel_atts = []\<rparr>"
  let ?r = "pllua_call_trigger (\<lambda>_. Inl ''no'') (\<lambda>args s. (Inr [], s)) ?t (\<lambda>_. None) 0"
  have "\<exists>x. fst ?r = Inr x"
    by (simp add: pllua_call_trigger_def Let_def pllua_trigger_begin_def pllua_trigger_index_def
        pllua_checktrigger_def cached_field_def trigger_key_def pllua_trigger_get_old_def
        pllua_trigger_get_new_def pllua_trigger_getrow_def pllua_return_trigger_result_def row_name_def
        row_at_def d_modified_def)
  then show ?thesis
    using trigger_object_dies [of "\<lambda>_. Inl ''no''" "\<lambda>args s. (Inr [], s)" ?t "\<lambda>_. None" 0 "fst ?r" "snd ?r"]
    by auto
qed

end
