(* ===== verification/Spec2Isabelle.thy ===== *)
theory Spec2Isabelle
  imports Interp_Props Datum_Cast_Props Typecache_Props Datum_Row_Props Datum_Array_Props Spi_Rows Subxact_Props Elog_Props Funcache_Props Exec_Props Trusted_Props Trusted_Modes Time_Props Jsonb_Props Trigger_Props
begin

text \<open>
  A model of PL/Lua-ng, the Lua language handler of PostgreSQL (the C files of src/src/), and the
  theorems that make it correct.

  \<^bold>\<open>The program.\<close>  PostgreSQL calls the handler (pllua.c, exec.c); it finds or compiles the function
  (compile.c, objects.c), converts arguments and results (datum.c, time.c, jsonb.c, numeric.c),
  runs the Lua code and lets it use the database (spi.c), report (elog.c), and catch errors
  (error.c); functions of the trusted language run in a sandbox (trusted.c); triggers get an
  object for the row (trigger.c).  The hard parts are where two runtime systems meet: PostgreSQL
  leaves by \<open>longjmp\<close> to the nearest \<open>PG_CATCH\<close> and Lua by \<open>longjmp\<close> to the nearest \<open>lua_pcall\<close>, so
  neither may ever unwind frames of the other; both free memory that the other one refers to.

  \<^bold>\<open>The vocabulary\<close> (theory Prelude).  \<open>lval\<close> is a Lua value.  Code with state that may leave by an
  error is in the monad \<open>('s, 'a) m\<close>, whose outcomes are a return, a Lua error, a PostgreSQL error
  and a PANIC; use of freed memory and writes past the end of an array are modelled as PANIC, so
  that \<open>wpt\<close>, the weakest precondition that excludes it, proves their absence (\<open>wp\<close> does not).  Code without state
  returns a sum.  \<open>c_int\<close> and \<open>c_int64\<close> are the conversions to C's signed integers.

  \<^bold>\<open>The theories and what they model.\<close>

  \<^item> Errors, Subxact: error.c and the context macros of pllua.h.  \<open>est\<close> is the state: the context flag, the
    registry reference to the active error, the stack of subtransactions, PostgreSQL's nesting.
    \<open>pllua_pcall\<close>, \<open>pllua_cpcall\<close>, \<open>pllua_rethrow_from_lua\<close>, \<open>pllua_rethrow_from_pg\<close>, \<open>PLLUA_TRY_gen\<close>;
    \<open>pllua_t_pcall\<close>, \<open>pllua_t_xpcall\<close>, \<open>pllua_t_lpcall\<close>, \<open>pllua_subtransaction\<close>, \<open>pllua_t_coresume\<close>.
    Subxact_Inv proves, by one induction over programs, that every protected call leaves the
    contexts and subtransactions as it found them; Subxact_Props says which errors are caught where.
  \<^item> Sqlstate, Elog: error objects and codes (error.c), \<open>elog\<close>, \<open>print\<close> and the error context (elog.c).
    Elog_Props: the round trip of SQLSTATE codes, the lazily loaded table, level and code agree,
    an error's fields reach the error object.
  \<^item> Compile, Funcache: compile.c and the function objects and activations of objects.c.  \<open>cst\<close> holds
    the two registry tables and heaps; \<open>validate_loop\<close> is the loop of \<open>pllua_validate_and_push\<close>.
    Funcache_Inv: no function data is used after it is freed, over any user code (locale
    \<open>user_code\<close>, interpreted by the programs \<open>user_at\<close>); Funcache_Ends: the loop ends when nobody
    replaces the function meanwhile (locale \<open>stable_user\<close>); Funcache_Props states the properties.
  \<^item> Exec: exec.c and pllua.c, dispatch of calls, results, value-per-call mode with its coroutine.
    Exec_Props: the rows delivered are those the body yields, and thread and callback live and
    die together, whatever fails.
  \<^item> Trusted: trusted.c.  Trusted_Props: what sandboxed code can load; Trusted_Modes: copies share no
    table with the outside, and proxies read through.
  \<^item> Time: time.c, construction and decomposition of dates and times, with Time_Props.
  \<^item> Jsonb: jsonb.c, both directions as machines over token streams.  Jsonb_Map and Jsonb_Props relate
    them to trees.
  \<^item> Trigger: trigger.c and \<open>pllua_call_trigger\<close> of exec.c; Trigger_Props: the trigger object refines one row variable.
  \<^item> Spi, Spi_Query: spi.c, cursors with the weak registry table and the reset callbacks of portals;
    statements, arguments, execution, fetching, the rows iterator.  Spi_Inv and Spi_Ops prove the
    invariant operation by operation, Spi_Props for all interleavings with the collector and
    PostgreSQL; Spi_Rows: the iterator delivers the query's rows, and the bounds of the arrays.
  \<^item> Datum_Array, Datum_Array_Loops, Datum_Array_Props: arrays of datum.c, the stack machines that read
    nested tables and build them, against a recursive reference.
  \<^item> Datum_Row: row objects of datum.c.  The contents of a row are a tree, a \<open>Datum\<close> is 0, a value or a
    pointer into a block of memory; \<open>rowst\<close> holds the Lua objects and the blocks.  Deforming makes
    column objects that point into the row's block, exploding copies them out and frees it.
    Datum_Row_Inv has the invariant \<open>rinv\<close> (who owns which block, whose columns are what is in the
    storage) and the relation \<open>prog\<close> of what an operation leaves alone, Datum_Row_Explode and
    Datum_Row_Ops prove them for each operation, Datum_Row_Run for every sequence of operations and
    collections; Datum_Row_Props: nothing dangles, PostgreSQL gets what Lua sees, assignments reach
    the outer rows.
  \<^item> Typecache: the typeinfo objects of datum.c and the invalidation callbacks of init.c, over a
    catalog that changes.  Typecache_Inv: what is not marked is up to date (\<open>cache_current\<close>), kept by
    lookups at any depth; Typecache_Props: after a change a lookup follows the catalog, unchanged
    types keep their objects, changes of relations are missed.
  \<^item> Interp: the interpreters of init.c.  \<open>ist\<close> has the table by user, the states held ready, and for
    each interpreter whether its Lua state is open; \<open>run_ev\<close> is \<open>pllua_getstate\<close> with both phases and the calls that
    initialization code makes.  Interp_Inv: the invariant \<open>iinv\<close> over all states of a backend
    (\<open>backend\<close>); Interp_Props: users never share an interpreter, failures leave nothing behind.
  \<^item> Datum_Cast: constructors of rows and casts between versions of a row type; Datum_Cast_Props.

  \<^bold>\<open>What is taken from outside.\<close>  PostgreSQL and Lua's C library are parameters: records of functions
  (\<open>spi_env\<close>, \<open>jenv\<close>, the environment of time.c, \<open>return_env\<close>, catalogs), and lists of the
  failures that successive calls have (\<open>pg_faults\<close>, \<open>lua_faults\<close> and their like), over which the theorems
  quantify.  Named hypotheses on parameters are the documented behaviour of those functions; each has an
  instance in a witness.  Lua is 5.3 or later with 64-bit integers (\<open>PLLUA_INT8_OK\<close>), PostgreSQL 13 or later;
  emission of a warning does not fail.  Allocators choose addresses freely, freed ones included.

  \<^bold>\<open>Fuel.\<close>  Loops that might not end have a step count or are partial functions into \<open>option\<close>.  The
  fuel \<open>n\<close> of \<open>validate_loop\<close> is the number of iterations; two suffice when the function is not
  replaced, which is a theorem.  The depth \<open>d\<close> of \<open>user_at\<close> bounds nested calls, as PostgreSQL's stack
  check does.  \<open>ccalls_limit\<close> is Lua's limit on nested C calls.  The copy modes of the sandbox take the number of tables
  as fuel, which is enough because a table is copied once.  The machines of jsonb are
  \<open>partial_function (option)\<close>, and their theorems prove that they return.  The explosion of a row and
  \<open>row_value\<close> take the size of the row's type, which bounds its nesting; lookups of types take a number
  above the rank of every type, which \<open>catalog_ok\<close> asks for.

  \<^bold>\<open>Not modelled.\<close>  Of init.c: what goes into a new Lua state (modules, globals, hooks) and
  most settings; globals.c, paths.c, preload.c and compat.lua: they call libraries in sequence and
  hold no logic of their own beyond it.  Of datum.c: the input and output functions, ranges, domains,
  casts of scalars and arrays, and the parser of type names, which pass values to PostgreSQL's
  functions; iteration over rows and their text form.  The numeric module (numeric.c) wraps
  PostgreSQL's functions in a dispatch table.  plerrcodes_old.h is data; pllua_luajit.h, pllua_luaver.h and
  pllua_pgver.h adapt versions.  The
  hstore transform and the scripts in src/tools/ are separate programs.  What is missing from a
  modelled file is listed in the project's manifest.
\<close>

end
